(* ===== verification/Prelude.thy ===== *)
theory Prelude
  imports Main "HOL-Library.Word" "HOL-Library.Monad_Syntax"
begin

text \<open>
  Shared vocabulary of the development: the machine types of the Go sources, the Go slice
  primitives, the operations of \<open>math/big\<close> that the sources use, and the generic lemmas on
  lists, options and words that the component theories rest on.

  Conventions.
  \<^item> A Go \<open>uint64\<close> is a 64-bit word, a \<open>byte\<close> an 8-bit word, a \<open>big.Int\<close> an unbounded
    \<^typ>\<open>int\<close>. The fixed arrays \<open>common.Hash\<close> (32 bytes) and \<open>common.Address\<close> (20 bytes)
    are the words of 256 and 160 bits whose big-endian bytes they hold.
  \<^item> \<open>None\<close> of an option stands for a Go run-time panic (index or slice out of range, nil
    dereference, explicit \<open>panic\<close>); errors returned by the code are values.
\<close>

unbundle bit_operations_syntax

type_synonym byte = "8 word"
type_synonym bytes = "8 word list"
type_synonym uint64 = "64 word"
type_synonym hash = "256 word"
type_synonym address = "160 word"

named_theorems big_simps \<open>evaluation of the \<open>math/big\<close> operations\<close>

section \<open>Options as panics\<close>

definition panic_unless :: "bool \<Rightarrow> unit option" where
  "panic_unless b = (if b then Some () else None)"

lemma panic_unless_simps [simp]:
  "panic_unless True = Some ()" "panic_unless False = None"
  by (simp_all add: panic_unless_def)

lemma panic_unless_bind_Some [simp]:
  "(panic_unless b \<bind> f = Some r) \<longleftrightarrow> b \<and> f () = Some r"
  by (cases b) auto

lemma bind_Some_iff: "(m \<bind> f = Some r) \<longleftrightarrow> (\<exists>x. m = Some x \<and> f x = Some r)"
  by (cases m) auto

section \<open>Go slices\<close>

text \<open>\<open>s[i:j]\<close>; Go panics unless \<open>i \<le> j \<le> cap s\<close>, and the model takes \<open>len s\<close> for the
  capacity, so it panics whenever Go does.\<close>

definition go_slice :: "'a list \<Rightarrow> nat \<Rightarrow> nat \<Rightarrow> 'a list option" where
  "go_slice xs i j = (if i \<le> j \<and> j \<le> length xs then Some (take (j - i) (drop i xs)) else None)"

definition go_index :: "'a list \<Rightarrow> nat \<Rightarrow> 'a option" where
  "go_index xs i = (if i < length xs then Some (xs ! i) else None)"

text \<open>\<open>copy(dst, src)\<close>: the first \<open>min (len dst) (len src)\<close> elements of \<open>dst\<close> are overwritten.\<close>

definition go_copy :: "'a list \<Rightarrow> 'a list \<Rightarrow> 'a list" where
  "go_copy dst src = take (length dst) src @ drop (length src) dst"

lemma length_go_copy [simp]: "length (go_copy dst src) = length dst"
  by (simp add: go_copy_def)

lemma go_copy_nth:
  "i < length dst \<Longrightarrow> go_copy dst src ! i = (if i < length src then src ! i else dst ! i)"
  by (simp add: go_copy_def nth_append min_def)

lemma go_copy_same_length: "length src = length dst \<Longrightarrow> go_copy dst src = src"
  by (simp add: go_copy_def)

lemma go_slice_Some_iff:
  "go_slice xs i j = Some ys \<longleftrightarrow> i \<le> j \<and> j \<le> length xs \<and> ys = take (j - i) (drop i xs)"
  by (auto simp: go_slice_def)

lemma go_slice_ok [simp]:
  "i \<le> j \<Longrightarrow> j \<le> length xs \<Longrightarrow> go_slice xs i j = Some (take (j - i) (drop i xs))"
  by (simp add: go_slice_def)

lemma go_index_ok [simp]: "i < length xs \<Longrightarrow> go_index xs i = Some (xs ! i)"
  by (simp add: go_index_def)

section \<open>Big-endian integers\<close>

text \<open>\<open>big.Int.SetBytes\<close>.\<close>

definition SetBytes :: "bytes \<Rightarrow> int" where
  "SetBytes bs = foldl (\<lambda>n b. n * 256 + uint b) 0 bs"

text \<open>The \<open>n\<close> low-order bytes of \<open>x\<close>, most significant first.\<close>

primrec be_bytes :: "nat \<Rightarrow> int \<Rightarrow> bytes" where
  "be_bytes 0 x = []"
| "be_bytes (Suc n) x = be_bytes n (x div 256) @ [word_of_int x]"

lemma SetBytes_Nil [simp]: "SetBytes [] = 0"
  by (simp add: SetBytes_def)

lemma SetBytes_snoc [simp]: "SetBytes (bs @ [b]) = SetBytes bs * 256 + uint b"
  by (simp add: SetBytes_def)

lemma length_be_bytes [simp]: "length (be_bytes n x) = n"
  by (induction n arbitrary: x) auto

lemma uint_byte_mod: "uint (word_of_int x :: byte) = x mod 256"
  by (simp add: uint_word_of_int)

lemma SetBytes_be_bytes: "SetBytes (be_bytes n x) = x mod 256 ^ n"
proof (induction n arbitrary: x)
  case 0
  show ?case by simp
next
  case (Suc n)
  have "x mod 256 ^ Suc n = 256 * (x div 256 mod 256 ^ n) + x mod 256"
    using mod_mult2_eq'[of x 256 "256 ^ n"] by simp
  with Suc show ?case by (simp add: uint_byte_mod)
qed

lemma SetBytes_nonneg [simp]: "0 \<le> SetBytes bs"
  by (induction bs rule: rev_induct) auto

lemma SetBytes_bound: "SetBytes bs < 256 ^ length bs"
proof (induction bs rule: rev_induct)
  case Nil
  show ?case by simp
next
  case (snoc b bs)
  have "uint b < 256" using uint_lt2p[of b] by simp
  with snoc have "SetBytes bs * 256 + uint b < 256 ^ length bs * 256" by simp
  then show ?case by (simp add: mult.commute)
qed

lemma be_bytes_SetBytes: "be_bytes (length bs) (SetBytes bs) = bs"
proof (induction bs rule: rev_induct)
  case Nil
  show ?case by simp
next
  case (snoc b bs)
  have b: "uint b < 256" "0 \<le> uint b" using uint_lt2p[of b] by auto
  then have "(SetBytes bs * 256 + uint b) div 256 = SetBytes bs" by simp
  moreover have "(word_of_int (SetBytes bs * 256 + uint b) :: byte) = b"
  proof -
    have "uint (word_of_int (SetBytes bs * 256 + uint b) :: byte) = uint b"
      unfolding uint_byte_mod using b by simp
    then show ?thesis by (simp only: word_uint_eq_iff)
  qed
  ultimately show ?case using snoc by simp
qed

lemma SetBytes_append: "SetBytes (as @ bs) = SetBytes as * 256 ^ length bs + SetBytes bs"
  by (induction bs rule: rev_induct) (simp_all add: algebra_simps flip: append_assoc)

lemma SetBytes_replicate_0 [simp]: "SetBytes (replicate n 0) = 0"
  by (induction n) (simp_all add: replicate_append_same [symmetric])

lemma SetBytes_inj: "length as = length bs \<Longrightarrow> SetBytes as = SetBytes bs \<Longrightarrow> as = bs"
  by (metis be_bytes_SetBytes)

text \<open>\<open>big.Int.BitLen\<close>, \<open>Bytes\<close>, \<open>Uint64\<close> and \<open>Int64\<close>.\<close>

fun bit_len :: "nat \<Rightarrow> nat" where
  "bit_len n = (if n = 0 then 0 else Suc (bit_len (n div 2)))"

declare bit_len.simps [simp del]

definition BitLen :: "int \<Rightarrow> nat" where
  "BitLen x = bit_len (nat \<bar>x\<bar>)"

definition BigBytes :: "int \<Rightarrow> bytes" where
  "BigBytes x = be_bytes ((BitLen x + 7) div 8) \<bar>x\<bar>"

definition Uint64 :: "int \<Rightarrow> uint64" where
  "Uint64 x = word_of_int \<bar>x\<bar>"

definition Int64 :: "int \<Rightarrow> int" where
  "Int64 x = sint (word_of_int x :: uint64)"

lemma bit_len_0 [simp]: "bit_len 0 = 0"
  by (simp add: bit_len.simps)

lemma bit_len_le_iff: "bit_len n \<le> k \<longleftrightarrow> n < 2 ^ k"
proof (induction n arbitrary: k rule: bit_len.induct)
  case (1 n)
  show ?case
  proof (cases "n = 0")
    case True
    then show ?thesis by simp
  next
    case False
    show ?thesis
    proof (cases k)
      case 0
      with False show ?thesis by (simp add: bit_len.simps)
    next
      case (Suc j)
      have "bit_len n \<le> k \<longleftrightarrow> n div 2 < 2 ^ j"
        using False "1" Suc by (simp add: bit_len.simps [of n])
      also have "\<dots> \<longleftrightarrow> n < 2 ^ k" using Suc by (simp add: div_less_iff_less_mult mult.commute)
      finally show ?thesis .
    qed
  qed
qed

lemma BitLen_le_iff: "BitLen x \<le> k \<longleftrightarrow> \<bar>x\<bar> < 2 ^ k"
  by (simp add: BitLen_def bit_len_le_iff nat_less_iff)

lemma BitLen_0_iff [simp]: "BitLen x = 0 \<longleftrightarrow> x = 0"
  using BitLen_le_iff [of x 0] by simp

lemma BitLen_gt_iff: "k < BitLen x \<longleftrightarrow> 2 ^ k \<le> \<bar>x\<bar>"
  using BitLen_le_iff [of x k] by linarith

lemma SetBytes_BigBytes: "SetBytes (BigBytes x) = \<bar>x\<bar>"
proof -
  have "BitLen x \<le> 8 * ((BitLen x + 7) div 8)" by linarith
  then have "\<bar>x\<bar> < 2 ^ (8 * ((BitLen x + 7) div 8))" by (simp add: BitLen_le_iff)
  then have "\<bar>x\<bar> < 256 ^ ((BitLen x + 7) div 8)" by (simp add: power_mult)
  then show ?thesis by (simp add: BigBytes_def SetBytes_be_bytes)
qed

lemma unat_Uint64: "0 \<le> x \<Longrightarrow> x < 2 ^ 64 \<Longrightarrow> unat (Uint64 x) = nat x"
  by (simp add: Uint64_def unsigned_of_int take_bit_int_eq_self nat_eq_iff)

lemma Int64_small: "0 \<le> x \<Longrightarrow> x < 2 ^ 63 \<Longrightarrow> Int64 x = x"
  by (simp add: Int64_def sint_sbintrunc' signed_take_bit_int_eq_self)

section \<open>Words\<close>

lemma unat_le_max64: "unat (x :: uint64) \<le> 18446744073709551615"
  using unsigned_less [of x, where 'a = nat] by simp

lemma unat_add_no_wrap:
  fixes x y :: uint64
  assumes "unat x + unat y < 2 ^ 64"
  shows "unat (x + y) = unat x + unat y"
  using assms by (simp add: unat_word_ariths)

lemma unat_sub_le:
  fixes x y :: uint64
  assumes "y \<le> x"
  shows "unat (x - y) = unat x - unat y"
  using assms by (simp add: unat_sub_if' word_le_nat_alt)

end
