(* ===== verification/Common_Math.thy ===== *)
theory Common_Math
  imports Prelude
begin

text \<open>
  The packages \<open>common/math\<close> (\<open>big.go\<close>, \<open>integer.go\<close>) and the byte helpers of
  \<open>common\<close> (\<open>bytes.go\<close>, \<open>types.go\<close>): the arithmetic every other component calls.
  The loops of the sources are kept as loops (\<open>Exp\<close> by squaring over the 64-bit words of the
  exponent, \<open>ReadBits\<close> byte by byte) and shown equal to their arithmetic meaning.
\<close>

section \<open>Overflow-checked \<open>uint64\<close> arithmetic (\<open>common/math/integer.go\<close>)\<close>

definition MaxUint64 :: uint64 where
  "MaxUint64 = 18446744073709551615"

definition SafeSub :: "uint64 \<Rightarrow> uint64 \<Rightarrow> uint64 \<times> bool" where
  "SafeSub x y = (x - y, x < y)"

definition SafeAdd :: "uint64 \<Rightarrow> uint64 \<Rightarrow> uint64 \<times> bool" where
  "SafeAdd x y = (x + y, y > MaxUint64 - x)"

definition SafeMul :: "uint64 \<Rightarrow> uint64 \<Rightarrow> uint64 \<times> bool" where
  "SafeMul x y = (if x = 0 \<or> y = 0 then (0, False) else (x * y, y > MaxUint64 div x))"

lemma unat_MaxUint64 [simp]: "unat MaxUint64 = 2 ^ 64 - 1"
  by (simp add: MaxUint64_def)

lemma SafeAdd_overflow_iff: "snd (SafeAdd x y) \<longleftrightarrow> 2 ^ 64 \<le> unat x + unat y"
proof -
  have le: "x \<le> MaxUint64" using unat_le_max64 [of x] by (simp add: word_le_nat_alt)
  have "MaxUint64 - x < y \<longleftrightarrow> 2 ^ 64 - 1 - unat x < unat y"
    by (simp add: word_less_nat_alt unat_sub_le [OF le])
  also have "\<dots> \<longleftrightarrow> 2 ^ 64 \<le> unat x + unat y" using unat_le_max64 [of x] by auto
  finally show ?thesis by (simp add: SafeAdd_def)
qed

lemma SafeAdd_ok: "\<not> snd (SafeAdd x y) \<Longrightarrow> unat (fst (SafeAdd x y)) = unat x + unat y"
  using SafeAdd_overflow_iff [of x y] by (simp add: SafeAdd_def unat_add_no_wrap)

lemma nat_div_less_iff: "0 < (a::nat) \<Longrightarrow> m div a < b \<longleftrightarrow> m < a * b"
  by (simp add: div_less_iff_less_mult mult.commute)

lemma SafeMul_overflow_iff: "snd (SafeMul x y) \<longleftrightarrow> 2 ^ 64 \<le> unat x * unat y"
proof (cases "x = 0 \<or> y = 0")
  case True
  then show ?thesis by (auto simp: SafeMul_def)
next
  case False
  then have pos: "0 < unat x" by (simp add: unat_gt_0)
  have "MaxUint64 div x < y \<longleftrightarrow> (2 ^ 64 - 1) div unat x < unat y"
    by (simp add: word_less_nat_alt unat_div_distrib)
  also have "\<dots> \<longleftrightarrow> 2 ^ 64 - 1 < unat x * unat y" by (rule nat_div_less_iff [OF pos])
  also have "\<dots> \<longleftrightarrow> 2 ^ 64 \<le> unat x * unat y" by auto
  finally show ?thesis using False by (simp add: SafeMul_def)
qed

lemma SafeMul_ok: "\<not> snd (SafeMul x y) \<Longrightarrow> unat (fst (SafeMul x y)) = unat x * unat y"
  using SafeMul_overflow_iff [of x y] by (auto simp: SafeMul_def unat_word_ariths)

section \<open>256-bit integers (\<open>common/math/big.go\<close>)\<close>

definition tt255 :: int where "tt255 = 2 ^ 255"
definition tt256 :: int where "tt256 = 2 ^ 256"
definition tt256m1 :: int where "tt256m1 = tt256 - 1"

definition BigMax :: "int \<Rightarrow> int \<Rightarrow> int" where
  "BigMax x y = (if x < y then y else x)"

definition BigMin :: "int \<Rightarrow> int \<Rightarrow> int" where
  "BigMin x y = (if x > y then y else x)"

definition U256 :: "int \<Rightarrow> int" where
  "U256 x = x AND tt256m1"

definition S256 :: "int \<Rightarrow> int" where
  "S256 x = (if x < tt255 then x else x - tt256)"

text \<open>\<open>big.Int.Bits\<close>: the little-endian 64-bit words of the absolute value.\<close>

fun nat_words :: "nat \<Rightarrow> uint64 list" where
  "nat_words n = (if n = 0 then [] else of_nat n # nat_words (n div 2 ^ 64))"

declare nat_words.simps [simp del]

definition Bits :: "int \<Rightarrow> uint64 list" where
  "Bits x = nat_words (nat \<bar>x\<bar>)"

text \<open>\<open>Exp\<close>: the inner loop over the 64 bits of one word, then the loop over the words.
  The state is the pair of \<open>result\<close> and \<open>base\<close>. The source squares the integer of its caller in
  place (\<open>base.Mul(base, base)\<close>), although its comment says that \<open>base\<close> is not changed; \<open>Exp\<close> is the
  returned value only. Its one caller, \<open>opExp\<close>, has popped the base off the stack and drops it.\<close>

primrec exp_word :: "nat \<Rightarrow> uint64 \<Rightarrow> int \<Rightarrow> int \<Rightarrow> int \<times> int" where
  "exp_word 0 w result base = (result, base)"
| "exp_word (Suc i) w result base =
     exp_word i (drop_bit 1 w)
       (if w AND 1 = 1 then U256 (result * base) else result) (U256 (base * base))"

definition Exp :: "int \<Rightarrow> int \<Rightarrow> int" where
  "Exp base exponent =
     fst (foldl (\<lambda>(result, base) w. exp_word 64 w result base) (1, base) (Bits exponent))"

definition bigEndianByteAt :: "int \<Rightarrow> nat \<Rightarrow> byte" where
  "bigEndianByteAt bigint n =
     (let words = Bits bigint; i = n div 8 in
      if i \<ge> length words then 0
      else ucast (drop_bit (8 * (n mod 8)) (words ! i)))"

definition Byte :: "int \<Rightarrow> nat \<Rightarrow> nat \<Rightarrow> byte" where
  "Byte bigint padlength n =
     (if n \<ge> padlength then 0 else bigEndianByteAt bigint (padlength - 1 - n))"

text \<open>\<open>ReadBits\<close>: the inner loop writes the bytes of one word downwards from index \<open>i\<close>.\<close>

primrec read_word :: "nat \<Rightarrow> uint64 \<Rightarrow> nat \<Rightarrow> bytes \<Rightarrow> nat \<times> bytes" where
  "read_word 0 d i buf = (i, buf)"
| "read_word (Suc j) d i buf =
     (if i > 0 then read_word j (drop_bit 8 d) (i - 1) (buf[i - 1 := ucast d]) else (i, buf))"

definition ReadBits :: "int \<Rightarrow> bytes \<Rightarrow> bytes" where
  "ReadBits bigint buf =
     snd (foldl (\<lambda>(i, buf) d. read_word 8 d i buf) (length buf, buf) (Bits bigint))"

definition PaddedBigBytes :: "int \<Rightarrow> nat \<Rightarrow> bytes" where
  "PaddedBigBytes bigint n =
     (if BitLen bigint div 8 \<ge> n then BigBytes bigint else ReadBits bigint (replicate n 0))"

text \<open>\<open>FirstBitSet\<close>: the loop from index \<open>i\<close>.\<close>

function first_bit_from :: "nat \<Rightarrow> int \<Rightarrow> nat" where
  "first_bit_from i v =
     (if i < BitLen v then (if bit v i then i else first_bit_from (Suc i) v) else BitLen v)"
  by pat_completeness auto
termination
  by (relation "measure (\<lambda>(i, v). BitLen v - i)") auto

declare first_bit_from.simps [simp del]

definition FirstBitSet :: "int \<Rightarrow> nat" where
  "FirstBitSet v = first_bit_from 0 v"

section \<open>Byte helpers (\<open>common/bytes.go\<close>, \<open>common/types.go\<close>)\<close>

text \<open>Memory is unlimited here and in the whole development: the \<open>make\<close> of the padding functions always
  succeeds, where the Go runtime panics for a length it cannot allocate.\<close>

definition RightPadBytes :: "bytes \<Rightarrow> int \<Rightarrow> bytes" where
  "RightPadBytes bs l =
     (if l \<le> int (length bs) then bs else go_copy (replicate (nat l) 0) bs)"

definition LeftPadBytes :: "bytes \<Rightarrow> int \<Rightarrow> bytes" where
  "LeftPadBytes bs l =
     (if l \<le> int (length bs) then bs
      else replicate (nat l - length bs) 0 @ go_copy (replicate (length bs) 0) bs)"

definition BytesToHash :: "bytes \<Rightarrow> hash" where
  "BytesToHash b =
     (let b = (if length b > 32 then drop (length b - 32) b else b) in
      word_of_int (SetBytes (replicate (32 - length b) 0 @ b)))"

definition BytesToAddress :: "bytes \<Rightarrow> address" where
  "BytesToAddress b =
     (let b = (if length b > 20 then drop (length b - 20) b else b) in
      word_of_int (SetBytes (replicate (20 - length b) 0 @ b)))"

definition BigToHash :: "int \<Rightarrow> hash" where
  "BigToHash b = BytesToHash (BigBytes b)"

definition BigToAddress :: "int \<Rightarrow> address" where
  "BigToAddress b = BytesToAddress (BigBytes b)"

definition Hash_Bytes :: "hash \<Rightarrow> bytes" where
  "Hash_Bytes h = be_bytes 32 (uint h)"

definition Address_Bytes :: "address \<Rightarrow> bytes" where
  "Address_Bytes a = be_bytes 20 (uint a)"

definition Hash_Big :: "hash \<Rightarrow> int" where
  "Hash_Big h = SetBytes (Hash_Bytes h)"

definition Address_Big :: "address \<Rightarrow> int" where
  "Address_Big a = SetBytes (Address_Bytes a)"

section \<open>Meaning of the 256-bit operations\<close>

lemma tt256m1_mask: "tt256m1 = mask 256"
  by (simp add: tt256m1_def tt256_def mask_eq_exp_minus_1)

lemma U256_take_bit: "U256 x = take_bit 256 x"
  by (simp add: U256_def tt256m1_mask take_bit_eq_mask)

lemma U256_mod: "U256 x = x mod tt256"
  by (simp add: U256_take_bit take_bit_eq_mod tt256_def)

lemma tt256_pos [simp]: "0 < tt256"
  by (simp add: tt256_def)

lemma U256_range [simp]: "0 \<le> U256 x" "U256 x < tt256"
  by (simp_all add: U256_mod)

lemma U256_id: "0 \<le> x \<Longrightarrow> x < tt256 \<Longrightarrow> U256 x = x"
  by (simp add: U256_mod)

lemma U256_uint: "U256 x = uint (word_of_int x :: hash)"
  by (simp add: U256_take_bit unsigned_of_int)

lemma S256_sint: "0 \<le> x \<Longrightarrow> x < tt256 \<Longrightarrow> S256 x = sint (word_of_int x :: hash)"
proof -
  assume r: "0 \<le> x" "x < tt256"
  have s: "sint (word_of_int x :: hash) = signed_take_bit 255 x" by (simp add: sint_sbintrunc')
  show ?thesis
  proof (cases "x < tt255")
    case True
    with r s show ?thesis by (simp add: S256_def tt255_def signed_take_bit_int_eq_self)
  next
    case False
    then have "signed_take_bit 255 (x - tt256) = x - tt256"
      using r by (simp add: tt255_def tt256_def signed_take_bit_int_eq_self)
    moreover have "signed_take_bit 255 (x - tt256) = signed_take_bit 255 x"
      by (simp add: signed_take_bit_eq_iff_take_bit_eq take_bit_eq_mod tt256_def)
    ultimately show ?thesis using s False by (simp add: S256_def)
  qed
qed

fun words_value :: "uint64 list \<Rightarrow> nat" where
  "words_value [] = 0"
| "words_value (w # ws) = unat w + 2 ^ 64 * words_value ws"

lemma nat_words_0 [simp]: "nat_words 0 = []"
  by (simp add: nat_words.simps)

lemma words_value_nat_words: "words_value (nat_words n) = n"
proof (induction n rule: nat_words.induct)
  case (1 n)
  then show ?case by (cases "n = 0") (simp_all add: nat_words.simps [of n] unsigned_of_nat take_bit_eq_mod)
qed

lemma words_value_Bits: "int (words_value (Bits x)) = \<bar>x\<bar>"
  by (simp add: Bits_def words_value_nat_words)

lemma unat_low_bit: "w AND 1 = 1 \<longleftrightarrow> odd (unat (w :: uint64))"
proof -
  have "bit (unat w) 0 = bit w 0" by (simp only: bit_unsigned_iff) simp
  then show ?thesis by (simp add: and_one_eq mod2_eq_if bit_0)
qed

lemma unat_shift_1: "unat (drop_bit 1 (w :: uint64)) = unat w div 2"
  by (simp add: unat_div_distrib drop_bit_eq_div)

lemma mult_pow_mod_step:
  fixes r b :: int
  shows "(if odd n then r * b else r) * (b * b) ^ (n div 2) = r * b ^ n"
proof -
  have "(b * b) ^ (n div 2) = b ^ (2 * (n div 2))" by (simp add: power_mult power2_eq_square)
  moreover have "odd n \<Longrightarrow> b ^ n = b * b ^ (2 * (n div 2))"
    by (metis odd_two_times_div_two_succ power_Suc Suc_eq_plus1)
  moreover have "even n \<Longrightarrow> 2 * (n div 2) = n" by simp
  ultimately show ?thesis by simp
qed

lemma mod_pow_mod: "((b :: int) mod m) ^ n mod m = b ^ n mod m"
  by (rule power_mod)

lemma exp_word_spec:
  assumes "unat w < 2 ^ i"
  shows "fst (exp_word i w r b) mod tt256 = r * b ^ unat w mod tt256
       \<and> snd (exp_word i w r b) mod tt256 = b ^ (2 ^ i) mod tt256"
  using assms
proof (induction i arbitrary: w r b)
  case 0
  then show ?case by simp
next
  case (Suc i)
  let ?r = "if w AND 1 = 1 then U256 (r * b) else r" and ?b = "U256 (b * b)"
  have w: "unat (drop_bit 1 w) < 2 ^ i" using Suc.prems by (simp only: unat_shift_1) simp
  have r: "?r mod tt256 = (if odd (unat w) then r * b else r) mod tt256"
    by (simp only: unat_low_bit) (simp add: U256_mod)
  have b: "?b mod tt256 = (b * b) mod tt256" by (simp add: U256_mod)
  have "?r * ?b ^ (unat w div 2) mod tt256
      = (if odd (unat w) then r * b else r) * (b * b) ^ (unat w div 2) mod tt256"
    using r b by (metis mod_mult_eq mod_pow_mod)
  then have f: "?r * ?b ^ (unat w div 2) mod tt256 = r * b ^ unat w mod tt256"
    by (simp only: mult_pow_mod_step)
  have "?b ^ (2 ^ i) mod tt256 = (b * b) ^ (2 ^ i) mod tt256" using b by (metis mod_pow_mod)
  also have "(b * b) ^ (2 ^ i) = b ^ (2 ^ Suc i)" by (simp add: power_mult flip: power2_eq_square)
  finally have "?b ^ (2 ^ i) mod tt256 = b ^ (2 ^ Suc i) mod tt256" .
  with f Suc.IH [OF w, of ?r ?b] show ?case by (simp only: exp_word.simps unat_shift_1)
qed

lemma exp_words_spec:
  "fst (foldl (\<lambda>(r, b) w. exp_word 64 w r b) (r, b) ws) mod tt256 = r * b ^ words_value ws mod tt256"
proof (induction ws arbitrary: r b)
  case Nil
  show ?case by simp
next
  case (Cons w ws)
  obtain r' b' where e: "exp_word 64 w r b = (r', b')" by fastforce
  have "unat w < 2 ^ 64" using unat_le_max64 [of w] by simp
  from exp_word_spec [OF this, of r b] e
  have r': "r' mod tt256 = r * b ^ unat w mod tt256"
    and b': "b' mod tt256 = b ^ (2 ^ 64) mod tt256" by simp_all
  have "r' * b' ^ words_value ws mod tt256 = r * b ^ unat w * (b ^ (2 ^ 64)) ^ words_value ws mod tt256"
    using r' b' by (metis mod_mult_eq mod_pow_mod)
  also have "\<dots> = r * b ^ words_value (w # ws) mod tt256"
    by (simp only: words_value.simps power_add power_mult mult.assoc)
  finally show ?case using Cons [of r' b'] e by simp
qed

lemma exp_word_range: "0 \<le> r \<Longrightarrow> r < tt256 \<Longrightarrow> 0 \<le> fst (exp_word i w r b) \<and> fst (exp_word i w r b) < tt256"
  by (induction i arbitrary: w r b) auto

lemma exp_words_range:
  "0 \<le> r \<Longrightarrow> r < tt256 \<Longrightarrow>
   0 \<le> fst (foldl (\<lambda>(r, b) w. exp_word 64 w r b) (r, b) ws)
   \<and> fst (foldl (\<lambda>(r, b) w. exp_word 64 w r b) (r, b) ws) < tt256"
proof (induction ws arbitrary: r b)
  case Nil
  then show ?case by simp
next
  case (Cons w ws)
  obtain r' b' where e: "exp_word 64 w r b = (r', b')" by fastforce
  with exp_word_range [of r 64 w b] Cons.prems have "0 \<le> r'" "r' < tt256" by auto
  from Cons.IH [OF this, of b'] e show ?case by simp
qed

lemma Exp_range [simp]: "0 \<le> Exp b e" "Exp b e < tt256"
  using exp_words_range [of 1 b "Bits e"] by (auto simp: Exp_def tt256_def)

lemma Exp_mod: "0 \<le> e \<Longrightarrow> Exp b e = b ^ nat e mod tt256"
proof -
  assume "0 \<le> e"
  then have "words_value (Bits e) = nat e" using words_value_Bits [of e] by simp
  with exp_words_spec [of 1 b "Bits e"] have "Exp b e mod tt256 = b ^ nat e mod tt256"
    by (simp add: Exp_def)
  then show ?thesis by simp
qed

section \<open>Byte access and serialisation\<close>

lemma be_bytes_mod: "be_bytes n (x mod 256 ^ n) = be_bytes n x"
  by (metis SetBytes_be_bytes be_bytes_SetBytes length_be_bytes)

lemma be_bytes_add: "be_bytes (m + n) x = be_bytes m (x div 256 ^ n) @ be_bytes n x"
  by (induction n arbitrary: x) (simp_all add: zdiv_zmult2_eq)

lemma be_bytes_small: "0 \<le> x \<Longrightarrow> x < 256 ^ n \<Longrightarrow> be_bytes (m + n) x = replicate m 0 @ be_bytes n x"
proof -
  assume "0 \<le> x" "x < 256 ^ n"
  then have "be_bytes (m + n) x = be_bytes m 0 @ be_bytes n x" by (simp add: be_bytes_add)
  moreover have "be_bytes m 0 = replicate m 0"
    by (induction m) (simp_all add: replicate_append_same)
  ultimately show ?thesis by simp
qed

lemma be_bytes_cong: "x mod 256 ^ n = y mod 256 ^ n \<Longrightarrow> be_bytes n x = be_bytes n y"
  by (metis be_bytes_mod)

lemma uint_shift_8: "uint (drop_bit 8 (d :: uint64)) = uint d div 256"
  by (simp add: drop_bit_eq_div uint_div_distrib)

lemma read_word_spec:
  "i \<le> length buf \<Longrightarrow>
   read_word j d i buf = (i - min j i, take (i - min j i) buf @ be_bytes (min j i) (uint d) @ drop i buf)"
proof (induction j arbitrary: d i buf)
  case 0
  then show ?case by simp
next
  case (Suc j)
  show ?case
  proof (cases i)
    case 0
    then show ?thesis by simp
  next
    case (Suc k)
    let ?buf = "buf[k := ucast d]"
    have k: "k < length buf" using Suc Suc.prems by simp
    have "drop k ?buf = ucast d # drop i buf"
      using k Suc Cons_nth_drop_Suc [of k ?buf] by (simp add: drop_update_cancel)
    moreover have "take (k - min j k) ?buf = take (k - min j k) buf" by simp
    ultimately show ?thesis using Suc Suc.prems k
      by (simp add: Suc.IH uint_shift_8)
  qed
qed

lemma read_words_spec:
  "i \<le> length buf \<Longrightarrow>
   snd (foldl (\<lambda>(i, buf) d. read_word 8 d i buf) (i, buf) ws)
     = take (i - min (8 * length ws) i) buf @ be_bytes (min (8 * length ws) i) (int (words_value ws)) @ drop i buf"
proof (induction ws arbitrary: i buf)
  case Nil
  then show ?case by simp
next
  case (Cons w ws)
  let ?v = "int (words_value (w # ws))" and ?k = "min 8 i"
  let ?buf = "take (i - ?k) buf @ be_bytes ?k (uint w) @ drop i buf"
  have v: "?v = uint w + 256 ^ 8 * int (words_value ws)" by simp
  have len: "i - ?k \<le> length ?buf" using Cons.prems by simp
  have first: "be_bytes ?k (uint w) = be_bytes ?k ?v"
  proof (rule be_bytes_cong)
    have "(256 :: int) ^ 8 = 256 ^ ?k * 256 ^ (8 - ?k)" by (simp flip: power_add)
    then show "uint w mod 256 ^ ?k = ?v mod 256 ^ ?k"
      by (simp only: v mult.assoc mod_mult_self2)
  qed
  show ?case
  proof (cases "i < 8")
    case True
    then show ?thesis using Cons.IH [OF len] first Cons.prems
      by (simp add: read_word_spec)
  next
    case False
    have "uint w < 256 ^ 8" using uint_lt2p [of w] by simp
    then have "?v div 256 ^ 8 = int (words_value ws)" unfolding v by simp
    then have split: "be_bytes (m + 8) ?v = be_bytes m (int (words_value ws)) @ be_bytes 8 ?v" for m
      by (simp only: be_bytes_add)
    have m: "min (8 * length (w # ws)) i = min (8 * length ws) (i - 8) + 8" using False by simp
    have k: "?k = 8" and l: "length (take (i - 8) buf) = i - 8" using False Cons.prems by simp_all
    have t: "take (i - 8 - m) ?buf = take (i - 8 - m) buf" for m
      unfolding k using l by simp
    have d: "drop (i - 8) ?buf = be_bytes 8 ?v @ drop i buf"
      using first l unfolding k by simp
    have "foldl (\<lambda>(i, buf) d. read_word 8 d i buf) (i, buf) (w # ws)
        = foldl (\<lambda>(i, buf) d. read_word 8 d i buf) (i - 8, ?buf) ws"
      using Cons.prems k by (simp add: read_word_spec)
    then have "snd (foldl (\<lambda>(i, buf) d. read_word 8 d i buf) (i, buf) (w # ws))
      = take (i - 8 - min (8 * length ws) (i - 8)) buf
        @ be_bytes (min (8 * length ws) (i - 8)) (int (words_value ws)) @ be_bytes 8 ?v @ drop i buf"
      using Cons.IH [of "i - 8" ?buf] len t d unfolding k by (simp only: if_True refl)
    then show ?thesis unfolding m split by (simp add: add.commute)
  qed
qed

lemma nat_words_bound: "n < 2 ^ (64 * length (nat_words n))"
proof (induction n rule: nat_words.induct)
  case (1 n)
  show ?case
  proof (cases "n = 0")
    case False
    with "1" have "n div 2 ^ 64 < 2 ^ (64 * length (nat_words (n div 2 ^ 64)))" by simp
    then have "n < 2 ^ (64 * length (nat_words (n div 2 ^ 64))) * 2 ^ 64"
      by (subst (asm) div_less_iff_less_mult) simp_all
    with False show ?thesis by (simp add: nat_words.simps [of n] power_add mult.commute)
  qed simp
qed

lemma ReadBits_zeros: "ReadBits x (replicate n 0) = be_bytes n \<bar>x\<bar>"
proof -
  let ?k = "min (8 * length (Bits x)) n"
  have "ReadBits x (replicate n 0) = replicate (n - ?k) 0 @ be_bytes ?k \<bar>x\<bar>"
    using read_words_spec [of n "replicate n 0" "Bits x"]
    by (simp add: ReadBits_def words_value_Bits min_def)
  also have "\<dots> = be_bytes n \<bar>x\<bar>"
  proof (cases "8 * length (Bits x) \<le> n")
    case True
    have "nat \<bar>x\<bar> < 256 ^ (8 * length (Bits x))"
      using nat_words_bound [of "nat \<bar>x\<bar>"] by (simp add: Bits_def power_mult)
    then have "\<bar>x\<bar> < 256 ^ ?k" using True by (simp add: min_def nat_less_iff)
    then show ?thesis using be_bytes_small [of "\<bar>x\<bar>" ?k "n - ?k"] True by simp
  qed (simp add: min_def)
  finally show ?thesis .
qed

lemma nat_words_nth: "i < length (nat_words n) \<Longrightarrow> nat_words n ! i = of_nat (n div 2 ^ (64 * i))"
proof (induction n arbitrary: i rule: nat_words.induct)
  case (1 n)
  then have n: "n \<noteq> 0" by (cases "n = 0") auto
  show ?case
  proof (cases i)
    case 0
    with n show ?thesis by (simp add: nat_words.simps [of n])
  next
    case (Suc k)
    with "1.prems" n have "k < length (nat_words (n div 2 ^ 64))" by (simp add: nat_words.simps [of n])
    with "1.IH" n Suc show ?thesis
      by (simp add: nat_words.simps [of n] div_mult2_eq power_add)
  qed
qed

lemma byte_of_word_of_nat:
  assumes "k < 8"
  shows "(ucast (drop_bit (8 * k) (of_nat m :: uint64)) :: byte) = of_nat (m div 256 ^ k)"
proof -
  have "unat (drop_bit (8 * k) (of_nat m :: uint64)) = drop_bit (8 * k) (take_bit 64 m)"
    by (subst unsigned_drop_bit_eq) (simp add: unsigned_of_nat)
  then have u: "unat (drop_bit (8 * k) (of_nat m :: uint64)) = m div 2 ^ (8 * k) mod 2 ^ (64 - 8 * k)"
    using drop_bit_take_bit [of "8 * k" 64 m] by (simp add: drop_bit_eq_div take_bit_eq_mod)
  have "(2 :: nat) ^ 8 dvd 2 ^ (64 - 8 * k)" using assms by (intro le_imp_power_dvd) auto
  then have "unat (drop_bit (8 * k) (of_nat m :: uint64)) mod 256 = m div 2 ^ (8 * k) mod 256"
    using u by (simp add: mod_mod_cancel)
  then show ?thesis
    by (simp add: word_unat_eq_iff unsigned_ucast_eq unsigned_of_nat take_bit_eq_mod power_mult)
qed

lemma bigEndianByteAt_eq: "bigEndianByteAt x n = word_of_int (\<bar>x\<bar> div 256 ^ n)"
proof -
  let ?m = "nat \<bar>x\<bar>"
  have pow: "(256 :: nat) ^ n = 2 ^ (64 * (n div 8)) * 256 ^ (n mod 8)"
  proof -
    have "(256 :: nat) ^ n = 256 ^ (8 * (n div 8) + n mod 8)" by simp
    also have "\<dots> = (256 ^ 8) ^ (n div 8) * 256 ^ (n mod 8)" by (simp only: power_add power_mult)
    finally show ?thesis by (simp add: power_mult)
  qed
  have byte: "(word_of_int (\<bar>x\<bar> div 256 ^ n) :: byte) = of_nat (?m div 256 ^ n)"
  proof -
    have "\<bar>x\<bar> div 256 ^ n = int (?m div 256 ^ n)" by (simp add: zdiv_int)
    then show ?thesis by (simp only: of_int_of_nat_eq)
  qed
  show ?thesis
  proof (cases "n div 8 \<ge> length (Bits x)")
    case True
    have "?m < 2 ^ (64 * length (Bits x))" using nat_words_bound by (simp add: Bits_def)
    also have "\<dots> \<le> 2 ^ (64 * (n div 8))" using True by (intro power_increasing) auto
    finally have "?m div 2 ^ (64 * (n div 8)) = 0" by simp
    then have "?m div 256 ^ n = 0" by (simp only: pow div_mult2_eq div_0)
    with True show ?thesis unfolding byte by (simp add: bigEndianByteAt_def)
  next
    case False
    then have "Bits x ! (n div 8) = of_nat (?m div 2 ^ (64 * (n div 8)))"
      using nat_words_nth [of "n div 8" ?m] by (simp add: Bits_def)
    then show ?thesis unfolding byte
      using False byte_of_word_of_nat [of "n mod 8" "?m div 2 ^ (64 * (n div 8))"]
      by (simp add: bigEndianByteAt_def Let_def pow div_mult2_eq)
  qed
qed

lemma be_bytes_nth: "k < n \<Longrightarrow> be_bytes n x ! k = word_of_int (x div 256 ^ (n - 1 - k))"
proof (induction n arbitrary: x)
  case (Suc n)
  show ?case
  proof (cases "k < n")
    case True
    with Suc have "be_bytes (Suc n) x ! k = word_of_int (x div 256 div 256 ^ (n - 1 - k))"
      by (simp add: nth_append)
    also have "x div 256 div 256 ^ (n - 1 - k) = x div 256 ^ Suc (n - 1 - k)"
      by (simp add: zdiv_zmult2_eq)
    also have "Suc (n - 1 - k) = Suc n - 1 - k" using True by simp
    finally show ?thesis .
  next
    case False
    with Suc.prems have "k = n" by simp
    then show ?thesis by (simp add: nth_append)
  qed
qed simp

lemma Byte_eq: "n < p \<Longrightarrow> Byte x p n = be_bytes p \<bar>x\<bar> ! n"
  by (simp add: Byte_def bigEndianByteAt_eq be_bytes_nth)

lemma word_of_int_mod_len:
  "LENGTH('a::len) = k \<Longrightarrow> (word_of_int (a * 2 ^ k + b) :: 'a word) = word_of_int b"
  by (simp only: word_uint_eq_iff uint_word_of_int) simp

lemma BytesToHash_eq: "BytesToHash b = word_of_int (SetBytes b)"
proof (cases "length b > 32")
  case True
  have "b = take (length b - 32) b @ drop (length b - 32) b" by simp
  then have "SetBytes b = SetBytes (take (length b - 32) b) * 256 ^ 32 + SetBytes (drop (length b - 32) b)"
    using True SetBytes_append [of "take (length b - 32) b" "drop (length b - 32) b"] by simp
  then have "(word_of_int (SetBytes b) :: hash) = word_of_int (SetBytes (drop (length b - 32) b))"
    using word_of_int_mod_len [where 'a = 256 and k = 256] by simp
  with True show ?thesis by (simp add: BytesToHash_def)
qed (simp add: BytesToHash_def SetBytes_append)

lemma BytesToAddress_eq: "BytesToAddress b = word_of_int (SetBytes b)"
proof (cases "length b > 20")
  case True
  have "b = take (length b - 20) b @ drop (length b - 20) b" by simp
  then have "SetBytes b = SetBytes (take (length b - 20) b) * 256 ^ 20 + SetBytes (drop (length b - 20) b)"
    using True SetBytes_append [of "take (length b - 20) b" "drop (length b - 20) b"] by simp
  then have "(word_of_int (SetBytes b) :: address) = word_of_int (SetBytes (drop (length b - 20) b))"
    using word_of_int_mod_len [where 'a = 160 and k = 160] by simp
  with True show ?thesis by (simp add: BytesToAddress_def)
qed (simp add: BytesToAddress_def SetBytes_append)

lemma BigToHash_eq: "BigToHash x = word_of_int \<bar>x\<bar>"
  by (simp add: BigToHash_def BytesToHash_eq SetBytes_BigBytes)

lemma BigToAddress_eq: "BigToAddress x = word_of_int \<bar>x\<bar>"
  by (simp add: BigToAddress_def BytesToAddress_eq SetBytes_BigBytes)

lemma Hash_Big_eq: "Hash_Big h = uint h"
  using uint_lt2p [of h] by (simp add: Hash_Big_def Hash_Bytes_def SetBytes_be_bytes)

lemma Address_Big_eq: "Address_Big a = uint a"
  using uint_lt2p [of a] by (simp add: Address_Big_def Address_Bytes_def SetBytes_be_bytes)

lemma BytesToHash_Hash_Bytes [simp]: "BytesToHash (Hash_Bytes h) = h"
  using Hash_Big_eq [of h] by (simp add: BytesToHash_eq Hash_Big_def)

lemma Hash_Bytes_BytesToHash: "length b = 32 \<Longrightarrow> Hash_Bytes (BytesToHash b) = b"
  using SetBytes_bound[of b] be_bytes_SetBytes[of b]
  by (simp add: Hash_Bytes_def BytesToHash_eq uint_word_of_int)

lemma BytesToAddress_Address_Bytes [simp]: "BytesToAddress (Address_Bytes a) = a"
  using Address_Big_eq [of a] by (simp add: BytesToAddress_eq Address_Big_def)

lemma Hash_Big_range [simp]: "0 \<le> Hash_Big h" "Hash_Big h < tt256"
  using uint_lt2p [of h] by (simp_all add: Hash_Big_eq tt256_def)

lemma Address_Big_range [simp]: "0 \<le> Address_Big a" "Address_Big a < tt256"
  using uint_lt2p [of a] by (simp_all add: Address_Big_eq tt256_def)

lemma length_RightPadBytes: "length (RightPadBytes bs l) = max (length bs) (nat l)"
  by (simp add: RightPadBytes_def)

lemma length_LeftPadBytes: "length (LeftPadBytes bs l) = max (length bs) (nat l)"
  by (simp add: LeftPadBytes_def)

lemma SetBytes_LeftPadBytes [simp]: "SetBytes (LeftPadBytes bs l) = SetBytes bs"
  by (simp add: LeftPadBytes_def SetBytes_append go_copy_same_length)

lemma PaddedBigBytes_eq:
  assumes "0 \<le> x"
  shows "PaddedBigBytes x n = (if x < 256 ^ n then be_bytes n x else BigBytes x)"
proof (cases "BitLen x div 8 \<ge> n")
  case True
  have "x < 256 ^ n \<longleftrightarrow> BitLen x \<le> 8 * n" using assms by (simp add: BitLen_le_iff power_mult)
  moreover have "(8 * n + 7) div 8 = n" by simp
  ultimately show ?thesis using True assms
    by (auto simp: PaddedBigBytes_def BigBytes_def dest: le_antisym)
next
  case False
  then have "BitLen x \<le> 8 * n" by linarith
  then have "x < 256 ^ n" using assms by (simp add: BitLen_le_iff power_mult)
  with False assms show ?thesis by (simp add: PaddedBigBytes_def ReadBits_zeros)
qed

section \<open>Properties\<close>

text \<open>C38: \<open>math.Exp\<close>, the square-and-multiply loop over the machine words of the exponent,
  computes the power modulo \<open>2 ^ 256\<close> for every non-negative exponent, of any size.\<close>

theorem Exp_correct:
  assumes "0 \<le> e"
  shows "Exp b e = b ^ nat e mod 2 ^ 256"
  using Exp_mod [OF assms] by (simp add: tt256_def)

theorem Exp_correct_witness: "0 \<le> (300 :: int) \<and> Exp 3 300 = 3 ^ 300 mod 2 ^ 256"
  using Exp_correct [of 300 3] by simp

text \<open>C39: The checked 64-bit operations are exact: the overflow flag of \<open>SafeAdd\<close> and \<open>SafeMul\<close>
  is set exactly when the mathematical result does not fit 64 bits, the flag of \<open>SafeSub\<close> exactly
  when it would be negative, and without the flag the result is the mathematical one.\<close>

theorem Safe_ops_exact:
  "(snd (SafeAdd x y) \<longleftrightarrow> 2 ^ 64 \<le> unat x + unat y) \<and>
   (snd (SafeMul x y) \<longleftrightarrow> 2 ^ 64 \<le> unat x * unat y) \<and>
   (snd (SafeSub x y) \<longleftrightarrow> unat x < unat y) \<and>
   (snd (SafeAdd x y) \<or> unat (fst (SafeAdd x y)) = unat x + unat y) \<and>
   (snd (SafeMul x y) \<or> unat (fst (SafeMul x y)) = unat x * unat y) \<and>
   (snd (SafeSub x y) \<or> unat (fst (SafeSub x y)) = unat x - unat y)"
  using SafeAdd_overflow_iff [of x y] SafeMul_overflow_iff [of x y] SafeAdd_ok [of x y]
    SafeMul_ok [of x y] unat_sub_le [of y x] linorder_le_less_linear [of "unat y" "unat x"]
  by (auto simp: SafeSub_def word_less_nat_alt word_le_nat_alt)

text \<open>C40: \<open>PaddedBigBytes\<close>, which copies the machine words of the integer byte by byte into a
  zeroed buffer, returns the big-endian representation in exactly \<open>n\<close> bytes whenever the integer
  fits, and the minimal representation when it does not; either way reading the bytes back gives the
  integer. \<open>Byte\<close> selects single bytes of the same representation.\<close>

theorem PaddedBigBytes_correct:
  assumes "0 \<le> x"
  shows "SetBytes (PaddedBigBytes x n) = x \<and>
    (x < 256 ^ n \<longrightarrow> PaddedBigBytes x n = be_bytes n x) \<and>
    (\<forall>i < n. x < 256 ^ n \<longrightarrow> Byte x n i = PaddedBigBytes x n ! i)"
  using assms PaddedBigBytes_eq [of x n] SetBytes_BigBytes [of x] Byte_eq
  by (auto simp: SetBytes_be_bytes not_less)

theorem PaddedBigBytes_correct_witness:
  "SetBytes (PaddedBigBytes 1000 4) = 1000 \<and> PaddedBigBytes 1000 4 = [0, 0, 3, 232] \<and>
   Byte 1000 4 2 = 3"
proof -
  have b: "be_bytes 4 1000 = [0, 0, 3, 232]" by code_simp
  have *: "SetBytes (PaddedBigBytes 1000 4) = 1000 \<and> PaddedBigBytes 1000 4 = [0, 0, 3, 232] \<and>
     (\<forall>i<4. Byte 1000 4 i = PaddedBigBytes 1000 4 ! i)"
    using PaddedBigBytes_correct [of 1000 4] b by (simp add: SetBytes_def)
  then have "Byte 1000 4 2 = [0, 0, 3, 232 :: byte] ! 2" by simp
  with * show ?thesis by (simp add: SetBytes_def)
qed

end
