(* ===== verification/RLP_Encode.thy ===== *)
theory RLP_Encode
  imports Common_Math
begin

text \<open>The RLP codec, first half: the raw splitting functions of \<open>rlp/raw.go\<close> and the encoder of
  \<open>rlp/encode.go\<close>. The encoder collects string data and list headers in two separate buffers
  and only interleaves them at the end (\<open>encbuf.toBytes\<close>); the main lemma shows that this equals
  the one-pass reference encoding \<open>rlp\<close>, with every slice expression in range. Values are
  \<open>goval\<close> trees, one constructor for each kind of value that the writers of this file write.\<close>

section \<open>Errors and kinds\<close>

datatype rlp_error =
    EOL | ErrExpectedString | ErrExpectedList | ErrCanonInt | ErrCanonSize | ErrElemTooLarge
  | ErrValueTooLarge | ErrMoreThanOneValue | errNotInList | errNotAtEOL | errUintOverflow
  | io_EOF | io_ErrUnexpectedEOF | errNegativeBigInt | errInvalidBool
  | errInputTooLong | errInputTooShort | errTooFewElements

datatype Kind = KByte | KString | KList

section \<open>Raw values (\<open>rlp/raw.go\<close>)\<close>

text \<open>The right-hand sides of the \<open>switch\<close> in \<open>readSize\<close>: every byte shifted to its place.\<close>

primrec shifted_or :: "bytes \<Rightarrow> uint64" where
  "shifted_or [] = 0"
| "shifted_or (b # bs) = push_bit (8 * length bs) (ucast b) OR shifted_or bs"

definition readSize :: "bytes \<Rightarrow> byte \<Rightarrow> rlp_error + uint64" where
  "readSize b slen =
     (if unat slen > length b then Inl io_ErrUnexpectedEOF
      else let s = (if 1 \<le> slen \<and> slen \<le> 8 then shifted_or (take (unat slen) b) else 0)
           in if s < 56 \<or> b ! 0 = 0 then Inl ErrCanonSize else Inr s)"

definition readKind_raw :: "bytes \<Rightarrow> rlp_error + (Kind \<times> uint64 \<times> uint64)" where
  "readKind_raw buf =
     (if length buf = 0 then Inl io_ErrUnexpectedEOF
      else let b = buf ! 0;
               r = (if b < 0x80 then Inr (KByte, 0, 1)
                    else if b < 0xB8 then
                      (let contentsize = ucast (b - 0x80) :: uint64
                       in if contentsize = 1 \<and> length buf > 1 \<and> buf ! 1 < 128
                          then Inl ErrCanonSize else Inr (KString, 1, contentsize))
                    else if b < 0xC0 then
                      (case readSize (drop 1 buf) (b - 0xB7) of Inl e \<Rightarrow> Inl e
                       | Inr cs \<Rightarrow> Inr (KString, ucast (b - 0xB7) + 1, cs))
                    else if b < 0xF8 then Inr (KList, 1, ucast (b - 0xC0))
                    else (case readSize (drop 1 buf) (b - 0xF7) of Inl e \<Rightarrow> Inl e
                       | Inr cs \<Rightarrow> Inr (KList, ucast (b - 0xF7) + 1, cs)))
           in case r of Inl e \<Rightarrow> Inl e
              | Inr (k, tagsize, contentsize) \<Rightarrow>
                  if contentsize > of_nat (length buf) - tagsize then Inl ErrValueTooLarge
                  else Inr (k, tagsize, contentsize))"

text \<open>The results of the \<open>Split\<close> family: \<open>None\<close> is a slice bounds panic.\<close>

definition Split :: "bytes \<Rightarrow> (rlp_error + (Kind \<times> bytes \<times> bytes)) option" where
  "Split b =
     (case readKind_raw b of Inl e \<Rightarrow> Some (Inl e)
      | Inr (k, ts, cs) \<Rightarrow>
          do { content \<leftarrow> go_slice b (unat ts) (unat (ts + cs));
               rest \<leftarrow> go_slice b (unat (ts + cs)) (length b);
               Some (Inr (k, content, rest)) })"

definition SplitString :: "bytes \<Rightarrow> (rlp_error + (bytes \<times> bytes)) option" where
  "SplitString b =
     do { r \<leftarrow> Split b;
          Some (case r of Inl e \<Rightarrow> Inl e
                | Inr (k, content, rest) \<Rightarrow>
                    if k = KList then Inl ErrExpectedString else Inr (content, rest)) }"

definition SplitList :: "bytes \<Rightarrow> (rlp_error + (bytes \<times> bytes)) option" where
  "SplitList b =
     do { r \<leftarrow> Split b;
          Some (case r of Inl e \<Rightarrow> Inl e
                | Inr (k, content, rest) \<Rightarrow>
                    if k \<noteq> KList then Inl ErrExpectedList else Inr (content, rest)) }"

text \<open>\<open>CountValues\<close>: the loop, with a bound on the iterations; every value is at least one
  byte long, so \<open>length b + 1\<close> iterations are enough.\<close>

primrec CountValues_loop :: "nat \<Rightarrow> nat \<Rightarrow> bytes \<Rightarrow> (rlp_error + nat) option" where
  "CountValues_loop 0 i b = None"
| "CountValues_loop (Suc fuel) i b =
     (if length b = 0 then Some (Inr i)
      else case readKind_raw b of Inl e \<Rightarrow> Some (Inl e)
           | Inr (_, tagsize, sz) \<Rightarrow>
               do { b' \<leftarrow> go_slice b (unat (tagsize + sz)) (length b);
                    CountValues_loop fuel (Suc i) b' })"

definition CountValues :: "bytes \<Rightarrow> (rlp_error + nat) option" where
  "CountValues b = CountValues_loop (Suc (length b)) 0 b"

section \<open>The encoder buffer (\<open>rlp/encode.go\<close>)\<close>

text \<open>\<open>putint\<close> returns the bytes it writes at the start of its buffer.\<close>

definition putint :: "uint64 \<Rightarrow> bytes" where
  "putint i =
     (if i < 2 ^ 8 then [ucast i]
      else if i < 2 ^ 16 then [ucast (drop_bit 8 i), ucast i]
      else if i < 2 ^ 24 then [ucast (drop_bit 16 i), ucast (drop_bit 8 i), ucast i]
      else if i < 2 ^ 32 then
        [ucast (drop_bit 24 i), ucast (drop_bit 16 i), ucast (drop_bit 8 i), ucast i]
      else if i < 2 ^ 40 then
        [ucast (drop_bit 32 i), ucast (drop_bit 24 i), ucast (drop_bit 16 i),
         ucast (drop_bit 8 i), ucast i]
      else if i < 2 ^ 48 then
        [ucast (drop_bit 40 i), ucast (drop_bit 32 i), ucast (drop_bit 24 i),
         ucast (drop_bit 16 i), ucast (drop_bit 8 i), ucast i]
      else if i < 2 ^ 56 then
        [ucast (drop_bit 48 i), ucast (drop_bit 40 i), ucast (drop_bit 32 i),
         ucast (drop_bit 24 i), ucast (drop_bit 16 i), ucast (drop_bit 8 i), ucast i]
      else
        [ucast (drop_bit 56 i), ucast (drop_bit 48 i), ucast (drop_bit 40 i),
         ucast (drop_bit 32 i), ucast (drop_bit 24 i), ucast (drop_bit 16 i),
         ucast (drop_bit 8 i), ucast i])"

function intsize_loop :: "nat \<Rightarrow> uint64 \<Rightarrow> nat" where
  "intsize_loop sz i =
     (let i' = drop_bit 8 i in if i' = 0 then sz else intsize_loop (Suc sz) i')"
  by pat_completeness auto
termination
proof (relation "measure (\<lambda>(sz, i). unat i)", simp, clarsimp)
  fix i :: uint64
  assume "drop_bit 8 i \<noteq> 0"
  then have "i \<noteq> 0" by auto
  then have "unat i > 0" by (simp add: unat_gt_0)
  then have "unat i div 256 < unat i" by simp
  then show "unat (drop_bit 8 i) < unat i"
    by (subst unsigned_drop_bit_eq) (simp add: drop_bit_eq_div drop_bit_take_bit take_bit_eq_mod)
qed

declare intsize_loop.simps [simp del]

definition intsize :: "uint64 \<Rightarrow> nat" where
  "intsize i = intsize_loop 1 i"

definition headsize :: "uint64 \<Rightarrow> nat" where
  "headsize sz = (if sz < 56 then 1 else 1 + intsize sz)"

definition ListSize :: "uint64 \<Rightarrow> uint64" where
  "ListSize contentSize = of_nat (headsize contentSize) + contentSize"

definition header_bytes :: "byte \<Rightarrow> byte \<Rightarrow> uint64 \<Rightarrow> bytes" where
  "header_bytes smalltag largetag sz =
     (if sz < 56 then [smalltag + ucast sz]
      else let b = putint sz in (largetag + of_nat (length b)) # b)"

text \<open>\<open>puthead\<close> writes the header into a buffer, out of range being a panic.\<close>

definition puthead :: "bytes \<Rightarrow> byte \<Rightarrow> byte \<Rightarrow> uint64 \<Rightarrow> (bytes \<times> nat) option" where
  "puthead buf smalltag largetag sz =
     (let h = header_bytes smalltag largetag sz
      in do { panic_unless (length h \<le> length buf); Some (h @ drop (length h) buf, length h) })"

text \<open>\<open>encbuf\<close>: a \<open>listhead\<close> is its offset and sz; the pointer to a list header that
  \<open>list\<close> returns is its index.\<close>

record encbuf =
  eb_str :: bytes
  eb_lheads :: "(nat \<times> nat) list"
  eb_lhsize :: nat

definition encbuf_empty :: encbuf where
  "encbuf_empty = \<lparr> eb_str = [], eb_lheads = [], eb_lhsize = 0 \<rparr>"

definition eb_append :: "bytes \<Rightarrow> encbuf \<Rightarrow> encbuf" where
  "eb_append b w = w\<lparr> eb_str := eb_str w @ b \<rparr>"

definition encodeStringHeader :: "nat \<Rightarrow> encbuf \<Rightarrow> encbuf" where
  "encodeStringHeader sz w = eb_append (header_bytes 0x80 0xB7 (of_nat sz)) w"

definition encodeString :: "bytes \<Rightarrow> encbuf \<Rightarrow> encbuf" where
  "encodeString b w =
     (if length b = 1 \<and> b ! 0 \<le> 0x7F then eb_append [b ! 0] w
      else eb_append b (encodeStringHeader (length b) w))"

definition eb_size :: "encbuf \<Rightarrow> nat" where
  "eb_size w = length (eb_str w) + eb_lhsize w"

definition eb_list :: "encbuf \<Rightarrow> nat \<times> encbuf" where
  "eb_list w = (length (eb_lheads w),
     w\<lparr> eb_lheads := eb_lheads w @ [(length (eb_str w), eb_lhsize w)] \<rparr>)"

definition eb_listEnd :: "nat \<Rightarrow> encbuf \<Rightarrow> encbuf" where
  "eb_listEnd lh w =
     (let (off, sz0) = eb_lheads w ! lh; sz = eb_size w - off - sz0
      in w\<lparr> eb_lheads := (eb_lheads w)[lh := (off, sz)],
            eb_lhsize := eb_lhsize w +
              (if sz < 56 then 1 else 1 + intsize (of_nat sz)) \<rparr>)"

text \<open>\<open>toBytes\<close>: the loop over the list headers and the final copy.\<close>

primrec toBytes_loop ::
    "bytes \<Rightarrow> (nat \<times> nat) list \<Rightarrow> bytes \<Rightarrow> nat \<Rightarrow> nat \<Rightarrow> (bytes \<times> nat \<times> nat) option" where
  "toBytes_loop str [] out strpos pos = Some (out, strpos, pos)"
| "toBytes_loop str (head # heads) out strpos pos =
     do { dst \<leftarrow> go_slice out pos (length out);
          piece \<leftarrow> go_slice str strpos (fst head);
          let n = min (length dst) (length piece);
          let out = take pos out @ go_copy dst piece;
          dst \<leftarrow> go_slice out (pos + n) (length out);
          (enc, k) \<leftarrow> puthead dst 0xC0 0xF7 (of_nat (snd head));
          toBytes_loop str heads (take (pos + n) out @ enc) (strpos + n) (pos + n + k) }"

definition toBytes :: "encbuf \<Rightarrow> bytes option" where
  "toBytes w =
     do { (out, strpos, pos) \<leftarrow>
            toBytes_loop (eb_str w) (eb_lheads w) (replicate (eb_size w) 0) 0 0;
          dst \<leftarrow> go_slice out pos (length out);
          piece \<leftarrow> go_slice (eb_str w) strpos (length (eb_str w));
          Some (take pos out @ go_copy dst piece) }"

section \<open>Values and their writers\<close>

text \<open>The values whose writer \<open>makeWriter\<close> takes from this file: \<open>RawValue\<close>, unsigned integers,
  booleans, big integers (\<open>None\<close> is a nil pointer), byte slices and byte arrays, strings, nil
  interfaces and nil pointers, slices (with the \<open>tail\<close> tag) and structs. A non-nil pointer or
  interface is written as the value it holds, a nil pointer to a kind other than a struct or an array
  as the zero value of that kind.

  Two kinds of values are not in the type. A value whose type implements \<open>Encoder\<close> is written by
  that type's own \<open>EncodeRLP\<close> (\<open>writeEncoder\<close>, \<open>writeEncoderNoPtr\<close>), which is code of the caller and
  may return any error. A value of a type for which \<open>makeWriter\<close> or \<open>structFields\<close> returns an error
  (signed integers, floating point numbers, maps, channels, functions, a misplaced tag) is refused by
  \<open>cachedTypeInfo\<close> before any writer runs.\<close>

datatype goval =
    RawVal bytes | UintVal uint64 | BoolVal bool | BigIntVal "int option" | BytesVal bytes
  | StringVal bytes | NilInterface | NilBytePtr | NilListPtr
  | SliceVal bool "goval list" | StructVal "goval list"

definition writeUint :: "uint64 \<Rightarrow> encbuf \<Rightarrow> encbuf" where
  "writeUint i w =
     (if i = 0 then eb_append [0x80] w
      else if i < 128 then eb_append [ucast i] w
      else let s = putint i in eb_append ((0x80 + of_nat (length s)) # s) w)"

definition writeBool :: "bool \<Rightarrow> encbuf \<Rightarrow> encbuf" where
  "writeBool b w = eb_append [if b then 0x01 else 0x80] w"

definition writeBigInt :: "int \<Rightarrow> encbuf \<Rightarrow> encbuf \<times> rlp_error option" where
  "writeBigInt i w =
     (if i < 0 then (w, Some errNegativeBigInt)
      else if i = 0 then (eb_append [0x80] w, None)
      else (encodeString (BigBytes i) w, None))"

definition writeBigIntPtr :: "int option \<Rightarrow> encbuf \<Rightarrow> encbuf \<times> rlp_error option" where
  "writeBigIntPtr p w =
     (case p of None \<Rightarrow> (eb_append [0x80] w, None) | Some i \<Rightarrow> writeBigInt i w)"

definition writeString :: "bytes \<Rightarrow> encbuf \<Rightarrow> encbuf" where
  "writeString s w =
     (if length s = 1 \<and> s ! 0 \<le> 0x7f then eb_append [s ! 0] w
      else eb_append s (encodeStringHeader (length s) w))"

text \<open>\<open>writer\<close> is the function \<open>makeWriter\<close> returns; \<open>write_elems\<close> is the loop of the slice and
  struct writers. The deferred \<open>listEnd\<close> of the slice writer also runs on an error.\<close>

fun writer :: "goval \<Rightarrow> encbuf \<Rightarrow> encbuf \<times> rlp_error option"
  and write_elems :: "goval list \<Rightarrow> encbuf \<Rightarrow> encbuf \<times> rlp_error option" where
  "writer (RawVal b) w = (eb_append b w, None)"
| "writer (UintVal i) w = (writeUint i w, None)"
| "writer (BoolVal b) w = (writeBool b w, None)"
| "writer (BigIntVal p) w = writeBigIntPtr p w"
| "writer (BytesVal b) w = (encodeString b w, None)"
| "writer (StringVal s) w = (writeString s w, None)"
| "writer NilInterface w = (eb_append [0xC0] w, None)"
| "writer NilBytePtr w = (eb_append [0x80] w, None)"
| "writer NilListPtr w = (let (lh, w) = eb_list w in (eb_listEnd lh w, None))"
| "writer (SliceVal tail vs) w =
     (if tail then write_elems vs w
      else let (lh, w) = eb_list w; (w, err) = write_elems vs w in (eb_listEnd lh w, err))"
| "writer (StructVal vs) w =
     (let (lh, w) = eb_list w; (w, err) = write_elems vs w
      in case err of Some e \<Rightarrow> (w, Some e) | None \<Rightarrow> (eb_listEnd lh w, None))"
| "write_elems [] w = (w, None)"
| "write_elems (v # vs) w =
     (case writer v w of (w, Some e) \<Rightarrow> (w, Some e) | (w, None) \<Rightarrow> write_elems vs w)"

definition EncodeToBytes :: "goval \<Rightarrow> (rlp_error + bytes) option" where
  "EncodeToBytes val =
     (case writer val encbuf_empty of (w, Some e) \<Rightarrow> Some (Inl e)
      | (w, None) \<Rightarrow> map_option Inr (toBytes w))"

section \<open>The reference encoding\<close>

definition rlp_head :: "byte \<Rightarrow> byte \<Rightarrow> nat \<Rightarrow> bytes" where
  "rlp_head small large n =
     (if n < 56 then [small + of_nat n]
      else (large + of_nat (length (BigBytes (int n)))) # BigBytes (int n))"

definition rlp_string :: "bytes \<Rightarrow> bytes" where
  "rlp_string b = (if length b = 1 \<and> hd b < 0x80 then b else rlp_head 0x80 0xB7 (length b) @ b)"

definition rlp_list :: "bytes \<Rightarrow> bytes" where
  "rlp_list payload = rlp_head 0xC0 0xF7 (length payload) @ payload"

fun rlp :: "goval \<Rightarrow> rlp_error + bytes"
  and rlps :: "goval list \<Rightarrow> rlp_error + bytes" where
  "rlp (RawVal b) = Inr b"
| "rlp (UintVal i) = Inr (rlp_string (BigBytes (uint i)))"
| "rlp (BoolVal b) = Inr (rlp_string (if b then [1] else []))"
| "rlp (BigIntVal p) =
     (case p of None \<Rightarrow> Inr (rlp_string [])
      | Some i \<Rightarrow> if i < 0 then Inl errNegativeBigInt else Inr (rlp_string (BigBytes i)))"
| "rlp (BytesVal b) = Inr (rlp_string b)"
| "rlp (StringVal s) = Inr (rlp_string s)"
| "rlp NilInterface = Inr (rlp_list [])"
| "rlp NilBytePtr = Inr (rlp_string [])"
| "rlp NilListPtr = Inr (rlp_list [])"
| "rlp (SliceVal tail vs) = (if tail then rlps vs else map_sum id rlp_list (rlps vs))"
| "rlp (StructVal vs) = map_sum id rlp_list (rlps vs)"
| "rlps [] = Inr []"
| "rlps (v # vs) =
     (case rlp v of Inl e \<Rightarrow> Inl e
      | Inr x \<Rightarrow> (case rlps vs of Inl e \<Rightarrow> Inl e | Inr xs \<Rightarrow> Inr (x @ xs)))"

section \<open>Integers in minimal big-endian form\<close>

lemma uint_drop_bit_64: "uint (drop_bit n (i :: uint64)) = uint i div 2 ^ n"
proof -
  have "take_bit 64 (uint i) = uint i" using uint_lt2p [of i] by (simp add: take_bit_int_eq_self)
  then show ?thesis by (subst unsigned_drop_bit_eq) (simp flip: drop_bit_eq_div)
qed

lemma ucast_drop_bit_64: "(ucast (drop_bit n (i :: uint64)) :: byte) = word_of_int (uint i div 2 ^ n)"
  by (metis word_of_int_uint ucast_eq uint_drop_bit_64)

lemma ucast_64_byte: "(ucast (i :: uint64) :: byte) = word_of_int (uint i)"
  using ucast_drop_bit_64 [of 0 i] by simp

lemma BigBytes_width:
  assumes "2 ^ (8 * (m - 1)) \<le> x" "x < 2 ^ (8 * m)" "0 < m"
  shows "BigBytes x = be_bytes m x"
proof -
  have "(0 :: int) \<le> 2 ^ (8 * (m - 1))" by simp
  then have "0 \<le> x" using assms(1) by (rule order_trans)
  then have "8 * (m - 1) < BitLen x" "BitLen x \<le> 8 * m"
    using assms by (simp_all add: BitLen_le_iff BitLen_gt_iff)
  then have "(BitLen x + 7) div 8 = m" using \<open>0 < m\<close> by linarith
  then show ?thesis using \<open>0 \<le> x\<close> by (simp add: BigBytes_def del: be_bytes.simps)
qed

lemma be_bytes_shift:
  "be_bytes (Suc k) x = word_of_int (x div 256 ^ k) # be_bytes k x"
  using be_bytes_add [of 1 k x] by simp

lemma be_bytes_numeral:
  "be_bytes (Suc 0) x = [word_of_int x]"
  "be_bytes 1 x = [word_of_int x]"
  "be_bytes (numeral k) x = word_of_int (x div 256 ^ pred_numeral k) # be_bytes (pred_numeral k) x"
  by (simp_all add: numeral_eq_Suc be_bytes_shift del: be_bytes.simps(2))

lemma BigBytes_ranges:
  "1 \<le> x \<Longrightarrow> x < 2 ^ 8 \<Longrightarrow> BigBytes x = be_bytes 1 x"
  "2 ^ 8 \<le> x \<Longrightarrow> x < 2 ^ 16 \<Longrightarrow> BigBytes x = be_bytes 2 x"
  "2 ^ 16 \<le> x \<Longrightarrow> x < 2 ^ 24 \<Longrightarrow> BigBytes x = be_bytes 3 x"
  "2 ^ 24 \<le> x \<Longrightarrow> x < 2 ^ 32 \<Longrightarrow> BigBytes x = be_bytes 4 x"
  "2 ^ 32 \<le> x \<Longrightarrow> x < 2 ^ 40 \<Longrightarrow> BigBytes x = be_bytes 5 x"
  "2 ^ 40 \<le> x \<Longrightarrow> x < 2 ^ 48 \<Longrightarrow> BigBytes x = be_bytes 6 x"
  "2 ^ 48 \<le> x \<Longrightarrow> x < 2 ^ 56 \<Longrightarrow> BigBytes x = be_bytes 7 x"
  "2 ^ 56 \<le> x \<Longrightarrow> x < 2 ^ 64 \<Longrightarrow> BigBytes x = be_bytes 8 x"
  using BigBytes_width [of 1 x] BigBytes_width [of 2 x] BigBytes_width [of 3 x]
    BigBytes_width [of 4 x] BigBytes_width [of 5 x] BigBytes_width [of 6 x]
    BigBytes_width [of 7 x] BigBytes_width [of 8 x]
  by (simp_all del: be_bytes.simps)

lemma putint_BigBytes:
  assumes "i \<noteq> 0"
  shows "putint i = BigBytes (uint i)"
proof -
  have "uint i \<noteq> 0" using assms by (simp add: uint_0_iff)
  then have lo: "1 \<le> uint i" and hi: "uint i < 2 ^ 64" using uint_lt2p [of i] uint_ge_0 [of i] by (linarith, simp)
  show ?thesis
    unfolding putint_def ucast_drop_bit_64
    unfolding ucast_64_byte
    using lo hi by (simp add: word_less_def BigBytes_ranges be_bytes_numeral del: be_bytes.simps)
qed

lemma div_256_less: "(a :: int) div 256 < p \<longleftrightarrow> a < p * 256"
  by linarith

lemma intsize_loop_BitLen:
  "intsize_loop sz i = sz + (BitLen (uint i) - 1) div 8"
proof (induction sz i rule: intsize_loop.induct)
  case (1 sz i)
  have d: "uint (drop_bit 8 i) = uint i div 256" using uint_drop_bit_64 [of 8 i] by simp
  show ?case
  proof (cases "drop_bit 8 i = 0")
    case True
    then have "uint i div 256 = 0" using d by simp
    then have "uint i < 2 ^ 8" using uint_ge_0 [of i] by (auto simp: zdiv_eq_0_iff)
    then have "BitLen (uint i) \<le> 8" by (simp add: BitLen_le_iff)
    with True show ?thesis by (simp add: intsize_loop.simps [of sz i])
  next
    case False
    then have "uint i div 256 \<noteq> 0" using d by (metis uint_0_iff)
    then have "uint i \<ge> 256" using uint_ge_0 [of i] by (simp add: zdiv_eq_0_iff)
    have k: "BitLen (uint i div 256) \<le> k \<longleftrightarrow> BitLen (uint i) \<le> k + 8" for k
      using uint_ge_0 [of i] \<open>uint i \<ge> 256\<close> div_256_less [of "uint i" "2 ^ k"]
      by (simp add: BitLen_le_iff power_add pos_imp_zdiv_nonneg_iff)
    have "8 < BitLen (uint i)" using \<open>uint i \<ge> 256\<close> by (simp add: BitLen_gt_iff)
    then have "BitLen (uint i) = BitLen (uint i div 256) + 8"
      using k [of "BitLen (uint i div 256)"] k [of "BitLen (uint i) - 8"] by linarith
    moreover have "0 < BitLen (uint i div 256)" using \<open>uint i div 256 \<noteq> 0\<close> BitLen_0_iff by blast
    ultimately have "(BitLen (uint i) - 1) div 8 = Suc ((BitLen (uint i div 256) - 1) div 8)"
      by linarith
    with False 1 d show ?thesis by (simp add: intsize_loop.simps [of sz i])
  qed
qed

lemma intsize_BigBytes:
  assumes "i \<noteq> 0"
  shows "intsize i = length (BigBytes (uint i))"
proof -
  have "0 < BitLen (uint i)" using assms BitLen_0_iff uint_0_iff by blast
  then have "Suc ((BitLen (uint i) - 1) div 8) = (BitLen (uint i) + 7) div 8" by linarith
  then show ?thesis by (simp add: intsize_def intsize_loop_BitLen BigBytes_def)
qed

lemma uint_of_nat_64: "n < 2 ^ 64 \<Longrightarrow> uint (of_nat n :: uint64) = int n"
  by (simp add: unsigned_of_nat take_bit_nat_eq_self flip: of_nat_take_bit)

lemma header_bytes_eq:
  assumes "n < 2 ^ 64"
  shows "header_bytes a b (of_nat n) = rlp_head a b n"
proof -
  have u: "uint (of_nat n :: uint64) = int n" using assms by (rule uint_of_nat_64)
  have "(of_nat n :: uint64) < 56 \<longleftrightarrow> n < 56" using u by (simp add: word_less_def)
  moreover have "(ucast (of_nat n :: uint64) :: byte) = of_nat n"
    unfolding ucast_64_byte u by simp
  moreover have "putint (of_nat n) = BigBytes (int n)" if "n \<ge> 56"
    using that u putint_BigBytes [of "of_nat n"] by fastforce
  ultimately show ?thesis by (simp add: header_bytes_def rlp_head_def Let_def)
qed

lemma head_size:
  assumes "n < 2 ^ 64"
  shows "length (rlp_head a b n) = (if n < 56 then 1 else 1 + intsize (of_nat n))"
proof -
  have u: "uint (of_nat n :: uint64) = int n" using assms by (rule uint_of_nat_64)
  then have "intsize (of_nat n) = length (BigBytes (int n))" if "n \<ge> 56"
    using that intsize_BigBytes [of "of_nat n"] by fastforce
  then show ?thesis by (simp add: rlp_head_def)
qed

lemma rlp_string_ge_128:
  assumes "128 \<le> x"
  shows "rlp_string (BigBytes x) = rlp_head 0x80 0xB7 (length (BigBytes x)) @ BigBytes x"
proof -
  have False if one: "length (BigBytes x) = 1" and hd: "hd (BigBytes x) < 0x80"
  proof -
    obtain b where b: "BigBytes x = [b]" using one by (auto simp: length_Suc_conv)
    then have "SetBytes (BigBytes x) = uint b" using SetBytes_snoc [of "[]" b] by simp
    then have "uint b = x" using assms by (simp add: SetBytes_BigBytes)
    then show False using hd b assms by (simp add: word_less_def)
  qed
  then show ?thesis by (auto simp: rlp_string_def)
qed

lemma rlp_string_lt_128:
  assumes "0 < x" "x < 128"
  shows "rlp_string (BigBytes x) = [word_of_int x]"
proof -
  have "BigBytes x = [word_of_int x]"
    using assms BigBytes_ranges(1) [of x] by (simp add: be_bytes_numeral)
  moreover have "(word_of_int x :: byte) < 0x80" using assms by (simp add: word_less_def uint_byte_mod)
  ultimately show ?thesis by (simp add: rlp_string_def)
qed

lemma rlp_string_Nil [simp]: "rlp_string [] = [0x80]"
  by (simp add: rlp_string_def rlp_head_def)

lemma BigBytes_0 [simp]: "BigBytes 0 = []"
  by (simp add: BigBytes_def BitLen_def)

lemma writeUint_eq: "writeUint i w = eb_append (rlp_string (BigBytes (uint i))) w"
proof -
  have "(BitLen (uint i) + 7) div 8 \<le> 8"
    using BitLen_le_iff [of "uint i" 64] uint_lt2p [of i] by simp
  then have len: "length (BigBytes (uint i)) \<le> 8" by (simp add: BigBytes_def)
  consider "i = 0" | "i \<noteq> 0" "0 < uint i" "uint i < 128" | "i \<noteq> 0" "128 \<le> uint i"
    using uint_0_iff [of i] uint_ge_0 [of i] by linarith
  then show ?thesis
  proof cases
    case 2
    then show ?thesis
      by (simp only: writeUint_def rlp_string_lt_128 ucast_64_byte) (simp add: word_less_def)
  next
    case 3
    then show ?thesis using len
      by (simp add: writeUint_def putint_BigBytes rlp_string_ge_128 rlp_head_def word_less_def Let_def)
  qed (simp add: writeUint_def)
qed

section \<open>The split buffer refines the reference encoding\<close>

text \<open>\<open>render base X H\<close> interleaves string data \<open>X\<close>, which starts at offset \<open>base\<close>, with the
  headers \<open>H\<close>. \<open>heads_ok\<close> says that the header offsets ascend inside the data.\<close>

fun render :: "nat \<Rightarrow> bytes \<Rightarrow> (nat \<times> nat) list \<Rightarrow> bytes" where
  "render base X [] = X"
| "render base X ((off, sz) # H) =
     take (off - base) X @ rlp_head 0xC0 0xF7 sz @ render off (drop (off - base) X) H"

fun heads_ok :: "nat \<Rightarrow> nat \<Rightarrow> (nat \<times> nat) list \<Rightarrow> bool" where
  "heads_ok base hi [] \<longleftrightarrow> base \<le> hi"
| "heads_ok base hi ((off, sz) # H) \<longleftrightarrow> base \<le> off \<and> sz < 2 ^ 64 \<and> heads_ok off hi H"

lemma heads_ok_le: "heads_ok base hi H \<Longrightarrow> base \<le> hi"
  by (induction base hi H rule: heads_ok.induct) auto

lemma heads_ok_append:
  "heads_ok base mid H1 \<Longrightarrow> heads_ok mid hi H2 \<Longrightarrow> heads_ok base hi (H1 @ H2)"
proof (induction base mid H1 rule: heads_ok.induct)
  case (1 base mid)
  then show ?case by (cases "(mid, hi, H2)" rule: heads_ok.cases) auto
qed auto

lemma render_append:
  assumes "heads_ok base (base + length X1) H1" "heads_ok (base + length X1) hi H2"
  shows "render base (X1 @ X2) (H1 @ H2) = render base X1 H1 @ render (base + length X1) X2 H2"
  using assms
proof (induction base X1 H1 rule: render.induct)
  case (1 base X)
  then show ?case by (cases H2) auto
next
  case (2 base X off sz H)
  then have "off - base \<le> length X" "base \<le> off" using heads_ok_le by fastforce+
  then show ?case using 2 by (simp add: add.commute)
qed

lemma length_render:
  "heads_ok base (base + length X) H \<Longrightarrow>
   length (render base X H) = length X + sum_list (map (\<lambda>(_, sz). length (rlp_head 0xC0 0xF7 sz)) H)"
proof (induction base X H rule: render.induct)
  case (2 base X off sz H)
  then have "off - base \<le> length X" "base \<le> off" using heads_ok_le by fastforce+
  then show ?case using 2 by (simp add: add.commute)
qed simp

text \<open>\<open>wrote w w' E\<close>: going from \<open>w\<close> to \<open>w'\<close>, the encoder added what renders as \<open>E\<close>.\<close>

definition wrote :: "encbuf \<Rightarrow> encbuf \<Rightarrow> bytes \<Rightarrow> bool" where
  "wrote w w' E \<longleftrightarrow> (\<exists>X H.
     w' = \<lparr> eb_str = eb_str w @ X, eb_lheads = eb_lheads w @ H,
            eb_lhsize = eb_lhsize w + (length E - length X) \<rparr> \<and>
     heads_ok (length (eb_str w)) (length (eb_str w) + length X) H \<and>
     render (length (eb_str w)) X H = E)"

lemma wroteI:
  assumes "eb_str w' = eb_str w @ X" "eb_lheads w' = eb_lheads w @ H"
    "eb_lhsize w' = eb_lhsize w + (length E - length X)"
    "heads_ok (length (eb_str w)) (length (eb_str w) + length X) H"
    "render (length (eb_str w)) X H = E"
  shows "wrote w w' E"
  unfolding wrote_def using assms by (intro exI [of _ X] exI [of _ H]) (cases w', simp)

lemma wrote_append: "wrote w (eb_append b w) b"
  by (rule wroteI [where X = b and H = "[]"]) (simp_all add: eb_append_def)

lemma wrote_trans:
  assumes "wrote w w1 E1" "wrote w1 w2 E2"
  shows "wrote w w2 (E1 @ E2)"
proof -
  obtain X1 H1 where 1: "w1 = \<lparr> eb_str = eb_str w @ X1, eb_lheads = eb_lheads w @ H1,
      eb_lhsize = eb_lhsize w + (length E1 - length X1) \<rparr>"
    "heads_ok (length (eb_str w)) (length (eb_str w) + length X1) H1"
    "render (length (eb_str w)) X1 H1 = E1" using assms(1) by (auto simp: wrote_def)
  obtain X2 H2 where 2: "w2 = \<lparr> eb_str = eb_str w1 @ X2, eb_lheads = eb_lheads w1 @ H2,
      eb_lhsize = eb_lhsize w1 + (length E2 - length X2) \<rparr>"
    "heads_ok (length (eb_str w1)) (length (eb_str w1) + length X2) H2"
    "render (length (eb_str w1)) X2 H2 = E2" using assms(2) by (auto simp: wrote_def)
  have l: "length X1 \<le> length E1" "length X2 \<le> length E2"
    using length_render [OF 1(2)] length_render [OF 2(2)] 1(3) 2(3) by auto
  show ?thesis
  proof (rule wroteI [where X = "X1 @ X2" and H = "H1 @ H2"])
    show "heads_ok (length (eb_str w)) (length (eb_str w) + length (X1 @ X2)) (H1 @ H2)"
      using heads_ok_append [OF 1(2)] 2(2) 1(1) by (simp add: add.assoc)
    show "render (length (eb_str w)) (X1 @ X2) (H1 @ H2) = E1 @ E2"
      using render_append [OF 1(2)] 2(2,3) 1(1,3) by simp
  qed (use 1 2 l in auto)
qed

lemma wrote_list:
  assumes l: "eb_list w = (lh, w1)" and w: "wrote w1 w2 E" and small: "length E < 2 ^ 64"
  shows "wrote w (eb_listEnd lh w2) (rlp_list E)"
proof -
  have w1: "lh = length (eb_lheads w)" "eb_str w1 = eb_str w" "eb_lhsize w1 = eb_lhsize w"
    "eb_lheads w1 = eb_lheads w @ [(length (eb_str w), eb_lhsize w)]"
    using l by (auto simp: eb_list_def)
  obtain X H where w2': "w2 = \<lparr> eb_str = eb_str w1 @ X, eb_lheads = eb_lheads w1 @ H,
      eb_lhsize = eb_lhsize w1 + (length E - length X) \<rparr>"
    and H: "heads_ok (length (eb_str w)) (length (eb_str w) + length X) H"
    and E: "render (length (eb_str w)) X H = E"
    using w unfolding wrote_def w1(2) by blast
  have w2: "eb_str w2 = eb_str w @ X" "eb_lhsize w2 = eb_lhsize w + (length E - length X)"
    "eb_lheads w2 = eb_lheads w @ (length (eb_str w), eb_lhsize w) # H"
    using w2' w1 by simp_all
  have "length X \<le> length E" using length_render [OF H] E by auto
  then have sz: "eb_size w2 - length (eb_str w) - eb_lhsize w = length E"
    using w2 by (simp add: eb_size_def)
  have nth: "eb_lheads w2 ! lh = (length (eb_str w), eb_lhsize w)"
    and upd: "(eb_lheads w2)[lh := v] = eb_lheads w @ v # H" for v
    unfolding w2 w1(1) by (simp_all add: nth_append)
  have e: "eb_listEnd lh w2 = w2\<lparr> eb_lheads := eb_lheads w @ (length (eb_str w), length E) # H,
      eb_lhsize := eb_lhsize w2 + length (rlp_head 0xC0 0xF7 (length E)) \<rparr>"
    unfolding eb_listEnd_def nth prod.case sz Let_def upd using small by (simp add: head_size)
  show ?thesis
  proof (rule wroteI [where X = X and H = "(length (eb_str w), length E) # H"])
    show "heads_ok (length (eb_str w)) (length (eb_str w) + length X) ((length (eb_str w), length E) # H)"
      using H small by simp
  qed (use \<open>length X \<le> length E\<close> in \<open>simp_all add: e w2 E rlp_list_def\<close>)
qed

lemma writer_error:
  "snd (writer v w) = (case rlp v of Inl e \<Rightarrow> Some e | Inr _ \<Rightarrow> None)"
  "snd (write_elems vs w) = (case rlps vs of Inl e \<Rightarrow> Some e | Inr _ \<Rightarrow> None)"
proof (induction v and vs arbitrary: w and w rule: rlp_rlps.induct)
  case (4 p)
  then show ?case by (auto simp: writeBigIntPtr_def writeBigInt_def split: option.splits)
next
  case 9
  then show ?case by (simp split: prod.splits)
next
  case (10 tail vs)
  then show ?case by (cases "rlps vs") (auto simp: prod_eq_iff split: prod.splits)
next
  case (11 vs)
  show ?case using 11 [of "snd (eb_list w)"]
    by (cases "rlps vs") (auto split: prod.splits option.splits)
next
  case (13 v vs)
  show ?case using "13.IH"(1) [of w] "13.IH"(2) [of _ "fst (writer v w)"]
    by (cases "writer v w"; cases "rlp v"; cases "rlps vs") auto
qed simp_all

lemma byte_le_7F: "(x :: byte) \<le> 0x7F \<longleftrightarrow> x < 0x80"
  unfolding word_le_def word_less_def by simp linarith

lemma encodeString_eq:
  assumes "length b < 2 ^ 64"
  shows "encodeString b w = eb_append (rlp_string b) w"
proof -
  have "length b = 1 \<Longrightarrow> b ! 0 \<le> 0x7F \<longleftrightarrow> hd b < 0x80" "length b = 1 \<Longrightarrow> [b ! 0] = b"
    by (cases b; simp add: byte_le_7F)+
  then show ?thesis
    using assms
    by (auto simp: encodeString_def rlp_string_def encodeStringHeader_def header_bytes_eq eb_append_def)
qed

lemma length_rlp_string: "length b \<le> length (rlp_string b)"
  by (simp add: rlp_string_def)

lemma wrote_refl: "wrote w w []"
  using wrote_append [of w "[]"] by (simp add: eb_append_def)

lemma wrote_string: "length (rlp_string b) < 2 ^ 64 \<Longrightarrow> wrote w (encodeString b w) (rlp_string b)"
  using length_rlp_string [of b] encodeString_eq [of b w] wrote_append [of w "rlp_string b"] by simp

lemma wrote_in_list:
  assumes "\<And>w. wrote w (fst (write_elems vs w)) E" "length (rlp_list E) < 2 ^ 64"
  shows "wrote w (eb_listEnd (fst (eb_list w)) (fst (write_elems vs (snd (eb_list w))))) (rlp_list E)"
proof (rule wrote_list)
  show "eb_list w = (fst (eb_list w), snd (eb_list w))" by simp
  show "length E < 2 ^ 64" using assms(2) by (simp add: rlp_list_def)
qed (rule assms(1))

lemma writer_wrote:
  "rlp v = Inr E \<Longrightarrow> length E < 2 ^ 64 \<Longrightarrow> wrote w (fst (writer v w)) E"
  "rlps vs = Inr E \<Longrightarrow> length E < 2 ^ 64 \<Longrightarrow> wrote w (fst (write_elems vs w)) E"
proof (induction v and vs arbitrary: w E and w E rule: rlp_rlps.induct)
  case (3 b)
  then show ?case
    using wrote_append [of w "[1]"] wrote_append [of w "[0x80]"]
    by (auto simp: writeBool_def) (simp add: rlp_string_def)
next
  case (4 p)
  then show ?case
    using wrote_append [of w "[0x80]"] wrote_string
    by (auto simp: writeBigIntPtr_def writeBigInt_def split: option.splits if_splits)
next
  case (6 s)
  moreover have "writeString s w = encodeString s w" by (simp add: writeString_def encodeString_def)
  ultimately show ?case using wrote_string by auto
next
  case 7
  then show ?case using wrote_append [of w "[0xC0]"] by (auto simp: rlp_list_def rlp_head_def)
next
  case 8
  then show ?case using wrote_append [of w "[0x80]"] by auto
next
  case 9
  then show ?case using wrote_in_list [of "[]" "[]" w] wrote_refl by (auto split: prod.splits)
next
  case (10 tail vs)
  show ?case
  proof (cases tail)
    case False
    then obtain E' where E: "rlps vs = Inr E'" "E = rlp_list E'" using 10(3) by (cases "rlps vs") auto
    have "wrote w (fst (write_elems vs w)) E'" for w
      using E 10 False by (intro "10.IH") (auto simp: rlp_list_def)
    then show ?thesis using wrote_in_list [of vs E' w] E 10(4) False by (auto split: prod.splits)
  qed (use 10 in auto)
next
  case (11 vs)
  then obtain E' where E: "rlps vs = Inr E'" "E = rlp_list E'" by (cases "rlps vs") auto
  have "wrote w (fst (write_elems vs w)) E'" for w
    using E 11 by (intro "11.IH") (auto simp: rlp_list_def)
  then show ?case using wrote_in_list [of vs E' w] E 11(3) writer_error(2) [of vs "snd (eb_list w)"]
    by (auto split: prod.splits option.splits)
next
  case (13 v vs)
  then obtain E1 E2 where E: "rlp v = Inr E1" "rlps vs = Inr E2" "E = E1 @ E2"
    by (auto split: sum.splits)
  obtain w1 where w1: "writer v w = (w1, None)"
    using writer_error(1) [of v w] E by (cases "writer v w") auto
  have "wrote w w1 E1" using "13.IH"(1) [of E1 w] E w1 "13.prems" by simp
  moreover have "wrote w1 (fst (write_elems vs w1)) E2"
    using "13.IH"(2) [of E1 E2 w1] E "13.prems" by simp
  ultimately show ?case using w1 E wrote_trans by simp
qed (auto simp: writeUint_eq wrote_append wrote_refl wrote_string)

lemma go_copy_prefix: "length src \<le> length dst \<Longrightarrow> go_copy dst src = src @ drop (length src) dst"
  by (simp add: go_copy_def)

lemma toBytes_loop_render:
  assumes "heads_ok strpos (length str) H" "length out = pos + length R"
    "R = render strpos (drop strpos str) H"
  shows "\<exists>out' strpos' pos'. toBytes_loop str H out strpos pos = Some (out', strpos', pos') \<and>
     strpos' \<le> length str \<and> pos' + (length str - strpos') = length out' \<and>
     take pos' out' @ drop strpos' str = take pos out @ R"
  using assms
proof (induction H arbitrary: out strpos pos R)
  case Nil
  then show ?case by simp
next
  case (Cons h H)
  obtain off sz where h: "h = (off, sz)" by (cases h)
  have ok: "strpos \<le> off" "sz < 2 ^ 64" "heads_ok off (length str) H" "off \<le> length str"
    using Cons.prems(1) h heads_ok_le by auto
  define hdr where "hdr = rlp_head 0xC0 0xF7 sz"
  define piece where "piece = take (off - strpos) (drop strpos str)"
  define R' where "R' = render off (drop off str) H"
  define p where "p = pos + (off - strpos)"
  have lp: "length piece = off - strpos" using ok by (simp add: piece_def)
  have R: "R = piece @ hdr @ R'"
    using Cons.prems(3) h ok by (simp add: hdr_def piece_def R'_def)
  then have lo: "length out = p + length hdr + length R'" using Cons.prems(2) lp by (simp add: p_def)
  have sl: "go_slice str strpos off = Some piece" using ok by (simp add: go_slice_ok piece_def)
  have dst: "go_slice out pos (length out) = Some (drop pos out)"
    using lo by (simp add: go_slice_ok p_def)
  define out1 where "out1 = take pos out @ piece @ drop (off - strpos) (drop pos out)"
  have cp: "take pos out @ go_copy (drop pos out) piece = out1"
    using lo lp by (simp add: go_copy_prefix out1_def p_def)
  have n: "min (length (drop pos out)) (length piece) = off - strpos" using lo lp by (simp add: p_def)
  have l1: "length out1 = length out" and t1: "take p out1 = take pos out @ piece"
    using lo lp by (simp_all add: out1_def p_def)
  have dst2: "go_slice out1 p (length out1) = Some (drop p out1)"
    unfolding l1 using lo l1 by (simp add: go_slice_ok)
  have put: "puthead (drop p out1) 0xC0 0xF7 (of_nat sz)
      = Some (hdr @ drop (length hdr) (drop p out1), length hdr)"
    using ok(2) lo l1 by (simp add: puthead_def header_bytes_eq panic_unless_def flip: hdr_def)
  define out2 where "out2 = take p out1 @ hdr @ drop (length hdr) (drop p out1)"
  have step: "toBytes_loop str (h # H) out strpos pos = toBytes_loop str H out2 off (p + length hdr)"
    by (simp only: h toBytes_loop.simps fst_conv snd_conv dst sl cp n dst2 put Let_def
        Option.bind.simps prod.case le_add_diff_inverse [OF ok(1)] flip: p_def out2_def)
  have "length out2 = p + length hdr + length R'" using lo l1 by (simp add: out2_def)
  from Cons.IH [OF ok(3) this R'_def] obtain out' strpos' pos' where
    "toBytes_loop str H out2 off (p + length hdr) = Some (out', strpos', pos')"
    "strpos' \<le> length str" "pos' + (length str - strpos') = length out'"
    "take pos' out' @ drop strpos' str = take (p + length hdr) out2 @ R'" by blast
  moreover have "take (p + length hdr) out2 = take p out1 @ hdr"
    using lo l1 by (simp add: out2_def)
  ultimately show ?case unfolding step R t1 by simp
qed

lemma toBytes_wrote:
  assumes "wrote encbuf_empty w E"
  shows "toBytes w = Some E"
proof -
  obtain X H where w: "w = \<lparr> eb_str = X, eb_lheads = H, eb_lhsize = length E - length X \<rparr>"
    and H: "heads_ok 0 (length X) H" and E: "render 0 X H = E"
    using assms unfolding wrote_def encbuf_empty_def by auto
  have "length X \<le> length E" using length_render [of 0 X H] H E by simp
  then have size: "eb_size w = length E" using w by (simp add: eb_size_def)
  let ?out = "replicate (length E) 0"
  have "length ?out = 0 + length E" "E = render 0 (drop 0 X) H" using E by simp_all
  from toBytes_loop_render [OF H this] obtain out strpos pos
    where loop: "toBytes_loop X H ?out 0 0 = Some (out, strpos, pos)"
      and le: "strpos \<le> length X" "pos + (length X - strpos) = length out"
      and res: "take pos out @ drop strpos X = E" by auto
  have "go_copy (drop pos out) (drop strpos X) = drop strpos X"
    using le by (simp add: go_copy_prefix)
  then show ?thesis
    using le res by (simp add: toBytes_def size [unfolded w] w loop go_slice_ok)
qed

text \<open>The writers and \<open>toBytes\<close> together: no slice is out of range, and the result is the
  reference encoding.\<close>

lemma EncodeToBytes_rlp:
  assumes "\<And>E. rlp v = Inr E \<Longrightarrow> length E < 2 ^ 64"
  shows "EncodeToBytes v = Some (rlp v)"
proof (cases "rlp v")
  case (Inl e)
  then show ?thesis using writer_error(1) [of v encbuf_empty]
    by (auto simp: EncodeToBytes_def split: prod.splits)
next
  case (Inr E)
  then have "toBytes (fst (writer v encbuf_empty)) = Some E"
    using assms by (intro toBytes_wrote writer_wrote)
  then show ?thesis using Inr writer_error(1) [of v encbuf_empty]
    by (auto simp: EncodeToBytes_def split: prod.splits)
qed

section \<open>Splitting is exact\<close>

lemma or_disjoint:
  fixes a r :: int
  assumes "0 \<le> r" "r < 2 ^ n"
  shows "push_bit n a OR r = a * 2 ^ n + r"
proof -
  have "r = take_bit n r" using assms by (simp add: take_bit_int_eq_self)
  then have r: "bit r m \<Longrightarrow> m < n" for m by (metis bit_take_bit_iff)
  have "push_bit n a AND r = 0"
    by (rule bit_eqI) (use r in \<open>fastforce simp: bit_simps\<close>)
  then show ?thesis using disjunctive_add_eq_or [of "push_bit n a" r] by (simp add: push_bit_eq_mult)
qed

lemma SetBytes_Cons: "SetBytes (b # bs) = uint b * 256 ^ length bs + SetBytes bs"
  using SetBytes_append [of "[b]" bs] SetBytes_snoc [of "[]" b] by simp

lemma uint_shifted_or: "length bs \<le> 8 \<Longrightarrow> uint (shifted_or bs) = SetBytes bs"
proof (induction bs)
  case (Cons b bs)
  let ?n = "8 * length bs"
  have p: "(256 :: int) ^ length bs = 2 ^ ?n" by (simp add: power_mult)
  have ub: "uint (ucast b :: uint64) = uint b" using uint_lt2p [of b] by (simp add: unsigned_ucast_eq take_bit_int_eq_self)
  have "uint b * 2 ^ ?n < 2 ^ 8 * 2 ^ ?n" using uint_lt2p [of b] by simp
  also have "\<dots> = 2 ^ (8 + ?n)" by (simp add: power_add)
  also have "\<dots> \<le> 2 ^ 64" using Cons.prems by (intro power_increasing) auto
  finally have "uint b * 2 ^ ?n < 2 ^ 64" .
  then have "uint (push_bit ?n (ucast b) :: uint64) = push_bit ?n (uint b)"
    by (subst unsigned_push_bit_eq) (simp add: ub push_bit_eq_mult take_bit_int_eq_self)
  then show ?case
    using Cons SetBytes_nonneg [of bs] SetBytes_bound [of bs]
    by (simp add: uint_or or_disjoint SetBytes_Cons p)
qed simp

lemma BigBytes_SetBytes:
  assumes "bs = [] \<or> hd bs \<noteq> 0"
  shows "BigBytes (SetBytes bs) = bs"
proof (cases bs)
  case (Cons b bs')
  have "uint b \<noteq> 0" using Cons assms by (simp add: uint_0_iff)
  then have "1 \<le> uint b" using uint_ge_0 [of b] by linarith
  then have "256 ^ length bs' \<le> uint b * 256 ^ length bs'" by simp
  then have "256 ^ length bs' \<le> uint b * 256 ^ length bs' + SetBytes bs'"
    using SetBytes_nonneg [of bs'] by linarith
  then have "2 ^ (8 * (length bs - 1)) \<le> SetBytes bs"
    using Cons by (simp add: SetBytes_Cons power_mult)
  moreover have "SetBytes bs < 2 ^ (8 * length bs)" using SetBytes_bound [of bs] by (simp add: power_mult)
  ultimately have "BigBytes (SetBytes bs) = be_bytes (length bs) (SetBytes bs)"
    using Cons by (intro BigBytes_width) auto
  then show ?thesis by (simp add: be_bytes_SetBytes)
qed simp

lemma hd_BigBytes:
  assumes "0 < x"
  shows "BigBytes x \<noteq> []" "hd (BigBytes x) \<noteq> 0"
proof -
  have s: "SetBytes (BigBytes x) = x" using assms by (simp add: SetBytes_BigBytes)
  then show ne: "BigBytes x \<noteq> []" using assms by force
  show "hd (BigBytes x) \<noteq> 0"
  proof
    assume 0: "hd (BigBytes x) = 0"
    obtain bs where bs: "BigBytes x = 0 # bs" using ne 0 by (cases "BigBytes x") auto
    then have "SetBytes bs = x" using s by (simp add: SetBytes_Cons)
    then have "x < 256 ^ length bs" using SetBytes_bound [of bs] by simp
    then have "BitLen x \<le> 8 * length bs" using assms by (simp add: BitLen_le_iff power_mult)
    then have "length (BigBytes x) \<le> length bs" by (simp add: BigBytes_def)
    then show False using bs by simp
  qed
qed

lemma readSize_Inr:
  assumes "1 \<le> unat slen" "unat slen \<le> 8"
  shows "readSize b slen = Inr s \<longleftrightarrow>
    unat slen \<le> length b \<and> 56 \<le> unat s \<and> take (unat slen) b = BigBytes (int (unat s)) \<and>
    unat slen = length (BigBytes (int (unat s)))"
proof -
  let ?t = "take (unat slen) b"
  have sl: "1 \<le> slen \<and> slen \<le> 8" using assms by (simp add: word_le_nat_alt)
  have len: "unat slen \<le> length b \<Longrightarrow> length ?t = unat slen" by simp
  have "56 \<le> unat s \<and> ?t = BigBytes (int (unat s)) \<and> unat slen = length (BigBytes (int (unat s)))
      \<longleftrightarrow> shifted_or ?t = s \<and> \<not> (s < 56 \<or> b ! 0 = 0)" if le: "unat slen \<le> length b"
  proof -
    have hd: "?t \<noteq> []" "hd ?t = b ! 0" using assms le by (cases b; cases "unat slen"; auto)+
    have u: "uint (shifted_or ?t) = SetBytes ?t" using assms by (intro uint_shifted_or) simp
    have w: "s < 56 \<longleftrightarrow> \<not> 56 \<le> unat s" by (simp add: word_less_nat_alt not_le)
    show ?thesis
    proof
      assume A: "56 \<le> unat s \<and> ?t = BigBytes (int (unat s)) \<and> unat slen = length (BigBytes (int (unat s)))"
      then have "SetBytes ?t = uint s" using SetBytes_BigBytes [of "int (unat s)"] by auto
      then have "shifted_or ?t = s" using u by (metis word_uint_eq_iff)
      moreover have "?t = BigBytes (int (unat s))" "0 < int (unat s)" using A by (blast, linarith)
      then have "b ! 0 \<noteq> 0" using hd(2) hd_BigBytes(2) by metis
      ultimately show "shifted_or ?t = s \<and> \<not> (s < 56 \<or> b ! 0 = 0)" using A w by simp
    next
      assume A: "shifted_or ?t = s \<and> \<not> (s < 56 \<or> b ! 0 = 0)"
      then have "SetBytes ?t = int (unat s)" using u by simp
      then have "BigBytes (int (unat s)) = ?t" using BigBytes_SetBytes [of ?t] hd A by simp
      then show "56 \<le> unat s \<and> ?t = BigBytes (int (unat s)) \<and> unat slen = length (BigBytes (int (unat s)))"
        using A w len [OF le] by simp
    qed
  qed
  then show ?thesis using sl by (auto simp: readSize_def Let_def)
qed

text \<open>The encoding a raw value has: its kind fixes the header.\<close>

fun raw_enc :: "Kind \<Rightarrow> bytes \<Rightarrow> bytes" where
  "raw_enc KList c = rlp_list c"
| "raw_enc _ c = rlp_string c"

fun kind_ok :: "Kind \<Rightarrow> bytes \<Rightarrow> bool" where
  "kind_ok KList c \<longleftrightarrow> True"
| "kind_ok KByte c \<longleftrightarrow> length c = 1 \<and> hd c < 0x80"
| "kind_ok KString c \<longleftrightarrow> \<not> (length c = 1 \<and> hd c < 0x80)"

text \<open>The header \<open>readKind\<close> reads: the bytes in front of the content.\<close>

fun raw_head :: "Kind \<Rightarrow> nat \<Rightarrow> bytes" where
  "raw_head KByte n = []"
| "raw_head KString n = rlp_head 0x80 0xB7 n"
| "raw_head KList n = rlp_head 0xC0 0xF7 n"

lemma raw_enc_head: "kind_ok k c \<Longrightarrow> raw_enc k c = raw_head k (length c) @ c"
  by (cases k) (auto simp: rlp_string_def rlp_list_def)

lemma unat_byte_diff: "(a :: byte) \<le> b \<Longrightarrow> unat (b - a) = unat b - unat a"
  by (simp add: unat_sub_if' word_le_nat_alt)

lemma byte_eq_add:
  assumes "n < 256 - unat a"
  shows "(b :: byte) = a + of_nat n \<longleftrightarrow> unat b = unat a + n"
proof -
  have "unat (a + of_nat n) = unat a + n"
    using assms by (simp add: unat_word_ariths unsigned_of_nat take_bit_nat_eq_self)
  then show ?thesis by (metis word_unat_eq_iff)
qed

lemma length_BigBytes_64: "0 \<le> x \<Longrightarrow> x < 2 ^ 64 \<Longrightarrow> length (BigBytes x) \<le> 8"
  using BitLen_le_iff [of x 64] by (simp add: BigBytes_def)

lemma length_BigBytes_pos: "0 < x \<Longrightarrow> 0 < length (BigBytes x)"
  using hd_BigBytes(1) [of x] by simp

lemma ucast_byte_64: "unat (ucast (b :: byte) :: uint64) = unat b"
  using unsigned_less [of b, where 'a = nat] by (simp add: unsigned_ucast_eq take_bit_nat_eq_self)

lemma unat_of_nat_64: "n < 2 ^ 64 \<Longrightarrow> unat (of_nat n :: uint64) = n"
  by (simp add: unsigned_of_nat take_bit_nat_eq_self)

lemma value_fits:
  assumes "length buf < 2 ^ 64" "unat ts \<le> length buf"
  shows "(cs :: uint64) > of_nat (length buf) - ts \<longleftrightarrow> length buf < unat ts + unat cs"
proof -
  have "unat (of_nat (length buf) - ts) = length buf - unat ts"
    using assms by (simp add: unat_sub_if' unsigned_of_nat take_bit_nat_eq_self)
  then show ?thesis using assms(2) by (simp add: word_less_nat_alt) linarith
qed

lemma unat_byte_tag: "unat (a :: byte) \<le> unat b \<Longrightarrow> unat (ucast (b - a) :: uint64) = unat b - unat a"
  by (simp only: ucast_byte_64) (simp add: unat_byte_diff word_le_nat_alt)

lemma unat_byte_tag_1:
  assumes "unat (a :: byte) \<le> unat b"
  shows "unat (ucast (b - a) + 1 :: uint64) = Suc (unat b - unat a)"
proof -
  have "unat b - unat a < 256" using unsigned_less [of b, where 'a = nat] by simp
  then show ?thesis using unat_byte_tag [OF assms] unat_add_no_wrap [of "ucast (b - a)" 1] by simp
qed

lemma readSize_bound: "readSize bs x = Inr cs \<Longrightarrow> unat x \<le> length bs"
  by (auto simp: readSize_def split: if_splits)

text \<open>The tag byte decides the kind: one lemma for each \<open>case\<close> of the \<open>switch\<close>.\<close>

lemma readKind_raw_byte: "unat b < 0x80 \<Longrightarrow> length (b # bs) < 2 ^ 64 \<Longrightarrow> readKind_raw (b # bs) = Inr (KByte, 0, 1)"
  using value_fits [of "b # bs" 0 1] by (simp add: readKind_raw_def word_less_nat_alt)

lemma readKind_raw_short_string:
  assumes "length (b # bs) < 2 ^ 64" "0x80 \<le> unat b" "unat b < 0xB8"
  shows "readKind_raw (b # bs) =
       (if unat b = 0x81 \<and> bs \<noteq> [] \<and> hd bs < 0x80 then Inl ErrCanonSize
        else if length bs < unat b - 0x80 then Inl ErrValueTooLarge
        else Inr (KString, 1, ucast (b - 0x80)))"
proof -
  note tag = unat_byte_tag [of "0x80" b]
  have "ucast (b - 0x80) = (1 :: uint64) \<longleftrightarrow> unat b = 0x81"
    using tag assms by (auto simp: word_unat_eq_iff)
  moreover have "length (b # bs) > 1 \<and> (b # bs) ! 1 < 128 \<longleftrightarrow> bs \<noteq> [] \<and> hd bs < 0x80"
    by (cases bs) auto
  moreover have "of_nat (length (b # bs)) - 1 < (ucast (b - 0x80) :: uint64) \<longleftrightarrow> length bs < unat b - 0x80"
    using value_fits [of "b # bs" 1 "ucast (b - 0x80)"] tag assms by simp
  moreover have "\<not> b < 0x80" "b < 0xB8" using assms by (simp_all add: word_less_nat_alt)
  ultimately show ?thesis unfolding readKind_raw_def Let_def nth_Cons_0 by simp
qed

lemma readKind_raw_short_list:
  assumes "length (b # bs) < 2 ^ 64" "0xC0 \<le> unat b" "unat b < 0xF8"
  shows "readKind_raw (b # bs) =
       (if length bs < unat b - 0xC0 then Inl ErrValueTooLarge
        else Inr (KList, 1, ucast (b - 0xC0)))"
proof -
  have "of_nat (length (b # bs)) - 1 < (ucast (b - 0xC0) :: uint64) \<longleftrightarrow> length bs < unat b - 0xC0"
    using value_fits [of "b # bs" 1 "ucast (b - 0xC0)"] unat_byte_tag [of "0xC0" b] assms by simp
  moreover have "\<not> b < 0x80" "\<not> b < 0xB8" "\<not> b < 0xC0" "b < 0xF8"
    using assms by (simp_all add: word_less_nat_alt)
  ultimately show ?thesis unfolding readKind_raw_def Let_def nth_Cons_0 by simp
qed

lemma long_fits:
  assumes "length (b # bs) < 2 ^ 64" "unat t \<le> unat b" "readSize bs (b - t) = Inr cs"
  shows "of_nat (length (b # bs)) - (ucast (b - t) + 1) < cs \<longleftrightarrow> length bs < unat b - unat t + unat cs"
  using value_fits [of "b # bs" "ucast (b - t) + 1" cs] unat_byte_tag_1 [of t b] assms(1,2)
    readSize_bound [OF assms(3)] unat_byte_diff [of t b]
  by (simp add: word_le_nat_alt)

lemma readKind_raw_long_string:
  assumes "length (b # bs) < 2 ^ 64" "0xB8 \<le> unat b" "unat b < 0xC0"
  shows "readKind_raw (b # bs) =
       (case readSize bs (b - 0xB7) of Inl e \<Rightarrow> Inl e
        | Inr cs \<Rightarrow> if length bs < unat b - 0xB7 + unat cs then Inl ErrValueTooLarge
                    else Inr (KString, ucast (b - 0xB7) + 1, cs))"
proof -
  have "\<not> b < 0x80" "\<not> b < 0xB8" "b < 0xC0" using assms by (simp_all add: word_less_nat_alt)
  then show ?thesis using long_fits [OF assms(1), of "0xB7"] assms(2)
    unfolding readKind_raw_def Let_def nth_Cons_0 by (simp split: sum.splits)
qed

lemma readKind_raw_long_list:
  assumes "length (b # bs) < 2 ^ 64" "0xF8 \<le> unat b"
  shows "readKind_raw (b # bs) =
       (case readSize bs (b - 0xF7) of Inl e \<Rightarrow> Inl e
        | Inr cs \<Rightarrow> if length bs < unat b - 0xF7 + unat cs then Inl ErrValueTooLarge
                    else Inr (KList, ucast (b - 0xF7) + 1, cs))"
proof -
  have "\<not> b < 0x80" "\<not> b < 0xB8" "\<not> b < 0xC0" "\<not> b < 0xF8"
    using assms by (simp_all add: word_less_nat_alt)
  then show ?thesis using long_fits [OF assms(1), of "0xF7"] assms(2)
    unfolding readKind_raw_def Let_def nth_Cons_0 by (simp split: sum.splits)
qed

lemma head_long:
  assumes "56 \<le> n" "(b :: byte) = large + of_nat (length (BigBytes (int n)))"
  shows "rlp_head small large n = b # BigBytes (int n)"
  using assms by (simp add: rlp_head_def)

lemma readSize_split:
  assumes "readSize bs (b - t) = Inr cs" "unat t < unat b" "unat b \<le> unat t + 8"
    "\<not> length bs < unat b - unat t + unat cs"
  shows "\<exists>c rest. bs = BigBytes (int (length c)) @ c @ rest \<and> unat cs = length c \<and> 56 \<le> length c \<and>
    unat b - unat t = length (BigBytes (int (length c)))"
proof -
  have sl: "unat (b - t) = unat b - unat t" using assms(2) by (simp add: unat_byte_diff word_le_nat_alt)
  define c where "c = take (unat cs) (drop (unat b - unat t) bs)"
  have lc: "length c = unat cs" using assms(4) by (simp add: c_def)
  have "1 \<le> unat (b - t)" "unat (b - t) \<le> 8" using assms(2,3) sl by simp_all
  from readSize_Inr [OF this, THEN iffD1, OF assms(1), unfolded sl]
  have r: "56 \<le> length c" "take (unat b - unat t) bs = BigBytes (int (length c))"
    "unat b - unat t = length (BigBytes (int (length c)))" unfolding lc by blast+
  have "drop (unat b - unat t) bs = c @ drop (unat cs) (drop (unat b - unat t) bs)"
    by (simp only: c_def append_take_drop_id)
  then have "bs = BigBytes (int (length c)) @ c @ drop (unat cs) (drop (unat b - unat t) bs)"
    using append_take_drop_id [of "unat b - unat t" bs] r(2) by (simp only:)
  then show ?thesis using r(1,3) lc [symmetric] by blast
qed

lemma byte_tag_add: "unat t \<le> unat (b :: byte) \<Longrightarrow> b = t + of_nat (unat b - unat t)"
  using byte_eq_add [of "unat b - unat t" t b] unsigned_less [of b, where 'a = nat] by simp

lemma short_sound:
  assumes "unat t \<le> unat b" "unat b < unat t + 56" "\<not> length bs < unat b - unat t"
  shows "b # bs = rlp_head t l (unat b - unat t) @ take (unat b - unat t) bs @ drop (unat b - unat t) bs"
    "length (rlp_head t l (unat b - unat t)) = 1"
proof -
  have "unat b - unat t < 56" using assms by linarith
  then show "b # bs = rlp_head t l (unat b - unat t) @ take (unat b - unat t) bs @ drop (unat b - unat t) bs"
    "length (rlp_head t l (unat b - unat t)) = 1"
    using byte_tag_add [OF assms(1)] by (simp_all add: rlp_head_def)
qed

lemma long_sound:
  assumes "readSize bs (b - t) = Inr cs" "unat t < unat b" "unat b \<le> unat t + 8"
    "\<not> length bs < unat b - unat t + unat cs"
  shows "\<exists>c rest. b # bs = rlp_head s t (length c) @ c @ rest \<and> unat cs = length c \<and> 56 \<le> length c \<and>
    Suc (unat b - unat t) = length (rlp_head s t (length c))"
proof -
  obtain c rest where c: "bs = BigBytes (int (length c)) @ c @ rest" "unat cs = length c"
    "56 \<le> length c" "unat b - unat t = length (BigBytes (int (length c)))"
    using readSize_split [OF assms] by blast
  then have "rlp_head s t (length c) = b # BigBytes (int (length c))"
    using byte_tag_add [of t b] assms(2) by (intro head_long) simp_all
  then show ?thesis using c by (intro exI [of _ c] exI [of _ rest]) simp
qed

lemma readKind_raw_sound:
  assumes "readKind_raw buf = Inr (k, ts, cs)" "length buf < 2 ^ 64"
  shows "\<exists>c rest. buf = raw_head k (length c) @ c @ rest \<and> kind_ok k c \<and>
    unat cs = length c \<and> unat ts = length (raw_head k (length c))"
proof -
  obtain b bs where buf: "buf = b # bs" using assms(1) by (cases buf) (auto simp: readKind_raw_def)
  note len = assms(2) [unfolded buf] and r = assms(1) [unfolded buf]
  consider "unat b < 0x80" | "0x80 \<le> unat b" "unat b < 0xB8" | "0xB8 \<le> unat b" "unat b < 0xC0"
    | "0xC0 \<le> unat b" "unat b < 0xF8" | "0xF8 \<le> unat b" by linarith
  then show ?thesis
  proof cases
    case 1
    then have "k = KByte" "ts = 0" "cs = 1" "b < 0x80" "buf = [b] @ bs"
      using r readKind_raw_byte [OF _ len] buf by (auto simp: word_less_nat_alt)
    then show ?thesis by (intro exI [of _ "[b]"] exI [of _ bs]) simp
  next
    case 2
    let ?m = "unat b - 0x80"
    have e: "k = KString" "ts = 1" "cs = ucast (b - 0x80)" "\<not> length bs < ?m"
      "\<not> (unat b = 0x81 \<and> bs \<noteq> [] \<and> hd bs < 0x80)"
      using r readKind_raw_short_string [OF len 2] by (auto split: if_splits)
    have "unat cs = ?m" using e(3) 2 unat_byte_tag [of "0x80" b] by simp
    moreover have "kind_ok k (take ?m bs)" using e by (cases bs) (auto simp: take_Cons')
    ultimately show ?thesis using e(1,2,4) buf 2 short_sound [of "0x80" b bs "0xB7"]
      by (intro exI [of _ "take ?m bs"] exI [of _ "drop ?m bs"]) simp
  next
    case 3
    then have e: "k = KString" "unat ts = Suc (unat b - 0xB7)" "readSize bs (b - 0xB7) = Inr cs"
      "\<not> length bs < unat b - 0xB7 + unat cs"
      using r readKind_raw_long_string [OF len 3] unat_byte_tag_1 [of "0xB7" b]
      by (auto split: if_splits sum.splits)
    then show ?thesis using long_sound [of bs b "0xB7" cs "0x80"] 3 buf by fastforce
  next
    case 4
    let ?m = "unat b - 0xC0"
    have e: "k = KList" "ts = 1" "cs = ucast (b - 0xC0)" "\<not> length bs < ?m"
      using r readKind_raw_short_list [OF len 4] by (auto split: if_splits)
    then show ?thesis
      using e(1,2,4) buf 4 short_sound [of "0xC0" b bs "0xF7"] unat_byte_tag [of "0xC0" b]
      by (intro exI [of _ "take ?m bs"] exI [of _ "drop ?m bs"]) simp
  next
    case 5
    then have e: "k = KList" "unat ts = Suc (unat b - 0xF7)" "readSize bs (b - 0xF7) = Inr cs"
      "\<not> length bs < unat b - 0xF7 + unat cs"
      using r readKind_raw_long_list [OF len 5] unat_byte_tag_1 [of "0xF7" b]
      by (auto split: if_splits sum.splits)
    then show ?thesis using long_sound [of bs b "0xF7" cs "0xC0"] 5 buf
        unsigned_less [of b, where 'a = nat] by fastforce
  qed
qed

lemma short_tag:
  assumes "n < 56" "unat (t :: byte) + 56 \<le> 256"
  shows "rlp_head t l n = [t + of_nat n]" "unat (t + of_nat n) = unat t + n"
proof -
  show "rlp_head t l n = [t + of_nat n]" using assms by (simp add: rlp_head_def)
  show "unat (t + of_nat n) = unat t + n"
    using byte_eq_add [of n t "t + of_nat n"] assms unsigned_less [of t, where 'a = nat] by simp
qed

lemma long_tag:
  assumes "56 \<le> n" "n < 2 ^ 64" "unat (t :: byte) + 8 < 256"
  defines "B \<equiv> BigBytes (int n)"
  shows "rlp_head s t n = (t + of_nat (length B)) # B" "unat (t + of_nat (length B)) = unat t + length B"
    "readSize (B @ xs) (t + of_nat (length B) - t) = Inr (of_nat n)" "1 \<le> length B" "length B \<le> 8"
proof -
  show l1: "1 \<le> length B" unfolding B_def using length_BigBytes_pos [of "int n"] assms(1) by linarith
  show l8: "length B \<le> 8" unfolding B_def using length_BigBytes_64 [of "int n"] assms(2) by simp
  show "rlp_head s t n = (t + of_nat (length B)) # B" using assms(1) by (simp add: rlp_head_def B_def)
  show "unat (t + of_nat (length B)) = unat t + length B"
    using byte_eq_add [of "length B" t "t + of_nat (length B)"] l8 assms(3) by simp
  have u: "unat (of_nat (length B) :: byte) = length B"
    using l8 by (simp add: unsigned_of_nat take_bit_nat_eq_self)
  then have "readSize (B @ xs) (of_nat (length B)) = Inr (of_nat n)"
    using readSize_Inr [of "of_nat (length B)" "B @ xs" "of_nat n"] l1 l8 assms(1,2) unat_of_nat_64 [of n]
      uint_of_nat_64 [of n]
    by (simp add: B_def)
  then show "readSize (B @ xs) (t + of_nat (length B) - t) = Inr (of_nat n)" by simp
qed

lemma ucast_tag: "n < 256 \<Longrightarrow> ucast (t + of_nat n - t :: byte) = (of_nat n :: uint64)"
  by (rule word_unat_eq_iff [THEN iffD2])
    (simp add: ucast_byte_64 unsigned_of_nat take_bit_nat_eq_self)

lemma readKind_raw_complete:
  assumes "buf = raw_head k (length c) @ c @ rest" "kind_ok k c" "length buf < 2 ^ 64"
  shows "\<exists>ts. readKind_raw buf = Inr (k, ts, of_nat (length c)) \<and>
    unat ts = length (raw_head k (length c))"
proof -
  have n: "length c < 2 ^ 64" using assms(1,3) by simp
  let ?B = "BigBytes (int (length c))"
  consider (b) "k = KByte" | (ss) "k = KString" "length c < 56" | (sl) "k = KList" "length c < 56"
    | (ls) "k = KString" "56 \<le> length c" | (ll) "k = KList" "56 \<le> length c"
    by (cases k; cases "length c < 56") (auto simp: not_less)
  then show ?thesis
  proof cases
    case b
    then obtain x where "c = [x]" "x < 0x80" using assms(2) by (cases c) auto
    then show ?thesis using assms b readKind_raw_byte [of x rest] by (simp add: word_less_nat_alt)
  next
    case ss
    note t = short_tag [of "length c" "0x80"]
    have "ucast (0x80 + of_nat (length c) - 0x80 :: byte) = (of_nat (length c) :: uint64)"
      using ss(2) by (intro ucast_tag) simp
    moreover have "\<not> (length c = 1 \<and> c @ rest \<noteq> [] \<and> hd (c @ rest) < 0x80)"
      using assms(2) ss(1) by (cases c) auto
    ultimately show ?thesis
      using readKind_raw_short_string [of "0x80 + of_nat (length c)" "c @ rest"] t ss assms(1,3)
      by simp
  next
    case sl
    note t = short_tag [of "length c" "0xC0"]
    have "ucast (0xC0 + of_nat (length c) - 0xC0 :: byte) = (of_nat (length c) :: uint64)"
      using sl(2) by (intro ucast_tag) simp
    then show ?thesis
      using readKind_raw_short_list [of "0xC0 + of_nat (length c)" "c @ rest"] t sl assms(1,3) by simp
  next
    case ls
    note t = long_tag [of "length c" "0xB7", OF ls(2) n]
    then show ?thesis
      using readKind_raw_long_string [of "0xB7 + of_nat (length ?B)" "?B @ c @ rest"] ls assms(1,3)
        unat_byte_tag_1 [of "0xB7" "0xB7 + of_nat (length ?B)"] unat_of_nat_64 [OF n]
      by simp
  next
    case ll
    note t = long_tag [of "length c" "0xF7", OF ll(2) n]
    then show ?thesis
      using readKind_raw_long_list [of "0xF7 + of_nat (length ?B)" "?B @ c @ rest"] ll assms(1,3)
        unat_byte_tag_1 [of "0xF7" "0xF7 + of_nat (length ?B)"] unat_of_nat_64 [OF n]
      by simp
  qed
qed

text \<open>\<open>Split\<close> never slices out of range, and it succeeds on exactly the canonical encodings.\<close>

lemma Split_complete:
  assumes "kind_ok k c" "length (raw_enc k c @ rest) < 2 ^ 64"
  shows "Split (raw_enc k c @ rest) = Some (Inr (k, c, rest))"
proof -
  let ?h = "raw_head k (length c)"
  have e: "raw_enc k c @ rest = ?h @ c @ rest" using assms(1) by (simp add: raw_enc_head)
  have len: "length (?h @ c @ rest) < 2 ^ 64" using assms(2) e by simp
  obtain ts where "readKind_raw (?h @ c @ rest) = Inr (k, ts, of_nat (length c))" "unat ts = length ?h"
    using readKind_raw_complete [OF refl assms(1) len] by blast
  moreover have "unat (ts + of_nat (length c)) = length ?h + length c"
    using \<open>unat ts = length ?h\<close> len by (simp add: unat_add_no_wrap unat_of_nat_64)
  ultimately show ?thesis unfolding e Split_def by (simp add: go_slice_ok)
qed

lemma Split_cases:
  assumes "length b < 2 ^ 64"
  shows "(\<exists>e. Split b = Some (Inl e)) \<or>
    (\<exists>k c rest. Split b = Some (Inr (k, c, rest)) \<and> b = raw_enc k c @ rest \<and> kind_ok k c)"
proof (cases "readKind_raw b")
  case (Inl e)
  then show ?thesis by (simp add: Split_def)
next
  case (Inr r)
  obtain k ts cs where r: "r = (k, ts, cs)" by (cases r)
  obtain c rest where "b = raw_head k (length c) @ c @ rest" "kind_ok k c"
    using readKind_raw_sound [of b k ts cs] Inr r assms by blast
  then have "b = raw_enc k c @ rest" "kind_ok k c" by (simp_all add: raw_enc_head)
  then show ?thesis using Split_complete [of k c rest] assms by blast
qed

lemma raw_enc_nonempty: "kind_ok k c \<Longrightarrow> raw_enc k c \<noteq> []"
  by (cases k) (auto simp: rlp_string_def rlp_list_def rlp_head_def)

lemma CountValues_loop_total:
  assumes "length b < 2 ^ 64" "length b < fuel"
  shows "CountValues_loop fuel i b \<noteq> None"
  using assms
proof (induction fuel arbitrary: i b)
  case (Suc fuel)
  show ?case
  proof (cases "readKind_raw b")
    case (Inr r)
    obtain k ts cs where r: "r = (k, ts, cs)" by (cases r)
    obtain c rest where b: "b = raw_head k (length c) @ c @ rest" "kind_ok k c" "unat cs = length c"
      "unat ts = length (raw_head k (length c))"
      using readKind_raw_sound [of b k ts cs] Inr r Suc.prems by blast
    then have u: "unat (ts + cs) = length (raw_head k (length c)) + length c"
      using Suc.prems by (simp add: unat_add_no_wrap)
    have "raw_head k (length c) @ c \<noteq> []" using b(2) raw_enc_nonempty raw_enc_head by metis
    then have "length rest < fuel" using b Suc.prems by (cases "raw_head k (length c)"; cases c) auto
    then show ?thesis using Suc.IH [of rest] Inr r u b Suc.prems by (auto simp: go_slice_ok)
  qed simp
qed simp

section \<open>Properties\<close>

text \<open>C17: The encoder writes exactly the RLP encoding. Although string data and list headers are
  collected in separate buffers and each header is only completed after the list it precedes,
  \<open>EncodeToBytes\<close> never indexes out of range on a value of the kinds in \<open>goval\<close>: it returns the
  error of \<open>writeBigInt\<close> when the value contains a negative big integer, and otherwise the reference
  encoding of the value, provided that encoding is shorter than \<open>2 ^ 64\<close> bytes. Values with an
  \<open>EncodeRLP\<close> method of their own and values of the types \<open>makeWriter\<close> refuses, which fail in other
  ways, are outside \<open>goval\<close> and outside this statement. Booleans are inside it: they are written as
  one byte, whatever the comment on \<open>Encode\<close> says.\<close>

theorem EncodeToBytes_correct:
  assumes "case rlp v of Inl _ \<Rightarrow> True | Inr E \<Rightarrow> length E < 2 ^ 64"
  shows "EncodeToBytes v = Some (rlp v)"
proof (rule EncodeToBytes_rlp)
  show "length E < 2 ^ 64" if "rlp v = Inr E" for E using assms that by (simp only: sum.case)
qed

theorem EncodeToBytes_correct_witness:
  "EncodeToBytes (StructVal [UintVal 1024, SliceVal False [BytesVal [1], StringVal [1, 2]], NilListPtr])
     = Some (Inr [0xC9, 0x82, 4, 0, 0xC4, 1, 0x82, 1, 2, 0xC0])"
proof -
  let ?v = "StructVal [UintVal 1024, SliceVal False [BytesVal [1], StringVal [1, 2]], NilListPtr]"
  have v: "rlp ?v = Inr [0xC9, 0x82, 4, 0, 0xC4, 1, 0x82, 1, 2, 0xC0]"
    by (simp add: rlp_list_def rlp_head_def rlp_string_def BigBytes_ranges be_bytes_numeral)
  have "case rlp ?v of Inl _ \<Rightarrow> True | Inr E \<Rightarrow> length E < 2 ^ 64"
    by (simp only: v sum.case) simp
  from EncodeToBytes_correct [OF this] show ?thesis by (simp only: v)
qed

text \<open>C37: \<open>Split\<close> is exact. On every input of less than \<open>2 ^ 64\<close> bytes it stays inside the
  slice, and it returns kind, content and rest exactly when the input starts with the canonical
  encoding of that content: a single byte below \<open>0x80\<close> stands for itself, every other string and
  every list has the shortest possible header.\<close>

theorem Split_exact:
  assumes "length b < 2 ^ 64"
  shows "Split b \<noteq> None \<and>
    (Split b = Some (Inr (k, c, rest)) \<longleftrightarrow> b = raw_enc k c @ rest \<and> kind_ok k c)"
proof (intro conjI iffI)
  show "Split b \<noteq> None" using Split_cases [OF assms] by force
  show "Split b = Some (Inr (k, c, rest))" if b: "b = raw_enc k c @ rest \<and> kind_ok k c"
    using Split_complete [of k c rest] assms b by blast
  show "b = raw_enc k c @ rest" "kind_ok k c" if s: "Split b = Some (Inr (k, c, rest))"
    using Split_cases [OF assms] unfolding s by blast+
qed

theorem Split_exact_witness:
  "Split [0xC2, 1, 2, 9] = Some (Inr (KList, [1, 2], [9])) \<and> Split [0x81, 0x05] \<noteq> None"
proof -
  have e: "[0xC2, 1, 2, 9] = raw_enc KList [1, 2] @ [9] \<and> kind_ok KList [1, 2]"
    by (simp add: rlp_list_def rlp_head_def)
  have l: "length [0xC2 :: byte, 1, 2, 9] < 2 ^ 64" "length [0x81 :: byte, 0x05] < 2 ^ 64" by simp_all
  show ?thesis using Split_exact [OF l(1)] Split_exact [OF l(2)] e by blast
qed
end
