(* ===== verification/RLP_Decode.thy ===== *)
theory RLP_Decode
  imports RLP_Encode
begin

text \<open>The RLP codec, second half: the streaming decoder of \<open>rlp/decode.go\<close>. A \<open>Stream\<close> reads
  from a byte slice, tracks the lists it is inside of and remembers the kind of the value ahead; on
  top of it stand the decoders that \<open>makeDecoder\<close> selects for a type. The types are \<open>gotype\<close>
  descriptors, the decoded values \<open>goval\<close> trees. The theory holds definitions only: the state uses
  the decoder to read accounts. A loop over the elements of a list takes fuel, because the loop of the
  source need not end: the decoder of one-byte arrays ignores the error of \<open>Uint\<close>, which consumes
  nothing.\<close>

section \<open>The stream\<close>

text \<open>\<open>st_kind\<close> is \<open>None\<close> for the value \<open>-1\<close> that asks for the next header; the list stack
  has the innermost list first, each entry its position and size. The scratch buffer for integers
  is not part of the state.\<close>

record Stream =
  st_r :: bytes
  st_remaining :: uint64
  st_limited :: bool
  st_kind :: "Kind option"
  st_size :: uint64
  st_byteval :: byte
  st_kinderr :: "rlp_error option"
  st_stack :: "(uint64 \<times> uint64) list"

definition NewStream :: "bytes \<Rightarrow> uint64 \<Rightarrow> Stream" where
  "NewStream r inputLimit =
     \<lparr> st_r = r, st_remaining = (if inputLimit > 0 then inputLimit else of_nat (length r)),
       st_limited = True, st_kind = None, st_size = 0, st_byteval = 0, st_kinderr = None,
       st_stack = [] \<rparr>"

definition willRead :: "uint64 \<Rightarrow> Stream \<Rightarrow> Stream \<times> rlp_error option" where
  "willRead n s =
     (let s = s\<lparr> st_kind := None \<rparr>
      in case (case st_stack s of [] \<Rightarrow> Inr s
               | (pos, sz) # rest \<Rightarrow>
                   if n > sz - pos then Inl ErrElemTooLarge
                   else Inr (s\<lparr> st_stack := (pos + n, sz) # rest \<rparr>)) of
           Inl e \<Rightarrow> (s, Some e)
         | Inr s \<Rightarrow>
             if st_limited s
             then if n > st_remaining s then (s, Some ErrValueTooLarge)
                  else (s\<lparr> st_remaining := st_remaining s - n \<rparr>, None)
             else (s, None))"

definition readByte :: "Stream \<Rightarrow> Stream \<times> (rlp_error + byte)" where
  "readByte s =
     (case willRead 1 s of (s, Some e) \<Rightarrow> (s, Inl e)
      | (s, None) \<Rightarrow>
          (case st_r s of [] \<Rightarrow> (s, Inl io_ErrUnexpectedEOF)
           | b # r \<Rightarrow> (s\<lparr> st_r := r \<rparr>, Inr b)))"

text \<open>\<open>readFull\<close> for a buffer of \<open>n\<close> bytes. The reader is a byte slice: it hands out what it
  has, then reports the end of the input.\<close>

definition readFull :: "nat \<Rightarrow> Stream \<Rightarrow> Stream \<times> (rlp_error + bytes)" where
  "readFull n s =
     (case willRead (of_nat n) s of (s, Some e) \<Rightarrow> (s, Inl e)
      | (s, None) \<Rightarrow>
          if length (st_r s) < n then (s\<lparr> st_r := [] \<rparr>, Inl io_ErrUnexpectedEOF)
          else (s\<lparr> st_r := drop n (st_r s) \<rparr>, Inr (take n (st_r s))))"

definition readUint :: "byte \<Rightarrow> Stream \<Rightarrow> Stream \<times> (rlp_error + uint64)" where
  "readUint sz s =
     (if sz = 0 then (s\<lparr> st_kind := None \<rparr>, Inr 0)
      else if sz = 1 then
        (case readByte s of (s, Inl e) \<Rightarrow> (s, Inl e) | (s, Inr b) \<Rightarrow> (s, Inr (ucast b)))
      else
        (case readFull (unat sz) s of (s, Inl e) \<Rightarrow> (s, Inl e)
         | (s, Inr buf) \<Rightarrow>
             if buf ! 0 = 0 then (s, Inl ErrCanonSize)
             else (s, Inr (word_of_int (SetBytes buf)))))"

definition readKind :: "Stream \<Rightarrow> Stream \<times> Kind \<times> uint64 \<times> rlp_error option" where
  "readKind s =
     (let long = (\<lambda>k sz s. case readUint sz s of (s, Inl e) \<Rightarrow> (s, k, 0, Some e)
                   | (s, Inr n) \<Rightarrow> (s, k, n, if n < 56 then Some ErrCanonSize else None))
      in case readByte s of
           (s, Inl e) \<Rightarrow>
             (s, KByte, 0,
              Some (if st_stack s = [] \<and> (e = io_ErrUnexpectedEOF \<or> e = ErrValueTooLarge)
                    then io_EOF else e))
         | (s, Inr b) \<Rightarrow>
             let s = s\<lparr> st_byteval := 0 \<rparr>
             in if b < 0x80 then (s\<lparr> st_byteval := b \<rparr>, KByte, 0, None)
                else if b < 0xB8 then (s, KString, ucast (b - 0x80), None)
                else if b < 0xC0 then long KString (b - 0xB7) s
                else if b < 0xF8 then (s, KList, ucast (b - 0xC0), None)
                else long KList (b - 0xF7) s)"

definition Stream_Kind :: "Stream \<Rightarrow> Stream \<times> (rlp_error + Kind \<times> uint64)" where
  "Stream_Kind s =
     (case st_kind s of
        Some k \<Rightarrow> (s, case st_kinderr s of Some e \<Rightarrow> Inl e | None \<Rightarrow> Inr (k, st_size s))
      | None \<Rightarrow>
          let s = s\<lparr> st_kinderr := None \<rparr>
          in if (case st_stack s of [] \<Rightarrow> False | (pos, sz) # _ \<Rightarrow> pos = sz) then (s, Inl EOL)
             else let (s, k, n, err) = readKind s;
                      err = (case err of Some e \<Rightarrow> Some e
                             | None \<Rightarrow>
                                 (case st_stack s of
                                    [] \<Rightarrow> if st_limited s \<and> n > st_remaining s
                                           then Some ErrValueTooLarge else None
                                  | (pos, sz) # _ \<Rightarrow>
                                      if n > sz - pos then Some ErrElemTooLarge else None));
                      s = s\<lparr> st_kind := Some k, st_size := n, st_kinderr := err \<rparr>
                  in (s, case err of Some e \<Rightarrow> Inl e | None \<Rightarrow> Inr (k, n)))"

definition Stream_List :: "Stream \<Rightarrow> Stream \<times> (rlp_error + uint64)" where
  "Stream_List s =
     (case Stream_Kind s of (s, Inl e) \<Rightarrow> (s, Inl e)
      | (s, Inr (k, n)) \<Rightarrow>
          if k \<noteq> KList then (s, Inl ErrExpectedList)
          else (s\<lparr> st_stack := (0, n) # st_stack s, st_kind := None, st_size := 0 \<rparr>, Inr n))"

definition Stream_ListEnd :: "Stream \<Rightarrow> Stream \<times> rlp_error option" where
  "Stream_ListEnd s =
     (case st_stack s of [] \<Rightarrow> (s, Some errNotInList)
      | (pos, sz) # rest \<Rightarrow>
          if pos \<noteq> sz then (s, Some errNotAtEOL)
          else (s\<lparr> st_stack := (case rest of [] \<Rightarrow> [] | (p, z) # rest' \<Rightarrow> (p + sz, z) # rest'),
                   st_kind := None, st_size := 0 \<rparr>, None))"

definition Stream_Bytes :: "Stream \<Rightarrow> Stream \<times> (rlp_error + bytes)" where
  "Stream_Bytes s =
     (case Stream_Kind s of (s, Inl e) \<Rightarrow> (s, Inl e)
      | (s, Inr (KByte, n)) \<Rightarrow> (s\<lparr> st_kind := None \<rparr>, Inr [st_byteval s])
      | (s, Inr (KString, n)) \<Rightarrow>
          (case readFull (unat n) s of (s, Inl e) \<Rightarrow> (s, Inl e)
           | (s, Inr b) \<Rightarrow> if n = 1 \<and> b ! 0 < 128 then (s, Inl ErrCanonSize) else (s, Inr b))
      | (s, Inr (KList, n)) \<Rightarrow> (s, Inl ErrExpectedString))"

definition Stream_Raw :: "Stream \<Rightarrow> Stream \<times> (rlp_error + bytes)" where
  "Stream_Raw s =
     (case Stream_Kind s of (s, Inl e) \<Rightarrow> (s, Inl e)
      | (s, Inr (KByte, n)) \<Rightarrow> (s\<lparr> st_kind := None \<rparr>, Inr [st_byteval s])
      | (s, Inr (k, n)) \<Rightarrow>
          (case readFull (unat n) s of (s, Inl e) \<Rightarrow> (s, Inl e)
           | (s, Inr b) \<Rightarrow>
               (s, Inr (if k = KString then header_bytes 0x80 0xB7 n @ b
                        else header_bytes 0xC0 0xF7 n @ b))))"

definition Stream_uint :: "nat \<Rightarrow> Stream \<Rightarrow> Stream \<times> (rlp_error + uint64)" where
  "Stream_uint maxbits s =
     (case Stream_Kind s of (s, Inl e) \<Rightarrow> (s, Inl e)
      | (s, Inr (KByte, n)) \<Rightarrow>
          if st_byteval s = 0 then (s, Inl ErrCanonInt)
          else (s\<lparr> st_kind := None \<rparr>, Inr (ucast (st_byteval s)))
      | (s, Inr (KString, n)) \<Rightarrow>
          if n > of_nat (maxbits div 8) then (s, Inl errUintOverflow)
          else (case readUint (ucast n) s of
                  (s, Inl e) \<Rightarrow> (s, Inl (if e = ErrCanonSize then ErrCanonInt else e))
                | (s, Inr v) \<Rightarrow> if n > 0 \<and> v < 128 then (s, Inl ErrCanonSize) else (s, Inr v))
      | (s, Inr (KList, n)) \<Rightarrow> (s, Inl ErrExpectedString))"

definition Stream_Bool :: "Stream \<Rightarrow> Stream \<times> (rlp_error + bool)" where
  "Stream_Bool s =
     (case Stream_uint 8 s of (s, Inl e) \<Rightarrow> (s, Inl e)
      | (s, Inr num) \<Rightarrow>
          (s, if num = 0 then Inr False else if num = 1 then Inr True else Inl errInvalidBool))"

section \<open>Decoders for types\<close>

text \<open>What \<open>makeDecoder\<close> distinguishes. \<open>TTail\<close> is a slice with the \<open>tail\<close> tag,
  \<open>TOptPtr\<close> a pointer with the \<open>nil\<close> tag.\<close>

datatype gotype =
    TRaw | TUint nat | TBool | TString | TBigInt | TBytes | TByteArray nat
  | TArray nat gotype | TSlice gotype | TTail gotype | TStruct "gotype list"
  | TPtr gotype | TOptPtr gotype | TInterface

text \<open>The errors of \<open>wrapStreamError\<close> only add the type to the message; the model keeps the
  error itself.\<close>

definition decodeUint :: "nat \<Rightarrow> Stream \<Rightarrow> Stream \<times> (rlp_error + goval)" where
  "decodeUint bits s =
     (case Stream_uint bits s of (s, Inl e) \<Rightarrow> (s, Inl e) | (s, Inr n) \<Rightarrow> (s, Inr (UintVal n)))"

definition decodeBool :: "Stream \<Rightarrow> Stream \<times> (rlp_error + goval)" where
  "decodeBool s =
     (case Stream_Bool s of (s, Inl e) \<Rightarrow> (s, Inl e) | (s, Inr b) \<Rightarrow> (s, Inr (BoolVal b)))"

definition decodeRawValue :: "Stream \<Rightarrow> Stream \<times> (rlp_error + goval)" where
  "decodeRawValue s =
     (case Stream_Raw s of (s, Inl e) \<Rightarrow> (s, Inl e) | (s, Inr b) \<Rightarrow> (s, Inr (RawVal b)))"

definition decodeString :: "Stream \<Rightarrow> Stream \<times> (rlp_error + goval)" where
  "decodeString s =
     (case Stream_Bytes s of (s, Inl e) \<Rightarrow> (s, Inl e) | (s, Inr b) \<Rightarrow> (s, Inr (StringVal b)))"

definition decodeBigInt :: "Stream \<Rightarrow> Stream \<times> (rlp_error + goval)" where
  "decodeBigInt s =
     (case Stream_Bytes s of (s, Inl e) \<Rightarrow> (s, Inl e)
      | (s, Inr b) \<Rightarrow> if length b > 0 \<and> b ! 0 = 0 then (s, Inl ErrCanonInt)
                      else (s, Inr (BigIntVal (Some (SetBytes b)))))"

definition decodeByteSlice :: "Stream \<Rightarrow> Stream \<times> (rlp_error + goval)" where
  "decodeByteSlice s =
     (case Stream_Bytes s of (s, Inl e) \<Rightarrow> (s, Inl e) | (s, Inr b) \<Rightarrow> (s, Inr (BytesVal b)))"

text \<open>\<open>decodeByteArray\<close>: in the first case the error of \<open>s.Uint()\<close> is dropped, and with it the
  re-arming of the stream that only happens on success.\<close>

definition decodeByteArray :: "nat \<Rightarrow> Stream \<Rightarrow> Stream \<times> (rlp_error + goval)" where
  "decodeByteArray vlen s =
     (case Stream_Kind s of (s, Inl e) \<Rightarrow> (s, Inl e)
      | (s, Inr (KByte, n)) \<Rightarrow>
          if vlen = 0 then (s, Inl errInputTooLong)
          else if vlen > 1 then (s, Inl errInputTooShort)
          else (case Stream_uint 64 s of (s, r) \<Rightarrow>
                  (s, Inr (BytesVal [case r of Inl _ \<Rightarrow> 0 | Inr bv \<Rightarrow> ucast bv])))
      | (s, Inr (KString, n)) \<Rightarrow>
          if of_nat vlen < n then (s, Inl errInputTooLong)
          else if of_nat vlen > n then (s, Inl errInputTooShort)
          else (case readFull vlen s of (s, Inl e) \<Rightarrow> (s, Inl e)
                | (s, Inr b) \<Rightarrow>
                    if n = 1 \<and> b ! 0 < 128 then (s, Inl ErrCanonSize) else (s, Inr (BytesVal b)))
      | (s, Inr (KList, n)) \<Rightarrow> (s, Inl ErrExpectedString))"

definition end_list :: "goval \<Rightarrow> Stream \<Rightarrow> Stream \<times> (rlp_error + goval)" where
  "end_list v s =
     (case Stream_ListEnd s of (s, Some e) \<Rightarrow> (s, Inl e) | (s, None) \<Rightarrow> (s, Inr v))"

text \<open>What a nil pointer of a \<open>nil\<close>-tagged field is encoded as.\<close>

fun nil_value :: "gotype \<Rightarrow> goval" where
  "nil_value (TByteArray n) = NilBytePtr"
| "nil_value (TArray n t) = NilListPtr"
| "nil_value (TStruct ts) = NilListPtr"
| "nil_value (TSlice t) = SliceVal False []"
| "nil_value (TUint n) = UintVal 0"
| "nil_value TBool = BoolVal False"
| "nil_value TString = StringVal []"
| "nil_value t = BytesVal []"

text \<open>A decoder takes the stream and returns it with an error or a value; \<open>None\<close> says that the
  bound \<open>fuel\<close> on the loop iterations and on the nesting of interface values was too small. The
  loop of \<open>decodeSliceElems\<close> ends with the error \<open>EOL\<close>; that of \<open>decodeListArray\<close> has a fixed
  number of iterations, that of the struct decoder one per field.\<close>

type_synonym decoder = "Stream \<Rightarrow> (Stream \<times> (rlp_error + goval)) option"

primrec decodeSliceElems ::
    "nat \<Rightarrow> decoder \<Rightarrow> goval list \<Rightarrow> Stream \<Rightarrow> (Stream \<times> (rlp_error + goval list)) option" where
  "decodeSliceElems 0 elemdec vs s = None"
| "decodeSliceElems (Suc fuel) elemdec vs s =
     (case elemdec s of None \<Rightarrow> None
      | Some (s, Inl e) \<Rightarrow> if e = EOL then Some (s, Inr vs) else Some (s, Inl e)
      | Some (s, Inr v) \<Rightarrow> decodeSliceElems fuel elemdec (vs @ [v]) s)"

definition decodeListSlice :: "nat \<Rightarrow> decoder \<Rightarrow> decoder" where
  "decodeListSlice fuel elemdec s =
     (case Stream_List s of (s, Inl e) \<Rightarrow> Some (s, Inl e)
      | (s, Inr n) \<Rightarrow>
          if n = 0 then Some (end_list (SliceVal False []) s)
          else (case decodeSliceElems fuel elemdec [] s of None \<Rightarrow> None
                | Some (s, Inl e) \<Rightarrow> Some (s, Inl e)
                | Some (s, Inr vs) \<Rightarrow> Some (end_list (SliceVal False vs) s)))"

definition decodeTail :: "nat \<Rightarrow> decoder \<Rightarrow> decoder" where
  "decodeTail fuel elemdec s =
     (case decodeSliceElems fuel elemdec [] s of None \<Rightarrow> None
      | Some (s, Inl e) \<Rightarrow> Some (s, Inl e)
      | Some (s, Inr vs) \<Rightarrow> Some (s, Inr (SliceVal True vs)))"

primrec decodeArrayElems ::
    "nat \<Rightarrow> decoder \<Rightarrow> goval list \<Rightarrow> Stream \<Rightarrow> (Stream \<times> (rlp_error + goval list)) option" where
  "decodeArrayElems 0 elemdec vs s = Some (s, Inr vs)"
| "decodeArrayElems (Suc n) elemdec vs s =
     (case elemdec s of None \<Rightarrow> None
      | Some (s, Inl e) \<Rightarrow> if e = EOL then Some (s, Inr vs) else Some (s, Inl e)
      | Some (s, Inr v) \<Rightarrow> decodeArrayElems n elemdec (vs @ [v]) s)"

definition decodeListArray :: "nat \<Rightarrow> decoder \<Rightarrow> decoder" where
  "decodeListArray vlen elemdec s =
     (case Stream_List s of (s, Inl e) \<Rightarrow> Some (s, Inl e)
      | (s, Inr _) \<Rightarrow>
          (case decodeArrayElems vlen elemdec [] s of None \<Rightarrow> None
           | Some (s, Inl e) \<Rightarrow> Some (s, Inl e)
           | Some (s, Inr vs) \<Rightarrow> if length vs < vlen then Some (s, Inl errTooFewElements)
                                 else Some (end_list (SliceVal False vs) s)))"

primrec decodeFields ::
    "decoder list \<Rightarrow> goval list \<Rightarrow> Stream \<Rightarrow> (Stream \<times> (rlp_error + goval list)) option" where
  "decodeFields [] vs s = Some (s, Inr vs)"
| "decodeFields (f # fs) vs s =
     (case f s of None \<Rightarrow> None
      | Some (s, Inl e) \<Rightarrow> if e = EOL then Some (s, Inl errTooFewElements) else Some (s, Inl e)
      | Some (s, Inr v) \<Rightarrow> decodeFields fs (vs @ [v]) s)"

definition decodeStruct :: "decoder list \<Rightarrow> decoder" where
  "decodeStruct fs s =
     (case Stream_List s of (s, Inl e) \<Rightarrow> Some (s, Inl e)
      | (s, Inr _) \<Rightarrow>
          (case decodeFields fs [] s of None \<Rightarrow> None
           | Some (s, Inl e) \<Rightarrow> Some (s, Inl e)
           | Some (s, Inr vs) \<Rightarrow> Some (end_list (StructVal vs) s)))"

definition decodeOptionalPtr :: "gotype \<Rightarrow> decoder \<Rightarrow> decoder" where
  "decodeOptionalPtr t elemdec s =
     (case Stream_Kind s of
        (s, Inl e) \<Rightarrow> Some (s\<lparr> st_kind := None \<rparr>, Inl e)
      | (s, Inr (k, n)) \<Rightarrow>
          if n = 0 \<and> k \<noteq> KByte then Some (s\<lparr> st_kind := None \<rparr>, Inr (nil_value t))
          else elemdec s)"

primrec decodeInterface :: "nat \<Rightarrow> nat \<Rightarrow> decoder" where
  "decodeInterface 0 fuel s = None"
| "decodeInterface (Suc depth) fuel s =
     (case Stream_Kind s of (s, Inl e) \<Rightarrow> Some (s, Inl e)
      | (s, Inr (k, n)) \<Rightarrow>
          if k = KList then decodeListSlice fuel (decodeInterface depth fuel) s
          else Some (decodeByteSlice s))"

primrec makeDecoder :: "nat \<Rightarrow> gotype \<Rightarrow> decoder" where
  "makeDecoder fuel TRaw = (\<lambda>s. Some (decodeRawValue s))"
| "makeDecoder fuel (TUint bits) = (\<lambda>s. Some (decodeUint bits s))"
| "makeDecoder fuel TBool = (\<lambda>s. Some (decodeBool s))"
| "makeDecoder fuel TString = (\<lambda>s. Some (decodeString s))"
| "makeDecoder fuel TBigInt = (\<lambda>s. Some (decodeBigInt s))"
| "makeDecoder fuel TBytes = (\<lambda>s. Some (decodeByteSlice s))"
| "makeDecoder fuel (TByteArray n) = (\<lambda>s. Some (decodeByteArray n s))"
| "makeDecoder fuel (TArray n t) = decodeListArray n (makeDecoder fuel t)"
| "makeDecoder fuel (TSlice t) = decodeListSlice fuel (makeDecoder fuel t)"
| "makeDecoder fuel (TTail t) = decodeTail fuel (makeDecoder fuel t)"
| "makeDecoder fuel (TStruct ts) = decodeStruct (map (makeDecoder fuel) ts)"
| "makeDecoder fuel (TPtr t) = makeDecoder fuel t"
| "makeDecoder fuel (TOptPtr t) = decodeOptionalPtr t (makeDecoder fuel t)"
| "makeDecoder fuel TInterface = decodeInterface fuel fuel"

definition DecodeBytes :: "nat \<Rightarrow> bytes \<Rightarrow> gotype \<Rightarrow> (rlp_error + goval) option" where
  "DecodeBytes fuel b t =
     (case makeDecoder fuel t (NewStream b (of_nat (length b))) of None \<Rightarrow> None
      | Some (s, Inl e) \<Rightarrow> Some (Inl e)
      | Some (s, Inr v) \<Rightarrow> if length (st_r s) > 0 then Some (Inl ErrMoreThanOneValue)
                           else Some (Inr v))"

end
