(* ===== verification/StateDB.thy ===== *)
theory StateDB
  imports RLP_Decode
begin

text \<open>The world state of \<open>core/state\<close>: \<open>state_object.go\<close>, \<open>journal.go\<close> and \<open>statedb.go\<close>. A
  \<open>StateDB\<close> caches account objects over an account trie, records every change in a journal and
  can revert to a snapshot by undoing journal entries. The tries and the code store behind it are the
  interfaces \<open>Database\<close> and \<open>Trie\<close> of \<open>database.go\<close>; they are a record of functions over a type
  \<open>'t\<close> of tries, together with the hash function of \<open>crypto\<close>.

  This theory holds the definitions; what the operations do to the readable state, and that
  \<open>RevertToSnapshot\<close> undoes them, is shown in \<open>StateDB_Revert\<close>.\<close>

section \<open>The database interfaces\<close>

type_synonym db_error = string

text \<open>\<open>OpenStorageTrie\<close> returns a trie together with an error; opening the zero root always returns
  the empty trie. Keys and values of tries are byte slices.\<close>

record 't Database =
  OpenTrie :: "hash \<Rightarrow> db_error + 't"
  OpenStorageTrie :: "hash \<Rightarrow> hash \<Rightarrow> 't \<times> db_error option"
  ContractCode :: "hash \<Rightarrow> hash \<Rightarrow> bytes option \<times> db_error option"
  ContractCodeSize :: "hash \<Rightarrow> hash \<Rightarrow> nat \<times> db_error option"
  TryGet :: "'t \<Rightarrow> bytes \<Rightarrow> bytes \<times> db_error option"
  TryUpdate :: "'t \<Rightarrow> bytes \<Rightarrow> bytes \<Rightarrow> 't \<times> db_error option"
  TryDelete :: "'t \<Rightarrow> bytes \<Rightarrow> 't \<times> db_error option"
  Trie_Hash :: "'t \<Rightarrow> hash"
  Trie_Commit :: "'t \<Rightarrow> 't \<times> hash \<times> db_error option"
  Keccak256 :: "bytes \<Rightarrow> bytes"

definition Keccak256Hash :: "'t Database \<Rightarrow> bytes \<Rightarrow> hash" where
  "Keccak256Hash db b = BytesToHash (Keccak256 db b)"

definition emptyCodeHash :: "'t Database \<Rightarrow> bytes" where
  "emptyCodeHash db = Keccak256 db []"

section \<open>State objects (\<open>state_object.go\<close>)\<close>

record Account =
  acc_Nonce :: uint64
  acc_Balance :: int
  acc_Root :: hash
  acc_CodeHash :: bytes

record 't stateObject =
  so_address :: address
  so_addrHash :: hash
  so_data :: Account
  so_dbErr :: "db_error option"
  so_trie :: "'t option"
  so_code :: "bytes option"
  so_cachedStorage :: "hash \<rightharpoonup> hash"
  so_dirtyStorage :: "hash \<rightharpoonup> hash"
  so_dirtyCode :: bool
  so_suicided :: bool
  so_deleted :: bool

definition so_empty :: "'t Database \<Rightarrow> 't stateObject \<Rightarrow> bool" where
  "so_empty db obj \<longleftrightarrow> acc_Nonce (so_data obj) = 0 \<and> acc_Balance (so_data obj) = 0 \<and>
     acc_CodeHash (so_data obj) = emptyCodeHash db"

text \<open>\<open>newObject\<close>: a nil balance or code hash is \<open>None\<close>.\<close>

definition newObject ::
    "'t Database \<Rightarrow> address \<Rightarrow> uint64 \<Rightarrow> int option \<Rightarrow> hash \<Rightarrow> bytes option \<Rightarrow> 't stateObject" where
  "newObject db addr nonce balance root codeHash =
     \<lparr> so_address = addr, so_addrHash = Keccak256Hash db (Address_Bytes addr),
       so_data = \<lparr> acc_Nonce = nonce,
                   acc_Balance = (case balance of None \<Rightarrow> 0 | Some b \<Rightarrow> b),
                   acc_Root = root,
                   acc_CodeHash = (case codeHash of None \<Rightarrow> emptyCodeHash db | Some h \<Rightarrow> h) \<rparr>,
       so_dbErr = None, so_trie = None, so_code = None,
       so_cachedStorage = Map.empty, so_dirtyStorage = Map.empty,
       so_dirtyCode = False, so_suicided = False, so_deleted = False \<rparr>"

definition so_setError :: "db_error option \<Rightarrow> 't stateObject \<Rightarrow> 't stateObject" where
  "so_setError err obj = (if so_dbErr obj = None then obj\<lparr> so_dbErr := err \<rparr> else obj)"

definition so_markSuicided :: "'t stateObject \<Rightarrow> 't stateObject" where
  "so_markSuicided obj = obj\<lparr> so_suicided := True \<rparr>"

definition so_getTrie :: "'t Database \<Rightarrow> 't stateObject \<Rightarrow> 't \<times> 't stateObject" where
  "so_getTrie db obj =
     (case so_trie obj of Some t \<Rightarrow> (t, obj)
      | None \<Rightarrow>
          (case OpenStorageTrie db (so_addrHash obj) (acc_Root (so_data obj)) of
             (t, None) \<Rightarrow> (t, obj\<lparr> so_trie := Some t \<rparr>)
           | (_, Some err) \<Rightarrow>
               let t = fst (OpenStorageTrie db (so_addrHash obj) 0)
               in (t, so_setError (Some err) (obj\<lparr> so_trie := Some t \<rparr>))))"

text \<open>What \<open>GetState\<close> makes of the bytes found in the storage trie. \<open>rlp.Split\<close> returns no content
  together with an error.\<close>

definition storage_value :: "bytes \<Rightarrow> hash \<times> db_error option" where
  "storage_value enc =
     (if length enc > 0 then
        (case Split enc of Some (Inr (_, content, _)) \<Rightarrow> (BytesToHash content, None)
         | _ \<Rightarrow> (0, Some ''rlp''))
      else (0, None))"

definition so_GetState :: "'t Database \<Rightarrow> hash \<Rightarrow> 't stateObject \<Rightarrow> hash \<times> 't stateObject" where
  "so_GetState db key obj =
     (case so_cachedStorage obj key of Some v \<Rightarrow> (v, obj)
      | None \<Rightarrow>
          let (t, obj) = so_getTrie db obj
          in case TryGet db t (Hash_Bytes key) of
               (enc, Some err) \<Rightarrow> (0, so_setError (Some err) obj)
             | (enc, None) \<Rightarrow>
                 let (v, err) = storage_value enc; obj = so_setError err obj
                 in (v, obj\<lparr> so_cachedStorage := (so_cachedStorage obj)(key \<mapsto> v) \<rparr>))"

definition so_setState :: "hash \<Rightarrow> hash \<Rightarrow> 't stateObject \<Rightarrow> 't stateObject" where
  "so_setState key v obj =
     obj\<lparr> so_cachedStorage := (so_cachedStorage obj)(key \<mapsto> v),
          so_dirtyStorage := (so_dirtyStorage obj)(key \<mapsto> v) \<rparr>"

definition so_setBalance :: "int \<Rightarrow> 't stateObject \<Rightarrow> 't stateObject" where
  "so_setBalance amount obj = obj\<lparr> so_data := (so_data obj)\<lparr> acc_Balance := amount \<rparr> \<rparr>"

definition so_setNonce :: "uint64 \<Rightarrow> 't stateObject \<Rightarrow> 't stateObject" where
  "so_setNonce nonce obj = obj\<lparr> so_data := (so_data obj)\<lparr> acc_Nonce := nonce \<rparr> \<rparr>"

definition so_Code :: "'t Database \<Rightarrow> 't stateObject \<Rightarrow> bytes option \<times> 't stateObject" where
  "so_Code db obj =
     (case so_code obj of Some c \<Rightarrow> (Some c, obj)
      | None \<Rightarrow>
          if acc_CodeHash (so_data obj) = emptyCodeHash db then (None, obj)
          else let (code, err) = ContractCode db (so_addrHash obj) (BytesToHash (acc_CodeHash (so_data obj)));
                   obj = (if err = None then obj else so_setError err obj)
               in (code, obj\<lparr> so_code := code \<rparr>))"

definition so_setCode :: "hash \<Rightarrow> bytes option \<Rightarrow> 't stateObject \<Rightarrow> 't stateObject" where
  "so_setCode codeHash code obj =
     obj\<lparr> so_code := code, so_data := (so_data obj)\<lparr> acc_CodeHash := Hash_Bytes codeHash \<rparr>,
          so_dirtyCode := True \<rparr>"

text \<open>\<open>updateTrie\<close> ranges over the dirty storage in an order the language leaves open: \<open>keys\<close> is
  that order. \<open>bytes.TrimLeft\<close> drops leading zero bytes.\<close>

definition update_slot :: "'t Database \<Rightarrow> hash \<Rightarrow> 't \<times> 't stateObject \<Rightarrow> 't \<times> 't stateObject" where
  "update_slot db key = (\<lambda>(tr, obj).
     case so_dirtyStorage obj key of None \<Rightarrow> (tr, obj)
     | Some v \<Rightarrow>
         let obj = obj\<lparr> so_dirtyStorage := (so_dirtyStorage obj)(key := None) \<rparr>;
             (tr, err) = (if v = 0 then TryDelete db tr (Hash_Bytes key)
                          else TryUpdate db tr (Hash_Bytes key)
                                 (case EncodeToBytes (BytesVal (dropWhile (\<lambda>b. b = 0) (Hash_Bytes v))) of
                                    Some (Inr enc) \<Rightarrow> enc | _ \<Rightarrow> []))
         in (tr, so_setError err obj))"

definition so_updateTrie :: "'t Database \<Rightarrow> hash list \<Rightarrow> 't stateObject \<Rightarrow> 't \<times> 't stateObject" where
  "so_updateTrie db keys obj =
     (let (tr, obj) = fold (update_slot db) keys (so_getTrie db obj) in (tr, obj\<lparr> so_trie := Some tr \<rparr>))"

definition so_updateRoot :: "'t Database \<Rightarrow> hash list \<Rightarrow> 't stateObject \<Rightarrow> 't stateObject" where
  "so_updateRoot db keys obj =
     (let (tr, obj) = so_updateTrie db keys obj
      in obj\<lparr> so_data := (so_data obj)\<lparr> acc_Root := Trie_Hash db tr \<rparr> \<rparr>)"

definition so_CommitTrie ::
    "'t Database \<Rightarrow> hash list \<Rightarrow> 't stateObject \<Rightarrow> 't stateObject \<times> db_error option" where
  "so_CommitTrie db keys obj =
     (let (tr, obj) = so_updateTrie db keys obj
      in if so_dbErr obj \<noteq> None then (obj, so_dbErr obj)
         else let (tr, root, err) = Trie_Commit db tr; obj = obj\<lparr> so_trie := Some tr \<rparr>
              in if err = None then (obj\<lparr> so_data := (so_data obj)\<lparr> acc_Root := root \<rparr> \<rparr>, None)
                 else (obj, err))"

definition so_deepCopy :: "'t Database \<Rightarrow> 't stateObject \<Rightarrow> 't stateObject" where
  "so_deepCopy db obj =
     (newObject db (so_address obj) (acc_Nonce (so_data obj)) (Some (acc_Balance (so_data obj)))
        (acc_Root (so_data obj)) (Some (acc_CodeHash (so_data obj))))
     \<lparr> so_trie := so_trie obj, so_code := so_code obj, so_dirtyStorage := so_dirtyStorage obj,
       so_cachedStorage := so_dirtyStorage obj, so_suicided := so_suicided obj,
       so_dirtyCode := so_dirtyCode obj, so_deleted := so_deleted obj \<rparr>"

section \<open>The journal and the state (\<open>journal.go\<close>, \<open>statedb.go\<close>)\<close>

record Log =
  log_Address :: address
  log_Topics :: "hash list"
  log_Data :: bytes
  log_BlockNumber :: uint64
  log_TxHash :: hash
  log_TxIndex :: nat
  log_BlockHash :: hash
  log_Index :: uint64

datatype 't journalEntry =
    createObjectChange address
  | resetObjectChange "'t stateObject"
  | suicideChange address bool int
  | balanceChange address int
  | nonceChange address uint64
  | storageChange address hash hash
  | codeChange address "bytes option" bytes
  | refundChange uint64
  | addLogChange hash
  | addPreimageChange hash
  | touchChange address

record 't journal =
  journal_entries :: "'t journalEntry list"
  journal_dirties :: "address \<rightharpoonup> int"

record 't StateDB =
  sdb_db :: "'t Database"
  sdb_trie :: 't
  sdb_objects :: "address \<rightharpoonup> 't stateObject"
  sdb_objectsDirty :: "address set"
  sdb_dbErr :: "db_error option"
  sdb_refund :: uint64
  sdb_thash :: hash
  sdb_bhash :: hash
  sdb_txIndex :: nat
  sdb_logs :: "hash \<rightharpoonup> Log list"
  sdb_logSize :: uint64
  sdb_preimages :: "hash \<rightharpoonup> bytes"
  sdb_journal :: "'t journal"
  sdb_validRevisions :: "(nat \<times> nat) list"
  sdb_nextRevisionId :: nat

definition newJournal :: "'t journal" where
  "newJournal = \<lparr> journal_entries = [], journal_dirties = Map.empty \<rparr>"

primrec dirtied :: "'t journalEntry \<Rightarrow> address option" where
  "dirtied (createObjectChange a) = Some a"
| "dirtied (resetObjectChange prev) = None"
| "dirtied (suicideChange a _ _) = Some a"
| "dirtied (balanceChange a _) = Some a"
| "dirtied (nonceChange a _) = Some a"
| "dirtied (storageChange a _ _) = Some a"
| "dirtied (codeChange a _ _) = Some a"
| "dirtied (refundChange _) = None"
| "dirtied (addLogChange _) = None"
| "dirtied (addPreimageChange _) = None"
| "dirtied (touchChange a) = Some a"

definition dirty_count :: "(address \<rightharpoonup> int) \<Rightarrow> address \<Rightarrow> int" where
  "dirty_count m a = (case m a of None \<Rightarrow> 0 | Some n \<Rightarrow> n)"

definition journal_dirty :: "address \<Rightarrow> 't journal \<Rightarrow> 't journal" where
  "journal_dirty a j =
     j\<lparr> journal_dirties := (journal_dirties j)(a \<mapsto> dirty_count (journal_dirties j) a + 1) \<rparr>"

definition journal_append :: "'t journalEntry \<Rightarrow> 't StateDB \<Rightarrow> 't StateDB" where
  "journal_append e s =
     (let j = (sdb_journal s)\<lparr> journal_entries := journal_entries (sdb_journal s) @ [e] \<rparr>
      in s\<lparr> sdb_journal := (case dirtied e of None \<Rightarrow> j | Some a \<Rightarrow> journal_dirty a j) \<rparr>)"

definition sdb_setError :: "db_error option \<Rightarrow> 't StateDB \<Rightarrow> 't StateDB" where
  "sdb_setError err s = (if sdb_dbErr s = None then s\<lparr> sdb_dbErr := err \<rparr> else s)"

definition setStateObject :: "'t stateObject \<Rightarrow> 't StateDB \<Rightarrow> 't StateDB" where
  "setStateObject obj s = s\<lparr> sdb_objects := (sdb_objects s)(so_address obj \<mapsto> obj) \<rparr>"

text \<open>\<open>rlp.DecodeBytes\<close> into an \<open>Account\<close>; every value of the list is at least one byte long, so
  one more than the length of the input bounds its loops.\<close>

definition account_type :: gotype where
  "account_type = TStruct [TUint 64, TBigInt, TByteArray 32, TBytes]"

definition DecodeAccount :: "bytes \<Rightarrow> (uint64 \<times> int \<times> hash \<times> bytes) option" where
  "DecodeAccount enc =
     (case DecodeBytes (Suc (length enc)) enc account_type of
        Some (Inr (StructVal [UintVal nonce, BigIntVal (Some balance), BytesVal root, BytesVal codeHash])) \<Rightarrow>
          Some (nonce, balance, BytesToHash root, codeHash)
      | _ \<Rightarrow> None)"

definition getStateObject :: "address \<Rightarrow> 't StateDB \<Rightarrow> 't stateObject option \<times> 't StateDB" where
  "getStateObject addr s =
     (case sdb_objects s addr of
        Some obj \<Rightarrow> (if so_deleted obj then None else Some obj, s)
      | None \<Rightarrow>
          let (enc, err) = TryGet (sdb_db s) (sdb_trie s) (Address_Bytes addr)
          in if length enc = 0 then (None, sdb_setError err s)
             else case DecodeAccount enc of None \<Rightarrow> (None, s)
                  | Some (nonce, balance, root, codeHash) \<Rightarrow>
                      let obj = newObject (sdb_db s) addr nonce (Some balance) root (Some codeHash)
                      in (Some obj, setStateObject obj s))"

definition createObject ::
    "address \<Rightarrow> 't StateDB \<Rightarrow> 't stateObject \<times> 't stateObject option \<times> 't StateDB" where
  "createObject addr s =
     (let (prev, s) = getStateObject addr s;
          newobj = so_setNonce 0 (newObject (sdb_db s) addr 0 None 0 None);
          s = (case prev of None \<Rightarrow> journal_append (createObjectChange addr) s
               | Some p \<Rightarrow> journal_append (resetObjectChange p) s)
      in (newobj, prev, setStateObject newobj s))"

definition GetOrNewStateObject :: "address \<Rightarrow> 't StateDB \<Rightarrow> 't stateObject \<times> 't StateDB" where
  "GetOrNewStateObject addr s =
     (case getStateObject addr s of
        (Some obj, s) \<Rightarrow>
          if so_deleted obj then (case createObject addr s of (newobj, _, s) \<Rightarrow> (newobj, s))
          else (obj, s)
      | (None, s) \<Rightarrow> (case createObject addr s of (newobj, _, s) \<Rightarrow> (newobj, s)))"

definition CreateAccount :: "address \<Rightarrow> 't StateDB \<Rightarrow> 't StateDB" where
  "CreateAccount addr s =
     (case createObject addr s of (newobj, prev, s) \<Rightarrow>
        (case prev of None \<Rightarrow> s
         | Some p \<Rightarrow> setStateObject (so_setBalance (acc_Balance (so_data p)) newobj) s))"

subsection \<open>Getters\<close>

definition Exist :: "address \<Rightarrow> 't StateDB \<Rightarrow> bool \<times> 't StateDB" where
  "Exist addr s = (let (obj, s) = getStateObject addr s in (obj \<noteq> None, s))"

definition Empty :: "address \<Rightarrow> 't StateDB \<Rightarrow> bool \<times> 't StateDB" where
  "Empty addr s =
     (let (obj, s) = getStateObject addr s
      in (case obj of None \<Rightarrow> True | Some o' \<Rightarrow> so_empty (sdb_db s) o', s))"

definition GetBalance :: "address \<Rightarrow> 't StateDB \<Rightarrow> int \<times> 't StateDB" where
  "GetBalance addr s =
     (let (obj, s) = getStateObject addr s
      in (case obj of None \<Rightarrow> 0 | Some o' \<Rightarrow> acc_Balance (so_data o'), s))"

definition GetNonce :: "address \<Rightarrow> 't StateDB \<Rightarrow> uint64 \<times> 't StateDB" where
  "GetNonce addr s =
     (let (obj, s) = getStateObject addr s
      in (case obj of None \<Rightarrow> 0 | Some o' \<Rightarrow> acc_Nonce (so_data o'), s))"

definition GetCode :: "address \<Rightarrow> 't StateDB \<Rightarrow> bytes option \<times> 't StateDB" where
  "GetCode addr s =
     (case getStateObject addr s of (None, s) \<Rightarrow> (None, s)
      | (Some obj, s) \<Rightarrow> (case so_Code (sdb_db s) obj of (code, obj) \<Rightarrow> (code, setStateObject obj s)))"

definition GetCodeSize :: "address \<Rightarrow> 't StateDB \<Rightarrow> nat \<times> 't StateDB" where
  "GetCodeSize addr s =
     (case getStateObject addr s of (None, s) \<Rightarrow> (0, s)
      | (Some obj, s) \<Rightarrow>
          (case so_code obj of Some c \<Rightarrow> (length c, s)
           | None \<Rightarrow>
               let (n, err) = ContractCodeSize (sdb_db s) (so_addrHash obj)
                                (BytesToHash (acc_CodeHash (so_data obj)))
               in (n, if err = None then s else sdb_setError err s)))"

definition GetCodeHash :: "address \<Rightarrow> 't StateDB \<Rightarrow> hash \<times> 't StateDB" where
  "GetCodeHash addr s =
     (let (obj, s) = getStateObject addr s
      in (case obj of None \<Rightarrow> 0 | Some o' \<Rightarrow> BytesToHash (acc_CodeHash (so_data o')), s))"

definition GetState :: "address \<Rightarrow> hash \<Rightarrow> 't StateDB \<Rightarrow> hash \<times> 't StateDB" where
  "GetState addr key s =
     (case getStateObject addr s of (None, s) \<Rightarrow> (0, s)
      | (Some obj, s) \<Rightarrow> (case so_GetState (sdb_db s) key obj of (v, obj) \<Rightarrow> (v, setStateObject obj s)))"

definition HasSuicided :: "address \<Rightarrow> 't StateDB \<Rightarrow> bool \<times> 't StateDB" where
  "HasSuicided addr s =
     (let (obj, s) = getStateObject addr s
      in (case obj of None \<Rightarrow> False | Some o' \<Rightarrow> so_suicided o', s))"

definition GetRefund :: "'t StateDB \<Rightarrow> uint64" where
  "GetRefund s = sdb_refund s"

definition GetLogs :: "hash \<Rightarrow> 't StateDB \<Rightarrow> Log list" where
  "GetLogs h s = (case sdb_logs s h of None \<Rightarrow> [] | Some l \<Rightarrow> l)"

subsection \<open>Setters\<close>

definition ripemd :: address where
  "ripemd = 3"

definition so_touch :: "'t stateObject \<Rightarrow> 't StateDB \<Rightarrow> 't StateDB" where
  "so_touch obj s =
     (let s = journal_append (touchChange (so_address obj)) s
      in if so_address obj = ripemd then s\<lparr> sdb_journal := journal_dirty (so_address obj) (sdb_journal s) \<rparr>
         else s)"

definition so_SetBalance :: "int \<Rightarrow> 't stateObject \<Rightarrow> 't StateDB \<Rightarrow> 't StateDB" where
  "so_SetBalance amount obj s =
     setStateObject (so_setBalance amount obj)
       (journal_append (balanceChange (so_address obj) (acc_Balance (so_data obj))) s)"

definition AddBalance :: "address \<Rightarrow> int \<Rightarrow> 't StateDB \<Rightarrow> 't StateDB" where
  "AddBalance addr amount s =
     (case GetOrNewStateObject addr s of (obj, s) \<Rightarrow>
        if amount = 0 then (if so_empty (sdb_db s) obj then so_touch obj s else s)
        else so_SetBalance (acc_Balance (so_data obj) + amount) obj s)"

definition SubBalance :: "address \<Rightarrow> int \<Rightarrow> 't StateDB \<Rightarrow> 't StateDB" where
  "SubBalance addr amount s =
     (case GetOrNewStateObject addr s of (obj, s) \<Rightarrow>
        if amount = 0 then s
        else so_SetBalance (acc_Balance (so_data obj) - amount) obj s)"

definition SetBalance :: "address \<Rightarrow> int \<Rightarrow> 't StateDB \<Rightarrow> 't StateDB" where
  "SetBalance addr amount s =
     (case GetOrNewStateObject addr s of (obj, s) \<Rightarrow> so_SetBalance amount obj s)"

definition SetNonce :: "address \<Rightarrow> uint64 \<Rightarrow> 't StateDB \<Rightarrow> 't StateDB" where
  "SetNonce addr nonce s =
     (case GetOrNewStateObject addr s of (obj, s) \<Rightarrow>
        setStateObject (so_setNonce nonce obj)
          (journal_append (nonceChange (so_address obj) (acc_Nonce (so_data obj))) s))"

definition SetCode :: "address \<Rightarrow> bytes option \<Rightarrow> 't StateDB \<Rightarrow> 't StateDB" where
  "SetCode addr code s =
     (case GetOrNewStateObject addr s of (obj, s) \<Rightarrow>
        (case so_Code (sdb_db s) obj of (prevcode, obj) \<Rightarrow>
           setStateObject
             (so_setCode (Keccak256Hash (sdb_db s) (case code of None \<Rightarrow> [] | Some c \<Rightarrow> c)) code obj)
             (journal_append (codeChange (so_address obj) prevcode (acc_CodeHash (so_data obj))) s)))"

definition SetState :: "address \<Rightarrow> hash \<Rightarrow> hash \<Rightarrow> 't StateDB \<Rightarrow> 't StateDB" where
  "SetState addr key v s =
     (case GetOrNewStateObject addr s of (obj, s) \<Rightarrow>
        (case so_GetState (sdb_db s) key obj of (prevalue, obj) \<Rightarrow>
           setStateObject (so_setState key v obj)
             (journal_append (storageChange (so_address obj) key prevalue) s)))"

definition Suicide :: "address \<Rightarrow> 't StateDB \<Rightarrow> bool \<times> 't StateDB" where
  "Suicide addr s =
     (case getStateObject addr s of (None, s) \<Rightarrow> (False, s)
      | (Some obj, s) \<Rightarrow>
          (True, setStateObject (so_setBalance 0 (so_markSuicided obj))
             (journal_append (suicideChange addr (so_suicided obj) (acc_Balance (so_data obj))) s)))"

definition AddRefund :: "uint64 \<Rightarrow> 't StateDB \<Rightarrow> 't StateDB" where
  "AddRefund gas s =
     (let s = journal_append (refundChange (sdb_refund s)) s in s\<lparr> sdb_refund := sdb_refund s + gas \<rparr>)"

definition AddLog :: "Log \<Rightarrow> 't StateDB \<Rightarrow> 't StateDB" where
  "AddLog l s =
     (let s = journal_append (addLogChange (sdb_thash s)) s;
          l = l\<lparr> log_TxHash := sdb_thash s, log_BlockHash := sdb_bhash s,
                 log_TxIndex := sdb_txIndex s, log_Index := sdb_logSize s \<rparr>
      in s\<lparr> sdb_logs := (sdb_logs s)(sdb_thash s \<mapsto> GetLogs (sdb_thash s) s @ [l]),
            sdb_logSize := sdb_logSize s + 1 \<rparr>)"

definition AddPreimage :: "hash \<Rightarrow> bytes \<Rightarrow> 't StateDB \<Rightarrow> 't StateDB" where
  "AddPreimage h preimage s =
     (case sdb_preimages s h of Some _ \<Rightarrow> s
      | None \<Rightarrow> (journal_append (addPreimageChange h) s)
                  \<lparr> sdb_preimages := (sdb_preimages s)(h \<mapsto> preimage) \<rparr>)"

definition Prepare :: "hash \<Rightarrow> hash \<Rightarrow> nat \<Rightarrow> 't StateDB \<Rightarrow> 't StateDB" where
  "Prepare thash bhash ti s = s\<lparr> sdb_thash := thash, sdb_bhash := bhash, sdb_txIndex := ti \<rparr>"

subsection \<open>Reverting\<close>

text \<open>The \<open>revert\<close> methods of the journal entries; \<open>None\<close> is a nil dereference or a slice bounds
  panic.\<close>

definition on_object ::
    "address \<Rightarrow> ('t stateObject \<Rightarrow> 't stateObject) \<Rightarrow> 't StateDB \<Rightarrow> 't StateDB option" where
  "on_object a f s =
     (case getStateObject a s of (None, _) \<Rightarrow> None
      | (Some obj, s) \<Rightarrow> Some (setStateObject (f obj) s))"

primrec entry_revert :: "'t journalEntry \<Rightarrow> 't StateDB \<Rightarrow> 't StateDB option" where
  "entry_revert (createObjectChange a) s =
     Some (s\<lparr> sdb_objects := (sdb_objects s)(a := None), sdb_objectsDirty := sdb_objectsDirty s - {a} \<rparr>)"
| "entry_revert (resetObjectChange prev) s = Some (setStateObject prev s)"
| "entry_revert (suicideChange a prev prevbalance) s =
     (case getStateObject a s of (None, s) \<Rightarrow> Some s
      | (Some obj, s) \<Rightarrow> Some (setStateObject (so_setBalance prevbalance (obj\<lparr> so_suicided := prev \<rparr>)) s))"
| "entry_revert (balanceChange a prev) s = on_object a (so_setBalance prev) s"
| "entry_revert (nonceChange a prev) s = on_object a (so_setNonce prev) s"
| "entry_revert (storageChange a key prevalue) s = on_object a (so_setState key prevalue) s"
| "entry_revert (codeChange a prevcode prevhash) s =
     on_object a (so_setCode (BytesToHash prevhash) prevcode) s"
| "entry_revert (refundChange prev) s = Some (s\<lparr> sdb_refund := prev \<rparr>)"
| "entry_revert (addLogChange txhash) s =
     (let logs = GetLogs txhash s
      in do { s \<leftarrow> (if length logs = 1 then Some (s\<lparr> sdb_logs := (sdb_logs s)(txhash := None) \<rparr>)
                   else do { panic_unless (length logs \<ge> 1);
                             Some (s\<lparr> sdb_logs := (sdb_logs s)(txhash \<mapsto> take (length logs - 1) logs) \<rparr>) });
              Some (s\<lparr> sdb_logSize := sdb_logSize s - 1 \<rparr>) })"
| "entry_revert (addPreimageChange h) s = Some (s\<lparr> sdb_preimages := (sdb_preimages s)(h := None) \<rparr>)"
| "entry_revert (touchChange a) s = Some s"

text \<open>\<open>journal.revert\<close>: the loop runs over the entries from the last one down; here the list of
  the entries to undo is given last entry first.\<close>

definition undirty :: "'t journalEntry \<Rightarrow> 't StateDB \<Rightarrow> 't StateDB" where
  "undirty e s =
     (case dirtied e of None \<Rightarrow> s
      | Some a \<Rightarrow>
          let d = journal_dirties (sdb_journal s); n = dirty_count d a - 1
          in s\<lparr> sdb_journal := (sdb_journal s)
               \<lparr> journal_dirties := (if n = 0 then d(a := None) else d(a \<mapsto> n)) \<rparr> \<rparr>)"

primrec revert_loop :: "'t journalEntry list \<Rightarrow> 't StateDB \<Rightarrow> 't StateDB option" where
  "revert_loop [] s = Some s"
| "revert_loop (e # es) s = do { s \<leftarrow> entry_revert e s; revert_loop es (undirty e s) }"

definition journal_revert :: "nat \<Rightarrow> 't StateDB \<Rightarrow> 't StateDB option" where
  "journal_revert snapshot s =
     do { let entries = journal_entries (sdb_journal s);
          s \<leftarrow> revert_loop (rev (drop snapshot entries)) s;
          kept \<leftarrow> go_slice entries 0 snapshot;
          Some (s\<lparr> sdb_journal := (sdb_journal s)\<lparr> journal_entries := kept \<rparr> \<rparr>) }"

text \<open>\<open>sort.Search\<close>: binary search for the smallest index at which the predicate holds.\<close>

function search_loop :: "(nat \<Rightarrow> bool) \<Rightarrow> nat \<Rightarrow> nat \<Rightarrow> nat" where
  "search_loop p i j =
     (if i < j then let h = (i + j) div 2 in if \<not> p h then search_loop p (h + 1) j else search_loop p i h
      else i)"
  by pat_completeness auto
termination
  by (relation "measure (\<lambda>(p, i, j). j - i)") auto

declare search_loop.simps [simp del]

definition sort_Search :: "nat \<Rightarrow> (nat \<Rightarrow> bool) \<Rightarrow> nat" where
  "sort_Search n p = search_loop p 0 n"

definition Snapshot :: "'t StateDB \<Rightarrow> nat \<times> 't StateDB" where
  "Snapshot s =
     (let id = sdb_nextRevisionId s
      in (id, s\<lparr> sdb_nextRevisionId := id + 1,
                 sdb_validRevisions := sdb_validRevisions s @ [(id, length (journal_entries (sdb_journal s)))] \<rparr>))"

definition RevertToSnapshot :: "nat \<Rightarrow> 't StateDB \<Rightarrow> 't StateDB option" where
  "RevertToSnapshot revid s =
     (let revs = sdb_validRevisions s;
          idx = sort_Search (length revs) (\<lambda>i. fst (revs ! i) \<ge> revid)
      in if idx = length revs \<or> fst (revs ! idx) \<noteq> revid then None
         else do { s \<leftarrow> journal_revert (snd (revs ! idx)) s;
                   Some (s\<lparr> sdb_validRevisions := take idx (sdb_validRevisions s) \<rparr>) })"

subsection \<open>Finalising and committing\<close>

definition New :: "hash \<Rightarrow> 't Database \<Rightarrow> db_error + 't StateDB" where
  "New root db =
     (case OpenTrie db root of Inl e \<Rightarrow> Inl e
      | Inr tr \<Rightarrow> Inr
          \<lparr> sdb_db = db, sdb_trie = tr, sdb_objects = Map.empty, sdb_objectsDirty = {}, sdb_dbErr = None,
            sdb_refund = 0, sdb_thash = 0, sdb_bhash = 0, sdb_txIndex = 0, sdb_logs = Map.empty,
            sdb_logSize = 0, sdb_preimages = Map.empty, sdb_journal = newJournal,
            sdb_validRevisions = [], sdb_nextRevisionId = 0 \<rparr>)"

definition clearJournalAndRefund :: "'t StateDB \<Rightarrow> 't StateDB" where
  "clearJournalAndRefund s =
     s\<lparr> sdb_journal := newJournal, sdb_validRevisions := [], sdb_refund := 0 \<rparr>"

definition Reset :: "hash \<Rightarrow> 't StateDB \<Rightarrow> db_error + 't StateDB" where
  "Reset root s =
     (case OpenTrie (sdb_db s) root of Inl e \<Rightarrow> Inl e
      | Inr tr \<Rightarrow> Inr (clearJournalAndRefund
          (s\<lparr> sdb_trie := tr, sdb_objects := Map.empty, sdb_objectsDirty := {}, sdb_thash := 0,
              sdb_bhash := 0, sdb_txIndex := 0, sdb_logs := Map.empty, sdb_logSize := 0,
              sdb_preimages := Map.empty \<rparr>)))"

text \<open>\<open>updateStateObject\<close> panics when the account cannot be encoded, which is when its balance is
  negative.\<close>

definition EncodeAccount :: "Account \<Rightarrow> bytes option" where
  "EncodeAccount acc =
     (case EncodeToBytes (StructVal [UintVal (acc_Nonce acc), BigIntVal (Some (acc_Balance acc)),
                                     BytesVal (Hash_Bytes (acc_Root acc)), BytesVal (acc_CodeHash acc)]) of
        Some (Inr enc) \<Rightarrow> Some enc | _ \<Rightarrow> None)"

definition updateStateObject :: "'t stateObject \<Rightarrow> 't StateDB \<Rightarrow> 't StateDB option" where
  "updateStateObject obj s =
     do { enc \<leftarrow> EncodeAccount (so_data obj);
          let (tr, err) = TryUpdate (sdb_db s) (sdb_trie s) (Address_Bytes (so_address obj)) enc;
          Some (sdb_setError err (s\<lparr> sdb_trie := tr \<rparr>)) }"

definition deleteStateObject :: "'t stateObject \<Rightarrow> 't StateDB \<Rightarrow> 't StateDB" where
  "deleteStateObject obj s =
     (let s = setStateObject (obj\<lparr> so_deleted := True \<rparr>) s;
          (tr, err) = TryDelete (sdb_db s) (sdb_trie s) (Address_Bytes (so_address obj))
      in sdb_setError err (s\<lparr> sdb_trie := tr \<rparr>))"

text \<open>The loops over maps run in an order the language leaves open: \<open>addrs\<close> and \<open>keys\<close> are the
  orders in which the accounts and the storage slots of an account are visited.\<close>

definition finalise_one ::
    "bool \<Rightarrow> (address \<Rightarrow> hash list) \<Rightarrow> address \<Rightarrow> 't StateDB \<Rightarrow> 't StateDB option" where
  "finalise_one deleteEmptyObjects keys addr s =
     (case sdb_objects s addr of None \<Rightarrow> Some s
      | Some obj \<Rightarrow>
          do { s \<leftarrow> (if so_suicided obj \<or> (deleteEmptyObjects \<and> so_empty (sdb_db s) obj)
                    then Some (deleteStateObject obj s)
                    else let obj = so_updateRoot (sdb_db s) (keys addr) obj
                         in updateStateObject obj (setStateObject obj s));
               Some (s\<lparr> sdb_objectsDirty := insert addr (sdb_objectsDirty s) \<rparr>) })"

primrec finalise_all ::
    "bool \<Rightarrow> (address \<Rightarrow> hash list) \<Rightarrow> address list \<Rightarrow> 't StateDB \<Rightarrow> 't StateDB option" where
  "finalise_all del keys [] s = Some s"
| "finalise_all del keys (a # addrs) s = do { s \<leftarrow> finalise_one del keys a s; finalise_all del keys addrs s }"

definition Finalise ::
    "bool \<Rightarrow> address list \<Rightarrow> (address \<Rightarrow> hash list) \<Rightarrow> 't StateDB \<Rightarrow> 't StateDB option" where
  "Finalise deleteEmptyObjects addrs keys s =
     do { s \<leftarrow> finalise_all deleteEmptyObjects keys addrs s; Some (clearJournalAndRefund s) }"

definition IntermediateRoot ::
    "bool \<Rightarrow> address list \<Rightarrow> (address \<Rightarrow> hash list) \<Rightarrow> 't StateDB \<Rightarrow> (hash \<times> 't StateDB) option" where
  "IntermediateRoot deleteEmptyObjects addrs keys s =
     do { s \<leftarrow> Finalise deleteEmptyObjects addrs keys s; Some (Trie_Hash (sdb_db s) (sdb_trie s), s) }"

text \<open>\<open>Commit\<close> also returns the contract code it hands to the trie database. A failing
  \<open>CommitTrie\<close> ends the loop; \<open>Some e\<close> is that error. The reference counting of the trie database
  in the leaf callback is not modelled.\<close>

definition commit_one ::
    "bool \<Rightarrow> (address \<Rightarrow> hash list) \<Rightarrow> address \<Rightarrow> 't StateDB \<times> (hash \<times> bytes) list \<Rightarrow>
     (('t StateDB \<times> (hash \<times> bytes) list) \<times> db_error option) option" where
  "commit_one deleteEmptyObjects keys addr = (\<lambda>(s, blobs).
     case sdb_objects s addr of None \<Rightarrow> Some ((s, blobs), None)
     | Some obj \<Rightarrow>
         let isDirty = addr \<in> sdb_objectsDirty s;
             done' = (\<lambda>s blobs. Some ((s\<lparr> sdb_objectsDirty := sdb_objectsDirty s - {addr} \<rparr>, blobs), None))
         in if so_suicided obj \<or> (isDirty \<and> deleteEmptyObjects \<and> so_empty (sdb_db s) obj)
            then done' (deleteStateObject obj s) blobs
            else if isDirty
            then (let (blobs, obj) =
                        (case so_code obj of
                           Some c \<Rightarrow> if so_dirtyCode obj
                                     then (blobs @ [(BytesToHash (acc_CodeHash (so_data obj)), c)],
                                           obj\<lparr> so_dirtyCode := False \<rparr>)
                                     else (blobs, obj)
                         | None \<Rightarrow> (blobs, obj));
                      (obj, err) = so_CommitTrie (sdb_db s) (keys addr) obj;
                      s = setStateObject obj s
                  in if err \<noteq> None then Some ((s, blobs), err)
                     else do { s \<leftarrow> updateStateObject obj s; done' s blobs })
            else done' s blobs)"

primrec commit_all ::
    "bool \<Rightarrow> (address \<Rightarrow> hash list) \<Rightarrow> address list \<Rightarrow> 't StateDB \<times> (hash \<times> bytes) list \<Rightarrow>
     (('t StateDB \<times> (hash \<times> bytes) list) \<times> db_error option) option" where
  "commit_all del keys [] sb = Some (sb, None)"
| "commit_all del keys (a # addrs) sb =
     do { (sb, err) \<leftarrow> commit_one del keys a sb;
          if err \<noteq> None then Some (sb, err) else commit_all del keys addrs sb }"

definition Commit ::
    "bool \<Rightarrow> address list \<Rightarrow> (address \<Rightarrow> hash list) \<Rightarrow> 't StateDB \<Rightarrow>
     (hash \<times> db_error option \<times> (hash \<times> bytes) list \<times> 't StateDB) option" where
  "Commit deleteEmptyObjects addrs keys s =
     do { let s = s\<lparr> sdb_objectsDirty := sdb_objectsDirty s \<union> dom (journal_dirties (sdb_journal s)) \<rparr>;
          ((s, blobs), err) \<leftarrow> commit_all deleteEmptyObjects keys addrs (s, []);
          if err \<noteq> None then Some (0, err, blobs, clearJournalAndRefund s)
          else let (tr, root, err) = Trie_Commit (sdb_db s) (sdb_trie s)
               in Some (root, err, blobs, clearJournalAndRefund (s\<lparr> sdb_trie := tr \<rparr>)) }"

text \<open>\<open>Copy\<close>: \<open>None\<close> is the nil dereference for a dirty address without object.\<close>

definition sdb_Copy :: "'t StateDB \<Rightarrow> 't StateDB option" where
  "sdb_Copy s =
     (let cp = (\<lambda>a. map_option (so_deepCopy (sdb_db s)) (sdb_objects s a));
          fromJournal = {a. journal_dirties (sdb_journal s) a \<noteq> None \<and> sdb_objects s a \<noteq> None}
      in do { panic_unless (\<forall>a \<in> sdb_objectsDirty s. sdb_objects s a \<noteq> None);
              let copied = fromJournal \<union> sdb_objectsDirty s;
              Some \<lparr> sdb_db = sdb_db s, sdb_trie = sdb_trie s,
                     sdb_objects = (\<lambda>a. if a \<in> copied then cp a else None), sdb_objectsDirty = copied,
                     sdb_dbErr = None, sdb_refund = sdb_refund s, sdb_thash = 0, sdb_bhash = 0,
                     sdb_txIndex = 0, sdb_logs = sdb_logs s, sdb_logSize = sdb_logSize s,
                     sdb_preimages = sdb_preimages s, sdb_journal = newJournal,
                     sdb_validRevisions = [], sdb_nextRevisionId = 0 \<rparr> })"

end
