(* ===== verification/Params.thy ===== *)
theory Params
  imports Common_Math
begin

text \<open>
  Package \<open>params\<close>: the protocol constants (\<open>protocol_params.go\<close>), the gas tables of the
  protocol phases (\<open>gas_table.go\<close>) and the fork schedule of a chain (\<open>config.go\<close>).
\<close>

named_theorems params \<open>values of the protocol constants\<close>

section \<open>Protocol constants (\<open>protocol_params.go\<close>, \<open>core/vm/gas.go\<close>)\<close>

definition CallValueTransferGas :: uint64 where [params]: "CallValueTransferGas = 9000"
definition CallNewAccountGas :: uint64 where [params]: "CallNewAccountGas = 25000"
definition TxGas :: uint64 where [params]: "TxGas = 21000"
definition TxGasContractCreation :: uint64 where [params]: "TxGasContractCreation = 53000"
definition TxDataZeroGas :: uint64 where [params]: "TxDataZeroGas = 4"
definition QuadCoeffDiv :: uint64 where [params]: "QuadCoeffDiv = 512"
definition SstoreSetGas :: uint64 where [params]: "SstoreSetGas = 20000"
definition LogDataGas :: uint64 where [params]: "LogDataGas = 8"
definition CallStipend :: uint64 where [params]: "CallStipend = 2300"
definition Sha3Gas :: uint64 where [params]: "Sha3Gas = 30"
definition Sha3WordGas :: uint64 where [params]: "Sha3WordGas = 6"
definition SstoreResetGas :: uint64 where [params]: "SstoreResetGas = 5000"
definition SstoreClearGas :: uint64 where [params]: "SstoreClearGas = 5000"
definition SstoreRefundGas :: uint64 where [params]: "SstoreRefundGas = 15000"
definition JumpdestGas :: uint64 where [params]: "JumpdestGas = 1"
definition CreateDataGas :: uint64 where [params]: "CreateDataGas = 200"
definition CallCreateDepth :: nat where [params]: "CallCreateDepth = 1024"
definition LogGas :: uint64 where [params]: "LogGas = 375"
definition CopyGas :: uint64 where [params]: "CopyGas = 3"
definition StackLimit :: nat where [params]: "StackLimit = 1024"
definition LogTopicGas :: uint64 where [params]: "LogTopicGas = 375"
definition CreateGas :: uint64 where [params]: "CreateGas = 32000"
definition SuicideRefundGas :: uint64 where [params]: "SuicideRefundGas = 24000"
definition MemoryGas :: uint64 where [params]: "MemoryGas = 3"
definition TxDataNonZeroGas :: uint64 where [params]: "TxDataNonZeroGas = 68"
definition MaxCodeSize :: nat where [params]: "MaxCodeSize = 24576"

definition GasQuickStep :: uint64 where [params]: "GasQuickStep = 2"
definition GasFastestStep :: uint64 where [params]: "GasFastestStep = 3"
definition GasFastStep :: uint64 where [params]: "GasFastStep = 5"
definition GasMidStep :: uint64 where [params]: "GasMidStep = 8"
definition GasSlowStep :: uint64 where [params]: "GasSlowStep = 10"
definition GasExtStep :: uint64 where [params]: "GasExtStep = 20"

section \<open>Gas tables (\<open>gas_table.go\<close>)\<close>

record GasTable =
  gtExtcodeSize :: uint64
  gtExtcodeCopy :: uint64
  gtBalance :: uint64
  gtSLoad :: uint64
  gtCalls :: uint64
  gtSuicide :: uint64
  gtExpByte :: uint64
  gtCreateBySuicide :: uint64

definition GasTableHomestead :: GasTable where
  "GasTableHomestead = \<lparr>gtExtcodeSize = 20, gtExtcodeCopy = 20, gtBalance = 20, gtSLoad = 50,
     gtCalls = 40, gtSuicide = 0, gtExpByte = 10, gtCreateBySuicide = 0\<rparr>"

definition GasTableEIP150 :: GasTable where
  "GasTableEIP150 = \<lparr>gtExtcodeSize = 700, gtExtcodeCopy = 700, gtBalance = 400, gtSLoad = 200,
     gtCalls = 700, gtSuicide = 5000, gtExpByte = 10, gtCreateBySuicide = 25000\<rparr>"

definition GasTableEIP158 :: GasTable where
  "GasTableEIP158 = \<lparr>gtExtcodeSize = 700, gtExtcodeCopy = 700, gtBalance = 400, gtSLoad = 200,
     gtCalls = 700, gtSuicide = 5000, gtExpByte = 50, gtCreateBySuicide = 25000\<rparr>"

section \<open>Fork schedule (\<open>config.go\<close>)\<close>

record ChainConfig =
  ChainID :: "int option"
  HomesteadBlock :: "int option"
  DAOForkBlock :: "int option"
  DAOForkSupport :: bool
  EIP150Block :: "int option"
  EIP155Block :: "int option"
  EIP158Block :: "int option"
  ByzantiumBlock :: "int option"
  ConstantinopleBlock :: "int option"

definition isForked :: "int option \<Rightarrow> int option \<Rightarrow> bool" where
  "isForked s head = (case (s, head) of (Some s, Some head) \<Rightarrow> s \<le> head | _ \<Rightarrow> False)"

definition configNumEqual :: "int option \<Rightarrow> int option \<Rightarrow> bool" where
  "configNumEqual x y =
     (case x of None \<Rightarrow> y = None | Some a \<Rightarrow> (case y of None \<Rightarrow> x = None | Some b \<Rightarrow> a = b))"

definition isForkIncompatible :: "int option \<Rightarrow> int option \<Rightarrow> int option \<Rightarrow> bool" where
  "isForkIncompatible s1 s2 head = ((isForked s1 head \<or> isForked s2 head) \<and> \<not> configNumEqual s1 s2)"

definition IsHomestead :: "ChainConfig \<Rightarrow> int \<Rightarrow> bool" where
  "IsHomestead c num = isForked (HomesteadBlock c) (Some num)"

definition IsDAOFork :: "ChainConfig \<Rightarrow> int \<Rightarrow> bool" where
  "IsDAOFork c num = isForked (DAOForkBlock c) (Some num)"

definition IsEIP150 :: "ChainConfig \<Rightarrow> int \<Rightarrow> bool" where
  "IsEIP150 c num = isForked (EIP150Block c) (Some num)"

definition IsEIP155 :: "ChainConfig \<Rightarrow> int \<Rightarrow> bool" where
  "IsEIP155 c num = isForked (EIP155Block c) (Some num)"

definition IsEIP158 :: "ChainConfig \<Rightarrow> int \<Rightarrow> bool" where
  "IsEIP158 c num = isForked (EIP158Block c) (Some num)"

definition IsByzantium :: "ChainConfig \<Rightarrow> int \<Rightarrow> bool" where
  "IsByzantium c num = isForked (ByzantiumBlock c) (Some num)"

definition IsConstantinople :: "ChainConfig \<Rightarrow> int \<Rightarrow> bool" where
  "IsConstantinople c num = isForked (ConstantinopleBlock c) (Some num)"

definition ChainConfig_GasTable :: "ChainConfig \<Rightarrow> int \<Rightarrow> GasTable" where
  "ChainConfig_GasTable c num =
     (if IsEIP158 c num then GasTableEIP158
      else if IsEIP150 c num then GasTableEIP150
      else GasTableHomestead)"

text \<open>Every phase charges for account access, and a phase with a self-destruct surcharge is a
  phase of the 63/64 rule; the interpreter's gas argument rests on these two facts.\<close>

lemma gas_tables:
  "ChainConfig_GasTable c num \<in> {GasTableHomestead, GasTableEIP150, GasTableEIP158}"
  by (simp add: ChainConfig_GasTable_def)

lemma gas_table_positive:
  assumes "gt = ChainConfig_GasTable c num"
  shows "20 \<le> unat (gtExtcodeSize gt)" "20 \<le> unat (gtExtcodeCopy gt)" "20 \<le> unat (gtBalance gt)"
    "50 \<le> unat (gtSLoad gt)" "40 \<le> unat (gtCalls gt)" "unat (gtCalls gt) \<le> 700"
    "unat (gtExpByte gt) \<le> 50" "unat (gtExtcodeCopy gt) \<le> 700"
  using gas_tables [of c num] assms
  by (auto simp: GasTableHomestead_def GasTableEIP150_def GasTableEIP158_def)

end
