(* ===== verification/VM_Base.thy ===== *)
theory VM_Base
  imports StateDB Params
begin

text \<open>The data structures of the virtual machine in \<open>core/vm\<close>: errors, \<open>stack.go\<close>,
  \<open>memory.go\<close>, the helpers of \<open>common.go\<close>, the jump destination analysis of \<open>analysis.go\<close>, the
  contract of \<open>contract.go\<close> and the state of the machine. Stack items are integers; the machine
  keeps them in the range of 256-bit words. Every slice or index expression that can leave its range
  returns \<open>None\<close>, a Go panic. The pools of reusable integers (\<open>intpool.go\<close>) only recycle
  allocations and have no counterpart here.\<close>

section \<open>Errors\<close>

datatype vm_error =
    ErrOutOfGas | ErrCodeStoreOutOfGas | ErrDepth | ErrInsufficientBalance
  | ErrContractAddressCollision | errWriteProtection | errReturnDataOutOfBounds
  | errExecutionReverted | errMaxCodeSizeExceeded | errGasUintOverflow
  | errInvalidOpcode byte | errStackUnderflow | errStackLimit | errInvalidJump
  | errBadPairingInput | errBn256 | errEcrecover

section \<open>Stack (\<open>stack.go\<close>, \<open>stack_table.go\<close>)\<close>

text \<open>The stack is a list with its top first.\<close>

type_synonym Stack = "int list"

definition stack_pop :: "Stack \<Rightarrow> (int \<times> Stack) option" where
  "stack_pop st = (case st of [] \<Rightarrow> None | x # xs \<Rightarrow> Some (x, xs))"

definition stack_peek :: "Stack \<Rightarrow> int option" where
  "stack_peek st = go_index st 0"

definition stack_Back :: "Stack \<Rightarrow> nat \<Rightarrow> int option" where
  "stack_Back st n = go_index st n"

text \<open>\<open>swap\<close> exchanges the top with the item \<open>n - 1\<close> places below it; \<open>dup\<close> copies the item
  \<open>n - 1\<close> places below the top.\<close>

definition stack_swap :: "nat \<Rightarrow> Stack \<Rightarrow> Stack option" where
  "stack_swap n st =
     do { x \<leftarrow> go_index st (n - 1); y \<leftarrow> go_index st 0; Some (st[n - 1 := y, 0 := x]) }"

definition stack_dup :: "nat \<Rightarrow> Stack \<Rightarrow> Stack option" where
  "stack_dup n st = do { x \<leftarrow> go_index st (n - 1); Some (x # st) }"

definition stack_require :: "nat \<Rightarrow> Stack \<Rightarrow> vm_error option" where
  "stack_require n st = (if length st < n then Some errStackUnderflow else None)"

definition makeStackFunc :: "nat \<Rightarrow> nat \<Rightarrow> Stack \<Rightarrow> vm_error option" where
  "makeStackFunc pop push st =
     (case stack_require pop st of Some e \<Rightarrow> Some e
      | None \<Rightarrow> if length st + push - pop > StackLimit then Some errStackLimit else None)"

definition makeDupStackFunc :: "nat \<Rightarrow> Stack \<Rightarrow> vm_error option" where
  "makeDupStackFunc n = makeStackFunc n (n + 1)"

definition makeSwapStackFunc :: "nat \<Rightarrow> Stack \<Rightarrow> vm_error option" where
  "makeSwapStackFunc n = makeStackFunc n n"

section \<open>Memory (\<open>memory.go\<close>)\<close>

record Memory =
  m_store :: bytes
  m_lastGasCost :: uint64

definition NewMemory :: Memory where
  "NewMemory = \<lparr> m_store = [], m_lastGasCost = 0 \<rparr>"

definition write_store :: "bytes \<Rightarrow> nat \<Rightarrow> nat \<Rightarrow> bytes \<Rightarrow> bytes option" where
  "write_store store lo hi val =
     do { window \<leftarrow> go_slice store lo hi; Some (take lo store @ go_copy window val @ drop hi store) }"

definition mem_Set :: "uint64 \<Rightarrow> uint64 \<Rightarrow> bytes \<Rightarrow> Memory \<Rightarrow> Memory option" where
  "mem_Set offset sz val m =
     (if sz > 0 then
        if offset + sz > of_nat (length (m_store m)) then None
        else do { store \<leftarrow> write_store (m_store m) (unat offset) (unat (offset + sz)) val;
                  Some (m\<lparr> m_store := store \<rparr>) }
      else Some m)"

definition mem_Set32 :: "uint64 \<Rightarrow> int \<Rightarrow> Memory \<Rightarrow> Memory option" where
  "mem_Set32 offset val m =
     (if offset + 32 > of_nat (length (m_store m)) then None
      else do { store \<leftarrow> write_store (m_store m) (unat offset) (unat (offset + 32)) (replicate 32 0);
                window \<leftarrow> go_slice store (unat offset) (unat (offset + 32));
                store \<leftarrow> write_store store (unat offset) (unat (offset + 32)) (ReadBits val window);
                Some (m\<lparr> m_store := store \<rparr>) })"

definition mem_Resize :: "uint64 \<Rightarrow> Memory \<Rightarrow> Memory" where
  "mem_Resize sz m =
     (if of_nat (length (m_store m)) < sz
      then m\<lparr> m_store := m_store m @ replicate (unat (sz - of_nat (length (m_store m)))) 0 \<rparr>
      else m)"

text \<open>\<open>Get\<close> and \<open>GetPtr\<close> take signed offsets and sizes. They return the same bytes; the slice
  \<open>GetPtr\<close> shares with the memory is only read.\<close>

definition mem_slice :: "bytes \<Rightarrow> int \<Rightarrow> int \<Rightarrow> bytes option" where
  "mem_slice store offset sz =
     (if 0 \<le> offset \<and> 0 \<le> sz then go_slice store (nat offset) (nat (offset + sz)) else None)"

definition mem_Get :: "int \<Rightarrow> int \<Rightarrow> Memory \<Rightarrow> bytes option" where
  "mem_Get offset sz m =
     (if sz = 0 then Some []
      else if int (length (m_store m)) > offset then mem_slice (m_store m) offset sz
      else Some [])"

definition mem_GetPtr :: "int \<Rightarrow> int \<Rightarrow> Memory \<Rightarrow> bytes option" where
  "mem_GetPtr offset sz m =
     (if sz = 0 then Some []
      else if int (length (m_store m)) > offset then mem_slice (m_store m) offset sz
      else Some [])"

section \<open>Helpers (\<open>common.go\<close>, \<open>gas.go\<close>)\<close>

definition calcMemSize :: "int \<Rightarrow> int \<Rightarrow> int" where
  "calcMemSize off l = (if l = 0 then 0 else off + l)"

definition getData :: "bytes \<Rightarrow> uint64 \<Rightarrow> uint64 \<Rightarrow> bytes option" where
  "getData data start sz =
     (let len = of_nat (length data);
          start = (if start > len then len else start);
          e = start + sz;
          e = (if e > len then len else e)
      in do { b \<leftarrow> go_slice data (unat start) (unat e); Some (RightPadBytes b (sint sz)) })"

definition getDataBig :: "bytes \<Rightarrow> int \<Rightarrow> int \<Rightarrow> bytes option" where
  "getDataBig data start sz =
     (let dlen = int (length data);
          s = BigMin start dlen;
          e = BigMin (s + sz) dlen
      in do { b \<leftarrow> go_slice data (unat (Uint64 s)) (unat (Uint64 e));
              Some (RightPadBytes b (sint (Uint64 sz))) })"

definition bigUint64 :: "int \<Rightarrow> uint64 \<times> bool" where
  "bigUint64 v = (Uint64 v, BitLen v > 64)"

definition toWordSize :: "uint64 \<Rightarrow> uint64" where
  "toWordSize sz = (if sz > MaxUint64 - 31 then MaxUint64 div 32 + 1 else (sz + 31) div 32)"

definition allZero :: "bytes \<Rightarrow> bool" where
  "allZero b = list_all (\<lambda>x. x = 0) b"

text \<open>\<open>callGas\<close>: the cap of 63/64 of the available gas, from EIP 150 on.\<close>

definition callGas :: "GasTable \<Rightarrow> uint64 \<Rightarrow> uint64 \<Rightarrow> int \<Rightarrow> vm_error + uint64" where
  "callGas gasTable availableGas base callCost =
     (let availableGas = availableGas - base;
          gas = availableGas - availableGas div 64;
          requested = (if BitLen callCost > 64 then Inl errGasUintOverflow
                       else Inr (Uint64 callCost))
      in if gtCreateBySuicide gasTable > 0
         then if BitLen callCost > 64 \<or> gas < Uint64 callCost then Inr gas else requested
         else requested)"

section \<open>Jump destinations (\<open>analysis.go\<close>)\<close>

text \<open>A bit vector with one bit per code byte, most significant bit first. A set bit marks the
  argument of a push instruction.\<close>

type_synonym bitvec = bytes

definition bitvec_or :: "nat \<Rightarrow> byte \<Rightarrow> bitvec \<Rightarrow> bitvec option" where
  "bitvec_or i msk bits = do { b \<leftarrow> go_index bits i; Some (bits[i := b OR msk]) }"

definition bitvec_set :: "nat \<Rightarrow> bitvec \<Rightarrow> bitvec option" where
  "bitvec_set pos bits = bitvec_or (pos div 8) (drop_bit (pos mod 8) 0x80) bits"

definition bitvec_set8 :: "nat \<Rightarrow> bitvec \<Rightarrow> bitvec option" where
  "bitvec_set8 pos bits =
     do { bits \<leftarrow> bitvec_or (pos div 8) (drop_bit (pos mod 8) 0xFF) bits;
          bitvec_or (pos div 8 + 1) (NOT (drop_bit (pos mod 8) 0xFF)) bits }"

definition codeSegment :: "nat \<Rightarrow> bitvec \<Rightarrow> bool option" where
  "codeSegment pos bits =
     do { b \<leftarrow> go_index bits (pos div 8); Some (b AND drop_bit (pos mod 8) 0x80 = 0) }"

text \<open>The two inner loops of \<open>codeBitmap\<close> for a push of \<open>numbits\<close> bytes: first eight bits at a
  time, then one at a time.\<close>

primrec mark_bits :: "nat \<Rightarrow> nat \<Rightarrow> bitvec \<Rightarrow> bitvec option" where
  "mark_bits 0 pc bits = Some bits"
| "mark_bits (Suc n) pc bits = do { bits \<leftarrow> bitvec_set pc bits; mark_bits n (pc + 1) bits }"

fun mark_push :: "nat \<Rightarrow> nat \<Rightarrow> bitvec \<Rightarrow> bitvec option" where
  "mark_push numbits pc bits =
     (if numbits \<ge> 8 then do { bits \<leftarrow> bitvec_set8 pc bits; mark_push (numbits - 8) (pc + 8) bits }
      else mark_bits numbits pc bits)"

declare mark_push.simps [simp del]

function codeBitmap_loop :: "bytes \<Rightarrow> nat \<Rightarrow> bitvec \<Rightarrow> bitvec option" where
  "codeBitmap_loop code pc bits =
     (if pc < length code then
        let op = code ! pc
        in if 0x60 \<le> op \<and> op \<le> 0x7f then
             let numbits = unat (op - 0x60 + 1)
             in do { bits \<leftarrow> mark_push numbits (pc + 1) bits;
                     codeBitmap_loop code (pc + 1 + numbits) bits }
           else codeBitmap_loop code (pc + 1) bits
      else Some bits)"
  by pat_completeness auto
termination
  by (relation "measure (\<lambda>(code, pc, bits). length code - pc)") auto

declare codeBitmap_loop.simps [simp del]

definition codeBitmap :: "bytes \<Rightarrow> bitvec option" where
  "codeBitmap code = codeBitmap_loop code 0 (replicate (length code div 8 + 1 + 4) 0)"

text \<open>\<open>has\<close> looks the code hash up in the cache of analysed contracts and fills it.\<close>

type_synonym destinations = "hash \<rightharpoonup> bitvec"

definition destinations_has ::
    "hash \<Rightarrow> bytes \<Rightarrow> int \<Rightarrow> destinations \<Rightarrow> (bool \<times> destinations) option" where
  "destinations_has codehash code dest d =
     (let udest = Uint64 dest
      in if BitLen dest \<ge> 63 \<or> udest \<ge> of_nat (length code) then Some (False, d)
         else do { (m, d) \<leftarrow> (case d codehash of Some m \<Rightarrow> Some (m, d)
                             | None \<Rightarrow> do { m \<leftarrow> codeBitmap code; Some (m, d(codehash \<mapsto> m)) });
                   op \<leftarrow> go_index code (unat udest);
                   if op = 0x5b
                   then do { isCode \<leftarrow> codeSegment (unat udest) m; Some (isCode, d) }
                   else Some (False, d) })"

section \<open>Contracts (\<open>contract.go\<close>)\<close>

text \<open>The field \<open>jumpdests\<close> is one map shared by reference along a tree of calls; it lives in the
  state of the machine, and a contract called by an account starts a new one. The field \<open>caller\<close>
  is only read by \<open>AsDelegate\<close>, which is given the caller here.\<close>

record Contract =
  c_CallerAddress :: address
  c_self :: address
  c_Code :: bytes
  c_CodeHash :: hash
  c_CodeAddr :: "address option"
  c_Input :: bytes
  c_Gas :: uint64
  c_value :: int
  c_DelegateCall :: bool

datatype ContractRef = AccountRef address | CallerContract Contract

primrec ref_Address :: "ContractRef \<Rightarrow> address" where
  "ref_Address (AccountRef a) = a"
| "ref_Address (CallerContract c) = c_self c"

definition NewContract ::
    "ContractRef \<Rightarrow> address \<Rightarrow> int \<Rightarrow> uint64 \<Rightarrow> destinations \<Rightarrow> Contract \<times> destinations" where
  "NewContract caller object val gas jumpdests =
     (\<lparr> c_CallerAddress = ref_Address caller, c_self = object, c_Code = [], c_CodeHash = 0,
        c_CodeAddr = None, c_Input = [], c_Gas = gas, c_value = val, c_DelegateCall = False \<rparr>,
      (case caller of CallerContract _ \<Rightarrow> jumpdests | AccountRef _ \<Rightarrow> Map.empty))"

definition AsDelegate :: "ContractRef \<Rightarrow> Contract \<Rightarrow> Contract option" where
  "AsDelegate caller c =
     (case caller of AccountRef _ \<Rightarrow> None
      | CallerContract parent \<Rightarrow>
          Some (c\<lparr> c_DelegateCall := True, c_CallerAddress := c_CallerAddress parent,
                   c_value := c_value parent \<rparr>))"

definition GetByte :: "uint64 \<Rightarrow> Contract \<Rightarrow> byte" where
  "GetByte n c = (if n < of_nat (length (c_Code c)) then c_Code c ! unat n else 0)"

definition GetOp :: "uint64 \<Rightarrow> Contract \<Rightarrow> byte" where
  "GetOp n c = GetByte n c"

definition UseGas :: "uint64 \<Rightarrow> Contract \<Rightarrow> bool \<times> Contract" where
  "UseGas gas c = (if c_Gas c < gas then (False, c) else (True, c\<lparr> c_Gas := c_Gas c - gas \<rparr>))"

definition SetCallCode :: "address \<Rightarrow> hash \<Rightarrow> bytes \<Rightarrow> Contract \<Rightarrow> Contract" where
  "SetCallCode addr h code c =
     c\<lparr> c_Code := code, c_CodeHash := h, c_CodeAddr := Some addr \<rparr>"

section \<open>The machine (\<open>evm.go\<close>)\<close>

record Context =
  ctx_GetHash :: "uint64 \<Rightarrow> hash"
  ctx_Origin :: address
  ctx_GasPrice :: int
  ctx_Coinbase :: address
  ctx_GasLimit :: uint64
  ctx_BlockNumber :: int
  ctx_Time :: int
  ctx_Difficulty :: int

text \<open>The functions of the \<open>crypto\<close> packages that the precompiled contracts call. Curve points are
  their affine coordinates.\<close>

type_synonym G1 = "int \<times> int"
type_synonym G2 = "(int \<times> int) \<times> (int \<times> int)"

record Crypto =
  Ecrecover :: "bytes \<Rightarrow> bytes \<Rightarrow> bytes option"
  Sha256 :: "bytes \<Rightarrow> bytes"
  Ripemd160 :: "bytes \<Rightarrow> bytes"
  G1_Unmarshal :: "bytes \<Rightarrow> G1 option"
  G2_Unmarshal :: "bytes \<Rightarrow> G2 option"
  G1_Add :: "G1 \<Rightarrow> G1 \<Rightarrow> G1"
  G1_ScalarMult :: "G1 \<Rightarrow> int \<Rightarrow> G1"
  G1_Marshal :: "G1 \<Rightarrow> bytes"
  PairingCheck :: "G1 list \<Rightarrow> G2 list \<Rightarrow> bool"

text \<open>The machine together with the fields of its interpreter. The flag \<open>abort\<close> may be set by
  another thread at any time: the machine carries the sequence of the values that the loop will read
  and the number of reads so far.\<close>

record 't EVM =
  evm_ctx :: Context
  evm_StateDB :: "'t StateDB"
  evm_depth :: nat
  evm_chainConfig :: ChainConfig
  evm_NoRecursion :: bool
  evm_EnablePreimageRecording :: bool
  evm_readOnly :: bool
  evm_returnData :: bytes
  evm_callGasTemp :: uint64
  evm_jumpdests :: destinations
  evm_abort :: "nat \<Rightarrow> bool"
  evm_ticks :: nat
  evm_crypto :: Crypto

definition evm_BlockNumber :: "'t EVM \<Rightarrow> int" where
  "evm_BlockNumber evm = ctx_BlockNumber (evm_ctx evm)"

definition evm_gasTable :: "'t EVM \<Rightarrow> GasTable" where
  "evm_gasTable evm = ChainConfig_GasTable (evm_chainConfig evm) (evm_BlockNumber evm)"

definition NewEVM ::
    "Context \<Rightarrow> 't StateDB \<Rightarrow> ChainConfig \<Rightarrow> bool \<Rightarrow> bool \<Rightarrow> (nat \<Rightarrow> bool) \<Rightarrow> Crypto \<Rightarrow> 't EVM" where
  "NewEVM ctx statedb chainConfig noRecursion preimages abort crypto =
     \<lparr> evm_ctx = ctx, evm_StateDB = statedb, evm_depth = 0, evm_chainConfig = chainConfig,
       evm_NoRecursion = noRecursion, evm_EnablePreimageRecording = preimages,
       evm_readOnly = False, evm_returnData = [], evm_callGasTemp = 0,
       evm_jumpdests = Map.empty, evm_abort = abort, evm_ticks = 0, evm_crypto = crypto \<rparr>"

text \<open>Reading the state database through the machine.\<close>

definition evm_read :: "('t StateDB \<Rightarrow> 'a \<times> 't StateDB) \<Rightarrow> 't EVM \<Rightarrow> 'a \<times> 't EVM" where
  "evm_read f evm = (let (x, s) = f (evm_StateDB evm) in (x, evm\<lparr> evm_StateDB := s \<rparr>))"

definition evm_write :: "('t StateDB \<Rightarrow> 't StateDB) \<Rightarrow> 't EVM \<Rightarrow> 't EVM" where
  "evm_write f evm = evm\<lparr> evm_StateDB := f (evm_StateDB evm) \<rparr>"

text \<open>One activation of the interpreter: the variables of \<open>Run\<close> that an instruction receives.\<close>

record 't frame =
  f_pc :: uint64
  f_evm :: "'t EVM"
  f_contract :: Contract
  f_mem :: Memory
  f_stack :: Stack

type_synonym 't outcome = "('t frame \<times> bytes \<times> vm_error option) option"
type_synonym 't executionFunc = "'t frame \<Rightarrow> 't outcome"

text \<open>The result of running a contract: the machine, the contract with its remaining gas, the bytes
  returned and the error. It is \<open>None\<close> if the code panics or the fuel does not suffice.\<close>

type_synonym 't run_result = "('t EVM \<times> Contract \<times> bytes \<times> vm_error option) option"
type_synonym 't runner = "'t EVM \<Rightarrow> Contract \<Rightarrow> bytes \<Rightarrow> 't run_result"

section \<open>Jump destination analysis\<close>

definition bv_bit :: "bitvec \<Rightarrow> nat \<Rightarrow> bool" where
  "bv_bit bits p \<longleftrightarrow> bit (bits ! (p div 8)) (7 - p mod 8)"

lemma bit_0x80: "bit (drop_bit k (0x80 :: byte)) i \<longleftrightarrow> i + k = 7"
proof -
  have "(0x80 :: byte) = 2 ^ 7" by simp
  then show ?thesis by (simp only: bit_drop_bit_eq bit_exp_iff comp_def) (auto simp: possible_bit_word)
qed

lemma bit_0xFF: "bit (drop_bit k (0xFF :: byte)) i \<longleftrightarrow> i + k < 8"
proof -
  have "(0xFF :: byte) = mask 8" by (simp add: mask_eq_exp_minus_1)
  then show ?thesis by (simp only: bit_drop_bit_eq bit_mask_iff comp_def) (auto simp: possible_bit_word)
qed

lemma bitvec_or_ok:
  "i < length bits \<Longrightarrow> bitvec_or i msk bits = Some (bits[i := bits ! i OR msk])"
  by (simp add: bitvec_or_def)

lemma bv_bit_or:
  "i < length bits \<Longrightarrow> p div 8 < length bits \<Longrightarrow>
   bv_bit (bits[i := bits ! i OR msk]) p \<longleftrightarrow> bv_bit bits p \<or> (p div 8 = i \<and> bit msk (7 - p mod 8))"
  by (auto simp: bv_bit_def nth_list_update bit_or_iff)

lemma bitvec_set_spec:
  assumes "pos div 8 < length bits"
  obtains bits' where "bitvec_set pos bits = Some bits'" "length bits' = length bits"
    "\<And>p. p div 8 < length bits \<Longrightarrow> bv_bit bits' p \<longleftrightarrow> bv_bit bits p \<or> p = pos"
proof
  let ?b = "bits[pos div 8 := bits ! (pos div 8) OR drop_bit (pos mod 8) 0x80]"
  show "bitvec_set pos bits = Some ?b" using assms by (simp add: bitvec_set_def bitvec_or_ok)
  fix p
  assume "p div 8 < length bits"
  moreover have "p div 8 = pos div 8 \<and> 7 - p mod 8 + pos mod 8 = 7 \<longleftrightarrow> p = pos"
  proof -
    have "a = c \<and> 7 - b + d = 7 \<longleftrightarrow> 8 * a + b = 8 * c + d" if "b < 8" "d < 8" for a b c d :: nat
    proof -
      consider "a < c" | "a = c" | "c < a" by linarith
      then show ?thesis using that by cases auto
    qed
    from this[of "p mod 8" "pos mod 8" "p div 8" "pos div 8"] show ?thesis
      by (simp only: mult_div_mod_eq mod_less_divisor zero_less_numeral simp_thms)
  qed
  ultimately show "bv_bit ?b p \<longleftrightarrow> bv_bit bits p \<or> p = pos"
    using assms by (simp add: bv_bit_or bit_0x80)
qed simp

lemma bitvec_set8_spec:
  assumes "pos div 8 + 1 < length bits"
  obtains bits' where "bitvec_set8 pos bits = Some bits'" "length bits' = length bits"
    "\<And>p. p div 8 < length bits \<Longrightarrow> bv_bit bits' p \<longleftrightarrow> bv_bit bits p \<or> (pos \<le> p \<and> p < pos + 8)"
proof
  let ?m = "drop_bit (pos mod 8) (0xFF :: byte)"
  let ?b1 = "bits[pos div 8 := bits ! (pos div 8) OR ?m]"
  let ?b = "?b1[pos div 8 + 1 := ?b1 ! (pos div 8 + 1) OR NOT ?m]"
  show "bitvec_set8 pos bits = Some ?b" using assms by (simp add: bitvec_set8_def bitvec_or_ok)
  fix p
  assume p: "p div 8 < length bits"
  have "bv_bit ?b p \<longleftrightarrow> bv_bit bits p \<or> (p div 8 = pos div 8 \<and> 7 - p mod 8 + pos mod 8 < 8) \<or>
      (p div 8 = pos div 8 + 1 \<and> \<not> 7 - p mod 8 + pos mod 8 < 8)"
  proof -
    have "bv_bit ?b p \<longleftrightarrow> bv_bit ?b1 p \<or> (p div 8 = pos div 8 + 1 \<and> bit (NOT ?m) (7 - p mod 8))"
      using assms p by (intro bv_bit_or) simp_all
    moreover have "bv_bit ?b1 p \<longleftrightarrow> bv_bit bits p \<or> (p div 8 = pos div 8 \<and> bit ?m (7 - p mod 8))"
      using assms p by (intro bv_bit_or) simp_all
    moreover have "bit (NOT ?m) (7 - p mod 8) \<longleftrightarrow> \<not> bit ?m (7 - p mod 8)"
    proof -
      have "7 - p mod 8 < (8 :: nat)" by linarith
      then show ?thesis by (simp add: bit_not_iff possible_bit_word)
    qed
    ultimately show ?thesis by (simp only: bit_0xFF) blast
  qed
  moreover have "(p div 8 = pos div 8 \<and> 7 - p mod 8 + pos mod 8 < 8) \<or>
      (p div 8 = pos div 8 + 1 \<and> \<not> 7 - p mod 8 + pos mod 8 < 8) \<longleftrightarrow> pos \<le> p \<and> p < pos + 8"
  proof -
    have "(a = c \<and> 7 - b + d < 8) \<or> (a = c + 1 \<and> \<not> 7 - b + d < 8) \<longleftrightarrow>
        8 * c + d \<le> 8 * a + b \<and> 8 * a + b < 8 * c + d + 8" if "b < 8" "d < 8" for a b c d :: nat
    proof -
      consider "a < c" | "a = c" | "a = c + 1" | "c + 1 < a" by linarith
      then show ?thesis using that by cases auto
    qed
    from this[of "p mod 8" "pos mod 8" "p div 8" "pos div 8"] show ?thesis
      by (simp only: mult_div_mod_eq mod_less_divisor zero_less_numeral simp_thms)
  qed
  ultimately show "bv_bit ?b p \<longleftrightarrow> bv_bit bits p \<or> (pos \<le> p \<and> p < pos + 8)" by blast
qed simp

lemma mark_bits_spec:
  assumes "n = 0 \<or> (pc + n - 1) div 8 < length bits"
  shows "\<exists>bits'. mark_bits n pc bits = Some bits' \<and> length bits' = length bits \<and>
     (\<forall>p. p div 8 < length bits \<longrightarrow> (bv_bit bits' p \<longleftrightarrow> bv_bit bits p \<or> (pc \<le> p \<and> p < pc + n)))"
  using assms
proof (induction n arbitrary: pc bits)
  case (Suc n)
  have "pc div 8 \<le> (pc + Suc n - 1) div 8" by (intro div_le_mono) simp
  then have "pc div 8 < length bits" using Suc.prems by auto
  then obtain b where b: "bitvec_set pc bits = Some b" "length b = length bits"
    "\<And>p. p div 8 < length bits \<Longrightarrow> bv_bit b p \<longleftrightarrow> bv_bit bits p \<or> p = pc"
    by (rule bitvec_set_spec) blast
  have "n = 0 \<or> (pc + 1 + n - 1) div 8 < length b" using Suc.prems b(2) by auto
  from Suc.IH[OF this] obtain b' where "mark_bits n (pc + 1) b = Some b'" "length b' = length b"
    "\<forall>p. p div 8 < length b \<longrightarrow> (bv_bit b' p \<longleftrightarrow> bv_bit b p \<or> (pc + 1 \<le> p \<and> p < pc + 1 + n))" by blast
  then show ?case using b by (auto simp: Suc_le_eq)
qed auto

lemma mark_push_spec:
  assumes "n = 0 \<or> (pc + n) div 8 < length bits"
  shows "\<exists>bits'. mark_push n pc bits = Some bits' \<and> length bits' = length bits \<and>
     (\<forall>p. p div 8 < length bits \<longrightarrow> (bv_bit bits' p \<longleftrightarrow> bv_bit bits p \<or> (pc \<le> p \<and> p < pc + n)))"
  using assms
proof (induction n pc bits rule: mark_push.induct)
  case (1 n pc bits)
  show ?case
  proof (cases "8 \<le> n")
    case True
    have "(pc + 8) div 8 \<le> (pc + n) div 8" using True by (intro div_le_mono) simp
    then have "pc div 8 + 1 < length bits" using "1.prems" True by auto
    then obtain b where b: "bitvec_set8 pc bits = Some b" "length b = length bits"
      "\<And>p. p div 8 < length bits \<Longrightarrow> bv_bit b p \<longleftrightarrow> bv_bit bits p \<or> (pc \<le> p \<and> p < pc + 8)"
      by (rule bitvec_set8_spec) blast
    have "n - 8 = 0 \<or> (pc + 8 + (n - 8)) div 8 < length b" using "1.prems" True b(2) by auto
    from "1.IH"[OF True b(1) this] obtain b' where
      "mark_push (n - 8) (pc + 8) b = Some b'" "length b' = length b"
      "\<forall>p. p div 8 < length b \<longrightarrow> (bv_bit b' p \<longleftrightarrow> bv_bit b p \<or> (pc + 8 \<le> p \<and> p < pc + 8 + (n - 8)))" by blast
    then show ?thesis using b True by (subst mark_push.simps) auto
  next
    case False
    have "(pc + n - 1) div 8 \<le> (pc + n) div 8" by (intro div_le_mono) simp
    then have "n = 0 \<or> (pc + n - 1) div 8 < length bits" using "1.prems" by auto
    from mark_bits_spec[OF this] show ?thesis using False by (subst mark_push.simps) simp
  qed
qed

text \<open>The positions of a code at which an instruction starts, by the definition of the push
  instructions.\<close>

definition push_size :: "byte \<Rightarrow> nat" where
  "push_size op = (if 0x60 \<le> op \<and> op \<le> 0x7f then unat (op - 0x60 + 1) else 0)"

inductive instr_at :: "bytes \<Rightarrow> nat \<Rightarrow> bool" for code where
  instr_first: "instr_at code 0"
| instr_next: "instr_at code pc \<Longrightarrow> pc < length code \<Longrightarrow> instr_at code (pc + 1 + push_size (code ! pc))"

lemma push_size_le: "push_size op \<le> 32"
proof (cases "0x60 \<le> op \<and> op \<le> 0x7f")
  case True
  then have "unat op \<ge> 0x60" "unat op \<le> 0x7f" by (simp_all add: word_le_nat_alt)
  then have "unat (op - 0x60) \<le> 31" using True by (simp add: unat_sub)
  then have "unat (op - 0x60 + 1) \<le> 32" using unat_word_ariths(1)[of "op - 0x60" 1] by simp
  then show ?thesis using True by (simp add: push_size_def)
qed (auto simp: push_size_def)

lemma codeBitmap_loop_push:
  "codeBitmap_loop code pc bits =
     (if pc < length code
      then mark_push (push_size (code ! pc)) (pc + 1) bits \<bind> codeBitmap_loop code (pc + 1 + push_size (code ! pc))
      else Some bits)"
proof -
  have "mark_push 0 x b = Some b" for x b by (subst mark_push.simps) simp
  then show ?thesis by (subst codeBitmap_loop.simps) (simp add: push_size_def Let_def)
qed

definition next_instr :: "bytes \<Rightarrow> nat \<Rightarrow> nat" where
  "next_instr code pc = (if pc < length code then pc + 1 + push_size (code ! pc) else pc)"

lemma instr_at_iff: "instr_at code p \<longleftrightarrow> (\<exists>k. p = (next_instr code ^^ k) 0)"
proof
  show "instr_at code p \<Longrightarrow> \<exists>k. p = (next_instr code ^^ k) 0"
  proof (induction rule: instr_at.induct)
    case instr_first
    show ?case by (rule exI[of _ 0]) simp
  next
    case (instr_next pc)
    then obtain k where k: "pc = (next_instr code ^^ k) 0" by blast
    have "next_instr code pc = pc + 1 + push_size (code ! pc)" using instr_next(2) by (simp add: next_instr_def)
    then show ?case using k by (intro exI[of _ "Suc k"]) simp
  qed
  have "instr_at code ((next_instr code ^^ k) 0)" for k
  proof (induction k)
    case (Suc k)
    then show ?case
      using instr_next[of code "(next_instr code ^^ k) 0"] next_instr_def[of code "(next_instr code ^^ k) 0"] by simp
  qed (simp add: instr_first)
  then show "\<exists>k. p = (next_instr code ^^ k) 0 \<Longrightarrow> instr_at code p" by blast
qed

lemma instr_at_gap:
  assumes "instr_at code pc" "instr_at code q" "pc < q"
  shows "next_instr code pc \<le> q"
proof -
  let ?pos = "\<lambda>k. (next_instr code ^^ k) 0"
  have mono: "?pos i \<le> ?pos j" if "i \<le> j" for i j
    by (rule lift_Suc_mono_le[OF _ that]) (simp add: next_instr_def)
  obtain i j where "pc = ?pos i" "q = ?pos j" using assms(1,2) instr_at_iff by auto
  moreover from this assms(3) have "Suc i \<le> j" using mono[of j i] by (cases "j \<le> i") auto
  ultimately show ?thesis using mono[of "Suc i" j] by simp
qed

lemma codeBitmap_loop_spec:
  assumes "length bits = length code div 8 + 5" "instr_at code pc"
    "\<And>p. p < pc \<Longrightarrow> p < length code \<Longrightarrow> instr_at code p \<longleftrightarrow> \<not> bv_bit bits p"
    "\<And>p. pc \<le> p \<Longrightarrow> p div 8 < length bits \<Longrightarrow> \<not> bv_bit bits p"
  shows "\<exists>bits'. codeBitmap_loop code pc bits = Some bits' \<and> length bits' = length bits \<and>
     (\<forall>p < length code. instr_at code p \<longleftrightarrow> \<not> bv_bit bits' p)"
  using assms
proof (induction "length code - pc" arbitrary: pc bits rule: less_induct)
  case less
  show ?case
  proof (cases "pc < length code")
    case True
    let ?n = "push_size (code ! pc)"
    have "(pc + 1 + ?n) div 8 \<le> (length code + 32) div 8"
      using True push_size_le[of "code ! pc"] by (intro div_le_mono) simp
    moreover have "(length code + 32) div 8 = length code div 8 + 4" by presburger
    ultimately have "?n = 0 \<or> (pc + 1 + ?n) div 8 < length bits" using less.prems(1) by simp
    from mark_push_spec[OF this] obtain b where b: "mark_push ?n (pc + 1) bits = Some b" "length b = length bits"
      "\<And>p. p div 8 < length bits \<Longrightarrow> bv_bit b p \<longleftrightarrow> bv_bit bits p \<or> (pc + 1 \<le> p \<and> p < pc + 1 + ?n)" by blast
    have at: "instr_at code (pc + 1 + ?n)" using less.prems(2) True by (rule instr_next)
    have in_len: "p div 8 < length bits" if "p < length code" for p
      using that div_le_mono[of p "length code" 8] less.prems(1) by simp
    have "\<exists>bits'. codeBitmap_loop code (pc + 1 + ?n) b = Some bits' \<and> length bits' = length b \<and>
       (\<forall>p < length code. instr_at code p \<longleftrightarrow> \<not> bv_bit bits' p)"
    proof (rule less.hyps)
      show "length code - (pc + 1 + ?n) < length code - pc" using True by simp
      show "length b = length code div 8 + 5" using b(2) less.prems(1) by simp
      show "instr_at code (pc + 1 + ?n)" by (rule at)
      show "\<not> bv_bit b p" if "pc + 1 + ?n \<le> p" "p div 8 < length b" for p
        using that b less.prems(4)[of p] by simp
      show "instr_at code p \<longleftrightarrow> \<not> bv_bit b p" if p: "p < pc + 1 + ?n" "p < length code" for p
      proof (cases "p \<le> pc")
        case True
        then show ?thesis
          using b(3)[OF in_len[OF p(2)]] less.prems(2) less.prems(3,4)[of p] in_len[OF p(2)] p(2) by (cases "p = pc") auto
      next
        case False
        then have "\<not> instr_at code p" using instr_at_gap[OF less.prems(2), of p] True p by (auto simp: next_instr_def)
        then show ?thesis using b(3)[OF in_len[OF p(2)]] False p by simp
      qed
    qed
    then show ?thesis using True b by (subst codeBitmap_loop_push) auto
  next
    case False
    then show ?thesis using less.prems(3) by (subst codeBitmap_loop_push) auto
  qed
qed

lemma codeBitmap_spec:
  obtains bits where "codeBitmap code = Some bits" "length bits = length code div 8 + 5"
    "\<And>p. p < length code \<Longrightarrow> codeSegment p bits = Some (instr_at code p)"
proof -
  let ?z = "replicate (length code div 8 + 5) (0 :: byte)"
  have "\<exists>bits'. codeBitmap_loop code 0 ?z = Some bits' \<and> length bits' = length ?z \<and>
     (\<forall>p < length code. instr_at code p \<longleftrightarrow> \<not> bv_bit bits' p)"
    by (rule codeBitmap_loop_spec) (auto simp: instr_first bv_bit_def)
  then obtain bits where bits: "codeBitmap_loop code 0 ?z = Some bits" "length bits = length code div 8 + 5"
    "\<And>p. p < length code \<Longrightarrow> instr_at code p \<longleftrightarrow> \<not> bv_bit bits p" by auto
  have "codeSegment p bits = Some (instr_at code p)" if "p < length code" for p
  proof -
    have p: "p div 8 < length bits" using that div_le_mono[of p "length code" 8] bits(2) by simp
    have "x AND drop_bit k 0x80 = 0 \<longleftrightarrow> \<not> bit x (7 - k)" if "k < 8" for x :: byte and k
    proof -
      have "n + k = 7 \<longleftrightarrow> n = 7 - k" for n using that by auto
      moreover have "7 - k < 8" by linarith
      ultimately show ?thesis by (subst bit_eq_iff) (auto simp: bit_and_iff bit_0x80)
    qed
    then show ?thesis using p bits(3)[OF that] by (simp add: codeSegment_def bv_bit_def)
  qed
  moreover have "codeBitmap code = Some bits"
  proof -
    have eq: "length code div 8 + 1 + 4 = length code div 8 + 5" by simp
    show ?thesis unfolding codeBitmap_def eq by (rule bits(1))
  qed
  ultimately show thesis using that[of bits] bits(2) by blast
qed

text \<open>\<open>has\<close> answers whether an instruction JUMPDEST starts at the destination, if the cache holds no
  analysis of another code under the same hash.\<close>

lemma destinations_has_spec:
  assumes "length code < 2 ^ 62" "0 \<le> dest" "d h = None \<or> d h = codeBitmap code"
  obtains d' where "destinations_has h code dest d =
      Some (dest < int (length code) \<and> code ! nat dest = 0x5b \<and> instr_at code (nat dest), d')"
    "d' = d \<or> d' = d(h := codeBitmap code)"
proof -
  obtain bits where bits: "codeBitmap code = Some bits"
    "\<And>p. p < length code \<Longrightarrow> codeSegment p bits = Some (instr_at code p)"
    using codeBitmap_spec[of code] by metis
  have len: "unat (of_nat (length code) :: uint64) = length code"
    using assms(1) by (intro unat_of_nat_64) simp
  have big: "63 \<le> BitLen dest \<longleftrightarrow> 2 ^ 62 \<le> dest" using BitLen_gt_iff[of 62 dest] assms(2) by auto
  show thesis
  proof (cases "dest < int (length code)")
    case True
    have u: "unat (Uint64 dest) = nat dest" using True unat_Uint64[of dest] assms(1,2) by simp
    have n: "nat dest < length code" using True assms(2) by linarith
    have guard: "\<not> (63 \<le> BitLen dest \<or> of_nat (length code) \<le> Uint64 dest)"
      using True assms(1) n by (simp add: big word_le_nat_alt u len)
    define d' where "d' = (if d h = None then d(h := codeBitmap code) else d)"
    have "destinations_has h code dest d = Some (code ! nat dest = 0x5b \<and> instr_at code (nat dest), d')"
      using assms(3) bits guard n by (auto simp: destinations_has_def Let_def u d'_def)
    then show thesis using that[of d'] True by (auto simp: d'_def)
  next
    case False
    have "63 \<le> BitLen dest \<or> of_nat (length code) \<le> Uint64 dest"
    proof (cases "2 ^ 62 \<le> dest")
      case small: False
      then have "unat (Uint64 dest) = nat dest" using unat_Uint64[of dest] assms(2) by simp
      moreover have "length code \<le> nat dest" using False by linarith
      ultimately show ?thesis by (simp add: word_le_nat_alt len)
    qed (simp add: big)
    then show thesis using that[of d] False by (simp add: destinations_has_def Let_def)
  qed
qed

section \<open>Memory\<close>

lemma write_store_ok:
  "lo \<le> hi \<Longrightarrow> hi \<le> length store \<Longrightarrow>
   write_store store lo hi val = Some (take lo store @ go_copy (take (hi - lo) (drop lo store)) val @ drop hi store)"
  by (simp add: write_store_def)

lemma length_write_store: "write_store store lo hi val = Some store' \<Longrightarrow> length store' = length store"
  by (auto simp: write_store_def go_slice_def bind_Some_iff split: if_splits)

lemma mem_slice_ok:
  "0 \<le> off \<Longrightarrow> 0 \<le> sz \<Longrightarrow> off + sz \<le> int (length store) \<Longrightarrow>
   mem_slice store off sz = Some (take (nat sz) (drop (nat off) store))"
  by (simp add: mem_slice_def nat_add_distrib)

lemma mem_Get_ok:
  assumes "0 \<le> off" "0 \<le> sz" "sz = 0 \<or> off + sz \<le> int (length (m_store m))"
  shows "mem_Get off sz m = Some (take (nat sz) (drop (nat off) (m_store m)))"
  using assms mem_slice_ok[of off sz "m_store m"] by (auto simp: mem_Get_def)

lemma mem_GetPtr_Get: "mem_GetPtr off sz m = mem_Get off sz m"
  by (simp add: mem_GetPtr_def mem_Get_def)

text \<open>Reading memory at a stack item, when the memory is as large as \<open>calcMemSize\<close> asks for.\<close>

lemma mem_Get_stack:
  assumes "0 \<le> off" "0 \<le> sz" "calcMemSize off sz \<le> int (length (m_store m))" "length (m_store m) < 2 ^ 41"
  shows "\<exists>b. mem_Get (Int64 off) (Int64 sz) m = Some b \<and> length b = nat sz"
proof (cases "sz = 0")
  case True
  then show ?thesis by (simp add: mem_Get_def Int64_def)
next
  case False
  then have le: "off + sz \<le> int (length (m_store m))" using assms(3) by (simp add: calcMemSize_def)
  then have "off < 2 ^ 63" "sz < 2 ^ 63" using assms by auto
  then have "Int64 off = off" "Int64 sz = sz" using assms by (simp_all add: Int64_small)
  moreover have "nat sz \<le> length (m_store m) - nat off" using le assms by linarith
  ultimately show ?thesis using mem_Get_ok[of off sz m] assms le by simp
qed

lemma unat_stack_item: "0 \<le> x \<Longrightarrow> x < 2 ^ 41 \<Longrightarrow> unat (Uint64 x) = nat x"
  by (rule unat_Uint64) auto

lemma mem_Set_stack:
  assumes "0 \<le> off" "0 \<le> sz" "calcMemSize off sz \<le> int (length (m_store m))" "length (m_store m) < 2 ^ 41"
    "sz < 2 ^ 64"
  shows "\<exists>m'. mem_Set (Uint64 off) (Uint64 sz) val m = Some m' \<and> length (m_store m') = length (m_store m) \<and>
              m_lastGasCost m' = m_lastGasCost m"
proof (cases "sz = 0")
  case True
  then show ?thesis by (simp add: mem_Set_def Uint64_def)
next
  case False
  then have le: "off + sz \<le> int (length (m_store m))" using assms(3) by (simp add: calcMemSize_def)
  have off: "unat (Uint64 off) = nat off" and sz: "unat (Uint64 sz) = nat sz"
    using assms le by (simp_all add: unat_stack_item)
  have sum: "unat (Uint64 off + Uint64 sz) = nat off + nat sz"
    using assms le by (subst unat_add_no_wrap) (simp_all add: off sz nat_less_iff)
  have len: "unat (of_nat (length (m_store m)) :: uint64) = length (m_store m)"
    using assms(4) by (intro unat_of_nat_64) simp
  have "nat off + nat sz \<le> length (m_store m)" using le assms(1,2) by linarith
  then have "\<not> of_nat (length (m_store m)) < Uint64 off + Uint64 sz" by (simp add: word_less_nat_alt sum len)
  moreover have "Uint64 sz > 0" using sz False assms(2) by (simp add: word_greater_zero_iff flip: unat_gt_0)
  moreover obtain st where st: "write_store (m_store m) (nat off) (nat off + nat sz) val = Some st"
    using write_store_ok[of "nat off" "nat off + nat sz" "m_store m"] \<open>nat off + nat sz \<le> _\<close> by simp
  ultimately show ?thesis
    using length_write_store[OF st] by (simp add: mem_Set_def off sum)
qed

text \<open>Storing a word and loading it again.\<close>

lemma mem_Set32_spec:
  assumes "nat off + 32 \<le> length (m_store m)" "length (m_store m) < 2 ^ 41" "0 \<le> off"
  shows "mem_Set32 (Uint64 off) val m =
     Some (m\<lparr> m_store := take (nat off) (m_store m) @ be_bytes 32 \<bar>val\<bar> @ drop (nat off + 32) (m_store m) \<rparr>)"
proof -
  have off: "unat (Uint64 off) = nat off" using assms by (intro unat_stack_item) auto
  have sum: "unat (Uint64 off + 32) = nat off + 32"
    using assms by (subst unat_add_no_wrap) (simp_all add: off)
  have len: "unat (of_nat (length (m_store m)) :: uint64) = length (m_store m)"
    using assms(2) by (intro unat_of_nat_64) simp
  have g: "\<not> of_nat (length (m_store m)) < Uint64 off + 32" using assms(1) by (simp add: word_less_nat_alt sum len)
  have z: "go_copy (take 32 (drop (nat off) (m_store m))) (replicate 32 (0 :: byte)) = replicate 32 0"
    using assms(1) by (intro go_copy_same_length) simp
  have c: "go_copy (replicate 32 (0 :: byte)) (be_bytes 32 \<bar>val\<bar>) = be_bytes 32 \<bar>val\<bar>"
    by (intro go_copy_same_length) simp
  let ?t = "take (nat off) (m_store m)" and ?d = "drop (nat off + 32) (m_store m)"
  have lt: "length ?t = nat off" using assms(1) by simp
  have 1: "write_store (m_store m) (nat off) (nat off + 32) (replicate 32 0) = Some (?t @ replicate 32 0 @ ?d)"
    using assms(1) z by (simp add: write_store_ok)
  have 2: "go_slice (?t @ replicate 32 0 @ ?d) (nat off) (nat off + 32) = Some (replicate 32 0)"
    using assms(1) by (simp add: go_slice_Some_iff)
  have 3: "write_store (?t @ replicate 32 0 @ ?d) (nat off) (nat off + 32) (be_bytes 32 \<bar>val\<bar>) =
     Some (?t @ be_bytes 32 \<bar>val\<bar> @ ?d)"
    using assms(1) c by (simp add: write_store_ok)
  show ?thesis
    unfolding mem_Set32_def using g 1 2 3 by (simp add: off sum ReadBits_zeros)
qed

lemma mem_Resize_spec:
  assumes "length (m_store m) < 2 ^ 64"
  shows "m_store (mem_Resize sz m) = m_store m @ replicate (unat sz - length (m_store m)) 0"
    "m_lastGasCost (mem_Resize sz m) = m_lastGasCost m"
proof -
  have len: "unat (of_nat (length (m_store m)) :: uint64) = length (m_store m)"
    using assms by (intro unat_of_nat_64) simp
  show "m_store (mem_Resize sz m) = m_store m @ replicate (unat sz - length (m_store m)) 0"
    by (auto simp: mem_Resize_def word_less_nat_alt len unat_sub_le word_le_nat_alt)
qed (simp add: mem_Resize_def)

section \<open>Reading call data and code\<close>

lemma RightPadBytes_eq: "0 \<le> l \<Longrightarrow> RightPadBytes b l = (if nat l \<le> length b then b else b @ replicate (nat l - length b) 0)"
  by (auto simp: RightPadBytes_def go_copy_def nat_le_iff)

lemma getDataBig_spec:
  assumes "length data < 2 ^ 63" "0 \<le> start" "0 \<le> sz" "sz < 2 ^ 63"
  shows "getDataBig data start sz = Some (take (nat sz) (drop (nat start) data @ replicate (nat sz) 0))"
proof -
  let ?n = "length data"
  define s where "s = min (nat start) ?n"
  define e where "e = min (s + nat sz) ?n"
  have s: "BigMin start (int ?n) = int s" using assms(2) by (simp add: BigMin_def s_def)
  have e: "BigMin (int s + sz) (int ?n) = int e" using assms(3) by (auto simp: BigMin_def e_def)
  have u: "unat (Uint64 (int k)) = k" if "k \<le> ?n" for k
  proof -
    have "k < 2 ^ 63" using that assms(1) by (rule le_less_trans)
    then show ?thesis using unat_Uint64[of "int k"] by simp
  qed
  have i: "sint (Uint64 sz) = sz" using Int64_small[of sz] assms(3,4) by (simp add: Int64_def Uint64_def)
  have le: "s \<le> e" "e \<le> ?n" "s \<le> ?n" by (simp_all add: s_def e_def)
  have "getDataBig data start sz = Some (RightPadBytes (take (e - s) (drop s data)) sz)"
    unfolding getDataBig_def Let_def s e i using le by (simp only: u go_slice_ok Option.bind.bind_lunit)
  also have "RightPadBytes (take (e - s) (drop s data)) sz = take (nat sz) (drop (nat start) data @ replicate (nat sz) 0)"
  proof (cases "nat start \<le> ?n")
    case True
    have "take (e - s) (drop s data) = take (nat sz) (drop (nat start) data)"
      using True by (simp add: s_def e_def min_def)
    then show ?thesis using assms(3) by (simp add: RightPadBytes_eq)
  next
    case False
    then show ?thesis using assms(3) by (simp add: RightPadBytes_eq s_def e_def)
  qed
  finally show ?thesis .
qed

section \<open>Properties\<close>

text \<open>C20: The jump destination analysis \<open>codeBitmap\<close> never indexes outside its bit vector, and it marks
  exactly the bytes of a code at which no instruction starts, that is the arguments of push
  instructions: \<open>codeSegment\<close> answers for every position of the code whether an instruction starts
  there.\<close>

theorem codeBitmap_correct:
  "\<exists>bits. codeBitmap code = Some bits \<and> (\<forall>p < length code. codeSegment p bits = Some (instr_at code p))"
  using codeBitmap_spec[of code] by metis

theorem codeBitmap_correct_witness:
  "\<exists>bits. codeBitmap [0x60, 0x5b, 0x5b] = Some bits \<and> codeSegment 2 bits = Some (instr_at [0x60, 0x5b, 0x5b] 2)"
  using codeBitmap_correct[of "[0x60, 0x5b, 0x5b]"] by auto

text \<open>C19: A jump is allowed exactly to the JUMPDEST bytes of the code at which an instruction starts,
  so never into the argument of a push instruction; the check does not panic. The cache of analysed
  codes is assumed to hold no analysis of another code under the same hash.\<close>

theorem destinations_has_correct:
  assumes "length code < 2 ^ 62" "0 \<le> dest" "d h = None \<or> d h = codeBitmap code"
  shows "\<exists>d'. destinations_has h code dest d =
      Some (dest < int (length code) \<and> code ! nat dest = 0x5b \<and> instr_at code (nat dest), d')"
  using destinations_has_spec[where d = d and h = h, OF assms] by metis

theorem destinations_has_correct_witness:
  "\<exists>d'. destinations_has 0 [0x60, 0x5b, 0x5b] 2 Map.empty = Some (True, d')"
proof -
  have "push_size 0x60 = 1" by (simp add: push_size_def)
  then have "instr_at [0x60, 0x5b, 0x5b] 2"
    using instr_next[OF instr_first, of "[0x60, 0x5b, 0x5b]"] by (simp add: numeral_2_eq_2)
  then show ?thesis
    using destinations_has_correct[of "[0x60, 0x5b, 0x5b]" 2 Map.empty 0] by simp
qed

text \<open>C36: A 256-bit value stored in memory with \<open>Set32\<close> is loaded again by \<open>Get\<close>, and the bytes outside
  the 32 that were written keep their values.\<close>

theorem mem_Set32_Get:
  assumes "nat off + 32 \<le> length (m_store m)" "length (m_store m) < 2 ^ 41" "0 \<le> off" "0 \<le> val" "val < tt256"
  shows "\<exists>m'. mem_Set32 (Uint64 off) val m = Some m' \<and>
    (\<exists>b. mem_Get off 32 m' = Some b \<and> SetBytes b = val) \<and>
    (\<forall>i. i < nat off \<or> nat off + 32 \<le> i \<longrightarrow> m_store m' ! i = m_store m ! i)"
proof -
  let ?m = "m\<lparr> m_store := take (nat off) (m_store m) @ be_bytes 32 \<bar>val\<bar> @ drop (nat off + 32) (m_store m) \<rparr>"
  have "mem_Get off 32 ?m = Some (be_bytes 32 val)"
    using assms(1,3,4) by (subst mem_Get_ok) simp_all
  moreover have "SetBytes (be_bytes 32 val) = val"
    using assms(4,5) by (simp add: SetBytes_be_bytes tt256_def)
  moreover have "m_store ?m ! i = m_store m ! i" if "i < nat off \<or> nat off + 32 \<le> i" for i
    using that assms(1) by (auto simp: nth_append)
  ultimately show ?thesis
    using mem_Set32_spec[OF assms(1-3), of val] by auto
qed

theorem mem_Set32_Get_witness:
  "\<exists>m'. mem_Set32 (Uint64 8) 258 \<lparr> m_store = replicate 64 7, m_lastGasCost = 6 \<rparr> = Some m' \<and>
    (\<exists>b. mem_Get 8 32 m' = Some b \<and> SetBytes b = 258) \<and> m_store m' ! 40 = 7"
  using mem_Set32_Get[of 8 "\<lparr> m_store = replicate 64 7, m_lastGasCost = 6 \<rparr>" 258]
  by (auto simp: tt256_def)

text \<open>The comment on \<open>getData\<close> says that the function is overflow safe. The sum \<open>start + size\<close> is a
  64-bit sum: when it wraps around, the end of the slice lies before its start and the slice
  expression panics.\<close>

theorem getData_overflow: "getData [0, 0] 1 18446744073709551615 = None"
  by (simp add: getData_def Let_def go_slice_def)

end
