(* ===== verification/VM_Gas.thy ===== *)
theory VM_Gas
  imports VM_Base
begin

text \<open>The gas functions of \<open>core/vm/gas_table.go\<close> and the memory size functions of
  \<open>memory_table.go\<close>. A gas function reads the frame and returns the cost or an error; it may change
  the frame, since some of them read the state database, add refunds, record the memory fee or set
  \<open>callGasTemp\<close>.\<close>

section \<open>Memory sizes (\<open>memory_table.go\<close>)\<close>

type_synonym memorySizeFunc = "Stack \<Rightarrow> int option"

definition back_size :: "nat \<Rightarrow> nat \<Rightarrow> memorySizeFunc" where
  "back_size i j st = do { off \<leftarrow> stack_Back st i; l \<leftarrow> stack_Back st j; Some (calcMemSize off l) }"

definition memorySha3 :: memorySizeFunc where "memorySha3 = back_size 0 1"
definition memoryCallDataCopy :: memorySizeFunc where "memoryCallDataCopy = back_size 0 2"
definition memoryReturnDataCopy :: memorySizeFunc where "memoryReturnDataCopy = back_size 0 2"
definition memoryCodeCopy :: memorySizeFunc where "memoryCodeCopy = back_size 0 2"
definition memoryExtCodeCopy :: memorySizeFunc where "memoryExtCodeCopy = back_size 1 3"
definition memoryCreate :: memorySizeFunc where "memoryCreate = back_size 1 2"
definition memoryReturn :: memorySizeFunc where "memoryReturn = back_size 0 1"
definition memoryRevert :: memorySizeFunc where "memoryRevert = back_size 0 1"
definition memoryLog :: memorySizeFunc where "memoryLog = back_size 0 1"

definition memoryMLoad :: memorySizeFunc where
  "memoryMLoad st = do { off \<leftarrow> stack_Back st 0; Some (calcMemSize off 32) }"

definition memoryMStore8 :: memorySizeFunc where
  "memoryMStore8 st = do { off \<leftarrow> stack_Back st 0; Some (calcMemSize off 1) }"

definition memoryMStore :: memorySizeFunc where
  "memoryMStore st = do { off \<leftarrow> stack_Back st 0; Some (calcMemSize off 32) }"

definition memoryCall :: memorySizeFunc where
  "memoryCall st = do { x \<leftarrow> back_size 5 6 st; y \<leftarrow> back_size 3 4 st; Some (BigMax x y) }"

definition memoryDelegateCall :: memorySizeFunc where
  "memoryDelegateCall st = do { x \<leftarrow> back_size 4 5 st; y \<leftarrow> back_size 2 3 st; Some (BigMax x y) }"

definition memoryStaticCall :: memorySizeFunc where
  "memoryStaticCall st = do { x \<leftarrow> back_size 4 5 st; y \<leftarrow> back_size 2 3 st; Some (BigMax x y) }"

section \<open>Gas arithmetic\<close>

text \<open>The checked additions and multiplications that every gas function is built from: an overflow
  returns \<open>errGasUintOverflow\<close>.\<close>

type_synonym gas_result = "vm_error + uint64"

definition gas_bind :: "gas_result \<Rightarrow> (uint64 \<Rightarrow> gas_result) \<Rightarrow> gas_result" where
  "gas_bind r f = (case r of Inl e \<Rightarrow> Inl e | Inr g \<Rightarrow> f g)"

definition gas_add :: "uint64 \<Rightarrow> uint64 \<Rightarrow> gas_result" where
  "gas_add x y = (case SafeAdd x y of (g, overflow) \<Rightarrow> if overflow then Inl errGasUintOverflow else Inr g)"

definition gas_mul :: "uint64 \<Rightarrow> uint64 \<Rightarrow> gas_result" where
  "gas_mul x y = (case SafeMul x y of (g, overflow) \<Rightarrow> if overflow then Inl errGasUintOverflow else Inr g)"

definition gas_uint64 :: "int \<Rightarrow> gas_result" where
  "gas_uint64 v = (case bigUint64 v of (g, overflow) \<Rightarrow> if overflow then Inl errGasUintOverflow else Inr g)"

definition add_words :: "int \<Rightarrow> uint64 \<Rightarrow> uint64 \<Rightarrow> gas_result" where
  "add_words v perWord gas =
     gas_bind (gas_uint64 v) (\<lambda>w. gas_bind (gas_mul (toWordSize w) perWord) (\<lambda>w. gas_add gas w))"

text \<open>\<open>memoryGasCost\<close>: the quadratic fee for expanding the memory.\<close>

definition memoryGasCost :: "uint64 \<Rightarrow> Memory \<Rightarrow> Memory \<times> gas_result" where
  "memoryGasCost newMemSize mem =
     (if newMemSize = 0 then (mem, Inr 0)
      else if newMemSize > 0xffffffffe0 then (mem, Inl errGasUintOverflow)
      else let newMemSizeWords = toWordSize newMemSize;
               newMemSize = newMemSizeWords * 32
           in if newMemSize > of_nat (length (m_store mem)) then
                let square = newMemSizeWords * newMemSizeWords;
                    linCoef = newMemSizeWords * MemoryGas;
                    quadCoef = square div QuadCoeffDiv;
                    newTotalFee = linCoef + quadCoef;
                    fee = newTotalFee - m_lastGasCost mem
                in (mem\<lparr> m_lastGasCost := newTotalFee \<rparr>, Inr fee)
              else (mem, Inr 0))"

section \<open>Gas functions\<close>

type_synonym 't gasFunc = "GasTable \<Rightarrow> 't frame \<Rightarrow> uint64 \<Rightarrow> ('t frame \<times> gas_result) option"

text \<open>The memory fee of a frame followed by a computation on the fee.\<close>

definition with_memory_fee ::
    "(uint64 \<Rightarrow> gas_result) \<Rightarrow> 't frame \<Rightarrow> uint64 \<Rightarrow> 't frame \<times> gas_result" where
  "with_memory_fee k f memorySize =
     (case memoryGasCost memorySize (f_mem f) of (mem, r) \<Rightarrow> (f\<lparr> f_mem := mem \<rparr>, gas_bind r k))"

definition constGasFunc :: "uint64 \<Rightarrow> 't gasFunc" where
  "constGasFunc gas gt f memorySize = Some (f, Inr gas)"

text \<open>The copy instructions pay per word of the size they find at depth \<open>n\<close> of the stack.\<close>

definition copy_gas :: "uint64 \<Rightarrow> nat \<Rightarrow> 't frame \<Rightarrow> uint64 \<Rightarrow> ('t frame \<times> gas_result) option" where
  "copy_gas base n f memorySize =
     do { words \<leftarrow> stack_Back (f_stack f) n;
          Some (with_memory_fee (\<lambda>gas. gas_bind (gas_add gas base) (add_words words CopyGas)) f memorySize) }"

definition gasCallDataCopy :: "'t gasFunc" where
  "gasCallDataCopy gt f memorySize = copy_gas GasFastestStep 2 f memorySize"

definition gasReturnDataCopy :: "'t gasFunc" where
  "gasReturnDataCopy gt f memorySize = copy_gas GasFastestStep 2 f memorySize"

definition gasCodeCopy :: "'t gasFunc" where
  "gasCodeCopy gt f memorySize = copy_gas GasFastestStep 2 f memorySize"

definition gasExtCodeCopy :: "'t gasFunc" where
  "gasExtCodeCopy gt f memorySize = copy_gas (gtExtcodeCopy gt) 3 f memorySize"

definition gasSStore :: "'t gasFunc" where
  "gasSStore gt f memorySize =
     do { y \<leftarrow> stack_Back (f_stack f) 1;
          x \<leftarrow> stack_Back (f_stack f) 0;
          let (val, evm) = evm_read (GetState (c_self (f_contract f)) (BigToHash x)) (f_evm f);
          let f = f\<lparr> f_evm := evm \<rparr>;
          Some (if val = 0 \<and> y \<noteq> 0 then (f, Inr SstoreSetGas)
                else if val \<noteq> 0 \<and> y = 0
                then (f\<lparr> f_evm := evm_write (AddRefund SstoreRefundGas) (f_evm f) \<rparr>, Inr SstoreClearGas)
                else (f, Inr SstoreResetGas)) }"

definition makeGasLog :: "uint64 \<Rightarrow> 't gasFunc" where
  "makeGasLog n gt f memorySize =
     do { sz \<leftarrow> stack_Back (f_stack f) 1;
          Some (case gas_uint64 sz of
                  Inl e \<Rightarrow> (f, Inl e)
                | Inr requestedSize \<Rightarrow>
                    with_memory_fee (\<lambda>gas.
                      gas_bind (gas_add gas LogGas) (\<lambda>gas.
                      gas_bind (gas_add gas (n * LogTopicGas)) (\<lambda>gas.
                      gas_bind (gas_mul requestedSize LogDataGas) (\<lambda>memorySizeGas.
                      gas_add gas memorySizeGas)))) f memorySize) }"

definition gasSha3 :: "'t gasFunc" where
  "gasSha3 gt f memorySize =
     do { sz \<leftarrow> stack_Back (f_stack f) 1;
          Some (with_memory_fee (\<lambda>gas. gas_bind (gas_add gas Sha3Gas) (add_words sz Sha3WordGas)) f memorySize) }"

text \<open>\<open>gasMLoad\<close>, \<open>gasMStore8\<close> and \<open>gasMStore\<close> map every error of the memory fee to
  \<open>errGasUintOverflow\<close>, the only one it has.\<close>

definition gasMLoad :: "'t gasFunc" where
  "gasMLoad gt f memorySize = Some (with_memory_fee (\<lambda>gas. gas_add gas GasFastestStep) f memorySize)"

definition gasMStore8 :: "'t gasFunc" where
  "gasMStore8 gt f memorySize = Some (with_memory_fee (\<lambda>gas. gas_add gas GasFastestStep) f memorySize)"

definition gasMStore :: "'t gasFunc" where
  "gasMStore gt f memorySize = Some (with_memory_fee (\<lambda>gas. gas_add gas GasFastestStep) f memorySize)"

definition gasCreate :: "'t gasFunc" where
  "gasCreate gt f memorySize = Some (with_memory_fee (\<lambda>gas. gas_add gas CreateGas) f memorySize)"

definition gasBalance :: "'t gasFunc" where
  "gasBalance gt f memorySize = Some (f, Inr (gtBalance gt))"

definition gasExtCodeSize :: "'t gasFunc" where
  "gasExtCodeSize gt f memorySize = Some (f, Inr (gtExtcodeSize gt))"

definition gasSLoad :: "'t gasFunc" where
  "gasSLoad gt f memorySize = Some (f, Inr (gtSLoad gt))"

definition gasExp :: "'t gasFunc" where
  "gasExp gt f memorySize =
     do { e \<leftarrow> go_index (f_stack f) 1;
          let expByteLen = of_nat ((BitLen e + 7) div 8);
          Some (f, gas_add (expByteLen * gtExpByte gt) GasSlowStep) }"

text \<open>The common end of the four call instructions: \<open>base\<close> is the fee before the memory fee is
  added; the gas passed on is stored in \<open>callGasTemp\<close> and charged to the caller.\<close>

definition charge_call :: "GasTable \<Rightarrow> int \<Rightarrow> uint64 \<Rightarrow> 't frame \<Rightarrow> 't frame \<times> gas_result" where
  "charge_call gt requested gas f =
     (case callGas gt (c_Gas (f_contract f)) gas requested of
        Inl e \<Rightarrow> (f\<lparr> f_evm := (f_evm f)\<lparr> evm_callGasTemp := 0 \<rparr> \<rparr>, Inl e)
      | Inr temp \<Rightarrow> (f\<lparr> f_evm := (f_evm f)\<lparr> evm_callGasTemp := temp \<rparr> \<rparr>, gas_add gas temp))"

definition call_gas :: "GasTable \<Rightarrow> int \<Rightarrow> uint64 \<Rightarrow> 't frame \<Rightarrow> uint64 \<Rightarrow> 't frame \<times> gas_result" where
  "call_gas gt requested base f memorySize =
     (case with_memory_fee (\<lambda>memoryGas. gas_add base memoryGas) f memorySize of
        (f, Inl e) \<Rightarrow> (f, Inl e)
      | (f, Inr gas) \<Rightarrow> charge_call gt requested gas f)"

definition gasCall :: "'t gasFunc" where
  "gasCall gt f memorySize =
     do { v \<leftarrow> stack_Back (f_stack f) 2;
          a \<leftarrow> stack_Back (f_stack f) 1;
          requested \<leftarrow> stack_Back (f_stack f) 0;
          let gas = gtCalls gt;
          let transfersValue = v \<noteq> 0;
          let addr = BigToAddress a;
          let evm = f_evm f;
          let (gas, evm) =
            (if IsEIP158 (evm_chainConfig evm) (evm_BlockNumber evm) then
               if transfersValue
               then (let (e, evm) = evm_read (Empty addr) evm
                     in (if e then gas + CallNewAccountGas else gas, evm))
               else (gas, evm)
             else let (e, evm) = evm_read (Exist addr) evm
                  in (if \<not> e then gas + CallNewAccountGas else gas, evm));
          let gas = (if transfersValue then gas + CallValueTransferGas else gas);
          Some (call_gas gt requested gas (f\<lparr> f_evm := evm \<rparr>) memorySize) }"

definition gasCallCode :: "'t gasFunc" where
  "gasCallCode gt f memorySize =
     do { v \<leftarrow> stack_Back (f_stack f) 2;
          requested \<leftarrow> stack_Back (f_stack f) 0;
          let gas = (if v \<noteq> 0 then gtCalls gt + CallValueTransferGas else gtCalls gt);
          Some (call_gas gt requested gas f memorySize) }"

definition gasDelegateCall :: "'t gasFunc" where
  "gasDelegateCall gt f memorySize =
     do { requested \<leftarrow> stack_Back (f_stack f) 0; Some (call_gas gt requested (gtCalls gt) f memorySize) }"

definition gasStaticCall :: "'t gasFunc" where
  "gasStaticCall gt f memorySize =
     do { requested \<leftarrow> stack_Back (f_stack f) 0; Some (call_gas gt requested (gtCalls gt) f memorySize) }"

definition gasReturn :: "'t gasFunc" where
  "gasReturn gt f memorySize = Some (with_memory_fee Inr f memorySize)"

definition gasRevert :: "'t gasFunc" where
  "gasRevert gt f memorySize = Some (with_memory_fee Inr f memorySize)"

definition gasSuicide :: "'t gasFunc" where
  "gasSuicide gt f memorySize =
     do { let self = c_self (f_contract f);
          let evm = f_evm f;
          let eip150 = IsEIP150 (evm_chainConfig evm) (evm_BlockNumber evm);
          a \<leftarrow> (if eip150 then stack_Back (f_stack f) 0 else Some 0);
          let addr = BigToAddress a;
          let (gas, evm) =
            (if eip150 then
               let gas = gtSuicide gt
               in if IsEIP158 (evm_chainConfig evm) (evm_BlockNumber evm) then
                    let (e, evm) = evm_read (Empty addr) evm
                    in if e then let (b, evm) = evm_read (GetBalance self) evm
                                 in (if b \<noteq> 0 then gas + gtCreateBySuicide gt else gas, evm)
                       else (gas, evm)
                  else let (e, evm) = evm_read (Exist addr) evm
                       in (if \<not> e then gas + gtCreateBySuicide gt else gas, evm)
             else (0, evm));
          let (suicided, evm) = evm_read (HasSuicided self) evm;
          let evm = (if \<not> suicided then evm_write (AddRefund SuicideRefundGas) evm else evm);
          Some (f\<lparr> f_evm := evm \<rparr>, Inr gas) }"

definition gasPush :: "'t gasFunc" where
  "gasPush gt f memorySize = Some (f, Inr GasFastestStep)"

definition gasSwap :: "'t gasFunc" where
  "gasSwap gt f memorySize = Some (f, Inr GasFastestStep)"

definition gasDup :: "'t gasFunc" where
  "gasDup gt f memorySize = Some (f, Inr GasFastestStep)"

section \<open>Gas arithmetic does not wrap\<close>

lemma gas_bind_Inr: "gas_bind r k = Inr g \<longleftrightarrow> (\<exists>x. r = Inr x \<and> k x = Inr g)"
  by (cases r) (simp_all add: gas_bind_def)

lemma gas_add_Inr: "gas_add x y = Inr g \<longleftrightarrow> unat x + unat y < 2 ^ 64 \<and> g = x + y"
  using SafeAdd_overflow_iff[of x y] by (auto simp: gas_add_def SafeAdd_def)

lemma gas_add_unat: "gas_add x y = Inr g \<Longrightarrow> unat g = unat x + unat y"
  by (auto simp: gas_add_Inr unat_add_no_wrap)

lemma gas_mul_unat: "gas_mul x y = Inr g \<Longrightarrow> unat g = unat x * unat y"
  using SafeMul_ok[of x y] by (auto simp: gas_mul_def split: prod.splits if_splits)

lemma gas_uint64_Inr: "gas_uint64 v = Inr g \<longleftrightarrow> \<bar>v\<bar> < 2 ^ 64 \<and> g = Uint64 v"
  by (auto simp: gas_uint64_def bigUint64_def BitLen_gt_iff)

lemma gas_err: "gas_add x y = Inl e \<Longrightarrow> e = errGasUintOverflow" "gas_mul x y = Inl e \<Longrightarrow> e = errGasUintOverflow"
  "gas_uint64 v = Inl e \<Longrightarrow> e = errGasUintOverflow"
  by (auto simp: gas_add_def gas_mul_def gas_uint64_def split: prod.splits if_splits)

lemma add_words_ge: "add_words v k gas = Inr g \<Longrightarrow> unat gas \<le> unat g"
  by (auto simp: add_words_def gas_bind_Inr dest: gas_add_unat)

lemma unat_toWordSize: "unat (toWordSize sz) = (unat sz + 31) div 32"
proof (cases "sz > MaxUint64 - 31")
  case True
  have "unat (MaxUint64 - 31) = 2 ^ 64 - 32" by (simp add: MaxUint64_def)
  then have "2 ^ 64 - 32 < unat sz" using True by (simp add: word_less_nat_alt)
  then have "(unat sz + 31) div 32 = 2 ^ 59" using unat_le_max64[of sz] by simp
  then show ?thesis using True by (simp add: toWordSize_def MaxUint64_def)
next
  case False
  have "unat (MaxUint64 - 31) = 2 ^ 64 - 32" by (simp add: MaxUint64_def)
  then have "unat sz \<le> 2 ^ 64 - 32" using False by (simp add: word_less_nat_alt)
  then have "unat (sz + 31) = unat sz + 31" by (intro unat_add_no_wrap[THEN trans]) simp_all
  then show ?thesis using False by (simp add: toWordSize_def unat_div)
qed

lemma toWordSize_mult:
  assumes "SafeMul (toWordSize sz) 32 = (n, False)"
  shows "unat n = (unat sz + 31) div 32 * 32" "unat sz \<le> unat n"
proof -
  show "unat n = (unat sz + 31) div 32 * 32"
    using SafeMul_ok[of "toWordSize sz" 32] assms by (simp add: unat_toWordSize)
  then show "unat sz \<le> unat n" by linarith
qed

section \<open>The memory fee\<close>

definition mem_fee :: "nat \<Rightarrow> nat" where
  "mem_fee words = 3 * words + words * words div 512"

lemma memoryGasCost_Inr:
  assumes "memoryGasCost n mem = (mem', Inr g)"
  shows "n \<le> 0xffffffffe0" "m_store mem' = m_store mem"
  using assms by (auto simp: memoryGasCost_def Let_def split: if_splits)

lemma memoryGasCost_store: "memoryGasCost n mem = (mem', r) \<Longrightarrow> m_store mem' = m_store mem"
  by (auto simp: memoryGasCost_def Let_def split: if_splits)

lemma unat_mult_no_wrap: "unat x * unat y < 2 ^ 64 \<Longrightarrow> unat (x * y :: uint64) = unat x * unat y"
  by (simp add: unat_word_ariths)

lemma mem_fee_mono: "a \<le> b \<Longrightarrow> mem_fee a \<le> mem_fee b"
  by (simp add: mem_fee_def add_mono mult_le_mono div_le_mono)

lemma memoryGasCost_spec:
  assumes n: "unat n \<le> 0x1fffffffe0"
    and len: "length (m_store mem) = 32 * w" "w < 2 ^ 32"
    and last: "unat (m_lastGasCost mem) = mem_fee w"
  defines "w' \<equiv> max w ((unat n + 31) div 32)"
  shows "\<exists>mem' g. memoryGasCost n mem = (mem', Inr g) \<and> unat g = mem_fee w' - mem_fee w \<and>
           unat (m_lastGasCost mem') = mem_fee w' \<and> m_store mem' = m_store mem"
proof -
  let ?k = "(unat n + 31) div 32"
  have k: "?k < 2 ^ 32" using n by simp
  have lim: "\<not> n > 0xffffffffe0" using n by (simp add: word_less_nat_alt)
  have ws: "unat (toWordSize n) = ?k" by (rule unat_toWordSize)
  have ws32: "unat (toWordSize n * 32) = ?k * 32" using k ws by (subst unat_mult_no_wrap) simp_all
  have lenw: "unat (of_nat (length (m_store mem)) :: uint64) = 32 * w"
    using len by (subst unat_of_nat_64) simp_all
  show ?thesis
  proof (cases "w < ?k")
    case True
    have sq: "unat (toWordSize n * toWordSize n) = ?k * ?k"
    proof -
      have "?k * ?k < 2 ^ 32 * 2 ^ 32" using k by (intro mult_strict_mono) simp_all
      then show ?thesis using ws by (subst unat_mult_no_wrap) simp_all
    qed
    have lin: "unat (toWordSize n * 3) = ?k * 3" using k ws by (subst unat_mult_no_wrap) simp_all
    have quad: "unat (toWordSize n * toWordSize n div 512) = ?k * ?k div 512" using sq by (simp add: unat_div)
    have "?k * ?k div 512 \<le> 2 ^ 55"
    proof -
      have "?k * ?k \<le> 2 ^ 32 * 2 ^ 32" using k by (intro mult_le_mono) simp_all
      then show ?thesis by (simp add: div_le_mono[of _ "2 ^ 64" 512, simplified])
    qed
    then have tot: "unat (toWordSize n * 3 + toWordSize n * toWordSize n div 512) = mem_fee ?k"
      using k by (subst unat_add_no_wrap) (simp_all add: lin quad mem_fee_def)
    have w': "w' = ?k" using True by (simp add: w'_def)
    have "mem_fee w \<le> mem_fee ?k" using True by (simp add: mem_fee_mono)
    then have fee: "unat (toWordSize n * 3 + toWordSize n * toWordSize n div 512 - m_lastGasCost mem) = mem_fee ?k - mem_fee w"
      using tot last by (subst unat_sub_le) (simp_all add: word_le_nat_alt)
    have "n \<noteq> 0" using True by auto
    moreover have "toWordSize n * 32 > of_nat (length (m_store mem))"
      using True ws32 lenw by (simp add: word_less_nat_alt)
    ultimately show ?thesis
      using lim fee tot by (simp add: memoryGasCost_def Let_def params w')
  next
    case False
    then have "w' = w" by (simp add: w'_def)
    moreover have "\<not> toWordSize n * 32 > of_nat (length (m_store mem))"
      using False ws32 lenw by (simp add: word_less_nat_alt)
    ultimately show ?thesis
      using lim last by (simp add: memoryGasCost_def Let_def)
  qed
qed

section \<open>Properties\<close>

text \<open>C34: For every memory size below 128 GiB the memory fee is exact: expanding a memory of \<open>w\<close> words
  costs \<open>mem_fee w' - mem_fee w\<close>, the difference of the quadratic fees of the old and the new size,
  with no overflow, and the fee already paid is recorded.\<close>

theorem memoryGasCost_exact:
  assumes "unat n \<le> 0x1fffffffe0" "length (m_store mem) = 32 * w" "w < 2 ^ 32" "unat (m_lastGasCost mem) = mem_fee w"
  shows "\<exists>mem' g. memoryGasCost n mem = (mem', Inr g) \<and>
    unat g = mem_fee (max w ((unat n + 31) div 32)) - mem_fee w \<and>
    unat (m_lastGasCost mem') = mem_fee (max w ((unat n + 31) div 32)) \<and> m_store mem' = m_store mem"
  by (rule memoryGasCost_spec[OF assms])

theorem memoryGasCost_exact_witness:
  "\<exists>mem' g. memoryGasCost 64 \<lparr> m_store = replicate 32 1, m_lastGasCost = 3 \<rparr> = (mem', Inr g) \<and> unat g = 3"
  using memoryGasCost_exact[of 64 "\<lparr> m_store = replicate 32 1, m_lastGasCost = 3 \<rparr>" 1]
  by (auto simp: mem_fee_def)

text \<open>The comment in \<open>memoryGasCost\<close> calls \<open>0xffffffffe0\<close> the highest memory size whose fee does not
  overflow. The square of the number of words overflows from \<open>2 ^ 32\<close> words on, for sizes far below
  that bound: expanding an empty memory to \<open>2 ^ 37\<close> bytes is charged the linear part of the fee
  only.\<close>

theorem memoryGasCost_wraps:
  "snd (memoryGasCost 0x2000000000 NewMemory) = Inr 12884901888 \<and> mem_fee (2 ^ 32) = 36028809903865856"
  by (simp add: memoryGasCost_def NewMemory_def toWordSize_def MaxUint64_def Let_def params mem_fee_def)

text \<open>C35: From EIP 150 on, a call is given the gas it asks for, but at most all but one 64th of what
  remains after the base fee; the request may be any 256-bit number.\<close>

theorem callGas_cap:
  assumes "gtCreateBySuicide gt > 0" "base \<le> available" "0 \<le> requested"
  defines "rest \<equiv> unat available - unat base"
  shows "\<exists>g. callGas gt available base requested = Inr g \<and> unat g = nat (min requested (int (rest - rest div 64)))"
proof -
  let ?a = "available - base"
  have a: "unat ?a = rest" using assms(2) by (simp add: unat_sub_le rest_def)
  have "?a div 64 \<le> ?a" by (simp add: word_le_nat_alt unat_div)
  then have g: "unat (?a - ?a div 64) = rest - rest div 64" by (simp add: unat_sub_le a unat_div)
  have le: "rest - rest div 64 < 2 ^ 64" using unat_le_max64[of ?a] a by simp
  show ?thesis
  proof (cases "requested < 2 ^ 64")
    case True
    have u: "unat (Uint64 requested) = nat requested" using True assms(3) by (simp add: unat_Uint64)
    have "\<not> BitLen requested > 64" using True assms(3) by (simp add: BitLen_gt_iff)
    then show ?thesis
      using assms(1,3) by (auto simp: callGas_def Let_def word_less_nat_alt[of "_ - _"] g u min_def)
  next
    case False
    then have "BitLen requested > 64" using assms(3) by (simp add: BitLen_gt_iff)
    moreover have "int (rest - rest div 64) < requested"
    proof -
      have "int (rest - rest div 64) < int (2 ^ 64)" using le by (simp only: of_nat_less_iff)
      then show ?thesis using False by (simp only: of_nat_power of_nat_numeral)
    qed
    ultimately show ?thesis using assms(1) g by (simp add: callGas_def Let_def)
  qed
qed

theorem callGas_cap_witness:
  "\<exists>g. callGas GasTableEIP158 1000 40 (2 ^ 70) = Inr g \<and> unat g = 945"
  using callGas_cap[of GasTableEIP158 40 1000 "2 ^ 70"] by (simp add: GasTableEIP158_def)

end
