(* ===== verification/VM_Instructions.thy ===== *)
theory VM_Instructions
  imports VM_Base "HOL-Library.Signed_Division"
begin

text \<open>The instructions of \<open>core/vm/instructions.go\<close> that stay inside one frame; the ones that call
  or create contracts are in \<open>VM_Calls\<close>. An instruction that overwrites the item it peeks at is
  written as popping that item and pushing the new one.\<close>

section \<open>Access to the frame\<close>

definition f_pop :: "'t frame \<Rightarrow> (int \<times> 't frame) option" where
  "f_pop f = do { (x, st) \<leftarrow> stack_pop (f_stack f); Some (x, f\<lparr> f_stack := st \<rparr>) }"

definition f_push :: "int \<Rightarrow> 't frame \<Rightarrow> 't frame" where
  "f_push x f = f\<lparr> f_stack := x # f_stack f \<rparr>"

definition done_ok :: "'t frame \<Rightarrow> 't outcome" where
  "done_ok f = Some (f, [], None)"

definition push_ok :: "int \<Rightarrow> 't frame \<Rightarrow> 't outcome" where
  "push_ok x f = done_ok (f_push x f)"

definition unop :: "(int \<Rightarrow> int) \<Rightarrow> 't executionFunc" where
  "unop g f = do { (x, f) \<leftarrow> f_pop f; push_ok (g x) f }"

definition binop :: "(int \<Rightarrow> int \<Rightarrow> int) \<Rightarrow> 't executionFunc" where
  "binop g f = do { (x, f) \<leftarrow> f_pop f; (y, f) \<leftarrow> f_pop f; push_ok (g x y) f }"

definition ternop :: "(int \<Rightarrow> int \<Rightarrow> int \<Rightarrow> int) \<Rightarrow> 't executionFunc" where
  "ternop g f =
     do { (x, f) \<leftarrow> f_pop f; (y, f) \<leftarrow> f_pop f; (z, f) \<leftarrow> f_pop f; push_ok (g x y z) f }"

section \<open>Arithmetic\<close>

text \<open>\<open>big.Int.Div\<close> and \<open>big.Int.Mod\<close> are Euclidean.\<close>

definition big_Mod :: "int \<Rightarrow> int \<Rightarrow> int" where "big_Mod x y = x mod \<bar>y\<bar>"
definition big_Div :: "int \<Rightarrow> int \<Rightarrow> int" where "big_Div x y = (x - big_Mod x y) div y"

definition of_bool_int :: "bool \<Rightarrow> int" where "of_bool_int b = (if b then 1 else 0)"

definition opAdd :: "'t executionFunc" where "opAdd = binop (\<lambda>x y. U256 (x + y))"
definition opSub :: "'t executionFunc" where "opSub = binop (\<lambda>x y. U256 (x - y))"
definition opMul :: "'t executionFunc" where "opMul = binop (\<lambda>x y. U256 (x * y))"

definition opDiv :: "'t executionFunc" where
  "opDiv = binop (\<lambda>x y. if y \<noteq> 0 then U256 (big_Div x y) else 0)"

definition opSdiv :: "'t executionFunc" where
  "opSdiv = binop (\<lambda>x y.
     let x = S256 x; y = S256 y
     in if y = 0 \<or> x = 0 then 0
        else U256 (if sgn x \<noteq> sgn y then - big_Div \<bar>x\<bar> \<bar>y\<bar> else big_Div \<bar>x\<bar> \<bar>y\<bar>))"

definition opMod :: "'t executionFunc" where
  "opMod = binop (\<lambda>x y. if y = 0 then 0 else U256 (big_Mod x y))"

definition opSmod :: "'t executionFunc" where
  "opSmod = binop (\<lambda>x y.
     let x = S256 x; y = S256 y
     in if y = 0 then 0
        else U256 (if x < 0 then - big_Mod \<bar>x\<bar> \<bar>y\<bar> else big_Mod \<bar>x\<bar> \<bar>y\<bar>))"

definition opExp :: "'t executionFunc" where "opExp = binop Exp"

text \<open>\<open>opSignExtend\<close> leaves the second item alone when the first is 31 or more.\<close>

definition sign_extend :: "int \<Rightarrow> int \<Rightarrow> int" where
  "sign_extend back num =
     (let b = unat (Uint64 back * 8 + 7);
          msk = push_bit b 1 - 1
      in U256 (if bit num b then num OR NOT msk else num AND msk))"

definition opSignExtend :: "'t executionFunc" where
  "opSignExtend f =
     do { (back, f) \<leftarrow> f_pop f;
          if back < 31 then do { (num, f) \<leftarrow> f_pop f; push_ok (sign_extend back num) f }
          else done_ok f }"

definition opNot :: "'t executionFunc" where "opNot = unop (\<lambda>x. U256 (NOT x))"

definition opLt :: "'t executionFunc" where "opLt = binop (\<lambda>x y. of_bool_int (x < y))"
definition opGt :: "'t executionFunc" where "opGt = binop (\<lambda>x y. of_bool_int (x > y))"

definition opSlt :: "'t executionFunc" where
  "opSlt = binop (\<lambda>x y.
     if x \<ge> tt255 \<and> y < tt255 then 1
     else if x < tt255 \<and> y \<ge> tt255 then 0
     else of_bool_int (x < y))"

definition opSgt :: "'t executionFunc" where
  "opSgt = binop (\<lambda>x y.
     if x \<ge> tt255 \<and> y < tt255 then 0
     else if x < tt255 \<and> y \<ge> tt255 then 1
     else of_bool_int (x > y))"

definition opEq :: "'t executionFunc" where "opEq = binop (\<lambda>x y. of_bool_int (x = y))"

definition opIszero :: "'t executionFunc" where
  "opIszero = unop (\<lambda>x. if x > 0 then 0 else 1)"

definition opAnd :: "'t executionFunc" where "opAnd = binop (\<lambda>x y. x AND y)"
definition opOr :: "'t executionFunc" where "opOr = binop (\<lambda>x y. x OR y)"
definition opXor :: "'t executionFunc" where "opXor = binop (\<lambda>x y. x XOR y)"

definition opByte :: "'t executionFunc" where
  "opByte = binop (\<lambda>th val. if th < 32 then uint (Byte val 32 (nat (Int64 th))) else 0)"

definition opAddmod :: "'t executionFunc" where
  "opAddmod = ternop (\<lambda>x y z. if z > 0 then U256 (big_Mod (x + y) z) else 0)"

definition opMulmod :: "'t executionFunc" where
  "opMulmod = ternop (\<lambda>x y z. if z > 0 then U256 (big_Mod (x * y) z) else 0)"

definition opSHL :: "'t executionFunc" where
  "opSHL = binop (\<lambda>x y.
     let shift = U256 x; val = U256 y
     in if shift \<ge> 256 then 0 else U256 (push_bit (unat (Uint64 shift)) val))"

definition opSHR :: "'t executionFunc" where
  "opSHR = binop (\<lambda>x y.
     let shift = U256 x; val = U256 y
     in if shift \<ge> 256 then 0 else U256 (drop_bit (unat (Uint64 shift)) val))"

definition opSAR :: "'t executionFunc" where
  "opSAR = binop (\<lambda>x y.
     let shift = U256 x; val = S256 y
     in if shift \<ge> 256 then U256 (if val > 0 then 0 else - 1)
        else U256 (drop_bit (unat (Uint64 shift)) val))"

section \<open>Environment\<close>

definition opSha3 :: "'t executionFunc" where
  "opSha3 f =
     do { (offset, f) \<leftarrow> f_pop f;
          (sz, f) \<leftarrow> f_pop f;
          data \<leftarrow> mem_Get (Int64 offset) (Int64 sz) (f_mem f);
          let evm = f_evm f;
          let h = Keccak256 (sdb_db (evm_StateDB evm)) data;
          let evm = (if evm_EnablePreimageRecording evm
                     then evm_write (AddPreimage (BytesToHash h) data) evm else evm);
          push_ok (SetBytes h) (f\<lparr> f_evm := evm \<rparr>) }"

definition opAddress :: "'t executionFunc" where
  "opAddress f = push_ok (Address_Big (c_self (f_contract f))) f"

text \<open>Replace the top of the stack by a value read from the state database.\<close>

definition read_unop :: "(int \<Rightarrow> 't StateDB \<Rightarrow> int \<times> 't StateDB) \<Rightarrow> 't executionFunc" where
  "read_unop g f =
     do { (x, f) \<leftarrow> f_pop f;
          let (v, evm) = evm_read (g x) (f_evm f);
          push_ok v (f\<lparr> f_evm := evm \<rparr>) }"

definition opBalance :: "'t executionFunc" where
  "opBalance = read_unop (\<lambda>x. GetBalance (BigToAddress x))"

definition opOrigin :: "'t executionFunc" where
  "opOrigin f = push_ok (Address_Big (ctx_Origin (evm_ctx (f_evm f)))) f"

definition opCaller :: "'t executionFunc" where
  "opCaller f = push_ok (Address_Big (c_CallerAddress (f_contract f))) f"

definition opCallValue :: "'t executionFunc" where
  "opCallValue f = push_ok (c_value (f_contract f)) f"

definition opCallDataLoad :: "'t executionFunc" where
  "opCallDataLoad f =
     do { (x, f) \<leftarrow> f_pop f;
          b \<leftarrow> getDataBig (c_Input (f_contract f)) x 32;
          push_ok (SetBytes b) f }"

definition opCallDataSize :: "'t executionFunc" where
  "opCallDataSize f = push_ok (int (length (c_Input (f_contract f)))) f"

text \<open>The copy instructions pop a memory offset, a data offset and a length.\<close>

definition copy_to_memory :: "bytes \<Rightarrow> 't executionFunc" where
  "copy_to_memory data f =
     do { (memOffset, f) \<leftarrow> f_pop f;
          (dataOffset, f) \<leftarrow> f_pop f;
          (len, f) \<leftarrow> f_pop f;
          b \<leftarrow> getDataBig data dataOffset len;
          mem \<leftarrow> mem_Set (Uint64 memOffset) (Uint64 len) b (f_mem f);
          done_ok (f\<lparr> f_mem := mem \<rparr>) }"

definition opCallDataCopy :: "'t executionFunc" where
  "opCallDataCopy f = copy_to_memory (c_Input (f_contract f)) f"

definition opReturnDataSize :: "'t executionFunc" where
  "opReturnDataSize f = push_ok (int (length (evm_returnData (f_evm f)))) f"

definition opReturnDataCopy :: "'t executionFunc" where
  "opReturnDataCopy f =
     do { (memOffset, f) \<leftarrow> f_pop f;
          (dataOffset, f) \<leftarrow> f_pop f;
          (len, f) \<leftarrow> f_pop f;
          let e = dataOffset + len;
          let returnData = evm_returnData (f_evm f);
          if BitLen e > 64 \<or> of_nat (length returnData) < Uint64 e
          then Some (f, [], Some errReturnDataOutOfBounds)
          else do { b \<leftarrow> go_slice returnData (unat (Uint64 dataOffset)) (unat (Uint64 e));
                    mem \<leftarrow> mem_Set (Uint64 memOffset) (Uint64 len) b (f_mem f);
                    done_ok (f\<lparr> f_mem := mem \<rparr>) } }"

definition opExtCodeSize :: "'t executionFunc" where
  "opExtCodeSize = read_unop (\<lambda>x s. let (n, s) = GetCodeSize (BigToAddress x) s in (uint (of_nat n :: uint64), s))"

definition opCodeSize :: "'t executionFunc" where
  "opCodeSize f = push_ok (int (length (c_Code (f_contract f)))) f"

definition opCodeCopy :: "'t executionFunc" where
  "opCodeCopy f = copy_to_memory (c_Code (f_contract f)) f"

definition nil_bytes :: "bytes option \<Rightarrow> bytes" where
  "nil_bytes b = (case b of None \<Rightarrow> [] | Some b \<Rightarrow> b)"

definition opExtCodeCopy :: "'t executionFunc" where
  "opExtCodeCopy f =
     do { (a, f) \<leftarrow> f_pop f;
          let (code, evm) = evm_read (GetCode (BigToAddress a)) (f_evm f);
          copy_to_memory (nil_bytes code) (f\<lparr> f_evm := evm \<rparr>) }"

definition opGasprice :: "'t executionFunc" where
  "opGasprice f = push_ok (ctx_GasPrice (evm_ctx (f_evm f))) f"

definition opBlockhash :: "'t executionFunc" where
  "opBlockhash f =
     do { (num, f) \<leftarrow> f_pop f;
          let number = evm_BlockNumber (f_evm f);
          push_ok (if num > number - 257 \<and> num < number
                   then Hash_Big (ctx_GetHash (evm_ctx (f_evm f)) (Uint64 num)) else 0) f }"

definition opCoinbase :: "'t executionFunc" where
  "opCoinbase f = push_ok (Address_Big (ctx_Coinbase (evm_ctx (f_evm f)))) f"

definition opTimestamp :: "'t executionFunc" where
  "opTimestamp f = push_ok (U256 (ctx_Time (evm_ctx (f_evm f)))) f"

definition opNumber :: "'t executionFunc" where
  "opNumber f = push_ok (U256 (evm_BlockNumber (f_evm f))) f"

definition opDifficulty :: "'t executionFunc" where
  "opDifficulty f = push_ok (U256 (ctx_Difficulty (evm_ctx (f_evm f)))) f"

definition opGasLimit :: "'t executionFunc" where
  "opGasLimit f = push_ok (U256 (uint (ctx_GasLimit (evm_ctx (f_evm f))))) f"

section \<open>Stack, memory, storage and control flow\<close>

definition opPop :: "'t executionFunc" where
  "opPop f = do { (_, f) \<leftarrow> f_pop f; done_ok f }"

definition opMload :: "'t executionFunc" where
  "opMload f =
     do { (offset, f) \<leftarrow> f_pop f;
          b \<leftarrow> mem_Get (Int64 offset) 32 (f_mem f);
          push_ok (SetBytes b) f }"

definition opMstore :: "'t executionFunc" where
  "opMstore f =
     do { (mStart, f) \<leftarrow> f_pop f;
          (val, f) \<leftarrow> f_pop f;
          mem \<leftarrow> mem_Set32 (Uint64 mStart) val (f_mem f);
          done_ok (f\<lparr> f_mem := mem \<rparr>) }"

definition opMstore8 :: "'t executionFunc" where
  "opMstore8 f =
     do { (off, f) \<leftarrow> f_pop f;
          (val, f) \<leftarrow> f_pop f;
          let off = Int64 off;
          let val = Int64 val;
          panic_unless (0 \<le> off \<and> off < int (length (m_store (f_mem f))));
          done_ok (f\<lparr> f_mem := (f_mem f)\<lparr> m_store :=
                       (m_store (f_mem f))[nat off := word_of_int (val AND 0xff)] \<rparr> \<rparr>) }"

definition opSload :: "'t executionFunc" where
  "opSload f =
     read_unop (\<lambda>x s. let (v, s) = GetState (c_self (f_contract f)) (BigToHash x) s
                      in (SetBytes (Hash_Bytes v), s)) f"

definition opSstore :: "'t executionFunc" where
  "opSstore f =
     do { (loc, f) \<leftarrow> f_pop f;
          (val, f) \<leftarrow> f_pop f;
          done_ok (f\<lparr> f_evm :=
            evm_write (SetState (c_self (f_contract f)) (BigToHash loc) (BigToHash val)) (f_evm f) \<rparr>) }"

text \<open>The jump itself, shared by \<open>opJump\<close> and \<open>opJumpi\<close>.\<close>

definition jump_to :: "int \<Rightarrow> 't executionFunc" where
  "jump_to pos f =
     do { (valid, d) \<leftarrow> destinations_has (c_CodeHash (f_contract f)) (c_Code (f_contract f)) pos
                         (evm_jumpdests (f_evm f));
          let f = f\<lparr> f_evm := (f_evm f)\<lparr> evm_jumpdests := d \<rparr> \<rparr>;
          if \<not> valid then Some (f, [], Some errInvalidJump)
          else done_ok (f\<lparr> f_pc := Uint64 pos \<rparr>) }"

definition opJump :: "'t executionFunc" where
  "opJump f = do { (pos, f) \<leftarrow> f_pop f; jump_to pos f }"

definition opJumpi :: "'t executionFunc" where
  "opJumpi f =
     do { (pos, f) \<leftarrow> f_pop f;
          (cond, f) \<leftarrow> f_pop f;
          if cond \<noteq> 0 then jump_to pos f else done_ok (f\<lparr> f_pc := f_pc f + 1 \<rparr>) }"

definition opJumpdest :: "'t executionFunc" where
  "opJumpdest f = done_ok f"

definition opPc :: "'t executionFunc" where
  "opPc f = push_ok (uint (f_pc f)) f"

definition opMsize :: "'t executionFunc" where
  "opMsize f = push_ok (int (length (m_store (f_mem f)))) f"

definition opGas :: "'t executionFunc" where
  "opGas f = push_ok (uint (c_Gas (f_contract f))) f"

definition opReturn :: "'t executionFunc" where
  "opReturn f =
     do { (offset, f) \<leftarrow> f_pop f;
          (sz, f) \<leftarrow> f_pop f;
          ret \<leftarrow> mem_GetPtr (Int64 offset) (Int64 sz) (f_mem f);
          Some (f, ret, None) }"

definition opRevert :: "'t executionFunc" where
  "opRevert f =
     do { (offset, f) \<leftarrow> f_pop f;
          (sz, f) \<leftarrow> f_pop f;
          ret \<leftarrow> mem_GetPtr (Int64 offset) (Int64 sz) (f_mem f);
          Some (f, ret, None) }"

definition opStop :: "'t executionFunc" where
  "opStop f = done_ok f"

definition opSuicide :: "'t executionFunc" where
  "opSuicide f =
     do { let self = c_self (f_contract f);
          let (balance, evm) = evm_read (GetBalance self) (f_evm f);
          (a, f) \<leftarrow> f_pop f;
          let evm = evm_write (AddBalance (BigToAddress a) balance) evm;
          let (_, evm) = evm_read (Suicide self) evm;
          done_ok (f\<lparr> f_evm := evm \<rparr>) }"

primrec pop_topics :: "nat \<Rightarrow> 't frame \<Rightarrow> (hash list \<times> 't frame) option" where
  "pop_topics 0 f = Some ([], f)"
| "pop_topics (Suc n) f =
     do { (x, f) \<leftarrow> f_pop f; (ts, f) \<leftarrow> pop_topics n f; Some (BigToHash x # ts, f) }"

definition makeLog :: "nat \<Rightarrow> 't executionFunc" where
  "makeLog n f =
     do { (mStart, f) \<leftarrow> f_pop f;
          (mSize, f) \<leftarrow> f_pop f;
          (topics, f) \<leftarrow> pop_topics n f;
          d \<leftarrow> mem_Get (Int64 mStart) (Int64 mSize) (f_mem f);
          let l = \<lparr> log_Address = c_self (f_contract f), log_Topics = topics, log_Data = d,
                    log_BlockNumber = Uint64 (evm_BlockNumber (f_evm f)), log_TxHash = 0,
                    log_TxIndex = 0, log_BlockHash = 0, log_Index = 0 \<rparr>;
          done_ok (f\<lparr> f_evm := evm_write (AddLog l) (f_evm f) \<rparr>) }"

definition makePush :: "uint64 \<Rightarrow> nat \<Rightarrow> 't executionFunc" where
  "makePush n pushByteSize f =
     (let code = c_Code (f_contract f);
          codeLen = int (length code);
          next = sint (f_pc f + 1);
          startMin = (if next < codeLen then next else codeLen);
          endMin = (if startMin + int pushByteSize < codeLen then startMin + int pushByteSize
                    else codeLen)
      in do { b \<leftarrow> mem_slice code startMin (endMin - startMin);
              let f = f_push (SetBytes (RightPadBytes b (int pushByteSize))) f;
              done_ok (f\<lparr> f_pc := f_pc f + n \<rparr>) })"

definition makeDup :: "nat \<Rightarrow> 't executionFunc" where
  "makeDup n f = do { st \<leftarrow> stack_dup n (f_stack f); done_ok (f\<lparr> f_stack := st \<rparr>) }"

definition makeSwap :: "nat \<Rightarrow> 't executionFunc" where
  "makeSwap n f = do { st \<leftarrow> stack_swap (n + 1) (f_stack f); done_ok (f\<lparr> f_stack := st \<rparr>) }"

section \<open>Instructions as operations on 256-bit words\<close>

lemma f_pop_Cons [simp]: "f_pop (f\<lparr> f_stack := x # st \<rparr>) = Some (x, f\<lparr> f_stack := st \<rparr>)"
  by (simp add: f_pop_def stack_pop_def)

lemma op_eval:
  "unop g1 (f\<lparr> f_stack := x # st \<rparr>) = done_ok (f\<lparr> f_stack := g1 x # st \<rparr>)"
  "binop g2 (f\<lparr> f_stack := x # y # st \<rparr>) = done_ok (f\<lparr> f_stack := g2 x y # st \<rparr>)"
  "ternop g3 (f\<lparr> f_stack := x # y # z # st \<rparr>) = done_ok (f\<lparr> f_stack := g3 x y z # st \<rparr>)"
  by (simp_all add: unop_def binop_def ternop_def push_ok_def f_push_def)

lemma uint_hash_bounds: "0 \<le> uint (x :: hash)" "uint x < tt256"
  using uint_lt2p[of x] by (simp_all add: tt256_def)

lemma U256_uint_id [simp]: "U256 (uint (x :: hash)) = uint x"
  by (rule U256_id) (simp_all add: uint_hash_bounds)

lemma S256_uint [simp]: "S256 (uint (x :: hash)) = sint x"
  using S256_sint[of "uint x"] uint_hash_bounds[of x] by simp

lemma S256_0 [simp]: "S256 0 = 0"
  by (simp add: S256_def tt255_def)

lemma uint_of_int_range: "0 \<le> k \<Longrightarrow> k < tt256 \<Longrightarrow> uint (word_of_int k :: hash) = k"
  using U256_uint[of k] U256_id[of k] by simp

lemma big_Div_pos: "0 < y \<Longrightarrow> big_Div x y = x div y"
  by (simp add: big_Div_def big_Mod_def minus_mod_eq_mult_div)

lemma big_Mod_pos: "0 < y \<Longrightarrow> big_Mod x y = x mod y"
  by (simp add: big_Mod_def)

lemma uint_0_iff_hash: "uint (x :: hash) = 0 \<longleftrightarrow> x = 0"
  by (simp add: uint_0_iff)

lemma sdiv_value:
  "(let x = S256 (uint (x :: hash)); y = S256 (uint (y :: hash))
    in if y = 0 \<or> x = 0 then 0 else U256 (if sgn x \<noteq> sgn y then - big_Div \<bar>x\<bar> \<bar>y\<bar> else big_Div \<bar>x\<bar> \<bar>y\<bar>)) =
   uint (word_of_int (sint x sdiv sint y) :: hash)"
proof -
  have "sint x sdiv sint y = (if sgn (sint x) \<noteq> sgn (sint y) then - (\<bar>sint x\<bar> div \<bar>sint y\<bar>) else \<bar>sint x\<bar> div \<bar>sint y\<bar>)"
    if "sint y \<noteq> 0" "sint x \<noteq> 0"
    using that by (auto simp: signed_divide_int_def sgn_if split: if_splits)
  moreover have "sint x sdiv sint y = 0" if "sint y = 0 \<or> sint x = 0"
    using that by (auto simp: signed_divide_int_def)
  ultimately show ?thesis
    by (cases "sint y = 0 \<or> sint x = 0") (simp_all add: Let_def U256_uint big_Div_pos)
qed

lemma sint_0_hash: "sint (x :: hash) = 0 \<longleftrightarrow> x = 0"
  by (metis signed_0 signed_word_eqI)

lemma smod_value:
  "(let x = S256 (uint (x :: hash)); y = S256 (uint (y :: hash))
    in if y = 0 then 0 else U256 (if x < 0 then - big_Mod \<bar>x\<bar> \<bar>y\<bar> else big_Mod \<bar>x\<bar> \<bar>y\<bar>)) =
   (if y = 0 then 0 else uint (word_of_int (sint x smod sint y) :: hash))"
proof -
  have "sint x smod sint y = (if sint x < 0 then - (\<bar>sint x\<bar> mod \<bar>sint y\<bar>) else \<bar>sint x\<bar> mod \<bar>sint y\<bar>)"
    by (auto simp: signed_modulo_int_def sgn_if signed_divide_int_def minus_mod_eq_mult_div)
  then show ?thesis
    by (cases "y = 0") (simp_all add: Let_def U256_uint big_Mod_pos sint_0_hash)
qed

text \<open>An instruction computes \<open>r\<close> from \<open>args\<close> when, on every frame, it replaces those words on top of the
  stack by \<open>r\<close>, keeps everything else and goes on.\<close>

definition computes :: "'t executionFunc \<Rightarrow> hash list \<Rightarrow> hash \<Rightarrow> bool" where
  "computes exec args r \<longleftrightarrow>
     (\<forall>f st. exec (f\<lparr> f_stack := map uint args @ st \<rparr>) = done_ok (f\<lparr> f_stack := uint r # st \<rparr>))"

lemma computes_unop: "g (uint x) = uint r \<Longrightarrow> computes (unop g) [x] r"
  by (simp add: computes_def op_eval)

lemma computes_binop: "g (uint x) (uint y) = uint r \<Longrightarrow> computes (binop g) [x, y] r"
  by (simp add: computes_def op_eval)

lemma computes_ternop: "g (uint x) (uint y) (uint z) = uint r \<Longrightarrow> computes (ternop g) [x, y, z] r"
  by (simp add: computes_def op_eval)

lemmas computesI = computes_unop computes_binop computes_ternop

lemma uint_pos_iff: "0 < uint (w :: hash) \<longleftrightarrow> w \<noteq> 0"
  using uint_hash_bounds(1)[of w] uint_0_iff_hash[of w] by linarith

lemma uint_of_bool_int: "of_bool_int b = uint (of_bool b :: hash)"
  by (simp add: of_bool_int_def)

lemma U256_of_uint [simp]: "U256 (uint (a :: hash) + uint b) = uint (a + b)"
  "U256 (uint a - uint b) = uint (a - b)" "U256 (uint a * uint b) = uint (a * b)"
  by (simp_all add: U256_uint)

lemma Exp_uint: "Exp (uint (x :: hash)) (uint y) = uint (x ^ unat y)"
  using U256_uint[of "uint x ^ unat y"] by (simp add: Exp_mod U256_mod)

lemma big_Div_uint: "y \<noteq> 0 \<Longrightarrow> big_Div (uint (x :: hash)) (uint y) = uint (x div y)"
  by (simp add: big_Div_pos uint_pos_iff uint_div)

lemma big_Mod_uint: "y \<noteq> 0 \<Longrightarrow> big_Mod (uint (x :: hash)) (uint y) = uint (x mod y)"
  by (simp add: big_Mod_pos uint_pos_iff uint_mod)

text \<open>C21: The arithmetic instructions compute on the 256-bit words their operands stand for: addition,
  subtraction and multiplication modulo \<open>2 ^ 256\<close>, unsigned and signed division and remainder (0 for a
  zero divisor; signed division truncates, a signed remainder has the sign of the dividend), addition
  and multiplication modulo a third operand without intermediate overflow, and exponentiation.\<close>

theorem arithmetic_correct:
  "computes opAdd [x, y] (x + y) \<and> computes opSub [x, y] (x - y) \<and> computes opMul [x, y] (x * y) \<and>
   computes opDiv [x, y] (x div y) \<and> computes opMod [x, y] (if y = 0 then 0 else x mod y) \<and>
   computes opSdiv [x, y] (word_of_int (sint x sdiv sint y)) \<and>
   computes opSmod [x, y] (if y = 0 then 0 else word_of_int (sint x smod sint y)) \<and>
   computes opAddmod [x, y, z] (if z = 0 then 0 else word_of_int ((uint x + uint y) mod uint z)) \<and>
   computes opMulmod [x, y, z] (if z = 0 then 0 else word_of_int (uint x * uint y mod uint z)) \<and>
   computes opExp [x, y] (x ^ unat y)"
proof (intro conjI)
  show "computes opAdd [x, y] (x + y)" "computes opSub [x, y] (x - y)" "computes opMul [x, y] (x * y)"
    unfolding opAdd_def opSub_def opMul_def by (rule computesI, simp)+
  show "computes opDiv [x, y] (x div y)" "computes opMod [x, y] (if y = 0 then 0 else x mod y)"
    unfolding opDiv_def opMod_def
    by (rule computesI, cases "y = 0", simp, simp add: big_Div_uint big_Mod_uint uint_0_iff_hash)+
  show "computes opSdiv [x, y] (word_of_int (sint x sdiv sint y))"
    unfolding opSdiv_def by (rule computesI, rule sdiv_value)
  show "computes opSmod [x, y] (if y = 0 then 0 else word_of_int (sint x smod sint y))"
    unfolding opSmod_def by (rule computesI, subst smod_value, simp)
  show "computes opAddmod [x, y, z] (if z = 0 then 0 else word_of_int ((uint x + uint y) mod uint z))"
    "computes opMulmod [x, y, z] (if z = 0 then 0 else word_of_int (uint x * uint y mod uint z))"
    unfolding opAddmod_def opMulmod_def
    by (rule computesI, cases "z = 0", simp, simp add: uint_pos_iff big_Mod_pos U256_uint)+
  show "computes opExp [x, y] (x ^ unat y)"
    unfolding opExp_def by (rule computesI, rule Exp_uint)
qed

lemma tt255_le_uint: "tt255 \<le> uint (x :: hash) \<longleftrightarrow> sint x < 0"
proof -
  have "sint x = (if uint x \<ge> tt255 then uint x - tt256 else uint x)"
    using S256_uint[of x] by (auto simp: S256_def)
  then show ?thesis using uint_hash_bounds[of x] by (auto split: if_splits)
qed

lemma sint_split: "sint (x :: hash) = (if sint x < 0 then uint x - tt256 else uint x)"
  using S256_uint[of x] tt255_le_uint[of x] by (auto simp: S256_def)

lemma uint_shift: "uint (x :: hash) < 256 \<Longrightarrow> unat (Uint64 (uint x)) = unat x"
  using unat_Uint64[of "uint x"] by simp

lemma push_bit_value: "U256 (push_bit n (uint (y :: hash))) = uint (push_bit n y)"
  by (simp add: U256_take_bit unsigned_push_bit_eq)

lemma uint_drop_bit_hash: "uint (drop_bit n (y :: hash)) = drop_bit n (uint y)"
  by (rule bit_eqI) (auto simp: bit_uint_iff bit_drop_bit_eq dest: bit_imp_le_length)

lemma drop_bit_value: "U256 (drop_bit n (uint (y :: hash))) = uint (drop_bit n y)"
  by (metis U256_uint_id uint_drop_bit_hash)

lemma push_bit_large: "256 \<le> n \<Longrightarrow> push_bit n (y :: hash) = 0"
  by (rule bit_word_eqI) (auto simp: bit_push_bit_iff)

lemma drop_bit_large: "256 \<le> n \<Longrightarrow> drop_bit n (y :: hash) = 0"
  by (rule bit_word_eqI) (auto simp: bit_drop_bit_eq)

lemma shift_value:
  "(if 256 \<le> U256 (uint (x :: hash)) then 0
    else U256 (push_bit (unat (Uint64 (U256 (uint x)))) (U256 (uint y)))) = uint (push_bit (unat x) (y :: hash))"
  "(if 256 \<le> U256 (uint x) then 0
    else U256 (drop_bit (unat (Uint64 (U256 (uint x)))) (U256 (uint y)))) = uint (drop_bit (unat x) y)"
  unfolding U256_uint_id
proof -
  have *: "256 \<le> unat x" if "256 \<le> uint x" using that uint_nat[of x] by linarith
  show "(if 256 \<le> uint x then 0 else U256 (push_bit (unat (Uint64 (uint x))) (uint y))) = uint (push_bit (unat x) y)"
    by (cases "256 \<le> uint x") (use * push_bit_large in \<open>simp_all add: push_bit_value uint_shift\<close>)
  show "(if 256 \<le> uint x then 0 else U256 (drop_bit (unat (Uint64 (uint x))) (uint y))) = uint (drop_bit (unat x) y)"
    by (cases "256 \<le> uint x") (use * drop_bit_large in \<open>simp_all add: drop_bit_value uint_shift\<close>)
qed

lemma U256_not: "U256 (NOT (uint (x :: hash))) = uint (NOT x)"
  by (simp add: U256_take_bit unsigned_not_eq)

lemma uint_bitwise: "uint (x :: hash) AND uint y = uint (x AND y)" "uint x OR uint y = uint (x OR y)"
  "uint x XOR uint y = uint (x XOR y)"
  by (simp_all add: unsigned_and_eq unsigned_or_eq unsigned_xor_eq)

lemma signed_compare:
  "(if tt255 \<le> uint x \<and> uint y < tt255 then 1 else if uint x < tt255 \<and> tt255 \<le> uint y then 0
    else of_bool_int (uint x < uint y)) = uint (of_bool (sint (x :: hash) < sint (y :: hash)) :: hash)"
  "(if tt255 \<le> uint x \<and> uint y < tt255 then 0 else if uint x < tt255 \<and> tt255 \<le> uint y then 1
    else of_bool_int (uint x > uint y)) = uint (of_bool (sint x > sint y) :: hash)"
  using sint_split[of x] sint_split[of y] tt255_le_uint[of x] tt255_le_uint[of y]
  by (auto simp: of_bool_int_def not_le not_less)

lemma byte_value:
  assumes "uint (th :: hash) < 32"
  shows "uint (Byte (uint (val :: hash)) 32 (nat (Int64 (uint th)))) =
    uint (take_bit 8 (drop_bit (8 * (31 - unat th)) val))"
proof -
  have "Int64 (uint th) = uint th" by (rule Int64_small) (use assms in auto)
  moreover have "unat th < 32" using assms uint_nat[of th] by linarith
  moreover have "(256 :: int) ^ k = 2 ^ (8 * k)" for k by (simp add: power_mult)
  ultimately show ?thesis
    by (simp add: Byte_def bigEndianByteAt_eq unsigned_take_bit_eq uint_drop_bit_hash uint_word_of_int_eq
        flip: drop_bit_eq_div)
qed

text \<open>C22: The comparison instructions compare their operands as unsigned or two's complement signed
  256-bit words and leave 1 or 0; the bitwise instructions and the shifts are those of 256-bit
  words (a shift by 256 or more leaves 0); \<open>BYTE\<close> selects a byte counted from the most
  significant one, and 0 beyond the last.\<close>

theorem comparison_bitwise_correct:
  "computes opLt [x, y] (of_bool (x < y)) \<and> computes opGt [x, y] (of_bool (x > y)) \<and>
   computes opSlt [x, y] (of_bool (sint x < sint y)) \<and> computes opSgt [x, y] (of_bool (sint x > sint y)) \<and>
   computes opEq [x, y] (of_bool (x = y)) \<and> computes opIszero [x] (of_bool (x = 0)) \<and>
   computes opAnd [x, y] (x AND y) \<and> computes opOr [x, y] (x OR y) \<and>
   computes opXor [x, y] (x XOR y) \<and> computes opNot [x] (NOT x) \<and>
   computes opSHL [x, y] (push_bit (unat x) y) \<and> computes opSHR [x, y] (drop_bit (unat x) y) \<and>
   computes opByte [x, y] (if x < 32 then take_bit 8 (drop_bit (8 * (31 - unat x)) y) else 0)"
proof (intro conjI)
  show "computes opLt [x, y] (of_bool (x < y))" "computes opGt [x, y] (of_bool (x > y))" "computes opEq [x, y] (of_bool (x = y))"
    unfolding opLt_def opGt_def opEq_def
    by (rule computesI, simp add: of_bool_int_def word_less_def word_uint_eq_iff)+
  show "computes opSlt [x, y] (of_bool (sint x < sint y))" "computes opSgt [x, y] (of_bool (sint x > sint y))"
    unfolding opSlt_def opSgt_def by (rule computesI, rule signed_compare)+
  show "computes opIszero [x] (of_bool (x = 0))" 
    unfolding opIszero_def by (rule computesI) (simp add: uint_pos_iff)
  show "computes opNot [x] (NOT x)"
    unfolding opNot_def by (rule computesI) (rule U256_not)
  show "computes opAnd [x, y] (x AND y)" "computes opOr [x, y] (x OR y)" "computes opXor [x, y] (x XOR y)"
    unfolding opAnd_def opOr_def opXor_def by (rule computesI, rule uint_bitwise)+
  show "computes opSHL [x, y] (push_bit (unat x) y)" "computes opSHR [x, y] (drop_bit (unat x) y)"
    unfolding opSHL_def opSHR_def Let_def by (rule computesI, rule shift_value)+
  show "computes opByte [x, y] (if x < 32 then take_bit 8 (drop_bit (8 * (31 - unat x)) y) else 0)"
    unfolding opByte_def by (rule computesI) (simp add: byte_value word_less_def)
qed

lemma sign_extend_value:
  assumes "uint (k :: hash) < 31"
  shows "sign_extend (uint k) (uint (y :: hash)) = uint (signed_take_bit (8 * unat k + 7) y)"
proof -
  let ?b = "8 * unat k + 7"
  have k: "unat k < 31" using assms uint_nat[of k] by linarith
  moreover have "unat (Uint64 (uint k)) = unat k" by (rule uint_shift) (use assms in simp)
  ultimately have b: "unat (Uint64 (uint k) * 8 + 7) = ?b" by (simp add: unat_word_ariths)
  have msk: "(push_bit ?b 1 - 1 :: int) = mask ?b" by (simp add: mask_eq_exp_minus_1 push_bit_eq_mult)
  have "take_bit 256 (if bit (uint y) ?b then uint y OR NOT (mask ?b) else uint y AND mask ?b) =
    uint (signed_take_bit ?b y)"
    by (intro bit_eqI) (auto simp: bit_take_bit_iff bit_uint_iff bit_signed_take_bit_iff bit_or_iff bit_and_iff
        bit_not_iff bit_mask_iff min_def not_less less_Suc_eq_le le_antisym)
  then show ?thesis
    unfolding sign_extend_def Let_def b U256_take_bit msk .
qed

lemma signed_drop_value: "U256 (drop_bit n (sint (y :: hash))) = uint (signed_drop_bit n y)"
  unfolding U256_uint by (simp flip: sint_signed_drop_bit_eq)

lemma signed_drop_bit_large:
  assumes "256 \<le> n"
  shows "signed_drop_bit n (y :: hash) = (if sint y < 0 then - 1 else 0)"
proof -
  have "- (2 ^ 255) \<le> sint y \<and> sint y < 2 ^ 255"
    using sint_ge[of y] sint_lt[of y] by simp
  moreover have "(2 :: int) ^ 255 \<le> 2 ^ n" using assms by (intro power_increasing) simp_all
  ultimately have "- (2 ^ n) \<le> sint y" "sint y < 2 ^ n" by linarith+
  then have "drop_bit n (sint y) = (if sint y < 0 then - 1 else 0)"
    unfolding drop_bit_eq_div
    by (auto simp: zdiv_eq_0_iff intro: int_div_pos_eq[where r = "sint y + 2 ^ n"])
  then have "sint (signed_drop_bit n y) = sint (if sint y < 0 then - 1 else 0 :: hash)"
    by (simp add: sint_signed_drop_bit_eq)
  then show ?thesis by (rule signed_word_eqI)
qed

lemma sar_value:
  "(if 256 \<le> U256 (uint (x :: hash)) then U256 (if 0 < S256 (uint y) then 0 else - 1)
    else U256 (drop_bit (unat (Uint64 (U256 (uint x)))) (S256 (uint y)))) =
   uint (if 256 \<le> x \<and> y = 0 then - 1 else signed_drop_bit (unat x) (y :: hash))"
proof (cases "256 \<le> uint x")
  case True
  have x: "256 \<le> x" using True by (simp add: word_le_def)
  have "256 \<le> unat x" using True uint_nat[of x] by linarith
  note x = x this
  have "U256 (if 0 < sint y then 0 else - 1) = uint (if y = 0 then - 1 else if sint y < 0 then - 1 else 0 :: hash)"
    using sint_0_hash[of y] by (cases "sint y" "0 :: int" rule: linorder_cases) (auto simp: U256_uint)
  with True x show ?thesis by (simp add: signed_drop_bit_large)
next
  case False
  then have "\<not> 256 \<le> x" by (simp add: word_le_def)
  with False show ?thesis by (simp add: signed_drop_value uint_shift)
qed

text \<open>C23: \<open>SIGNEXTEND\<close> extends the two's complement number in the low \<open>k + 1\<close> bytes of its second
  operand to 256 bits, for \<open>k < 31\<close>, and leaves it alone otherwise; \<open>SAR\<close> shifts a two's complement number
  to the right rounding towards minus infinity, except that a shift of zero by 256 or more leaves -1.\<close>

theorem signextend_sar_correct:
  "computes opSignExtend [k, y] (if k < 31 then signed_take_bit (8 * unat k + 7) y else y) \<and>
   computes opSAR [k, y] (if 256 \<le> k \<and> y = 0 then - 1 else signed_drop_bit (unat k) y)"
proof
  show "computes opSignExtend [k, y] (if k < 31 then signed_take_bit (8 * unat k + 7) y else y)"
    by (simp add: computes_def opSignExtend_def push_ok_def f_push_def sign_extend_value word_less_def)
  show "computes opSAR [k, y] (if 256 \<le> k \<and> y = 0 then - 1 else signed_drop_bit (unat k) y)"
    unfolding opSAR_def Let_def by (rule computesI, rule sar_value)
qed

end
