(* ===== verification/Precompiles.thy ===== *)
theory Precompiles
  imports VM_Base
begin

text \<open>The precompiled contracts of \<open>core/vm/contracts.go\<close>. The cryptographic primitives they call
  are the functions of a \<open>Crypto\<close> record; everything around them (parsing the input, the gas
  formulas, the modular exponentiation) is modelled.\<close>

definition EcrecoverGas :: uint64 where [params]: "EcrecoverGas = 3000"
definition Sha256BaseGas :: uint64 where [params]: "Sha256BaseGas = 60"
definition Sha256PerWordGas :: uint64 where [params]: "Sha256PerWordGas = 12"
definition Ripemd160BaseGas :: uint64 where [params]: "Ripemd160BaseGas = 600"
definition Ripemd160PerWordGas :: uint64 where [params]: "Ripemd160PerWordGas = 120"
definition IdentityBaseGas :: uint64 where [params]: "IdentityBaseGas = 15"
definition IdentityPerWordGas :: uint64 where [params]: "IdentityPerWordGas = 3"
definition ModExpQuadCoeffDiv :: uint64 where [params]: "ModExpQuadCoeffDiv = 20"
definition Bn256AddGas :: uint64 where [params]: "Bn256AddGas = 500"
definition Bn256ScalarMulGas :: uint64 where [params]: "Bn256ScalarMulGas = 40000"
definition Bn256PairingBaseGas :: uint64 where [params]: "Bn256PairingBaseGas = 100000"
definition Bn256PairingPerPointGas :: uint64 where [params]: "Bn256PairingPerPointGas = 80000"

datatype PrecompiledContract =
  ecrecover | sha256hash | ripemd160hash | dataCopy | bigModExp | bn256Add | bn256ScalarMul | bn256Pairing

definition PrecompiledContractsHomestead :: "address \<rightharpoonup> PrecompiledContract" where
  "PrecompiledContractsHomestead = map_of
     [(BytesToAddress [1], ecrecover), (BytesToAddress [2], sha256hash),
      (BytesToAddress [3], ripemd160hash), (BytesToAddress [4], dataCopy)]"

definition PrecompiledContractsByzantium :: "address \<rightharpoonup> PrecompiledContract" where
  "PrecompiledContractsByzantium = map_of
     [(BytesToAddress [1], ecrecover), (BytesToAddress [2], sha256hash),
      (BytesToAddress [3], ripemd160hash), (BytesToAddress [4], dataCopy),
      (BytesToAddress [5], bigModExp), (BytesToAddress [6], bn256Add),
      (BytesToAddress [7], bn256ScalarMul), (BytesToAddress [8], bn256Pairing)]"

section \<open>Signature values (\<open>crypto/crypto.go\<close>)\<close>

definition secp256k1N :: int where
  "secp256k1N = 0xfffffffffffffffffffffffffffffffebaaedce6af48a03bbfd25e8cd0364141"

definition secp256k1halfN :: int where
  "secp256k1halfN = secp256k1N div 2"

definition ValidateSignatureValues :: "byte \<Rightarrow> int \<Rightarrow> int \<Rightarrow> bool \<Rightarrow> bool" where
  "ValidateSignatureValues v r s homestead =
     (if r < 1 \<or> s < 1 then False
      else if homestead \<and> s > secp256k1halfN then False
      else r < secp256k1N \<and> s < secp256k1N \<and> (v = 0 \<or> v = 1))"

section \<open>ecrecover\<close>

text \<open>The expression \<open>append(input[64:128], v)\<close> writes \<open>v\<close> behind the signature. If the input is
  longer than 128 bytes it is not copied before, and the byte at index 128 of the caller's slice is
  overwritten: the second result is the input as the caller sees it afterwards.\<close>

definition ecrecover_Run :: "'t Database \<Rightarrow> Crypto \<Rightarrow> bytes \<Rightarrow> (bytes \<times> bytes) option" where
  "ecrecover_Run db cr input =
     (let padded = RightPadBytes input 128
      in do { rb \<leftarrow> go_slice padded 64 96;
              sb \<leftarrow> go_slice padded 96 128;
              vb \<leftarrow> go_index padded 63;
              zeros \<leftarrow> go_slice padded 32 63;
              let r = SetBytes rb;
              let s = SetBytes sb;
              let v = vb - 27;
              if \<not> allZero zeros \<or> \<not> ValidateSignatureValues v r s False
              then Some ([], input)
              else do {
                h \<leftarrow> go_slice padded 0 32;
                sig \<leftarrow> go_slice padded 64 128;
                let after = (if length input > 128 then input[128 := v] else input);
                case Ecrecover cr h (sig @ [v]) of
                  None \<Rightarrow> Some ([], after)
                | Some pubKey \<Rightarrow>
                    do { key \<leftarrow> go_slice pubKey 1 (length pubKey);
                         addr \<leftarrow> go_slice (Keccak256 db key) 12 (length (Keccak256 db key));
                         Some (LeftPadBytes addr 32, after) } } })"

section \<open>Hashes and identity\<close>

definition sha256hash_RequiredGas :: "bytes \<Rightarrow> uint64" where
  "sha256hash_RequiredGas input =
     of_nat (length input + 31) div 32 * Sha256PerWordGas + Sha256BaseGas"

definition ripemd160hash_RequiredGas :: "bytes \<Rightarrow> uint64" where
  "ripemd160hash_RequiredGas input =
     of_nat (length input + 31) div 32 * Ripemd160PerWordGas + Ripemd160BaseGas"

definition dataCopy_RequiredGas :: "bytes \<Rightarrow> uint64" where
  "dataCopy_RequiredGas input =
     of_nat (length input + 31) div 32 * IdentityPerWordGas + IdentityBaseGas"

definition sha256hash_Run :: "Crypto \<Rightarrow> bytes \<Rightarrow> bytes" where
  "sha256hash_Run cr input = Sha256 cr input"

definition ripemd160hash_Run :: "Crypto \<Rightarrow> bytes \<Rightarrow> bytes" where
  "ripemd160hash_Run cr input = LeftPadBytes (Ripemd160 cr input) 32"

definition dataCopy_Run :: "bytes \<Rightarrow> bytes" where
  "dataCopy_Run input = input"

section \<open>Modular exponentiation\<close>

definition modexp_rest :: "bytes \<Rightarrow> bytes" where
  "modexp_rest input = (if length input > 96 then drop 96 input else [])"

definition modexp_expHead :: "bytes \<Rightarrow> int \<Rightarrow> int \<Rightarrow> int option" where
  "modexp_expHead input baseLen expLen =
     (if int (length input) \<le> baseLen then Some 0
      else do { b \<leftarrow> getData input (Uint64 baseLen) (if expLen > 32 then 32 else Uint64 expLen);
                Some (SetBytes b) })"

definition modexp_adjExpLen :: "int \<Rightarrow> int \<Rightarrow> int" where
  "modexp_adjExpLen expLen expHead =
     (let msb = (if BitLen expHead > 0 then int (BitLen expHead) - 1 else 0)
      in (if expLen > 32 then 8 * (expLen - 32) else 0) + msb)"

definition modexp_complexity :: "int \<Rightarrow> int" where
  "modexp_complexity x =
     (if x \<le> 64 then x * x
      else if x \<le> 1024 then x * x div 4 + (96 * x - 3072)
      else x * x div 16 + (480 * x - 199680))"

definition bigModExp_RequiredGas :: "bytes \<Rightarrow> uint64 option" where
  "bigModExp_RequiredGas input =
     do { b0 \<leftarrow> getData input 0 32;
          b1 \<leftarrow> getData input 32 32;
          b2 \<leftarrow> getData input 64 32;
          let baseLen = SetBytes b0;
          let expLen = SetBytes b1;
          let modLen = SetBytes b2;
          expHead \<leftarrow> modexp_expHead (modexp_rest input) baseLen expLen;
          let adjExpLen = modexp_adjExpLen expLen expHead;
          let gas = modexp_complexity (BigMax modLen baseLen) * BigMax adjExpLen 1
                      div uint ModExpQuadCoeffDiv;
          Some (if BitLen gas > 64 then MaxUint64 else Uint64 gas) }"

text \<open>\<open>big.Int.Exp\<close> with a positive modulus, by repeated squaring.\<close>

fun mod_exp :: "int \<Rightarrow> nat \<Rightarrow> int \<Rightarrow> int" where
  "mod_exp x n m =
     (if n = 0 then 1 mod m
      else let h = mod_exp (x * x mod m) (n div 2) m
           in if odd n then x * h mod m else h)"

declare mod_exp.simps [simp del]

definition bigModExp_Run :: "bytes \<Rightarrow> bytes option" where
  "bigModExp_Run input =
     do { b0 \<leftarrow> getData input 0 32;
          b1 \<leftarrow> getData input 32 32;
          b2 \<leftarrow> getData input 64 32;
          let baseLen = Uint64 (SetBytes b0);
          let expLen = Uint64 (SetBytes b1);
          let modLen = Uint64 (SetBytes b2);
          let input = modexp_rest input;
          if baseLen = 0 \<and> modLen = 0 then Some []
          else do { bb \<leftarrow> getData input 0 baseLen;
                    eb \<leftarrow> getData input baseLen expLen;
                    mb \<leftarrow> getData input (baseLen + expLen) modLen;
                    let m = SetBytes mb;
                    Some (if BitLen m = 0 then LeftPadBytes [] (sint modLen)
                          else LeftPadBytes
                                 (BigBytes (mod_exp (SetBytes bb) (nat (SetBytes eb)) m)) (sint modLen)) } }"

section \<open>Curve operations\<close>

definition newCurvePoint :: "Crypto \<Rightarrow> bytes \<Rightarrow> vm_error + G1" where
  "newCurvePoint cr blob = (case G1_Unmarshal cr blob of None \<Rightarrow> Inl errBn256 | Some p \<Rightarrow> Inr p)"

definition newTwistPoint :: "Crypto \<Rightarrow> bytes \<Rightarrow> vm_error + G2" where
  "newTwistPoint cr blob = (case G2_Unmarshal cr blob of None \<Rightarrow> Inl errBn256 | Some p \<Rightarrow> Inr p)"

definition bn256Add_Run :: "Crypto \<Rightarrow> bytes \<Rightarrow> (vm_error + bytes) option" where
  "bn256Add_Run cr input =
     do { b0 \<leftarrow> getData input 0 64;
          case newCurvePoint cr b0 of
            Inl e \<Rightarrow> Some (Inl e)
          | Inr x \<Rightarrow>
              do { b1 \<leftarrow> getData input 64 64;
                   Some (case newCurvePoint cr b1 of
                           Inl e \<Rightarrow> Inl e
                         | Inr y \<Rightarrow> Inr (G1_Marshal cr (G1_Add cr x y))) } }"

definition bn256ScalarMul_Run :: "Crypto \<Rightarrow> bytes \<Rightarrow> (vm_error + bytes) option" where
  "bn256ScalarMul_Run cr input =
     do { b0 \<leftarrow> getData input 0 64;
          case newCurvePoint cr b0 of
            Inl e \<Rightarrow> Some (Inl e)
          | Inr p \<Rightarrow>
              do { b1 \<leftarrow> getData input 64 32;
                   Some (Inr (G1_Marshal cr (G1_ScalarMult cr p (SetBytes b1)))) } }"

definition true32Byte :: bytes where "true32Byte = replicate 31 0 @ [1]"
definition false32Byte :: bytes where "false32Byte = replicate 32 0"

definition bn256Pairing_RequiredGas :: "bytes \<Rightarrow> uint64" where
  "bn256Pairing_RequiredGas input =
     Bn256PairingBaseGas + of_nat (length input div 192) * Bn256PairingPerPointGas"

text \<open>The loop over the points, from index \<open>i\<close> on.\<close>

function pairing_loop ::
    "Crypto \<Rightarrow> bytes \<Rightarrow> nat \<Rightarrow> G1 list \<Rightarrow> G2 list \<Rightarrow> (vm_error + G1 list \<times> G2 list) option" where
  "pairing_loop cr input i cs ts =
     (if i < length input then
        do { b0 \<leftarrow> go_slice input i (i + 64);
             case newCurvePoint cr b0 of
               Inl e \<Rightarrow> Some (Inl e)
             | Inr c \<Rightarrow>
                 do { b1 \<leftarrow> go_slice input (i + 64) (i + 192);
                      case newTwistPoint cr b1 of
                        Inl e \<Rightarrow> Some (Inl e)
                      | Inr t \<Rightarrow> pairing_loop cr input (i + 192) (cs @ [c]) (ts @ [t]) } }
      else Some (Inr (cs, ts)))"
  by pat_completeness auto
termination
  by (relation "measure (\<lambda>(cr, input, i, cs, ts). length input - i)") auto

declare pairing_loop.simps [simp del]

definition bn256Pairing_Run :: "Crypto \<Rightarrow> bytes \<Rightarrow> (vm_error + bytes) option" where
  "bn256Pairing_Run cr input =
     (if length input mod 192 > 0 then Some (Inl errBadPairingInput)
      else do { r \<leftarrow> pairing_loop cr input 0 [] [];
                Some (case r of
                        Inl e \<Rightarrow> Inl e
                      | Inr (cs, ts) \<Rightarrow> Inr (if PairingCheck cr cs ts then true32Byte else false32Byte)) })"

section \<open>Dispatch\<close>

primrec RequiredGas :: "PrecompiledContract \<Rightarrow> bytes \<Rightarrow> uint64 option" where
  "RequiredGas ecrecover input = Some EcrecoverGas"
| "RequiredGas sha256hash input = Some (sha256hash_RequiredGas input)"
| "RequiredGas ripemd160hash input = Some (ripemd160hash_RequiredGas input)"
| "RequiredGas dataCopy input = Some (dataCopy_RequiredGas input)"
| "RequiredGas bigModExp input = bigModExp_RequiredGas input"
| "RequiredGas bn256Add input = Some Bn256AddGas"
| "RequiredGas bn256ScalarMul input = Some Bn256ScalarMulGas"
| "RequiredGas bn256Pairing input = Some (bn256Pairing_RequiredGas input)"

primrec Run_precompiled ::
    "'t Database \<Rightarrow> Crypto \<Rightarrow> PrecompiledContract \<Rightarrow> bytes \<Rightarrow> (vm_error + bytes) option" where
  "Run_precompiled db cr ecrecover input = do { (ret, _) \<leftarrow> ecrecover_Run db cr input; Some (Inr ret) }"
| "Run_precompiled db cr sha256hash input = Some (Inr (sha256hash_Run cr input))"
| "Run_precompiled db cr ripemd160hash input = Some (Inr (ripemd160hash_Run cr input))"
| "Run_precompiled db cr dataCopy input = Some (Inr (dataCopy_Run input))"
| "Run_precompiled db cr bigModExp input = do { ret \<leftarrow> bigModExp_Run input; Some (Inr ret) }"
| "Run_precompiled db cr bn256Add input = bn256Add_Run cr input"
| "Run_precompiled db cr bn256ScalarMul input = bn256ScalarMul_Run cr input"
| "Run_precompiled db cr bn256Pairing input = bn256Pairing_Run cr input"

definition RunPrecompiledContract ::
    "'t Database \<Rightarrow> Crypto \<Rightarrow> PrecompiledContract \<Rightarrow> bytes \<Rightarrow> Contract \<Rightarrow>
     (Contract \<times> bytes \<times> vm_error option) option" where
  "RunPrecompiledContract db cr p input c =
     do { gas \<leftarrow> RequiredGas p input;
          let (ok, c) = UseGas gas c;
          if ok then do { r \<leftarrow> Run_precompiled db cr p input;
                          Some (case r of Inl e \<Rightarrow> (c, [], Some e) | Inr ret \<Rightarrow> (c, ret, None)) }
          else Some (c, [], Some ErrOutOfGas) }"

end
