(* ===== verification/VM_Calls.thy ===== *)
theory VM_Calls
  imports VM_Instructions Precompiles
begin

text \<open>Message calls and contract creation: the methods \<open>Call\<close>, \<open>CallCode\<close>, \<open>DelegateCall\<close>,
  \<open>StaticCall\<close> and \<open>Create\<close> of \<open>core/vm/evm.go\<close>, the transfer functions of \<open>core/evm.go\<close> and
  the instructions that use them. All take the function that runs a contract as an argument; the
  interpreter closes the recursion.\<close>

section \<open>Transfer of ether (\<open>core/evm.go\<close>)\<close>

definition CanTransfer :: "address \<Rightarrow> int \<Rightarrow> 't StateDB \<Rightarrow> bool \<times> 't StateDB" where
  "CanTransfer addr amount s = (let (b, s) = GetBalance addr s in (b \<ge> amount, s))"

definition Transfer :: "address \<Rightarrow> address \<Rightarrow> int \<Rightarrow> 't StateDB \<Rightarrow> 't StateDB" where
  "Transfer sender recipient amount s = AddBalance recipient amount (SubBalance sender amount s)"

definition CreateAddress :: "'t Database \<Rightarrow> address \<Rightarrow> uint64 \<Rightarrow> address option" where
  "CreateAddress db b nonce =
     do { r \<leftarrow> EncodeToBytes (SliceVal False [BytesVal (Address_Bytes b), UintVal nonce]);
          let data = (case r of Inr d \<Rightarrow> d | Inl _ \<Rightarrow> []);
          h \<leftarrow> go_slice (Keccak256 db data) 12 (length (Keccak256 db data));
          Some (BytesToAddress h) }"

definition precompiles :: "'t EVM \<Rightarrow> address \<rightharpoonup> PrecompiledContract" where
  "precompiles evm =
     (if IsByzantium (evm_chainConfig evm) (evm_BlockNumber evm)
      then PrecompiledContractsByzantium else PrecompiledContractsHomestead)"

section \<open>Calls (\<open>core/vm/evm.go\<close>)\<close>

type_synonym 't call_result = "('t EVM \<times> bytes \<times> uint64 \<times> vm_error option) option"

text \<open>The common end of the calls: an error reverts the state, and every error but
  \<open>errExecutionReverted\<close> consumes the remaining gas.\<close>

definition fail_gas :: "vm_error option \<Rightarrow> Contract \<Rightarrow> Contract" where
  "fail_gas err c = (if err \<noteq> Some errExecutionReverted then snd (UseGas (c_Gas c) c) else c)"

definition settle :: "nat \<Rightarrow> 't run_result \<Rightarrow> 't call_result" where
  "settle snapshot r =
     do { (evm, c, ret, err) \<leftarrow> r;
          if err = None then Some (evm, ret, c_Gas c, None)
          else do { s \<leftarrow> RevertToSnapshot snapshot (evm_StateDB evm);
                    Some (evm\<lparr> evm_StateDB := s \<rparr>, ret, c_Gas (fail_gas err c), err) } }"

text \<open>\<open>NewContract\<close> with the code of an account.\<close>

definition contract_for ::
    "ContractRef \<Rightarrow> address \<Rightarrow> int \<Rightarrow> uint64 \<Rightarrow> 't EVM \<Rightarrow> Contract \<times> 't EVM" where
  "contract_for caller object val gas evm =
     (let (c, d) = NewContract caller object val gas (evm_jumpdests evm)
      in (c, evm\<lparr> evm_jumpdests := d \<rparr>))"

definition load_code :: "address \<Rightarrow> Contract \<Rightarrow> 't EVM \<Rightarrow> Contract \<times> 't EVM" where
  "load_code addr c evm =
     (let (h, evm) = evm_read (GetCodeHash addr) evm;
          (code, evm) = evm_read (GetCode addr) evm
      in (SetCallCode addr h (nil_bytes code) c, evm))"

definition EVM_Call ::
    "'t runner \<Rightarrow> ContractRef \<Rightarrow> address \<Rightarrow> bytes \<Rightarrow> uint64 \<Rightarrow> int \<Rightarrow> 't EVM \<Rightarrow> 't call_result" where
  "EVM_Call run caller addr input gas val evm =
     (if evm_NoRecursion evm \<and> evm_depth evm > 0 then Some (evm, [], gas, None)
      else if evm_depth evm > CallCreateDepth then Some (evm, [], gas, Some ErrDepth)
      else let (can, evm) = evm_read (CanTransfer (ref_Address caller) val) evm
      in if \<not> can then Some (evm, [], gas, Some ErrInsufficientBalance)
      else let (snapshot, evm) = evm_read Snapshot evm;
               (ex, evm) = evm_read (Exist addr) evm
      in if \<not> ex \<and> precompiles evm addr = None \<and>
            IsEIP158 (evm_chainConfig evm) (evm_BlockNumber evm) \<and> val = 0
         then Some (evm, [], gas, None)
      else let evm = (if \<not> ex then evm_write (CreateAccount addr) evm else evm);
               evm = evm_write (Transfer (ref_Address caller) addr val) evm;
               (c, evm) = contract_for caller addr val gas evm;
               (c, evm) = load_code addr c evm
      in settle snapshot (run evm c input))"

definition EVM_CallCode ::
    "'t runner \<Rightarrow> ContractRef \<Rightarrow> address \<Rightarrow> bytes \<Rightarrow> uint64 \<Rightarrow> int \<Rightarrow> 't EVM \<Rightarrow> 't call_result" where
  "EVM_CallCode run caller addr input gas val evm =
     (if evm_NoRecursion evm \<and> evm_depth evm > 0 then Some (evm, [], gas, None)
      else if evm_depth evm > CallCreateDepth then Some (evm, [], gas, Some ErrDepth)
      else let (can, evm) = evm_read (CanTransfer (ref_Address caller) val) evm
      in if \<not> can then Some (evm, [], gas, Some ErrInsufficientBalance)
      else let (snapshot, evm) = evm_read Snapshot evm;
               (c, evm) = contract_for caller (ref_Address caller) val gas evm;
               (c, evm) = load_code addr c evm
      in settle snapshot (run evm c input))"

text \<open>\<open>DelegateCall\<close> passes a nil value to \<open>NewContract\<close>, which \<open>AsDelegate\<close> overwrites.\<close>

definition EVM_DelegateCall ::
    "'t runner \<Rightarrow> ContractRef \<Rightarrow> address \<Rightarrow> bytes \<Rightarrow> uint64 \<Rightarrow> 't EVM \<Rightarrow> 't call_result" where
  "EVM_DelegateCall run caller addr input gas evm =
     (if evm_NoRecursion evm \<and> evm_depth evm > 0 then Some (evm, [], gas, None)
      else if evm_depth evm > CallCreateDepth then Some (evm, [], gas, Some ErrDepth)
      else let (snapshot, evm) = evm_read Snapshot evm;
               (c, evm) = contract_for caller (ref_Address caller) 0 gas evm
      in do { c \<leftarrow> AsDelegate caller c;
              let (c, evm) = load_code addr c evm;
              settle snapshot (run evm c input) })"

definition EVM_StaticCall ::
    "'t runner \<Rightarrow> ContractRef \<Rightarrow> address \<Rightarrow> bytes \<Rightarrow> uint64 \<Rightarrow> 't EVM \<Rightarrow> 't call_result" where
  "EVM_StaticCall run caller addr input gas evm =
     (if evm_NoRecursion evm \<and> evm_depth evm > 0 then Some (evm, [], gas, None)
      else if evm_depth evm > CallCreateDepth then Some (evm, [], gas, Some ErrDepth)
      else let readOnly = evm_readOnly evm;
               evm = evm\<lparr> evm_readOnly := True \<rparr>;
               (snapshot, evm) = evm_read Snapshot evm;
               (c, evm) = contract_for caller addr 0 gas evm;
               (c, evm) = load_code addr c evm
      in do { (evm, ret, left, err) \<leftarrow> settle snapshot (run evm c input);
              Some (if readOnly then evm else evm\<lparr> evm_readOnly := False \<rparr>, ret, left, err) })"

section \<open>Contract creation\<close>

text \<open>A nil slice is the only empty slice that a run returns as code.\<close>

definition code_slice :: "bytes \<Rightarrow> bytes option" where
  "code_slice ret = (if ret = [] then None else Some ret)"

text \<open>What \<open>Create\<close> does with the result of the initialisation code.\<close>

definition create_finish ::
    "nat \<Rightarrow> address \<Rightarrow> 't EVM \<Rightarrow> Contract \<Rightarrow> bytes \<Rightarrow> vm_error option \<Rightarrow>
     ('t EVM \<times> bytes \<times> address \<times> uint64 \<times> vm_error option) option" where
  "create_finish snapshot contractAddr evm c ret err =
     (let homestead = IsHomestead (evm_chainConfig evm) (evm_BlockNumber evm);
          maxCodeSizeExceeded =
            IsEIP158 (evm_chainConfig evm) (evm_BlockNumber evm) \<and> length ret > MaxCodeSize;
          (evm, c, err) =
            (if err = None \<and> \<not> maxCodeSizeExceeded then
               let createDataGas = of_nat (length ret) * CreateDataGas;
                   (ok, c) = UseGas createDataGas c
               in if ok then (evm_write (SetCode contractAddr (code_slice ret)) evm, c, None)
                  else (evm, c, Some ErrCodeStoreOutOfGas)
             else (evm, c, err))
      in do { (evm, c) \<leftarrow>
                (if maxCodeSizeExceeded \<or>
                    (err \<noteq> None \<and> (homestead \<or> err \<noteq> Some ErrCodeStoreOutOfGas))
                 then do { s \<leftarrow> RevertToSnapshot snapshot (evm_StateDB evm);
                           Some (evm\<lparr> evm_StateDB := s \<rparr>, fail_gas err c) }
                 else Some (evm, c));
              let err = (if maxCodeSizeExceeded \<and> err = None then Some errMaxCodeSizeExceeded else err);
              Some (evm, ret, contractAddr, c_Gas c, err) })"

definition EVM_Create ::
    "'t runner \<Rightarrow> ContractRef \<Rightarrow> bytes \<Rightarrow> uint64 \<Rightarrow> int \<Rightarrow> 't EVM \<Rightarrow>
     ('t EVM \<times> bytes \<times> address \<times> uint64 \<times> vm_error option) option" where
  "EVM_Create run caller code gas val evm =
     (if evm_depth evm > CallCreateDepth then Some (evm, [], 0, gas, Some ErrDepth)
      else let (can, evm) = evm_read (CanTransfer (ref_Address caller) val) evm
      in if \<not> can then Some (evm, [], 0, gas, Some ErrInsufficientBalance)
      else let db = sdb_db (evm_StateDB evm);
               (nonce, evm) = evm_read (GetNonce (ref_Address caller)) evm;
               evm = evm_write (SetNonce (ref_Address caller) (nonce + 1)) evm
      in do { contractAddr \<leftarrow> CreateAddress db (ref_Address caller) nonce;
              let (contractHash, evm) = evm_read (GetCodeHash contractAddr) evm;
              let (nonce, evm) = evm_read (GetNonce contractAddr) evm;
              if nonce \<noteq> 0 \<or>
                 (contractHash \<noteq> 0 \<and> contractHash \<noteq> Keccak256Hash db [])
              then Some (evm, [], 0, 0, Some ErrContractAddressCollision)
              else
                let (snapshot, evm) = evm_read Snapshot evm;
                    evm = evm_write (CreateAccount contractAddr) evm;
                    evm = (if IsEIP158 (evm_chainConfig evm) (evm_BlockNumber evm)
                           then evm_write (SetNonce contractAddr 1) evm else evm);
                    evm = evm_write (Transfer (ref_Address caller) contractAddr val) evm;
                    (c, evm) = contract_for caller contractAddr val gas evm;
                    c = SetCallCode contractAddr (Keccak256Hash db code) code c
                in if evm_NoRecursion evm \<and> evm_depth evm > 0
                   then Some (evm, [], contractAddr, gas, None)
                   else do { (evm, c, ret, err) \<leftarrow> run evm c [];
                             create_finish snapshot contractAddr evm c ret err } })"

section \<open>The instructions\<close>

definition f_UseGas :: "uint64 \<Rightarrow> 't frame \<Rightarrow> 't frame" where
  "f_UseGas gas f = f\<lparr> f_contract := snd (UseGas gas (f_contract f)) \<rparr>"

definition f_return_gas :: "uint64 \<Rightarrow> 't frame \<Rightarrow> 't frame" where
  "f_return_gas gas f = f\<lparr> f_contract := (f_contract f)\<lparr> c_Gas := c_Gas (f_contract f) + gas \<rparr> \<rparr>"

definition opCreate :: "'t runner \<Rightarrow> 't executionFunc" where
  "opCreate run f =
     do { (val, f) \<leftarrow> f_pop f;
          (offset, f) \<leftarrow> f_pop f;
          (sz, f) \<leftarrow> f_pop f;
          input \<leftarrow> mem_Get (Int64 offset) (Int64 sz) (f_mem f);
          let gas = c_Gas (f_contract f);
          let evm = f_evm f;
          let gas = (if IsEIP150 (evm_chainConfig evm) (evm_BlockNumber evm) then gas - gas div 64 else gas);
          let f = f_UseGas gas f;
          (evm, res, addr, returnGas, suberr) \<leftarrow>
            EVM_Create run (CallerContract (f_contract f)) input gas val evm;
          let item =
            (if IsHomestead (evm_chainConfig evm) (evm_BlockNumber evm) \<and>
                suberr = Some ErrCodeStoreOutOfGas then 0
             else if suberr \<noteq> None \<and> suberr \<noteq> Some ErrCodeStoreOutOfGas then 0
             else Address_Big addr);
          let f = f_return_gas returnGas (f_push item (f\<lparr> f_evm := evm \<rparr>));
          Some (f, if suberr = Some errExecutionReverted then res else [], None) }"

text \<open>The end of the four call instructions: the flag is pushed, the returned bytes are copied to
  memory unless the call failed, and the unused gas comes back.\<close>

definition finish_call :: "int \<Rightarrow> int \<Rightarrow> 't call_result \<Rightarrow> 't frame \<Rightarrow> 't outcome" where
  "finish_call retOffset retSize r f =
     do { (evm, ret, returnGas, err) \<leftarrow> r;
          let f = f_push (if err \<noteq> None then 0 else 1) (f\<lparr> f_evm := evm \<rparr>);
          mem \<leftarrow> (if err = None \<or> err = Some errExecutionReverted
                  then mem_Set (Uint64 retOffset) (Uint64 retSize) ret (f_mem f)
                  else Some (f_mem f));
          Some (f_return_gas returnGas (f\<lparr> f_mem := mem \<rparr>), ret, None) }"

definition opCall :: "'t runner \<Rightarrow> 't executionFunc" where
  "opCall run f =
     do { (_, f) \<leftarrow> f_pop f;
          let gas = evm_callGasTemp (f_evm f);
          (addr, f) \<leftarrow> f_pop f;
          (val, f) \<leftarrow> f_pop f;
          (inOffset, f) \<leftarrow> f_pop f;
          (inSize, f) \<leftarrow> f_pop f;
          (retOffset, f) \<leftarrow> f_pop f;
          (retSize, f) \<leftarrow> f_pop f;
          let val = U256 val;
          args \<leftarrow> mem_Get (Int64 inOffset) (Int64 inSize) (f_mem f);
          let gas = (if val \<noteq> 0 then gas + CallStipend else gas);
          finish_call retOffset retSize
            (EVM_Call run (CallerContract (f_contract f)) (BigToAddress addr) args gas val (f_evm f)) f }"

definition opCallCode :: "'t runner \<Rightarrow> 't executionFunc" where
  "opCallCode run f =
     do { (_, f) \<leftarrow> f_pop f;
          let gas = evm_callGasTemp (f_evm f);
          (addr, f) \<leftarrow> f_pop f;
          (val, f) \<leftarrow> f_pop f;
          (inOffset, f) \<leftarrow> f_pop f;
          (inSize, f) \<leftarrow> f_pop f;
          (retOffset, f) \<leftarrow> f_pop f;
          (retSize, f) \<leftarrow> f_pop f;
          let val = U256 val;
          args \<leftarrow> mem_Get (Int64 inOffset) (Int64 inSize) (f_mem f);
          let gas = (if val \<noteq> 0 then gas + CallStipend else gas);
          finish_call retOffset retSize
            (EVM_CallCode run (CallerContract (f_contract f)) (BigToAddress addr) args gas val (f_evm f)) f }"

definition opDelegateCall :: "'t runner \<Rightarrow> 't executionFunc" where
  "opDelegateCall run f =
     do { (_, f) \<leftarrow> f_pop f;
          let gas = evm_callGasTemp (f_evm f);
          (addr, f) \<leftarrow> f_pop f;
          (inOffset, f) \<leftarrow> f_pop f;
          (inSize, f) \<leftarrow> f_pop f;
          (retOffset, f) \<leftarrow> f_pop f;
          (retSize, f) \<leftarrow> f_pop f;
          args \<leftarrow> mem_Get (Int64 inOffset) (Int64 inSize) (f_mem f);
          finish_call retOffset retSize
            (EVM_DelegateCall run (CallerContract (f_contract f)) (BigToAddress addr) args gas (f_evm f)) f }"

definition opStaticCall :: "'t runner \<Rightarrow> 't executionFunc" where
  "opStaticCall run f =
     do { (_, f) \<leftarrow> f_pop f;
          let gas = evm_callGasTemp (f_evm f);
          (addr, f) \<leftarrow> f_pop f;
          (inOffset, f) \<leftarrow> f_pop f;
          (inSize, f) \<leftarrow> f_pop f;
          (retOffset, f) \<leftarrow> f_pop f;
          (retSize, f) \<leftarrow> f_pop f;
          args \<leftarrow> mem_Get (Int64 inOffset) (Int64 inSize) (f_mem f);
          finish_call retOffset retSize
            (EVM_StaticCall run (CallerContract (f_contract f)) (BigToAddress addr) args gas (f_evm f)) f }"

end
