(* ===== verification/VM_Interpreter.thy ===== *)
theory VM_Interpreter
  imports VM_Gas VM_Calls
begin

text \<open>The instruction tables of \<open>core/vm/jump_table.go\<close>, the interpreter of
  \<open>core/vm/interpreter.go\<close> and the function \<open>run\<close> of \<open>core/vm/evm.go\<close> that closes the recursion
  between calls and the interpreter. The loop takes fuel, one unit for each instruction that is
  executed in the frame or in the calls it makes.\<close>

section \<open>Instruction tables (\<open>jump_table.go\<close>)\<close>

record 't operation =
  execute :: "'t executionFunc"
  gasCost :: "'t gasFunc"
  validateStack :: "Stack \<Rightarrow> vm_error option"
  memorySize :: "memorySizeFunc option"
  halts :: bool
  jumps :: bool
  writes :: bool
  valid :: bool
  reverts :: bool
  returns :: bool

text \<open>A composite literal with the fields that are not named left at their zero value.\<close>

definition op ::
    "'t executionFunc \<Rightarrow> 't gasFunc \<Rightarrow> (Stack \<Rightarrow> vm_error option) \<Rightarrow> memorySizeFunc option \<Rightarrow> 't operation" where
  "op ex gc vs ms =
     \<lparr> execute = ex, gasCost = gc, validateStack = vs, memorySize = ms, halts = False, jumps = False,
       writes = False, valid = True, reverts = False, returns = False \<rparr>"

definition halts_op :: "'t operation \<Rightarrow> 't operation" where "halts_op r = r\<lparr> halts := True \<rparr>"
definition jumps_op :: "'t operation \<Rightarrow> 't operation" where "jumps_op r = r\<lparr> jumps := True \<rparr>"
definition writes_op :: "'t operation \<Rightarrow> 't operation" where "writes_op r = r\<lparr> writes := True \<rparr>"
definition reverts_op :: "'t operation \<Rightarrow> 't operation" where "reverts_op r = r\<lparr> reverts := True \<rparr>"
definition returns_op :: "'t operation \<Rightarrow> 't operation" where "returns_op r = r\<lparr> returns := True \<rparr>"

text \<open>The zero value of an entry of the table.\<close>

definition invalid_op :: "'t operation" where
  "invalid_op = (op (\<lambda>f. None) (\<lambda>gt f n. None) (\<lambda>st. None) None)\<lparr> valid := False \<rparr>"

definition arithmetic_ops :: "(byte \<times> 't operation) list" where
  "arithmetic_ops =
     [(0x00, halts_op (op opStop (constGasFunc 0) (makeStackFunc 0 0) None)),
      (0x01, op opAdd (constGasFunc GasFastestStep) (makeStackFunc 2 1) None),
      (0x02, op opMul (constGasFunc GasFastStep) (makeStackFunc 2 1) None),
      (0x03, op opSub (constGasFunc GasFastestStep) (makeStackFunc 2 1) None),
      (0x04, op opDiv (constGasFunc GasFastStep) (makeStackFunc 2 1) None),
      (0x05, op opSdiv (constGasFunc GasFastStep) (makeStackFunc 2 1) None),
      (0x06, op opMod (constGasFunc GasFastStep) (makeStackFunc 2 1) None),
      (0x07, op opSmod (constGasFunc GasFastStep) (makeStackFunc 2 1) None),
      (0x08, op opAddmod (constGasFunc GasMidStep) (makeStackFunc 3 1) None),
      (0x09, op opMulmod (constGasFunc GasMidStep) (makeStackFunc 3 1) None),
      (0x0a, op opExp gasExp (makeStackFunc 2 1) None),
      (0x0b, op opSignExtend (constGasFunc GasFastStep) (makeStackFunc 2 1) None)]"

definition comparison_ops :: "(byte \<times> 't operation) list" where
  "comparison_ops =
     [(0x10, op opLt (constGasFunc GasFastestStep) (makeStackFunc 2 1) None),
      (0x11, op opGt (constGasFunc GasFastestStep) (makeStackFunc 2 1) None),
      (0x12, op opSlt (constGasFunc GasFastestStep) (makeStackFunc 2 1) None),
      (0x13, op opSgt (constGasFunc GasFastestStep) (makeStackFunc 2 1) None),
      (0x14, op opEq (constGasFunc GasFastestStep) (makeStackFunc 2 1) None),
      (0x15, op opIszero (constGasFunc GasFastestStep) (makeStackFunc 1 1) None),
      (0x16, op opAnd (constGasFunc GasFastestStep) (makeStackFunc 2 1) None),
      (0x18, op opXor (constGasFunc GasFastestStep) (makeStackFunc 2 1) None),
      (0x17, op opOr (constGasFunc GasFastestStep) (makeStackFunc 2 1) None),
      (0x19, op opNot (constGasFunc GasFastestStep) (makeStackFunc 1 1) None),
      (0x1a, op opByte (constGasFunc GasFastestStep) (makeStackFunc 2 1) None)]"

definition closure_ops :: "(byte \<times> 't operation) list" where
  "closure_ops =
     [(0x20, op opSha3 gasSha3 (makeStackFunc 2 1) (Some memorySha3)),
      (0x30, op opAddress (constGasFunc GasQuickStep) (makeStackFunc 0 1) None),
      (0x31, op opBalance gasBalance (makeStackFunc 1 1) None),
      (0x32, op opOrigin (constGasFunc GasQuickStep) (makeStackFunc 0 1) None),
      (0x33, op opCaller (constGasFunc GasQuickStep) (makeStackFunc 0 1) None),
      (0x34, op opCallValue (constGasFunc GasQuickStep) (makeStackFunc 0 1) None),
      (0x35, op opCallDataLoad (constGasFunc GasFastestStep) (makeStackFunc 1 1) None),
      (0x36, op opCallDataSize (constGasFunc GasQuickStep) (makeStackFunc 0 1) None),
      (0x37, op opCallDataCopy gasCallDataCopy (makeStackFunc 3 0) (Some memoryCallDataCopy)),
      (0x38, op opCodeSize (constGasFunc GasQuickStep) (makeStackFunc 0 1) None),
      (0x39, op opCodeCopy gasCodeCopy (makeStackFunc 3 0) (Some memoryCodeCopy)),
      (0x3a, op opGasprice (constGasFunc GasQuickStep) (makeStackFunc 0 1) None),
      (0x3b, op opExtCodeSize gasExtCodeSize (makeStackFunc 1 1) None),
      (0x3c, op opExtCodeCopy gasExtCodeCopy (makeStackFunc 4 0) (Some memoryExtCodeCopy))]"

definition block_ops :: "(byte \<times> 't operation) list" where
  "block_ops =
     [(0x40, op opBlockhash (constGasFunc GasExtStep) (makeStackFunc 1 1) None),
      (0x41, op opCoinbase (constGasFunc GasQuickStep) (makeStackFunc 0 1) None),
      (0x42, op opTimestamp (constGasFunc GasQuickStep) (makeStackFunc 0 1) None),
      (0x43, op opNumber (constGasFunc GasQuickStep) (makeStackFunc 0 1) None),
      (0x44, op opDifficulty (constGasFunc GasQuickStep) (makeStackFunc 0 1) None),
      (0x45, op opGasLimit (constGasFunc GasQuickStep) (makeStackFunc 0 1) None)]"

definition storage_ops :: "(byte \<times> 't operation) list" where
  "storage_ops =
     [(0x50, op opPop (constGasFunc GasQuickStep) (makeStackFunc 1 0) None),
      (0x51, op opMload gasMLoad (makeStackFunc 1 1) (Some memoryMLoad)),
      (0x52, op opMstore gasMStore (makeStackFunc 2 0) (Some memoryMStore)),
      (0x53, op opMstore8 gasMStore8 (makeStackFunc 2 0) (Some memoryMStore8)),
      (0x54, op opSload gasSLoad (makeStackFunc 1 1) None),
      (0x55, writes_op (op opSstore gasSStore (makeStackFunc 2 0) None)),
      (0x56, jumps_op (op opJump (constGasFunc GasMidStep) (makeStackFunc 1 0) None)),
      (0x57, jumps_op (op opJumpi (constGasFunc GasSlowStep) (makeStackFunc 2 0) None)),
      (0x58, op opPc (constGasFunc GasQuickStep) (makeStackFunc 0 1) None),
      (0x59, op opMsize (constGasFunc GasQuickStep) (makeStackFunc 0 1) None),
      (0x5a, op opGas (constGasFunc GasQuickStep) (makeStackFunc 0 1) None),
      (0x5b, op opJumpdest (constGasFunc JumpdestGas) (makeStackFunc 0 0) None)]"

definition system_ops :: "'t runner \<Rightarrow> (byte \<times> 't operation) list" where
  "system_ops run =
     [(0xf0, returns_op (writes_op (op (opCreate run) gasCreate (makeStackFunc 3 1) (Some memoryCreate)))),
      (0xf1, returns_op (op (opCall run) gasCall (makeStackFunc 7 1) (Some memoryCall))),
      (0xf2, returns_op (op (opCallCode run) gasCallCode (makeStackFunc 7 1) (Some memoryCall))),
      (0xf3, halts_op (op opReturn gasReturn (makeStackFunc 2 0) (Some memoryReturn))),
      (0xff, writes_op (halts_op (op opSuicide gasSuicide (makeStackFunc 1 0) None)))]"

definition push_ops :: "(byte \<times> 't operation) list" where
  "push_ops = map (\<lambda>i. (0x60 + of_nat i, op (makePush (of_nat (i + 1)) (i + 1)) gasPush (makeStackFunc 0 1) None)) [0..<32]"

definition dup_ops :: "(byte \<times> 't operation) list" where
  "dup_ops = map (\<lambda>i. (0x80 + of_nat i, op (makeDup (i + 1)) gasDup (makeDupStackFunc (i + 1)) None)) [0..<16]"

definition swap_ops :: "(byte \<times> 't operation) list" where
  "swap_ops = map (\<lambda>i. (0x90 + of_nat i, op (makeSwap (i + 1)) gasSwap (makeSwapStackFunc (i + 2)) None)) [0..<16]"

definition log_ops :: "(byte \<times> 't operation) list" where
  "log_ops = map (\<lambda>i. (0xa0 + of_nat i,
     writes_op (op (makeLog i) (makeGasLog (of_nat i)) (makeStackFunc (i + 2) 0) (Some memoryLog)))) [0..<5]"

definition newFrontierInstructionSet :: "'t runner \<Rightarrow> (byte \<times> 't operation) list" where
  "newFrontierInstructionSet run =
     arithmetic_ops @ comparison_ops @ closure_ops @ block_ops @ storage_ops @ push_ops @ dup_ops @
     swap_ops @ log_ops @ system_ops run"

definition newHomesteadInstructionSet :: "'t runner \<Rightarrow> (byte \<times> 't operation) list" where
  "newHomesteadInstructionSet run =
     (0xf4, returns_op (op (opDelegateCall run) gasDelegateCall (makeStackFunc 6 1) (Some memoryDelegateCall)))
     # newFrontierInstructionSet run"

definition newByzantiumInstructionSet :: "'t runner \<Rightarrow> (byte \<times> 't operation) list" where
  "newByzantiumInstructionSet run =
     [(0xfa, returns_op (op (opStaticCall run) gasStaticCall (makeStackFunc 6 1) (Some memoryStaticCall))),
      (0x3d, op opReturnDataSize (constGasFunc GasQuickStep) (makeStackFunc 0 1) None),
      (0x3e, op opReturnDataCopy gasReturnDataCopy (makeStackFunc 3 0) (Some memoryReturnDataCopy)),
      (0xfd, returns_op (reverts_op (op opRevert gasRevert (makeStackFunc 2 0) (Some memoryRevert))))]
     @ newHomesteadInstructionSet run"

definition newConstantinopleInstructionSet :: "'t runner \<Rightarrow> (byte \<times> 't operation) list" where
  "newConstantinopleInstructionSet run =
     [(0x1b, op opSHL (constGasFunc GasFastestStep) (makeStackFunc 2 1) None),
      (0x1c, op opSHR (constGasFunc GasFastestStep) (makeStackFunc 2 1) None),
      (0x1d, op opSAR (constGasFunc GasFastestStep) (makeStackFunc 2 1) None)]
     @ newByzantiumInstructionSet run"

section \<open>Interpreter (\<open>interpreter.go\<close>)\<close>

text \<open>\<open>NewInterpreter\<close> chooses the table by the block number.\<close>

definition JumpTable :: "'t runner \<Rightarrow> ChainConfig \<Rightarrow> int \<Rightarrow> byte \<Rightarrow> 't operation" where
  "JumpTable run cfg n b =
     (case map_of (if IsConstantinople cfg n then newConstantinopleInstructionSet run
                   else if IsByzantium cfg n then newByzantiumInstructionSet run
                   else if IsHomestead cfg n then newHomesteadInstructionSet run
                   else newFrontierInstructionSet run) b of
        None \<Rightarrow> invalid_op | Some r \<Rightarrow> r)"

definition enforceRestrictions :: "byte \<Rightarrow> 't operation \<Rightarrow> 't frame \<Rightarrow> vm_error option option" where
  "enforceRestrictions b r f =
     (let evm = f_evm f
      in if IsByzantium (evm_chainConfig evm) (evm_BlockNumber evm) \<and> evm_readOnly evm then
           if writes r then Some (Some errWriteProtection)
           else if b = 0xf1
           then do { v \<leftarrow> stack_Back (f_stack f) 2;
                     Some (if BitLen v > 0 then Some errWriteProtection else None) }
           else Some None
         else Some None)"

text \<open>The size the memory must have for an operation, rounded up to words.\<close>

definition required_memory :: "'t operation \<Rightarrow> 't frame \<Rightarrow> gas_result option" where
  "required_memory r f =
     (case memorySize r of
        None \<Rightarrow> Some (Inr 0)
      | Some ms \<Rightarrow>
          do { v \<leftarrow> ms (f_stack f);
               let (memSize, overflow) = bigUint64 v;
               Some (if overflow then Inl errGasUintOverflow
                     else case SafeMul (toWordSize memSize) 32 of
                            (n, overflow) \<Rightarrow> if overflow then Inl errGasUintOverflow else Inr n) })"

text \<open>One turn of the loop either goes on with a frame or stops with a result.\<close>

datatype 't turn = Next "'t frame" | Stop "'t frame" bytes "vm_error option"

definition execute_op :: "'t operation \<Rightarrow> 't frame \<Rightarrow> 't turn option" where
  "execute_op r f =
     do { (f, res, err) \<leftarrow> execute r f;
          let f = (if returns r then f\<lparr> f_evm := (f_evm f)\<lparr> evm_returnData := res \<rparr> \<rparr> else f);
          Some (if err \<noteq> None then Stop f [] err
                else if reverts r then Stop f res (Some errExecutionReverted)
                else if halts r then Stop f res None
                else if \<not> jumps r then Next (f\<lparr> f_pc := f_pc f + 1 \<rparr>)
                else Next f) }"

definition charge_op :: "'t operation \<Rightarrow> 't frame \<Rightarrow> uint64 \<Rightarrow> ('t frame \<times> bool) option" where
  "charge_op r f n =
     do { (f, cost) \<leftarrow> gasCost r (evm_gasTable (f_evm f)) f n;
          Some (case cost of
                  Inl _ \<Rightarrow> (f, False)
                | Inr g \<Rightarrow> (let (ok, c) = UseGas g (f_contract f) in (f\<lparr> f_contract := c \<rparr>, ok))) }"

definition interpret_op :: "byte \<Rightarrow> 't operation \<Rightarrow> 't frame \<Rightarrow> 't turn option" where
  "interpret_op b r f =
     (if \<not> valid r then Some (Stop f [] (Some (errInvalidOpcode b)))
      else case validateStack r (f_stack f) of Some e \<Rightarrow> Some (Stop f [] (Some e))
      | None \<Rightarrow>
      do { restricted \<leftarrow> enforceRestrictions b r f;
           case restricted of Some e \<Rightarrow> Some (Stop f [] (Some e))
           | None \<Rightarrow>
           do { req \<leftarrow> required_memory r f;
                case req of Inl e \<Rightarrow> Some (Stop f [] (Some e))
                | Inr n \<Rightarrow>
                do { (f, paid) \<leftarrow> charge_op r f n;
                     if \<not> paid then Some (Stop f [] (Some ErrOutOfGas))
                     else execute_op r (if n > 0 then f\<lparr> f_mem := mem_Resize n (f_mem f) \<rparr> else f) } } })"

definition interpret_turn :: "'t runner \<Rightarrow> 't frame \<Rightarrow> 't turn option" where
  "interpret_turn run f =
     (let evm = f_evm f;
          f = f\<lparr> f_evm := evm\<lparr> evm_ticks := evm_ticks evm + 1 \<rparr> \<rparr>
      in if evm_abort evm (evm_ticks evm) then Some (Stop f [] None)
         else let b = GetOp (f_pc f) (f_contract f)
              in interpret_op b (JumpTable run (evm_chainConfig evm) (evm_BlockNumber evm) b) f)"

text \<open>\<open>Run\<close>: what happens before and after the loop.\<close>

definition Interpreter_Run ::
    "('t frame \<Rightarrow> ('t frame \<times> bytes \<times> vm_error option) option) \<Rightarrow> 't runner" where
  "Interpreter_Run loop evm c input =
     (let evm = evm\<lparr> evm_depth := evm_depth evm + 1, evm_returnData := [] \<rparr>
      in if c_Code c = [] then Some (evm\<lparr> evm_depth := evm_depth evm - 1 \<rparr>, c, [], None)
         else do { (f, ret, err) \<leftarrow>
                     loop \<lparr> f_pc = 0, f_evm = evm, f_contract = c\<lparr> c_Input := input \<rparr>,
                            f_mem = NewMemory, f_stack = [] \<rparr>;
                   Some ((f_evm f)\<lparr> evm_depth := evm_depth (f_evm f) - 1 \<rparr>, f_contract f, ret, err) })"

text \<open>\<open>run\<close> of \<open>evm.go\<close>: precompiled contracts first, then the interpreter.\<close>

definition run_contract ::
    "('t frame \<Rightarrow> ('t frame \<times> bytes \<times> vm_error option) option) \<Rightarrow> 't runner" where
  "run_contract loop evm c input =
     (case (case c_CodeAddr c of None \<Rightarrow> None | Some a \<Rightarrow> precompiles evm a) of
        Some p \<Rightarrow>
          do { (c, ret, err) \<leftarrow>
                 RunPrecompiledContract (sdb_db (evm_StateDB evm)) (evm_crypto evm) p input c;
               Some (evm, c, ret, err) }
      | None \<Rightarrow> Interpreter_Run loop evm c input)"

primrec interpret_loop :: "nat \<Rightarrow> 't frame \<Rightarrow> ('t frame \<times> bytes \<times> vm_error option) option" where
  "interpret_loop 0 f = None"
| "interpret_loop (Suc fuel) f =
     do { t \<leftarrow> interpret_turn (run_contract (interpret_loop fuel)) f;
          case t of Stop f ret err \<Rightarrow> Some (f, ret, err) | Next f \<Rightarrow> interpret_loop fuel f }"

definition run :: "nat \<Rightarrow> 't runner" where
  "run fuel = run_contract (interpret_loop fuel)"

end
