(* ===== verification/StateTransition.thy ===== *)
theory StateTransition
  imports VM_Interpreter
begin

text \<open>Transactions: \<open>core/gaspool.go\<close> and \<open>core/state_transition.go\<close>. A transition buys gas from
  the block's gas pool, pays the intrinsic gas, runs the call or the creation in the virtual
  machine, refunds what is left and pays the fee to the coinbase. The state database of the
  transition is the one of its machine.\<close>

section \<open>Gas pool (\<open>gaspool.go\<close>)\<close>

datatype tx_error =
    ErrGasLimitReached | ErrNonceTooHigh | ErrNonceTooLow | errInsufficientBalanceForGas
  | vm_tx_error vm_error

type_synonym GasPool = uint64

definition AddGas :: "uint64 \<Rightarrow> GasPool \<Rightarrow> GasPool option" where
  "AddGas amount gp = (if gp > MaxUint64 - amount then None else Some (gp + amount))"

definition SubGas :: "uint64 \<Rightarrow> GasPool \<Rightarrow> tx_error + GasPool" where
  "SubGas amount gp = (if gp < amount then Inl ErrGasLimitReached else Inr (gp - amount))"

section \<open>State transitions (\<open>state_transition.go\<close>)\<close>

record Message =
  msg_From :: address
  msg_To :: "address option"
  msg_GasPrice :: int
  msg_Gas :: uint64
  msg_Value :: int
  msg_Nonce :: uint64
  msg_CheckNonce :: bool
  msg_Data :: bytes

record 't StateTransition =
  st_gp :: GasPool
  st_msg :: Message
  st_gas :: uint64
  st_initialGas :: uint64
  st_evm :: "'t EVM"

text \<open>The loop counting non-zero bytes.\<close>

definition count_nonzero :: "bytes \<Rightarrow> uint64" where
  "count_nonzero data = foldl (\<lambda>nz byt. if byt \<noteq> 0 then nz + 1 else nz) 0 data"

definition IntrinsicGas :: "bytes \<Rightarrow> bool \<Rightarrow> bool \<Rightarrow> tx_error + uint64" where
  "IntrinsicGas data contractCreation homestead =
     (let gas = (if contractCreation \<and> homestead then TxGasContractCreation else TxGas)
      in if length data > 0 then
           let nz = count_nonzero data
           in if (MaxUint64 - gas) div TxDataNonZeroGas < nz then Inl (vm_tx_error ErrOutOfGas)
              else let gas = gas + nz * TxDataNonZeroGas;
                       z = of_nat (length data) - nz
                   in if (MaxUint64 - gas) div TxDataZeroGas < z then Inl (vm_tx_error ErrOutOfGas)
                      else Inr (gas + z * TxDataZeroGas)
         else Inr gas)"

definition NewStateTransition :: "'t EVM \<Rightarrow> Message \<Rightarrow> GasPool \<Rightarrow> 't StateTransition" where
  "NewStateTransition evm msg gp =
     \<lparr> st_gp = gp, st_msg = msg, st_gas = 0, st_initialGas = 0, st_evm = evm \<rparr>"

definition st_to :: "'t StateTransition \<Rightarrow> address" where
  "st_to st = (case msg_To (st_msg st) of None \<Rightarrow> 0 | Some a \<Rightarrow> a)"

definition useGas :: "uint64 \<Rightarrow> 't StateTransition \<Rightarrow> tx_error + 't StateTransition" where
  "useGas amount st =
     (if st_gas st < amount then Inl (vm_tx_error ErrOutOfGas) else Inr (st\<lparr> st_gas := st_gas st - amount \<rparr>))"

text \<open>Before a transition is accepted, an error leaves a state database that has only been read.\<close>

definition buyGas :: "'t StateTransition \<Rightarrow> tx_error option \<times> 't StateTransition" where
  "buyGas st =
     (let msg = st_msg st;
          mgval = uint (msg_Gas msg) * msg_GasPrice msg;
          (balance, evm) = evm_read (GetBalance (msg_From msg)) (st_evm st);
          st = st\<lparr> st_evm := evm \<rparr>
      in if balance < mgval then (Some errInsufficientBalanceForGas, st)
         else case SubGas (msg_Gas msg) (st_gp st) of
                Inl e \<Rightarrow> (Some e, st)
              | Inr gp \<Rightarrow>
                  (None, st\<lparr> st_gp := gp, st_gas := st_gas st + msg_Gas msg,
                             st_initialGas := msg_Gas msg,
                             st_evm := evm_write (SubBalance (msg_From msg) mgval) evm \<rparr>))"

definition preCheck :: "'t StateTransition \<Rightarrow> tx_error option \<times> 't StateTransition" where
  "preCheck st =
     (let msg = st_msg st
      in if msg_CheckNonce msg then
           let (nonce, evm) = evm_read (GetNonce (msg_From msg)) (st_evm st);
               st = st\<lparr> st_evm := evm \<rparr>
           in if nonce < msg_Nonce msg then (Some ErrNonceTooHigh, st)
              else if nonce > msg_Nonce msg then (Some ErrNonceTooLow, st)
              else buyGas st
         else buyGas st)"

definition gasUsed :: "'t StateTransition \<Rightarrow> uint64" where
  "gasUsed st = st_initialGas st - st_gas st"

definition refundGas :: "'t StateTransition \<Rightarrow> 't StateTransition option" where
  "refundGas st =
     (let available = GetRefund (evm_StateDB (st_evm st));
          refund = gasUsed st div 2;
          refund = (if refund > available then available else refund);
          st = st\<lparr> st_gas := st_gas st + refund \<rparr>;
          remaining = uint (st_gas st) * msg_GasPrice (st_msg st);
          evm = evm_write (AddBalance (msg_From (st_msg st)) remaining) (st_evm st)
      in do { gp \<leftarrow> AddGas (st_gas st) (st_gp st);
              Some (st\<lparr> st_evm := evm, st_gp := gp \<rparr>) })"

text \<open>Running the message: a creation or a call, after the nonce of the sender is incremented.\<close>

definition execute_msg ::
    "nat \<Rightarrow> 't StateTransition \<Rightarrow> ('t StateTransition \<times> bytes \<times> vm_error option) option" where
  "execute_msg fuel st =
     (let msg = st_msg st; evm = st_evm st; sender = AccountRef (msg_From msg)
      in case msg_To msg of
           None \<Rightarrow>
             do { (evm, ret, _, gas, vmerr) \<leftarrow>
                    EVM_Create (run fuel) sender (msg_Data msg) (st_gas st) (msg_Value msg) evm;
                  Some (st\<lparr> st_evm := evm, st_gas := gas \<rparr>, ret, vmerr) }
         | Some _ \<Rightarrow>
             let (nonce, evm) = evm_read (GetNonce (msg_From msg)) evm;
                 evm = evm_write (SetNonce (msg_From msg) (nonce + 1)) evm
             in do { (evm, ret, gas, vmerr) \<leftarrow>
                       EVM_Call (run fuel) sender (st_to st) (msg_Data msg) (st_gas st) (msg_Value msg) evm;
                     Some (st\<lparr> st_evm := evm, st_gas := gas \<rparr>, ret, vmerr) })"

text \<open>\<open>Inl err\<close> stands for the results \<open>nil, 0, false, err\<close>: with an error the source returns no data, the
  gas used as \<open>0\<close> and no failure flag, and the gas that \<open>buyGas\<close> has taken from the pool is not given
  back.\<close>

definition TransitionDb ::
    "nat \<Rightarrow> 't StateTransition \<Rightarrow>
     ('t StateTransition \<times> (tx_error + bytes \<times> uint64 \<times> bool)) option" where
  "TransitionDb fuel st =
     (case preCheck st of
        (Some e, st) \<Rightarrow> Some (st, Inl e)
      | (None, st) \<Rightarrow>
          let msg = st_msg st;
              homestead = IsHomestead (evm_chainConfig (st_evm st)) (evm_BlockNumber (st_evm st))
          in case IntrinsicGas (msg_Data msg) (msg_To msg = None) homestead of
               Inl e \<Rightarrow> Some (st, Inl e)
             | Inr gas \<Rightarrow>
                 (case useGas gas st of
                    Inl e \<Rightarrow> Some (st, Inl e)
                  | Inr st \<Rightarrow>
                      do { (st, ret, vmerr) \<leftarrow> execute_msg fuel st;
                           if vmerr = Some ErrInsufficientBalance
                           then Some (st, Inl (vm_tx_error ErrInsufficientBalance))
                           else do { st \<leftarrow> refundGas st;
                                     let fee = uint (gasUsed st) * msg_GasPrice msg;
                                     let evm = evm_write (AddBalance (ctx_Coinbase (evm_ctx (st_evm st))) fee)
                                                 (st_evm st);
                                     Some (st\<lparr> st_evm := evm \<rparr>, Inr (ret, gasUsed st, vmerr \<noteq> None)) } }))"

definition ApplyMessage ::
    "nat \<Rightarrow> 't EVM \<Rightarrow> Message \<Rightarrow> GasPool \<Rightarrow>
     ('t StateTransition \<times> (tx_error + bytes \<times> uint64 \<times> bool)) option" where
  "ApplyMessage fuel evm msg gp = TransitionDb fuel (NewStateTransition evm msg gp)"

end
