(* ===== verification/StateDB_Revert.thy ===== *)
theory StateDB_Revert
  imports StateDB
begin

text \<open>What the operations of a \<open>StateDB\<close> mean. The abstract view of a state is what its getters
  return: for every address the account, if there is one, with its nonce, balance, code and storage,
  and the refund counter, the logs and the preimages. Every operation has an effect on that view
  (the refinement lemmas), reading leaves it alone, and undoing the journal entries of an operation
  undoes its effect.\<close>

section \<open>The abstract view\<close>

record account_view =
  av_nonce :: uint64
  av_balance :: int
  av_codehash :: bytes
  av_code :: "bytes option"
  av_storage :: "hash \<Rightarrow> hash"
  av_suicided :: bool

record state_view =
  v_accounts :: "address \<Rightarrow> account_view option"
  v_refund :: uint64
  v_logs :: "hash \<Rightarrow> Log list"
  v_logSize :: uint64
  v_preimages :: "hash \<rightharpoonup> bytes"

definition view_object :: "'t Database \<Rightarrow> 't stateObject \<Rightarrow> account_view" where
  "view_object db obj =
     \<lparr> av_nonce = acc_Nonce (so_data obj), av_balance = acc_Balance (so_data obj),
       av_codehash = acc_CodeHash (so_data obj), av_code = fst (so_Code db obj),
       av_storage = (\<lambda>k. fst (so_GetState db k obj)), av_suicided = so_suicided obj \<rparr>"

text \<open>The object of an address, as \<open>getStateObject\<close> finds it: the cached one, or the one decoded
  from the account trie.\<close>

definition trie_object :: "'t Database \<Rightarrow> 't \<Rightarrow> address \<Rightarrow> 't stateObject option" where
  "trie_object db tr a =
     (let enc = fst (TryGet db tr (Address_Bytes a))
      in if length enc = 0 then None
         else case DecodeAccount enc of None \<Rightarrow> None
              | Some (nonce, balance, root, codeHash) \<Rightarrow>
                  Some (newObject db a nonce (Some balance) root (Some codeHash)))"

definition lookup :: "'t StateDB \<Rightarrow> address \<Rightarrow> 't stateObject option" where
  "lookup s a =
     (case sdb_objects s a of
        Some obj \<Rightarrow> if so_deleted obj then None else Some obj
      | None \<Rightarrow> trie_object (sdb_db s) (sdb_trie s) a)"

definition abs_state :: "'t StateDB \<Rightarrow> state_view" where
  "abs_state s =
     \<lparr> v_accounts = (\<lambda>a. map_option (view_object (sdb_db s)) (lookup s a)),
       v_refund = sdb_refund s, v_logs = (\<lambda>h. GetLogs h s), v_logSize = sdb_logSize s,
       v_preimages = sdb_preimages s \<rparr>"

section \<open>Objects\<close>

lemma newObject_simps [simp]:
  "so_address (newObject db a n b r c) = a" "\<not> so_deleted (newObject db a n b r c)"
  "acc_Nonce (so_data (newObject db a n b r c)) = n"
  "so_suicided (newObject db a n b r c) = False"
  by (simp_all add: newObject_def)

lemma so_setError_simps [simp]:
  "so_address (so_setError e obj) = so_address obj" "so_data (so_setError e obj) = so_data obj"
  "so_addrHash (so_setError e obj) = so_addrHash obj"
  "so_trie (so_setError e obj) = so_trie obj" "so_code (so_setError e obj) = so_code obj"
  "so_cachedStorage (so_setError e obj) = so_cachedStorage obj"
  "so_suicided (so_setError e obj) = so_suicided obj" "so_deleted (so_setError e obj) = so_deleted obj"
  by (simp_all add: so_setError_def)

text \<open>What an object reads, as functions of the fields the results depend on.\<close>

definition or_else :: "'a option \<Rightarrow> 'a \<Rightarrow> 'a" where
  "or_else x y = (case x of Some v \<Rightarrow> v | None \<Rightarrow> y)"

definition storage_trie :: "'t Database \<Rightarrow> hash \<Rightarrow> hash \<Rightarrow> 't" where
  "storage_trie db ah root =
     (case OpenStorageTrie db ah root of (t, None) \<Rightarrow> t | (_, Some _) \<Rightarrow> fst (OpenStorageTrie db ah 0))"

definition stored_slot :: "'t Database \<Rightarrow> 't \<Rightarrow> hash \<Rightarrow> hash" where
  "stored_slot db tr k =
     (case TryGet db tr (Hash_Bytes k) of (enc, Some err) \<Rightarrow> 0 | (enc, None) \<Rightarrow> fst (storage_value enc))"

definition stored_code :: "'t Database \<Rightarrow> hash \<Rightarrow> bytes \<Rightarrow> bytes option" where
  "stored_code db ah ch = (if ch = emptyCodeHash db then None else fst (ContractCode db ah (BytesToHash ch)))"

definition code_or :: "bytes option \<Rightarrow> bytes option \<Rightarrow> bytes option" where
  "code_or x y = (case x of Some c \<Rightarrow> Some c | None \<Rightarrow> y)"

lemma or_else_simps [simp]: "or_else (Some v) y = v" "or_else None y = y"
  by (simp_all add: or_else_def)

lemma code_or_simps [simp]: "code_or (Some v) y = Some v" "code_or None y = y" "code_or (code_or x y) y = code_or x y"
  by (simp_all add: code_or_def split: option.split)

lemma fst_so_getTrie: "fst (so_getTrie db obj) = or_else (so_trie obj) (storage_trie db (so_addrHash obj) (acc_Root (so_data obj)))"
  by (simp add: so_getTrie_def Let_def or_else_def storage_trie_def split: option.split prod.split)

lemma snd_so_getTrie [simp]:
  "so_address (snd (so_getTrie db obj)) = so_address obj" "so_data (snd (so_getTrie db obj)) = so_data obj"
  "so_addrHash (snd (so_getTrie db obj)) = so_addrHash obj"
  "so_trie (snd (so_getTrie db obj)) = Some (fst (so_getTrie db obj))"
  "so_code (snd (so_getTrie db obj)) = so_code obj"
  "so_cachedStorage (snd (so_getTrie db obj)) = so_cachedStorage obj"
  "so_suicided (snd (so_getTrie db obj)) = so_suicided obj" "so_deleted (snd (so_getTrie db obj)) = so_deleted obj"
  by (simp_all add: so_getTrie_def Let_def split: option.split prod.split)

lemma fst_so_GetState:
  "fst (so_GetState db k obj) = or_else (so_cachedStorage obj k) (stored_slot db (fst (so_getTrie db obj)) k)"
  by (simp add: so_GetState_def Let_def or_else_def stored_slot_def case_prod_beta split: option.split)

lemma snd_so_GetState [simp]:
  "so_address (snd (so_GetState db k obj)) = so_address obj" "so_data (snd (so_GetState db k obj)) = so_data obj"
  "so_addrHash (snd (so_GetState db k obj)) = so_addrHash obj"
  "so_code (snd (so_GetState db k obj)) = so_code obj"
  "so_suicided (snd (so_GetState db k obj)) = so_suicided obj" "so_deleted (snd (so_GetState db k obj)) = so_deleted obj"
  by (simp_all add: so_GetState_def Let_def case_prod_beta split: option.split)

lemma so_GetState_trie [simp]: "fst (so_getTrie db (snd (so_GetState db k obj))) = fst (so_getTrie db obj)"
  by (cases "so_cachedStorage obj k")
    (simp_all add: so_GetState_def Let_def case_prod_beta fst_so_getTrie split: option.split)

lemma so_GetState_storage [simp]:
  "fst (so_GetState db k' (snd (so_GetState db k obj))) = fst (so_GetState db k' obj)"
proof -
  have "so_cachedStorage (snd (so_GetState db k obj)) k' = so_cachedStorage obj k' \<or>
        so_cachedStorage obj k' = None \<and>
        so_cachedStorage (snd (so_GetState db k obj)) k' = Some (stored_slot db (fst (so_getTrie db obj)) k')"
    by (simp add: so_GetState_def Let_def stored_slot_def case_prod_beta split: option.split)
  then show ?thesis
    unfolding fst_so_GetState so_GetState_trie by auto
qed

lemma fst_so_Code: "fst (so_Code db obj) = code_or (so_code obj) (stored_code db (so_addrHash obj) (acc_CodeHash (so_data obj)))"
  by (simp add: so_Code_def Let_def code_or_def stored_code_def case_prod_beta split: option.split)

lemma snd_so_Code [simp]:
  "so_address (snd (so_Code db obj)) = so_address obj" "so_data (snd (so_Code db obj)) = so_data obj"
  "so_addrHash (snd (so_Code db obj)) = so_addrHash obj"
  "so_cachedStorage (snd (so_Code db obj)) = so_cachedStorage obj" "so_trie (snd (so_Code db obj)) = so_trie obj"
  "so_suicided (snd (so_Code db obj)) = so_suicided obj" "so_deleted (snd (so_Code db obj)) = so_deleted obj"
  "so_code (snd (so_Code db obj)) = fst (so_Code db obj)"
  by (simp_all add: so_Code_def Let_def case_prod_beta split: option.split)

lemma view_so_GetState [simp]: "view_object db (snd (so_GetState db k obj)) = view_object db obj"
  by (simp add: view_object_def fst_so_Code)

lemma view_so_Code [simp]: "view_object db (snd (so_Code db obj)) = view_object db obj"
  by (simp add: view_object_def fst_so_Code fst_so_GetState fst_so_getTrie)

text \<open>How the setters of an object change its view.\<close>

lemma so_set_simps [simp]:
  "so_address (so_setBalance x obj) = so_address obj" "so_deleted (so_setBalance x obj) = so_deleted obj"
  "so_address (so_setNonce n obj) = so_address obj" "so_deleted (so_setNonce n obj) = so_deleted obj"
  "so_address (so_setState k v obj) = so_address obj" "so_deleted (so_setState k v obj) = so_deleted obj"
  "so_address (so_setCode h c obj) = so_address obj" "so_deleted (so_setCode h c obj) = so_deleted obj"
  "so_address (so_markSuicided obj) = so_address obj" "so_deleted (so_markSuicided obj) = so_deleted obj"
  by (simp_all add: so_setBalance_def so_setNonce_def so_setState_def so_setCode_def so_markSuicided_def)

lemmas view_unfold = view_object_def fst_so_Code fst_so_GetState fst_so_getTrie

lemma view_so_setBalance [simp]: "view_object db (so_setBalance x obj) = (view_object db obj)\<lparr> av_balance := x \<rparr>"
  by (simp add: view_unfold so_setBalance_def)

lemma view_so_setNonce [simp]: "view_object db (so_setNonce n obj) = (view_object db obj)\<lparr> av_nonce := n \<rparr>"
  by (simp add: view_unfold so_setNonce_def)

lemma view_so_suicided [simp]: "view_object db (obj\<lparr> so_suicided := b \<rparr>) = (view_object db obj)\<lparr> av_suicided := b \<rparr>"
  by (simp add: view_unfold)

lemma view_so_markSuicided [simp]: "view_object db (so_markSuicided obj) = (view_object db obj)\<lparr> av_suicided := True \<rparr>"
  by (simp add: so_markSuicided_def)

lemma view_so_setState [simp]:
  "view_object db (so_setState k v obj) =
     (view_object db obj)\<lparr> av_storage := (av_storage (view_object db obj))(k := v) \<rparr>"
  by (auto simp: view_unfold so_setState_def fun_eq_iff)

lemma view_so_setCode [simp]:
  "view_object db (so_setCode h code obj) =
     (view_object db obj)\<lparr> av_codehash := Hash_Bytes h,
        av_code := code_or code (stored_code db (so_addrHash obj) (Hash_Bytes h)) \<rparr>"
  by (simp add: view_unfold so_setCode_def)

section \<open>Well-formed states\<close>

text \<open>Objects are filed under their own address, code hashes have 32 bytes, and a deleted object is
  gone from the account trie as well. The last two clauses say that the trie and the hash function
  produce code hashes of 32 bytes.\<close>

definition ok_object :: "'t Database \<Rightarrow> 't \<Rightarrow> address \<Rightarrow> 't stateObject \<Rightarrow> bool" where
  "ok_object db tr a obj \<longleftrightarrow>
     so_address obj = a \<and> so_addrHash obj = Keccak256Hash db (Address_Bytes a) \<and>
     length (acc_CodeHash (so_data obj)) = 32 \<and> (so_deleted obj \<longrightarrow> trie_object db tr a = None)"

definition wf_state :: "'t StateDB \<Rightarrow> bool" where
  "wf_state s \<longleftrightarrow>
     (\<forall>a obj. sdb_objects s a = Some obj \<longrightarrow> ok_object (sdb_db s) (sdb_trie s) a obj) \<and>
     (\<forall>a obj. trie_object (sdb_db s) (sdb_trie s) a = Some obj \<longrightarrow> length (acc_CodeHash (so_data obj)) = 32) \<and>
     length (emptyCodeHash (sdb_db s)) = 32"

lemma trie_object_ok:
  "trie_object db tr a = Some obj \<Longrightarrow>
   so_address obj = a \<and> so_addrHash obj = Keccak256Hash db (Address_Bytes a) \<and> \<not> so_deleted obj"
  by (auto simp: trie_object_def Let_def newObject_def split: if_splits option.splits)

lemma lookup_ok:
  "wf_state s \<Longrightarrow> lookup s a = Some obj \<Longrightarrow> ok_object (sdb_db s) (sdb_trie s) a obj \<and> \<not> so_deleted obj"
  using trie_object_ok[of "sdb_db s" "sdb_trie s" a obj]
  by (auto simp: lookup_def wf_state_def ok_object_def split: option.splits if_splits)

lemma ok_object_set [simp]:
  "ok_object db tr a (so_setBalance x obj) = ok_object db tr a obj"
  "ok_object db tr a (so_setNonce n obj) = ok_object db tr a obj"
  "ok_object db tr a (so_setState k v obj) = ok_object db tr a obj"
  "ok_object db tr a (obj\<lparr> so_suicided := b \<rparr>) = ok_object db tr a obj"
  "ok_object db tr a (so_markSuicided obj) = ok_object db tr a obj"
  "ok_object db tr a (snd (so_GetState db' k obj)) = ok_object db tr a obj"
  "ok_object db tr a (snd (so_Code db' obj)) = ok_object db tr a obj"
  by (simp_all add: ok_object_def so_setBalance_def so_setNonce_def so_setState_def so_markSuicided_def)

lemma ok_object_setCode: "ok_object db tr a obj \<Longrightarrow> ok_object db tr a (so_setCode h c obj)"
  by (simp add: ok_object_def so_setCode_def Hash_Bytes_def)

text \<open>\<open>quiet s s'\<close>: the step from \<open>s\<close> to \<open>s'\<close> only fills caches and records errors.\<close>

definition quiet :: "'t StateDB \<Rightarrow> 't StateDB \<Rightarrow> bool" where
  "quiet s s' \<longleftrightarrow>
     abs_state s' = abs_state s \<and> (wf_state s \<longrightarrow> wf_state s') \<and> sdb_db s' = sdb_db s \<and>
     sdb_trie s' = sdb_trie s \<and> sdb_journal s' = sdb_journal s \<and>
     sdb_validRevisions s' = sdb_validRevisions s \<and> sdb_nextRevisionId s' = sdb_nextRevisionId s \<and>
     sdb_thash s' = sdb_thash s \<and> sdb_bhash s' = sdb_bhash s \<and> sdb_txIndex s' = sdb_txIndex s"

lemma quiet_refl [simp, intro]: "quiet s s"
  by (simp add: quiet_def)

lemma quiet_trans: "quiet a b \<Longrightarrow> quiet b c \<Longrightarrow> quiet a c"
  by (simp add: quiet_def)

lemma lookup_cong:
  "sdb_objects t = sdb_objects s \<Longrightarrow> sdb_db t = sdb_db s \<Longrightarrow> sdb_trie t = sdb_trie s \<Longrightarrow> lookup t a = lookup s a"
  by (simp add: lookup_def split: option.split)

lemma lookup_update [simp]:
  "lookup (s\<lparr> sdb_dbErr := e \<rparr>) a = lookup s a" "lookup (s\<lparr> sdb_refund := r \<rparr>) a = lookup s a"
  "lookup (s\<lparr> sdb_logs := l \<rparr>) a = lookup s a" "lookup (s\<lparr> sdb_logSize := n \<rparr>) a = lookup s a"
  "lookup (s\<lparr> sdb_preimages := p \<rparr>) a = lookup s a" "lookup (s\<lparr> sdb_journal := j \<rparr>) a = lookup s a"
  "lookup (s\<lparr> sdb_validRevisions := v \<rparr>) a = lookup s a"
  "lookup (s\<lparr> sdb_nextRevisionId := n' \<rparr>) a = lookup s a"
  "lookup (s\<lparr> sdb_objectsDirty := d \<rparr>) a = lookup s a"
  by (rule lookup_cong; simp)+

lemma quiet_setError [simp, intro]: "quiet s (sdb_setError e s)"
  by (simp add: quiet_def sdb_setError_def abs_state_def GetLogs_def wf_state_def)

lemma lookup_setStateObject:
  "lookup (setStateObject obj s) a =
     (if a = so_address obj then (if so_deleted obj then None else Some obj) else lookup s a)"
  by (simp add: lookup_def setStateObject_def split: option.split)

lemma setStateObject_simps [simp]:
  "sdb_db (setStateObject obj s) = sdb_db s" "sdb_trie (setStateObject obj s) = sdb_trie s"
  "sdb_journal (setStateObject obj s) = sdb_journal s" "sdb_refund (setStateObject obj s) = sdb_refund s"
  "sdb_logs (setStateObject obj s) = sdb_logs s" "sdb_logSize (setStateObject obj s) = sdb_logSize s"
  "sdb_preimages (setStateObject obj s) = sdb_preimages s"
  "sdb_validRevisions (setStateObject obj s) = sdb_validRevisions s"
  "sdb_nextRevisionId (setStateObject obj s) = sdb_nextRevisionId s"
  "sdb_thash (setStateObject obj s) = sdb_thash s" "sdb_bhash (setStateObject obj s) = sdb_bhash s"
  "sdb_txIndex (setStateObject obj s) = sdb_txIndex s"
  "GetLogs h (setStateObject obj s) = GetLogs h s"
  by (simp_all add: setStateObject_def GetLogs_def)

lemma abs_setStateObject:
  "\<not> so_deleted obj \<Longrightarrow>
   abs_state (setStateObject obj s) =
     (abs_state s)\<lparr> v_accounts := (v_accounts (abs_state s))(so_address obj \<mapsto> view_object (sdb_db s) obj) \<rparr>"
  by (auto simp: abs_state_def lookup_setStateObject fun_eq_iff)

lemma wf_setStateObject:
  "wf_state s \<Longrightarrow> ok_object (sdb_db s) (sdb_trie s) (so_address obj) obj \<Longrightarrow> wf_state (setStateObject obj s)"
  by (auto simp: wf_state_def setStateObject_def)

lemma quiet_set_same:
  assumes "lookup s (so_address obj) = Some obj0" "view_object (sdb_db s) obj = view_object (sdb_db s) obj0"
    "\<not> so_deleted obj" "wf_state s \<Longrightarrow> ok_object (sdb_db s) (sdb_trie s) (so_address obj) obj"
  shows "quiet s (setStateObject obj s)"
proof -
  have "(v_accounts (abs_state s))(so_address obj \<mapsto> view_object (sdb_db s) obj) = v_accounts (abs_state s)"
    using assms(1,2) by (auto simp: abs_state_def fun_eq_iff)
  then show ?thesis
    using assms(3,4) wf_setStateObject[of s obj] by (simp add: quiet_def abs_setStateObject)
qed

section \<open>Reading\<close>

lemma fst_getStateObject: "fst (getStateObject a s) = lookup s a"
  by (simp add: getStateObject_def lookup_def trie_object_def Let_def case_prod_beta split: option.split)

lemma snd_getStateObject:
  "snd (getStateObject a s) = s \<or> (\<exists>e. snd (getStateObject a s) = sdb_setError e s) \<or>
   (\<exists>obj. trie_object (sdb_db s) (sdb_trie s) a = Some obj \<and> lookup s a = Some obj \<and>
          snd (getStateObject a s) = setStateObject obj s)"
  by (auto simp: getStateObject_def lookup_def trie_object_def Let_def case_prod_beta split: option.split)

lemma quiet_getStateObject [simp, intro]: "quiet s (snd (getStateObject a s))"
  using snd_getStateObject[of a s]
proof (elim disjE exE conjE)
  fix obj
  assume obj: "trie_object (sdb_db s) (sdb_trie s) a = Some obj" "lookup s a = Some obj"
    "snd (getStateObject a s) = setStateObject obj s"
  have "so_address obj = a" "\<not> so_deleted obj" using trie_object_ok[OF obj(1)] by auto
  then show ?thesis
    using obj lookup_ok[of s a obj] by (auto intro!: quiet_set_same)
qed auto

lemma lookup_getStateObject [simp]: "lookup (snd (getStateObject a s)) b = lookup s b"
  using snd_getStateObject[of a s]
proof (elim disjE exE conjE)
  fix e
  assume "snd (getStateObject a s) = sdb_setError e s"
  then show ?thesis by (simp add: sdb_setError_def)
next
  fix obj
  assume obj: "trie_object (sdb_db s) (sdb_trie s) a = Some obj" "lookup s a = Some obj"
    "snd (getStateObject a s) = setStateObject obj s"
  then show ?thesis using trie_object_ok[OF obj(1)] by (simp add: lookup_setStateObject)
qed simp

lemma getStateObject_cases:
  obtains s' where "getStateObject a s = (lookup s a, s')" "quiet s s'" "\<And>b. lookup s' b = lookup s b"
  using quiet_getStateObject[of s a] lookup_getStateObject[of a s] fst_getStateObject[of a s]
  by (metis prod.collapse)

text \<open>The accounts of the view.\<close>

definition acct :: "address \<Rightarrow> state_view \<Rightarrow> account_view option" where
  "acct a v = v_accounts v a"

lemma acct_abs: "acct a (abs_state s) = map_option (view_object (sdb_db s)) (lookup s a)"
  by (simp add: acct_def abs_state_def)

definition bal :: "address \<Rightarrow> state_view \<Rightarrow> int" where
  "bal a v = (case acct a v of None \<Rightarrow> 0 | Some w \<Rightarrow> av_balance w)"

definition nonce_of :: "address \<Rightarrow> state_view \<Rightarrow> uint64" where
  "nonce_of a v = (case acct a v of None \<Rightarrow> 0 | Some w \<Rightarrow> av_nonce w)"

definition code_of :: "address \<Rightarrow> state_view \<Rightarrow> bytes option" where
  "code_of a v = (case acct a v of None \<Rightarrow> None | Some w \<Rightarrow> av_code w)"

definition storage_of :: "address \<Rightarrow> hash \<Rightarrow> state_view \<Rightarrow> hash" where
  "storage_of a k v = (case acct a v of None \<Rightarrow> 0 | Some w \<Rightarrow> av_storage w k)"

lemma GetBalance_view: "fst (GetBalance a s) = bal a (abs_state s)"
  by (rule getStateObject_cases[of a s])
    (simp add: GetBalance_def bal_def acct_abs view_object_def split: option.split)

lemma GetNonce_view: "fst (GetNonce a s) = nonce_of a (abs_state s)"
  by (rule getStateObject_cases[of a s])
    (simp add: GetNonce_def nonce_of_def acct_abs view_object_def split: option.split)

lemma GetCode_view: "fst (GetCode a s) = code_of a (abs_state s)"
  by (rule getStateObject_cases[of a s])
    (auto simp: GetCode_def code_of_def acct_abs view_object_def case_prod_beta quiet_def split: option.split)

lemma GetState_view: "fst (GetState a k s) = storage_of a k (abs_state s)"
  by (rule getStateObject_cases[of a s])
    (auto simp: GetState_def storage_of_def acct_abs view_object_def case_prod_beta quiet_def split: option.split)

lemma Exist_view: "fst (Exist a s) \<longleftrightarrow> acct a (abs_state s) \<noteq> None"
  by (rule getStateObject_cases[of a s]) (simp add: Exist_def acct_abs)

lemma HasSuicided_view: "fst (HasSuicided a s) \<longleftrightarrow> (\<exists>w. acct a (abs_state s) = Some w \<and> av_suicided w)"
  by (rule getStateObject_cases[of a s])
    (auto simp: HasSuicided_def acct_abs view_object_def split: option.split)

lemma GetCodeHash_view:
  "fst (GetCodeHash a s) = (case acct a (abs_state s) of None \<Rightarrow> 0 | Some w \<Rightarrow> BytesToHash (av_codehash w))"
  by (rule getStateObject_cases[of a s])
    (auto simp: GetCodeHash_def acct_abs view_object_def split: option.split)

lemma quiet_simple_getters:
  "quiet s (snd (Exist a s))" "quiet s (snd (Empty a s))" "quiet s (snd (GetBalance a s))"
  "quiet s (snd (GetNonce a s))" "quiet s (snd (GetCodeHash a s))" "quiet s (snd (HasSuicided a s))"
  using quiet_getStateObject[of s a]
  by (simp_all add: Exist_def Empty_def GetBalance_def GetNonce_def GetCodeHash_def HasSuicided_def case_prod_beta)

lemma quiet_replace:
  assumes "lookup s a = Some obj" "view_object (sdb_db s) obj' = view_object (sdb_db s) obj"
    "so_address obj' = so_address obj" "so_deleted obj' = so_deleted obj"
    "\<And>db tr. ok_object db tr a obj' = ok_object db tr a obj" "wf_state s"
  shows "quiet s (setStateObject obj' s)"
  using assms lookup_ok[OF assms(6,1)]
  by (intro quiet_set_same[of s obj' obj]) (auto simp: ok_object_def)

lemma quiet_GetCode: "wf_state s \<Longrightarrow> quiet s (snd (GetCode a s))"
proof (rule getStateObject_cases[of a s])
  fix s'
  assume wf: "wf_state s" and s': "getStateObject a s = (lookup s a, s')" "quiet s s'" "\<And>b. lookup s' b = lookup s b"
  show ?thesis
  proof (cases "lookup s a")
    case (Some obj)
    have "quiet s' (setStateObject (snd (so_Code (sdb_db s') obj)) s')"
      by (rule quiet_replace[where a = a and obj = obj]) (use s' Some wf in \<open>auto simp: quiet_def\<close>)
    then show ?thesis using s' Some by (auto simp: GetCode_def case_prod_beta intro: quiet_trans)
  qed (use s' in \<open>simp add: GetCode_def\<close>)
qed

lemma quiet_GetState: "wf_state s \<Longrightarrow> quiet s (snd (GetState a k s))"
proof (rule getStateObject_cases[of a s])
  fix s'
  assume wf: "wf_state s" and s': "getStateObject a s = (lookup s a, s')" "quiet s s'" "\<And>b. lookup s' b = lookup s b"
  show ?thesis
  proof (cases "lookup s a")
    case (Some obj)
    have "quiet s' (setStateObject (snd (so_GetState (sdb_db s') k obj)) s')"
      by (rule quiet_replace[where a = a and obj = obj]) (use s' Some wf in \<open>auto simp: quiet_def\<close>)
    then show ?thesis using s' Some by (auto simp: GetState_def case_prod_beta intro: quiet_trans)
  qed (use s' in \<open>simp add: GetState_def\<close>)
qed

lemma quiet_GetCodeSize: "quiet s (snd (GetCodeSize a s))"
  by (rule getStateObject_cases[of a s])
    (auto simp: GetCodeSize_def case_prod_beta Let_def split: option.split intro: quiet_trans)

section \<open>Undoing\<close>

abbreviation entries :: "'t StateDB \<Rightarrow> 't journalEntry list" where
  "entries s \<equiv> journal_entries (sdb_journal s)"

definition upd_acct :: "address \<Rightarrow> account_view \<Rightarrow> state_view \<Rightarrow> state_view" where
  "upd_acct a w v = v\<lparr> v_accounts := (v_accounts v)(a \<mapsto> w) \<rparr>"

text \<open>\<open>undoes db tr es v' v\<close>: undoing the entries \<open>es\<close>, last one first, takes every well-formed state
  with view \<open>v'\<close> to one with view \<open>v\<close>, without panic.\<close>

definition undoes ::
    "'t Database \<Rightarrow> 't \<Rightarrow> 't journalEntry list \<Rightarrow> state_view \<Rightarrow> state_view \<Rightarrow> bool" where
  "undoes db tr es v' v \<longleftrightarrow>
     (\<forall>t. wf_state t \<and> sdb_db t = db \<and> sdb_trie t = tr \<and> abs_state t = v' \<longrightarrow>
        (\<exists>t'. revert_loop (rev es) t = Some t' \<and> wf_state t' \<and> sdb_db t' = db \<and> sdb_trie t' = tr \<and>
              abs_state t' = v \<and> entries t' = entries t \<and>
              sdb_validRevisions t' = sdb_validRevisions t \<and> sdb_nextRevisionId t' = sdb_nextRevisionId t \<and>
              sdb_thash t' = sdb_thash t \<and> sdb_bhash t' = sdb_bhash t \<and> sdb_txIndex t' = sdb_txIndex t))"

lemma undoes_Nil [simp]: "undoes db tr [] v v"
  by (auto simp: undoes_def)

lemma revert_loop_append: "revert_loop (xs @ ys) s = revert_loop xs s \<bind> revert_loop ys"
  by (induction xs arbitrary: s) (simp_all add: Option.bind_assoc)

lemma undoes_append:
  assumes "undoes db tr es v1 v0" "undoes db tr es' v2 v1"
  shows "undoes db tr (es @ es') v2 v0"
  unfolding undoes_def
proof (intro allI impI, elim conjE)
  fix t
  assume t: "wf_state t" "sdb_db t = db" "sdb_trie t = tr" "abs_state t = v2"
  then obtain t' where "revert_loop (rev es') t = Some t'" "wf_state t'" "sdb_db t' = db" "sdb_trie t' = tr"
    "abs_state t' = v1" "entries t' = entries t" "sdb_validRevisions t' = sdb_validRevisions t"
    "sdb_nextRevisionId t' = sdb_nextRevisionId t"
    "sdb_thash t' = sdb_thash t" "sdb_bhash t' = sdb_bhash t" "sdb_txIndex t' = sdb_txIndex t"
    using assms(2) by (auto simp: undoes_def)
  then show "\<exists>t'. revert_loop (rev (es @ es')) t = Some t' \<and> wf_state t' \<and> sdb_db t' = db \<and> sdb_trie t' = tr \<and>
      abs_state t' = v0 \<and> entries t' = entries t \<and> sdb_validRevisions t' = sdb_validRevisions t \<and>
      sdb_nextRevisionId t' = sdb_nextRevisionId t \<and>
      sdb_thash t' = sdb_thash t \<and> sdb_bhash t' = sdb_bhash t \<and> sdb_txIndex t' = sdb_txIndex t"
    using assms(1) by (auto simp: undoes_def revert_loop_append)
qed

lemma undirty_simps [simp]:
  "abs_state (undirty e s) = abs_state s" "wf_state (undirty e s) = wf_state s" "sdb_db (undirty e s) = sdb_db s"
  "sdb_trie (undirty e s) = sdb_trie s" "entries (undirty e s) = entries s"
  "sdb_validRevisions (undirty e s) = sdb_validRevisions s"
  "sdb_nextRevisionId (undirty e s) = sdb_nextRevisionId s"
  "sdb_thash (undirty e s) = sdb_thash s" "sdb_bhash (undirty e s) = sdb_bhash s"
  "sdb_txIndex (undirty e s) = sdb_txIndex s"
  by (simp_all add: undirty_def Let_def abs_state_def wf_state_def GetLogs_def split: option.split)

text \<open>One entry: it suffices to look at \<open>entry_revert\<close>.\<close>

definition keeps :: "'t StateDB \<Rightarrow> 't StateDB \<Rightarrow> bool" where
  "keeps t t' \<longleftrightarrow>
     (wf_state t \<longrightarrow> wf_state t') \<and> sdb_db t' = sdb_db t \<and> sdb_trie t' = sdb_trie t \<and>
     entries t' = entries t \<and> sdb_validRevisions t' = sdb_validRevisions t \<and>
     sdb_nextRevisionId t' = sdb_nextRevisionId t \<and>
     sdb_thash t' = sdb_thash t \<and> sdb_bhash t' = sdb_bhash t \<and> sdb_txIndex t' = sdb_txIndex t"

lemma undoes_single:
  assumes "\<And>t. wf_state t \<Longrightarrow> sdb_db t = db \<Longrightarrow> sdb_trie t = tr \<Longrightarrow> abs_state t = v' \<Longrightarrow>
            \<exists>t'. entry_revert e t = Some t' \<and> keeps t t' \<and> abs_state t' = v"
  shows "undoes db tr [e] v' v"
  unfolding undoes_def
proof (intro allI impI, elim conjE)
  fix t
  assume t: "wf_state t" "sdb_db t = db" "sdb_trie t = tr" "abs_state t = v'"
  from assms[OF this] obtain t' where t': "entry_revert e t = Some t'" "keeps t t'" "abs_state t' = v"
    by auto
  show "\<exists>t'. revert_loop (rev [e]) t = Some t' \<and> wf_state t' \<and> sdb_db t' = db \<and> sdb_trie t' = tr \<and>
      abs_state t' = v \<and> entries t' = entries t \<and> sdb_validRevisions t' = sdb_validRevisions t \<and>
      sdb_nextRevisionId t' = sdb_nextRevisionId t \<and>
      sdb_thash t' = sdb_thash t \<and> sdb_bhash t' = sdb_bhash t \<and> sdb_txIndex t' = sdb_txIndex t"
    by (rule exI[of _ "undirty e t'"]) (use t t' in \<open>simp add: keeps_def\<close>)
qed

text \<open>Changing an object that exists, and undoing it.\<close>

lemma abs_set_acct:
  "\<not> so_deleted obj \<Longrightarrow> so_address obj = a \<Longrightarrow>
   abs_state (setStateObject obj s) = upd_acct a (view_object (sdb_db s) obj) (abs_state s)"
  by (simp add: abs_setStateObject upd_acct_def)

lemma upd_acct_upd [simp]: "upd_acct a w (upd_acct a w' v) = upd_acct a w v"
  by (simp add: upd_acct_def)

lemma upd_acct_same: "acct a v = Some w \<Longrightarrow> upd_acct a w v = v"
  by (simp add: upd_acct_def acct_def fun_upd_idem)

lemma acct_upd_acct [simp]: "acct a (upd_acct b w v) = (if a = b then Some w else acct a v)"
  by (simp add: acct_def upd_acct_def)

lemma set_object_keeps:
  assumes "wf_state t" "getStateObject a t = (lookup t a, t')" "quiet t t'" "\<And>b. lookup t' b = lookup t b"
    "lookup t a = Some obj" "ok_object (sdb_db t) (sdb_trie t) a obj'" "\<not> so_deleted obj'"
  shows "keeps t (setStateObject obj' t')"
    "abs_state (setStateObject obj' t') = upd_acct a (view_object (sdb_db t) obj') (abs_state t)"
proof -
  have a: "so_address obj' = a" using assms(6) by (simp add: ok_object_def)
  show "keeps t (setStateObject obj' t')"
    using assms a wf_setStateObject[of t' obj'] by (auto simp: keeps_def quiet_def)
  show "abs_state (setStateObject obj' t') = upd_acct a (view_object (sdb_db t) obj') (abs_state t)"
    using assms(3,7) a by (simp add: abs_set_acct quiet_def)
qed

lemma undo_on_object:
  assumes "\<And>t. lookup t a \<noteq> None \<Longrightarrow> entry_revert e t = on_object a g t"
    and g: "\<And>obj. ok_object db tr a obj \<Longrightarrow> ok_object db tr a (g obj) \<and> so_deleted (g obj) = so_deleted obj"
    and view: "\<And>obj. ok_object db tr a obj \<Longrightarrow> view_object db obj = w' \<Longrightarrow> view_object db (g obj) = w"
    and v: "acct a v = Some w"
  shows "undoes db tr [e] (upd_acct a w' v) v"
proof (rule undoes_single)
  fix t
  assume t: "wf_state t" "sdb_db t = db" "sdb_trie t = tr" "abs_state t = upd_acct a w' v"
  have "map_option (view_object db) (lookup t a) = Some w'" using acct_abs[of a t] t by simp
  then obtain obj where obj: "lookup t a = Some obj" "view_object db obj = w'" by auto
  have ok: "ok_object db tr a obj" "\<not> so_deleted obj" using lookup_ok[OF t(1) obj(1)] t by auto
  obtain t' where t': "getStateObject a t = (lookup t a, t')" "quiet t t'" "\<And>b. lookup t' b = lookup t b"
    using getStateObject_cases[of a t] by blast
  note set = set_object_keeps[OF t(1) t' obj(1), of "g obj"]
  show "\<exists>t'. entry_revert e t = Some t' \<and> keeps t t' \<and> abs_state t' = v"
    using assms(1)[of t] set g[OF ok(1)] view[OF ok(1) obj(2)] ok t obj t'(1) v
    by (simp add: on_object_def upd_acct_same)
qed

section \<open>Extension of a state\<close>

text \<open>\<open>ext s0 s\<close>: \<open>s\<close> was reached from \<open>s0\<close> by operations that can be undone by reverting the
  journal entries that \<open>s\<close> has on top of those of \<open>s0\<close>. The revisions of \<open>s0\<close> are still valid.\<close>

definition revs_ok :: "'t StateDB \<Rightarrow> bool" where
  "revs_ok s \<longleftrightarrow> sorted_wrt (<) (map fst (sdb_validRevisions s)) \<and>
     (\<forall>r \<in> set (sdb_validRevisions s). fst r < sdb_nextRevisionId s \<and> snd r \<le> length (entries s))"

definition good :: "'t StateDB \<Rightarrow> bool" where
  "good s \<longleftrightarrow> wf_state s \<and> revs_ok s"

definition ext :: "'t StateDB \<Rightarrow> 't StateDB \<Rightarrow> bool" where
  "ext s0 s \<longleftrightarrow>
     good s \<and> sdb_db s = sdb_db s0 \<and> sdb_trie s = sdb_trie s0 \<and>
     (\<exists>es. entries s = entries s0 @ es \<and> undoes (sdb_db s0) (sdb_trie s0) es (abs_state s) (abs_state s0)) \<and>
     (\<exists>rs. sdb_validRevisions s = sdb_validRevisions s0 @ rs \<and>
           (\<forall>r \<in> set rs. sdb_nextRevisionId s0 \<le> fst r \<and> length (entries s0) \<le> snd r)) \<and>
     sdb_nextRevisionId s0 \<le> sdb_nextRevisionId s \<and>
     sdb_thash s = sdb_thash s0 \<and> sdb_bhash s = sdb_bhash s0 \<and> sdb_txIndex s = sdb_txIndex s0"

lemma ext_good: "ext s0 s \<Longrightarrow> good s"
  by (simp add: ext_def)

lemma ext_wf: "ext s0 s \<Longrightarrow> wf_state s"
  by (simp add: ext_def good_def)

lemma ext_refl [simp]: "good s \<Longrightarrow> ext s s"
  by (simp add: ext_def)

lemma ext_trans [trans]:
  assumes "ext a b" "ext b c"
  shows "ext a c"
proof -
  obtain es es' where es: "entries b = entries a @ es" "undoes (sdb_db a) (sdb_trie a) es (abs_state b) (abs_state a)"
    "entries c = entries b @ es'" "undoes (sdb_db b) (sdb_trie b) es' (abs_state c) (abs_state b)"
    using assms by (auto simp: ext_def)
  obtain rs rs' where rs: "sdb_validRevisions b = sdb_validRevisions a @ rs" "sdb_validRevisions c = sdb_validRevisions b @ rs'"
    "\<forall>r \<in> set rs. sdb_nextRevisionId a \<le> fst r \<and> length (entries a) \<le> snd r"
    "\<forall>r \<in> set rs'. sdb_nextRevisionId b \<le> fst r \<and> length (entries b) \<le> snd r"
    using assms unfolding ext_def by blast
  have "undoes (sdb_db a) (sdb_trie a) (es @ es') (abs_state c) (abs_state a)"
    using undoes_append[OF es(2)] es(4) assms(1) by (simp add: ext_def)
  then have "\<exists>es. entries c = entries a @ es \<and> undoes (sdb_db a) (sdb_trie a) es (abs_state c) (abs_state a)"
    using es by auto
  moreover have "\<exists>rs. sdb_validRevisions c = sdb_validRevisions a @ rs \<and>
      (\<forall>r \<in> set rs. sdb_nextRevisionId a \<le> fst r \<and> length (entries a) \<le> snd r)"
    using rs assms es(1) by (intro exI[of _ "rs @ rs'"]) (fastforce simp: ext_def)
  ultimately show ?thesis
    using assms by (auto simp: ext_def)
qed

lemma ext_quiet: "good s \<Longrightarrow> quiet s s' \<Longrightarrow> ext s s'"
  by (auto simp: ext_def quiet_def good_def revs_ok_def)

text \<open>Appending a journal entry and changing the state so that the entry undoes the change.\<close>

lemma journal_append_simps [simp]:
  "abs_state (journal_append e s) = abs_state s" "wf_state (journal_append e s) = wf_state s"
  "sdb_db (journal_append e s) = sdb_db s" "sdb_trie (journal_append e s) = sdb_trie s"
  "entries (journal_append e s) = entries s @ [e]" "lookup (journal_append e s) a = lookup s a"
  "sdb_validRevisions (journal_append e s) = sdb_validRevisions s"
  "sdb_nextRevisionId (journal_append e s) = sdb_nextRevisionId s"
  "sdb_refund (journal_append e s) = sdb_refund s" "sdb_preimages (journal_append e s) = sdb_preimages s"
  "sdb_logSize (journal_append e s) = sdb_logSize s" "sdb_logs (journal_append e s) = sdb_logs s"
  "sdb_thash (journal_append e s) = sdb_thash s" "sdb_bhash (journal_append e s) = sdb_bhash s"
  "sdb_txIndex (journal_append e s) = sdb_txIndex s" "GetLogs h (journal_append e s) = GetLogs h s"
  by (simp_all add: journal_append_def journal_dirty_def Let_def abs_state_def wf_state_def GetLogs_def split: option.split)

lemma ext_append:
  assumes "good s" "undoes (sdb_db s) (sdb_trie s) [e] (abs_state s') (abs_state s)"
    "keeps (journal_append e s) s'"
  shows "ext s s'"
proof -
  have s': "wf_state s'" "sdb_db s' = sdb_db s" "sdb_trie s' = sdb_trie s" "entries s' = entries s @ [e]"
    "sdb_validRevisions s' = sdb_validRevisions s" "sdb_nextRevisionId s' = sdb_nextRevisionId s"
    "sdb_thash s' = sdb_thash s" "sdb_bhash s' = sdb_bhash s" "sdb_txIndex s' = sdb_txIndex s"
    using assms(1,3) by (simp_all add: keeps_def good_def)
  then show ?thesis
    using assms(1,2) by (auto simp: ext_def good_def revs_ok_def)
qed

lemma ext_set_object:
  assumes "good s" "lookup s a = Some obj" "ok_object (sdb_db s) (sdb_trie s) a obj'" "\<not> so_deleted obj'"
    and undo: "undoes (sdb_db s) (sdb_trie s) [e] (upd_acct a (view_object (sdb_db s) obj') (abs_state s)) (abs_state s)"
  shows "ext s (setStateObject obj' (journal_append e s))"
    "abs_state (setStateObject obj' (journal_append e s)) = upd_acct a (view_object (sdb_db s) obj') (abs_state s)"
proof -
  have a: "so_address obj' = a" using assms(3) by (simp add: ok_object_def)
  show abs: "abs_state (setStateObject obj' (journal_append e s)) = upd_acct a (view_object (sdb_db s) obj') (abs_state s)"
    using assms(4) a by (simp add: abs_set_acct)
  have "keeps (journal_append e s) (setStateObject obj' (journal_append e s))"
    using assms(1,3) a wf_setStateObject[of "journal_append e s" obj'] by (simp add: keeps_def good_def)
  then show "ext s (setStateObject obj' (journal_append e s))"
    using assms(1) undo abs by (intro ext_append) simp_all
qed

section \<open>Effects of the operations\<close>

text \<open>The account that a new object shows, and the state in which an address has an account.\<close>

definition new_view :: "'t Database \<Rightarrow> address \<Rightarrow> account_view" where
  "new_view db a = view_object db (newObject db a 0 None 0 None)"

definition acct_or_new :: "'t Database \<Rightarrow> address \<Rightarrow> state_view \<Rightarrow> account_view" where
  "acct_or_new db a v = (case acct a v of Some w \<Rightarrow> w | None \<Rightarrow> new_view db a)"

lemma newObject_ok: "length (emptyCodeHash db) = 32 \<Longrightarrow> ok_object db tr a (newObject db a 0 None 0 None)"
  by (simp add: ok_object_def newObject_def)

lemma so_setNonce_new [simp]: "so_setNonce 0 (newObject db a 0 None 0 None) = newObject db a 0 None 0 None"
  by (simp add: so_setNonce_def newObject_def)

text \<open>Undoing the creation of an account: the address had no account before, so it has none in the
  trie either.\<close>

lemma trie_object_absent: "wf_state s \<Longrightarrow> lookup s a = None \<Longrightarrow> trie_object (sdb_db s) (sdb_trie s) a = None"
  by (auto simp: lookup_def wf_state_def ok_object_def split: option.splits if_splits)

lemma undo_create:
  assumes "trie_object db tr a = None" "acct a v = None"
  shows "undoes db tr [createObjectChange a] (upd_acct a w v) v"
proof (rule undoes_single)
  fix t
  assume t: "wf_state t" "sdb_db t = db" "sdb_trie t = tr" "abs_state t = upd_acct a w v"
  define t' where "t' = t\<lparr> sdb_objects := (sdb_objects t)(a := None), sdb_objectsDirty := sdb_objectsDirty t - {a} \<rparr>"
  have "lookup t' b = (if b = a then None else lookup t b)" for b
    using assms(1) t(2,3) by (simp add: lookup_def t'_def split: option.split)
  then have "abs_state t' = (abs_state t)\<lparr> v_accounts := (v_accounts (abs_state t))(a := None) \<rparr>"
    by (auto simp: abs_state_def t'_def GetLogs_def)
  also have "\<dots> = v"
    using assms(2) t(4) by (simp add: upd_acct_def acct_def fun_upd_idem)
  finally have "abs_state t' = v" .
  moreover have "keeps t t'" by (auto simp: keeps_def t'_def wf_state_def)
  ultimately show "\<exists>t'. entry_revert (createObjectChange a) t = Some t' \<and> keeps t t' \<and> abs_state t' = v"
    by (auto simp: t'_def)
qed

lemma undo_reset:
  assumes "ok_object db tr a p" "\<not> so_deleted p" "acct a v = Some (view_object db p)"
  shows "undoes db tr [resetObjectChange p] (upd_acct a w v) v"
proof (rule undoes_single)
  fix t
  assume t: "wf_state t" "sdb_db t = db" "sdb_trie t = tr" "abs_state t = upd_acct a w v"
  have a: "so_address p = a" using assms(1) by (simp add: ok_object_def)
  have "keeps t (setStateObject p t)"
    using wf_setStateObject[of t p] assms(1) t a by (simp add: keeps_def)
  moreover have "abs_state (setStateObject p t) = v"
    using assms(2,3) t a by (simp add: abs_set_acct upd_acct_same)
  ultimately show "\<exists>t'. entry_revert (resetObjectChange p) t = Some t' \<and> keeps t t' \<and> abs_state t' = v"
    by simp
qed

text \<open>The new object may be replaced by any other one before the next journal entry, as
  \<open>CreateAccount\<close> does when it carries the balance over.\<close>

lemma createObject_cases:
  assumes "good s"
  obtains s' where "createObject a s = (newObject (sdb_db s) a 0 None 0 None, lookup s a, s')"
    "ext s s'" "abs_state s' = upd_acct a (new_view (sdb_db s) a) (abs_state s)"
    "lookup s' a = Some (newObject (sdb_db s) a 0 None 0 None)"
    "\<And>obj. ok_object (sdb_db s) (sdb_trie s) a obj \<Longrightarrow> \<not> so_deleted obj \<Longrightarrow>
       ext s (setStateObject obj s') \<and>
       abs_state (setStateObject obj s') = upd_acct a (view_object (sdb_db s) obj) (abs_state s)"
proof -
  obtain t where t: "getStateObject a s = (lookup s a, t)" "quiet s t" "\<And>b. lookup t b = lookup s b"
    using getStateObject_cases[of a s] by blast
  define o' :: "'a stateObject" where "o' = newObject (sdb_db s) a 0 None 0 None"
  define e where "e = (case lookup s a of None \<Rightarrow> createObjectChange a | Some p \<Rightarrow> resetObjectChange p)"
  have gt: "good t" "ext s t" using assms t(2) ext_quiet[of s t] by (auto simp: ext_good)
  have wf: "wf_state t" "sdb_db t = sdb_db s" "sdb_trie t = sdb_trie s" "abs_state t = abs_state s"
    using gt t(2) by (auto simp: good_def quiet_def)
  have undo: "undoes (sdb_db t) (sdb_trie t) [e] (upd_acct a w (abs_state t)) (abs_state t)" for w
  proof (cases "lookup s a")
    case None
    then have "lookup t a = None" using t(3) by simp
    then show ?thesis unfolding e_def None
      using trie_object_absent[OF wf(1), of a] undo_create[of "sdb_db t" "sdb_trie t" a "abs_state t"]
      by (simp add: acct_abs)
  next
    case (Some p)
    then have "lookup t a = Some p" using t(3) by simp
    then show ?thesis unfolding e_def Some
      using lookup_ok[OF wf(1), of a p] undo_reset[of "sdb_db t" "sdb_trie t" a p "abs_state t"]
      by (simp add: acct_abs)
  qed
  have set: "ext s (setStateObject obj (journal_append e t)) \<and>
       abs_state (setStateObject obj (journal_append e t)) = upd_acct a (view_object (sdb_db s) obj) (abs_state s)"
    if ok: "ok_object (sdb_db s) (sdb_trie s) a obj" "\<not> so_deleted obj" for obj
  proof -
    have a: "so_address obj = a" using ok by (simp add: ok_object_def)
    have "keeps (journal_append e t) (setStateObject obj (journal_append e t))"
      using wf ok a wf_setStateObject[of "journal_append e t" obj] by (simp add: keeps_def)
    then have "ext t (setStateObject obj (journal_append e t))"
      using gt undo ok a by (intro ext_append) (simp_all add: abs_set_acct)
    then show ?thesis using ext_trans[OF gt(2)] ok a wf by (simp add: abs_set_acct)
  qed
  have ok: "ok_object (sdb_db s) (sdb_trie s) a o'" "\<not> so_deleted o'" "so_address o' = a"
    using assms newObject_ok[of "sdb_db s" "sdb_trie s" a] by (auto simp: o'_def good_def wf_state_def)
  have "createObject a s = (o', lookup s a, setStateObject o' (journal_append e t))"
    unfolding createObject_def t(1) by (simp add: Let_def e_def o'_def wf(2) split: option.split)
  moreover have "lookup (setStateObject o' (journal_append e t)) a = Some o'"
    using ok by (simp add: lookup_setStateObject)
  moreover have "setStateObject obj (setStateObject o' x) = setStateObject obj x"
    if "ok_object (sdb_db s) (sdb_trie s) a obj" for obj x
    using that ok by (simp add: setStateObject_def ok_object_def)
  ultimately show thesis
    using that[of "setStateObject o' (journal_append e t)"] set[OF ok(1,2)] set
    unfolding o'_def new_view_def by metis
qed

lemma GetOrNew_cases:
  assumes "good s"
  obtains obj s' where "GetOrNewStateObject a s = (obj, s')" "ext s s'" "lookup s' a = Some obj"
    "abs_state s' = upd_acct a (acct_or_new (sdb_db s) a (abs_state s)) (abs_state s)"
    "view_object (sdb_db s) obj = acct_or_new (sdb_db s) a (abs_state s)"
    "ok_object (sdb_db s) (sdb_trie s) a obj" "\<not> so_deleted obj" "sdb_db s' = sdb_db s" "sdb_trie s' = sdb_trie s"
proof -
  obtain t where t: "getStateObject a s = (lookup s a, t)" "quiet s t" "\<And>b. lookup t b = lookup s b"
    using getStateObject_cases[of a s] by blast
  have gt: "good t" "ext s t" using assms t(2) ext_quiet[of s t] by (auto simp: ext_good)
  have wf: "wf_state t" "sdb_db t = sdb_db s" "sdb_trie t = sdb_trie s" "abs_state t = abs_state s"
    using gt t(2) by (auto simp: good_def quiet_def)
  show thesis
  proof (cases "lookup s a")
    case (Some obj)
    then have ok: "ok_object (sdb_db s) (sdb_trie s) a obj" "\<not> so_deleted obj"
      using lookup_ok[of s a obj] assms by (auto simp: good_def)
    have v: "acct a (abs_state s) = Some (view_object (sdb_db s) obj)" using Some by (simp add: acct_abs)
    show thesis
    proof (rule that[of obj t])
      show "GetOrNewStateObject a s = (obj, t)" using t(1) Some ok(2) by (simp add: GetOrNewStateObject_def)
      show "lookup t a = Some obj" using t(3) Some by simp
      show "abs_state t = upd_acct a (acct_or_new (sdb_db s) a (abs_state s)) (abs_state s)"
        unfolding wf(4) by (simp add: acct_or_new_def v upd_acct_same)
      show "view_object (sdb_db s) obj = acct_or_new (sdb_db s) a (abs_state s)" by (simp add: acct_or_new_def v)
    qed (use ok gt wf in simp_all)
  next
    case None
    let ?o = "newObject (sdb_db t) a 0 None 0 None"
    obtain s' where s': "createObject a t = (?o, lookup t a, s')" "ext t s'"
      "abs_state s' = upd_acct a (new_view (sdb_db t) a) (abs_state t)" "lookup s' a = Some ?o"
      using createObject_cases[OF gt(1), of a] by metis
    have v: "acct a (abs_state s) = None" using None by (simp add: acct_abs)
    show thesis
    proof (rule that[of ?o s'])
      show "GetOrNewStateObject a s = (?o, s')" using t(1) None s'(1) by (simp add: GetOrNewStateObject_def)
      show "ext s s'" using gt(2) s'(2) by (rule ext_trans)
      show "abs_state s' = upd_acct a (acct_or_new (sdb_db s) a (abs_state s)) (abs_state s)"
        unfolding s'(3) wf by (simp add: acct_or_new_def v)
      show "view_object (sdb_db s) ?o = acct_or_new (sdb_db s) a (abs_state s)"
        by (simp add: acct_or_new_def v new_view_def wf(2))
      show "ok_object (sdb_db s) (sdb_trie s) a ?o"
        unfolding wf(2) using assms by (intro newObject_ok) (simp add: good_def wf_state_def)
      show "sdb_db s' = sdb_db s" "sdb_trie s' = sdb_trie s" using s'(2) wf by (simp_all add: ext_def)
    qed (use s' in simp_all)
  qed
qed

text \<open>The effect of every operation on the view, with the state it is undone to.\<close>

lemma view_set_object:
  assumes "good s" "lookup s a = Some obj" "\<And>t. lookup t a \<noteq> None \<Longrightarrow> entry_revert e t = on_object a g t"
    and "ok_object (sdb_db s) (sdb_trie s) a obj'" "\<not> so_deleted obj'"
    and "\<And>x. ok_object (sdb_db s) (sdb_trie s) a x \<Longrightarrow>
           ok_object (sdb_db s) (sdb_trie s) a (g x) \<and> so_deleted (g x) = so_deleted x"
    and "\<And>x. ok_object (sdb_db s) (sdb_trie s) a x \<Longrightarrow> view_object (sdb_db s) x = view_object (sdb_db s) obj' \<Longrightarrow>
           view_object (sdb_db s) (g x) = view_object (sdb_db s) obj"
  shows "ext s (setStateObject obj' (journal_append e s))"
    "abs_state (setStateObject obj' (journal_append e s)) = upd_acct a (view_object (sdb_db s) obj') (abs_state s)"
proof -
  have "undoes (sdb_db s) (sdb_trie s) [e] (upd_acct a (view_object (sdb_db s) obj') (abs_state s)) (abs_state s)"
    using assms by (intro undo_on_object[where g = g]) (simp_all add: acct_abs)
  then show "ext s (setStateObject obj' (journal_append e s))"
    "abs_state (setStateObject obj' (journal_append e s)) = upd_acct a (view_object (sdb_db s) obj') (abs_state s)"
    using ext_set_object[OF assms(1,2,4,5)] by simp_all
qed

lemma so_SetBalance_effect:
  assumes "good s" "lookup s a = Some obj"
  shows "ext s (so_SetBalance x obj s)"
    "abs_state (so_SetBalance x obj s) = upd_acct a ((view_object (sdb_db s) obj)\<lparr> av_balance := x \<rparr>) (abs_state s)"
proof -
  have ok: "ok_object (sdb_db s) (sdb_trie s) a obj" "\<not> so_deleted obj" "so_address obj = a"
    using lookup_ok[OF _ assms(2)] assms(1) by (auto simp: good_def ok_object_def)
  have w: "acc_Balance (so_data obj) = av_balance (view_object (sdb_db s) obj)" by (simp add: view_object_def)
  have "y\<lparr> av_balance := av_balance z \<rparr> = z" if "y = z\<lparr> av_balance := x \<rparr>" for y z using that by simp
  note set = view_set_object[OF assms, where e = "balanceChange a (acc_Balance (so_data obj))" and
      g = "so_setBalance (acc_Balance (so_data obj))" and obj' = "so_setBalance x obj"]
  show "ext s (so_SetBalance x obj s)"
    "abs_state (so_SetBalance x obj s) = upd_acct a ((view_object (sdb_db s) obj)\<lparr> av_balance := x \<rparr>) (abs_state s)"
    using set ok by (simp_all add: so_SetBalance_def w)
qed

text \<open>\<open>on_acct db a f v\<close>: the view in which \<open>f\<close> has been applied to the account of \<open>a\<close>, which is
  created if it does not exist.\<close>

definition on_acct :: "'t Database \<Rightarrow> address \<Rightarrow> (account_view \<Rightarrow> account_view) \<Rightarrow> state_view \<Rightarrow> state_view" where
  "on_acct db a f v = upd_acct a (f (acct_or_new db a v)) v"

lemma GetOrNew_obtain:
  assumes "good s"
  obtains obj s' w where "GetOrNewStateObject a s = (obj, s')" "ext s s'" "good s'" "lookup s' a = Some obj"
    "w = acct_or_new (sdb_db s) a (abs_state s)" "abs_state s' = upd_acct a w (abs_state s)"
    "view_object (sdb_db s') obj = w" "ok_object (sdb_db s') (sdb_trie s') a obj" "\<not> so_deleted obj"
    "so_address obj = a" "sdb_db s' = sdb_db s"
  using GetOrNew_cases[OF assms, of a] ext_good unfolding ok_object_def by metis

lemma touch_effect:
  assumes "good s"
  shows "ext s (so_touch obj s)" "abs_state (so_touch obj s) = abs_state s"
proof -
  show q: "abs_state (so_touch obj s) = abs_state s"
    by (simp add: so_touch_def Let_def journal_dirty_def abs_state_def GetLogs_def)
  have "undoes (sdb_db s) (sdb_trie s) [touchChange (so_address obj)] (abs_state s) (abs_state s)"
    by (rule undoes_single) (simp add: keeps_def)
  then show "ext s (so_touch obj s)"
    using assms q by (intro ext_append[of s "touchChange (so_address obj)"])
      (simp_all add: so_touch_def Let_def keeps_def journal_dirty_def wf_state_def)
qed

lemma AddBalance_effect:
  assumes "good s"
  shows "ext s (AddBalance a x s)"
    "abs_state (AddBalance a x s) = on_acct (sdb_db s) a (\<lambda>w. w\<lparr> av_balance := av_balance w + x \<rparr>) (abs_state s)"
proof -
  obtain obj s' w where s': "GetOrNewStateObject a s = (obj, s')" "ext s s'" "good s'" "lookup s' a = Some obj"
    "w = acct_or_new (sdb_db s) a (abs_state s)" "abs_state s' = upd_acct a w (abs_state s)"
    "view_object (sdb_db s') obj = w"
    using GetOrNew_obtain[OF assms, of a] by metis
  have b: "acc_Balance (so_data obj) = av_balance w" using s'(7) by (auto simp: view_object_def)
  note set = so_SetBalance_effect[OF s'(3,4), of "av_balance w + x"]
  note touch = touch_effect[OF s'(3), of obj]
  show "ext s (AddBalance a x s)"
    using s'(1,2) set(1) touch(1) b by (auto simp: AddBalance_def intro: ext_trans)
  show "abs_state (AddBalance a x s) = on_acct (sdb_db s) a (\<lambda>w. w\<lparr> av_balance := av_balance w + x \<rparr>) (abs_state s)"
    using s'(1,5,6,7) set(2) touch(2) b by (simp add: AddBalance_def on_acct_def)
qed

lemma SubBalance_effect:
  assumes "good s"
  shows "ext s (SubBalance a x s)"
    "abs_state (SubBalance a x s) = on_acct (sdb_db s) a (\<lambda>w. w\<lparr> av_balance := av_balance w - x \<rparr>) (abs_state s)"
proof -
  obtain obj s' w where s': "GetOrNewStateObject a s = (obj, s')" "ext s s'" "good s'" "lookup s' a = Some obj"
    "w = acct_or_new (sdb_db s) a (abs_state s)" "abs_state s' = upd_acct a w (abs_state s)"
    "view_object (sdb_db s') obj = w"
    using GetOrNew_obtain[OF assms, of a] by metis
  have b: "acc_Balance (so_data obj) = av_balance w" using s'(7) by (auto simp: view_object_def)
  note set = so_SetBalance_effect[OF s'(3,4), of "av_balance w - x"]
  show "ext s (SubBalance a x s)"
    using s'(1,2) set(1) b by (auto simp: SubBalance_def intro: ext_trans)
  show "abs_state (SubBalance a x s) = on_acct (sdb_db s) a (\<lambda>w. w\<lparr> av_balance := av_balance w - x \<rparr>) (abs_state s)"
    using s'(1,5,6,7) set(2) b by (simp add: SubBalance_def on_acct_def)
qed

lemma SetBalance_effect:
  assumes "good s"
  shows "ext s (SetBalance a x s)"
    "abs_state (SetBalance a x s) = on_acct (sdb_db s) a (\<lambda>w. w\<lparr> av_balance := x \<rparr>) (abs_state s)"
proof -
  obtain obj s' w where s': "GetOrNewStateObject a s = (obj, s')" "ext s s'" "good s'" "lookup s' a = Some obj"
    "w = acct_or_new (sdb_db s) a (abs_state s)" "abs_state s' = upd_acct a w (abs_state s)"
    "view_object (sdb_db s') obj = w"
    using GetOrNew_obtain[OF assms, of a] by metis
  note set = so_SetBalance_effect[OF s'(3,4), of x]
  show "ext s (SetBalance a x s)"
    using s'(1,2) set(1) by (auto simp: SetBalance_def intro: ext_trans)
  show "abs_state (SetBalance a x s) = on_acct (sdb_db s) a (\<lambda>w. w\<lparr> av_balance := x \<rparr>) (abs_state s)"
    using s'(1,5,6,7) set(2) by (simp add: SetBalance_def on_acct_def)
qed

lemma SetNonce_effect:
  assumes "good s"
  shows "ext s (SetNonce a n s)"
    "abs_state (SetNonce a n s) = on_acct (sdb_db s) a (\<lambda>w. w\<lparr> av_nonce := n \<rparr>) (abs_state s)"
proof -
  obtain obj s' w where s': "GetOrNewStateObject a s = (obj, s')" "ext s s'" "good s'" "lookup s' a = Some obj"
    "w = acct_or_new (sdb_db s) a (abs_state s)" "abs_state s' = upd_acct a w (abs_state s)"
    "view_object (sdb_db s') obj = w" "ok_object (sdb_db s') (sdb_trie s') a obj" "\<not> so_deleted obj" "so_address obj = a"
    using GetOrNew_obtain[OF assms, of a] by metis
  have b: "acc_Nonce (so_data obj) = av_nonce w" using s'(7) by (auto simp: view_object_def)
  note set = view_set_object[OF s'(3,4), where e = "nonceChange a (av_nonce w)" and
      g = "so_setNonce (av_nonce w)" and obj' = "so_setNonce n obj"]
  have set': "ext s' (setStateObject (so_setNonce n obj) (journal_append (nonceChange a (av_nonce w)) s'))"
    "abs_state (setStateObject (so_setNonce n obj) (journal_append (nonceChange a (av_nonce w)) s')) =
       upd_acct a (w\<lparr> av_nonce := n \<rparr>) (abs_state s')"
    using set s'(7-10) by simp_all
  show "ext s (SetNonce a n s)"
    using s'(1,2,10) set'(1) b by (auto simp: SetNonce_def intro: ext_trans)
  show "abs_state (SetNonce a n s) = on_acct (sdb_db s) a (\<lambda>w. w\<lparr> av_nonce := n \<rparr>) (abs_state s)"
    using s'(1,5,6,10) set'(2) b by (simp add: SetNonce_def on_acct_def)
qed

lemma SetState_effect:
  assumes "good s"
  shows "ext s (SetState a k x s)"
    "abs_state (SetState a k x s) =
       on_acct (sdb_db s) a (\<lambda>w. w\<lparr> av_storage := (av_storage w)(k := x) \<rparr>) (abs_state s)"
proof -
  obtain obj s' w where s': "GetOrNewStateObject a s = (obj, s')" "ext s s'" "good s'" "lookup s' a = Some obj"
    "w = acct_or_new (sdb_db s) a (abs_state s)" "abs_state s' = upd_acct a w (abs_state s)"
    "view_object (sdb_db s') obj = w" "ok_object (sdb_db s') (sdb_trie s') a obj" "\<not> so_deleted obj" "so_address obj = a"
    using GetOrNew_obtain[OF assms, of a] by metis
  define prev where "prev = fst (so_GetState (sdb_db s') k obj)"
  define obj1 where "obj1 = snd (so_GetState (sdb_db s') k obj)"
  have prev: "prev = av_storage w k" using s'(7) by (auto simp: view_object_def prev_def)
  have obj1: "view_object (sdb_db s') obj1 = w" "ok_object (sdb_db s') (sdb_trie s') a obj1" "\<not> so_deleted obj1"
    "so_address obj1 = a" using s'(7-10) by (simp_all add: obj1_def)
  note set = view_set_object[OF s'(3,4), where e = "storageChange a k prev" and
      g = "so_setState k prev" and obj' = "so_setState k x obj1"]
  have set': "ext s' (setStateObject (so_setState k x obj1) (journal_append (storageChange a k prev) s'))"
    "abs_state (setStateObject (so_setState k x obj1) (journal_append (storageChange a k prev) s')) =
       upd_acct a (w\<lparr> av_storage := (av_storage w)(k := x) \<rparr>) (abs_state s')"
    using set s'(7) obj1 prev by simp_all
  have eq: "SetState a k x s = setStateObject (so_setState k x obj1) (journal_append (storageChange a k prev) s')"
    using s'(1) obj1(4) by (simp add: SetState_def case_prod_beta prev_def obj1_def)
  show "ext s (SetState a k x s)"
    unfolding eq using s'(2) set'(1) by (rule ext_trans)
  show "abs_state (SetState a k x s) =
       on_acct (sdb_db s) a (\<lambda>w. w\<lparr> av_storage := (av_storage w)(k := x) \<rparr>) (abs_state s)"
    using s'(5,6) set'(2) by (simp add: eq on_acct_def)
qed

lemma SetCode_effect:
  assumes "good s"
  shows "ext s (SetCode a code s)"
    "abs_state (SetCode a code s) =
       on_acct (sdb_db s) a (\<lambda>w. w\<lparr> av_codehash := Hash_Bytes (Keccak256Hash (sdb_db s) (or_else code [])),
                                   av_code := code_or code (stored_code (sdb_db s) (Keccak256Hash (sdb_db s) (Address_Bytes a))
                                     (Hash_Bytes (Keccak256Hash (sdb_db s) (or_else code [])))) \<rparr>) (abs_state s)"
proof -
  obtain obj s' w where s': "GetOrNewStateObject a s = (obj, s')" "ext s s'" "good s'" "lookup s' a = Some obj"
    "w = acct_or_new (sdb_db s) a (abs_state s)" "abs_state s' = upd_acct a w (abs_state s)"
    "view_object (sdb_db s') obj = w" "ok_object (sdb_db s') (sdb_trie s') a obj" "\<not> so_deleted obj" "so_address obj = a"
    "sdb_db s' = sdb_db s"
    using GetOrNew_obtain[OF assms, of a] by metis
  define h where "h = Keccak256Hash (sdb_db s) (or_else code [])"
  define ah where "ah = Keccak256Hash (sdb_db s) (Address_Bytes a)"
  define obj1 where "obj1 = snd (so_Code (sdb_db s') obj)"
  have w: "av_code w = fst (so_Code (sdb_db s') obj)" "av_codehash w = acc_CodeHash (so_data obj)"
    using s'(7) by (auto simp: view_object_def)
  have len: "length (av_codehash w) = 32" "so_addrHash obj = ah" using s'(8,11) w by (simp_all add: ok_object_def ah_def)
  have code: "code_or (av_code w) (stored_code (sdb_db s') ah (av_codehash w)) = av_code w"
    unfolding w fst_so_Code len by simp
  have obj1: "view_object (sdb_db s') obj1 = w" "ok_object (sdb_db s') (sdb_trie s') a obj1" "\<not> so_deleted obj1"
    "so_address obj1 = a" "so_addrHash obj1 = ah" using s'(7-10) len by (simp_all add: obj1_def)
  have addrHash: "so_addrHash x = ah" if "ok_object (sdb_db s') (sdb_trie s') a x" for x
    using that s'(11) by (simp add: ok_object_def ah_def)
  note set = view_set_object[OF s'(3,4), where e = "codeChange a (av_code w) (av_codehash w)" and
      g = "so_setCode (BytesToHash (av_codehash w)) (av_code w)" and obj' = "so_setCode h code obj1"]
  have set': "ext s' (setStateObject (so_setCode h code obj1) (journal_append (codeChange a (av_code w) (av_codehash w)) s'))"
    "abs_state (setStateObject (so_setCode h code obj1) (journal_append (codeChange a (av_code w) (av_codehash w)) s')) =
       upd_acct a (w\<lparr> av_codehash := Hash_Bytes h, av_code := code_or code (stored_code (sdb_db s') ah (Hash_Bytes h)) \<rparr>) (abs_state s')"
    using set s'(7) obj1 code by (simp_all add: ok_object_setCode Hash_Bytes_BytesToHash[OF len(1)] addrHash)
  have eq: "SetCode a code s = setStateObject (so_setCode h code obj1) (journal_append (codeChange a (av_code w) (av_codehash w)) s')"
    using s'(1,11) obj1(4) w by (simp add: SetCode_def case_prod_beta obj1_def h_def or_else_def)
  show "ext s (SetCode a code s)"
    unfolding eq using s'(2) set'(1) by (rule ext_trans)
  show "abs_state (SetCode a code s) =
       on_acct (sdb_db s) a (\<lambda>w. w\<lparr> av_codehash := Hash_Bytes (Keccak256Hash (sdb_db s) (or_else code [])),
                                   av_code := code_or code (stored_code (sdb_db s) (Keccak256Hash (sdb_db s) (Address_Bytes a))
                                     (Hash_Bytes (Keccak256Hash (sdb_db s) (or_else code [])))) \<rparr>) (abs_state s)"
    using s'(5,6,11) set'(2) by (simp add: eq on_acct_def h_def ah_def)
qed

lemma Suicide_effect:
  assumes "good s"
  shows "ext s (snd (Suicide a s))"
    "abs_state (snd (Suicide a s)) =
       (case acct a (abs_state s) of None \<Rightarrow> abs_state s
        | Some w \<Rightarrow> upd_acct a (w\<lparr> av_suicided := True, av_balance := 0 \<rparr>) (abs_state s))"
proof -
  obtain t where t: "getStateObject a s = (lookup s a, t)" "quiet s t" "\<And>b. lookup t b = lookup s b"
    using getStateObject_cases[of a s] by blast
  have gt: "good t" "ext s t" using assms t(2) ext_quiet[of s t] by (auto simp: ext_good)
  have wf: "wf_state t" "sdb_db t = sdb_db s" "sdb_trie t = sdb_trie s" "abs_state t = abs_state s"
    using gt t(2) by (auto simp: good_def quiet_def)
  have "ext s (snd (Suicide a s)) \<and> abs_state (snd (Suicide a s)) =
       (case acct a (abs_state s) of None \<Rightarrow> abs_state s
        | Some w \<Rightarrow> upd_acct a (w\<lparr> av_suicided := True, av_balance := 0 \<rparr>) (abs_state s))"
  proof (cases "lookup s a")
    case None
    then show ?thesis using t(1) gt wf by (simp add: Suicide_def acct_abs)
  next
    case (Some obj)
    define w where "w = view_object (sdb_db s) obj"
    have w: "so_suicided obj = av_suicided w" "acc_Balance (so_data obj) = av_balance w"
      by (simp_all add: w_def view_object_def)
    have lt: "lookup t a = Some obj" using t(3) Some by simp
    have ok: "ok_object (sdb_db t) (sdb_trie t) a obj" "\<not> so_deleted obj" using lookup_ok[OF wf(1) lt] by auto
    let ?e = "suicideChange a (av_suicided w) (av_balance w)"
    let ?g = "\<lambda>x. so_setBalance (av_balance w) (x\<lparr> so_suicided := av_suicided w \<rparr>)"
    have rev: "entry_revert ?e x = on_object a ?g x" if "lookup x a \<noteq> None" for x
      using that fst_getStateObject[of a x] by (auto simp: on_object_def split: prod.split option.split)
    note set = view_set_object[OF gt(1) lt rev, where obj' = "so_setBalance 0 (so_markSuicided obj)"]
    have "ext t (setStateObject (so_setBalance 0 (so_markSuicided obj)) (journal_append ?e t))"
      "abs_state (setStateObject (so_setBalance 0 (so_markSuicided obj)) (journal_append ?e t)) =
       upd_acct a (w\<lparr> av_suicided := True, av_balance := 0 \<rparr>) (abs_state t)"
      using set ok wf(2) by (simp_all add: w_def)
    then show ?thesis
      using t(1) Some ext_trans[OF gt(2)] w wf by (simp add: Suicide_def acct_abs w_def[symmetric])
  qed
  then show "ext s (snd (Suicide a s))" "abs_state (snd (Suicide a s)) =
       (case acct a (abs_state s) of None \<Rightarrow> abs_state s
        | Some w \<Rightarrow> upd_acct a (w\<lparr> av_suicided := True, av_balance := 0 \<rparr>) (abs_state s))" by auto
qed

lemma CreateAccount_effect:
  assumes "good s"
  shows "ext s (CreateAccount a s)"
    "abs_state (CreateAccount a s) = upd_acct a ((new_view (sdb_db s) a)\<lparr> av_balance := bal a (abs_state s) \<rparr>) (abs_state s)"
proof -
  let ?o = "newObject (sdb_db s) a 0 None 0 None"
  obtain s' where s': "createObject a s = (?o, lookup s a, s')"
    "ext s s'" "abs_state s' = upd_acct a (new_view (sdb_db s) a) (abs_state s)"
    and set: "\<And>obj. ok_object (sdb_db s) (sdb_trie s) a obj \<Longrightarrow> \<not> so_deleted obj \<Longrightarrow>
       ext s (setStateObject obj s') \<and>
       abs_state (setStateObject obj s') = upd_acct a (view_object (sdb_db s) obj) (abs_state s)"
    using createObject_cases[OF assms, of a] by metis
  have ok: "ok_object (sdb_db s) (sdb_trie s) a ?o" using assms newObject_ok by (auto simp: good_def wf_state_def)
  have "av_balance (new_view (sdb_db s) a) = 0" by (simp add: new_view_def view_object_def newObject_def)
  then have "(new_view (sdb_db s) a)\<lparr> av_balance := 0 \<rparr> = new_view (sdb_db s) a" by simp
  then show "ext s (CreateAccount a s)"
    "abs_state (CreateAccount a s) = upd_acct a ((new_view (sdb_db s) a)\<lparr> av_balance := bal a (abs_state s) \<rparr>) (abs_state s)"
    using s' set[of "so_setBalance (bal a (abs_state s)) ?o"] ok
    by (auto simp: CreateAccount_def bal_def acct_abs view_object_def[of _ x for x, THEN arg_cong[where f = av_balance]]
        new_view_def split: option.split)
qed

lemma abs_update_simps [simp]:
  "abs_state (s\<lparr> sdb_refund := r \<rparr>) = (abs_state s)\<lparr> v_refund := r \<rparr>"
  "abs_state (s\<lparr> sdb_preimages := p \<rparr>) = (abs_state s)\<lparr> v_preimages := p \<rparr>"
  "abs_state (s\<lparr> sdb_logSize := n \<rparr>) = (abs_state s)\<lparr> v_logSize := n \<rparr>"
  "abs_state (s\<lparr> sdb_logs := l \<rparr>) = (abs_state s)\<lparr> v_logs := (\<lambda>h. or_else (l h) []) \<rparr>"
  "abs_state (s\<lparr> sdb_nextRevisionId := i \<rparr>) = abs_state s" "abs_state (s\<lparr> sdb_validRevisions := v \<rparr>) = abs_state s"
  "abs_state (s\<lparr> sdb_journal := j \<rparr>) = abs_state s"
  "wf_state (s\<lparr> sdb_refund := r \<rparr>) = wf_state s" "wf_state (s\<lparr> sdb_preimages := p \<rparr>) = wf_state s"
  "wf_state (s\<lparr> sdb_logSize := n \<rparr>) = wf_state s" "wf_state (s\<lparr> sdb_logs := l \<rparr>) = wf_state s"
  "wf_state (s\<lparr> sdb_nextRevisionId := i \<rparr>) = wf_state s" "wf_state (s\<lparr> sdb_validRevisions := v \<rparr>) = wf_state s"
  "wf_state (s\<lparr> sdb_journal := j \<rparr>) = wf_state s"
  by (simp_all add: abs_state_def wf_state_def GetLogs_def or_else_def fun_eq_iff split: option.split)

lemma abs_fields:
  "v_refund (abs_state s) = sdb_refund s" "v_preimages (abs_state s) = sdb_preimages s"
  "v_logSize (abs_state s) = sdb_logSize s" "v_logs (abs_state s) = (\<lambda>h. GetLogs h s)"
  by (simp_all add: abs_state_def)

lemma AddRefund_effect:
  assumes "good s"
  shows "ext s (AddRefund gas s)"
    "abs_state (AddRefund gas s) = (abs_state s)\<lparr> v_refund := v_refund (abs_state s) + gas \<rparr>"
proof -
  show abs: "abs_state (AddRefund gas s) = (abs_state s)\<lparr> v_refund := v_refund (abs_state s) + gas \<rparr>"
    by (simp add: AddRefund_def Let_def abs_fields)
  have "undoes (sdb_db s) (sdb_trie s) [refundChange (sdb_refund s)] (abs_state (AddRefund gas s)) (abs_state s)"
    unfolding abs by (rule undoes_single) (auto simp: keeps_def abs_fields)
  then show "ext s (AddRefund gas s)"
    using assms by (rule_tac e = "refundChange (sdb_refund s)" in ext_append) (simp_all add: AddRefund_def Let_def keeps_def)
qed

lemma AddPreimage_effect:
  assumes "good s"
  shows "ext s (AddPreimage h p s)"
    "abs_state (AddPreimage h p s) =
       (if v_preimages (abs_state s) h = None then (abs_state s)\<lparr> v_preimages := (v_preimages (abs_state s))(h \<mapsto> p) \<rparr>
        else abs_state s)"
proof -
  show abs: "abs_state (AddPreimage h p s) =
       (if v_preimages (abs_state s) h = None then (abs_state s)\<lparr> v_preimages := (v_preimages (abs_state s))(h \<mapsto> p) \<rparr>
        else abs_state s)"
    by (auto simp: AddPreimage_def abs_fields split: option.split)
  show "ext s (AddPreimage h p s)"
  proof (cases "sdb_preimages s h")
    case None
    have "undoes (sdb_db s) (sdb_trie s) [addPreimageChange h] (abs_state (AddPreimage h p s)) (abs_state s)"
    proof (rule undoes_single)
      fix t assume t: "abs_state t = abs_state (AddPreimage h p s)"
      have "sdb_preimages t = (sdb_preimages s)(h \<mapsto> p)"
        using arg_cong[OF t, of v_preimages] None by (simp add: abs abs_fields)
      then show "\<exists>t'. entry_revert (addPreimageChange h) t = Some t' \<and> keeps t t' \<and> abs_state t' = abs_state s"
        using t None by (simp add: keeps_def abs abs_fields fun_upd_idem)
    qed
    then show ?thesis
      using assms None by (rule_tac e = "addPreimageChange h" in ext_append) (simp_all add: AddPreimage_def keeps_def)
  qed (use assms in \<open>simp add: AddPreimage_def\<close>)
qed

definition stamped :: "'t StateDB \<Rightarrow> Log \<Rightarrow> Log" where
  "stamped s l = l\<lparr> log_TxHash := sdb_thash s, log_BlockHash := sdb_bhash s, log_TxIndex := sdb_txIndex s,
                    log_Index := sdb_logSize s \<rparr>"

lemma AddLog_effect:
  assumes "good s"
  shows "ext s (AddLog l s)"
    "abs_state (AddLog l s) =
       (abs_state s)\<lparr> v_logs := (v_logs (abs_state s))(sdb_thash s := v_logs (abs_state s) (sdb_thash s) @ [stamped s l]),
                      v_logSize := v_logSize (abs_state s) + 1 \<rparr>"
proof -
  show abs: "abs_state (AddLog l s) =
       (abs_state s)\<lparr> v_logs := (v_logs (abs_state s))(sdb_thash s := v_logs (abs_state s) (sdb_thash s) @ [stamped s l]),
                      v_logSize := v_logSize (abs_state s) + 1 \<rparr>"
    by (auto simp: AddLog_def Let_def abs_fields stamped_def fun_eq_iff GetLogs_def or_else_def)
  have "undoes (sdb_db s) (sdb_trie s) [addLogChange (sdb_thash s)] (abs_state (AddLog l s)) (abs_state s)"
  proof (rule undoes_single)
    fix t assume t: "abs_state t = abs_state (AddLog l s)"
    let ?h = "sdb_thash s"
    have logs: "GetLogs x t = (if x = ?h then GetLogs ?h s @ [stamped s l] else GetLogs x s)" for x
      using fun_cong[OF arg_cong[OF t, of v_logs], of x] by (simp add: abs abs_fields)
    have size: "sdb_logSize t = sdb_logSize s + 1"
      using arg_cong[OF t, of v_logSize] by (simp add: abs abs_fields)
    have eq: "(\<lambda>x. or_else (((sdb_logs t)(?h := m)) x) []) = (\<lambda>x. GetLogs x s)" if "or_else m [] = GetLogs ?h s" for m
      using that logs by (auto simp: fun_eq_iff GetLogs_def[of _ t] or_else_def)
    have v: "(abs_state t)\<lparr> v_logs := (\<lambda>x. GetLogs x s), v_logSize := sdb_logSize s \<rparr> = abs_state s"
      unfolding t abs by (simp add: abs_fields[symmetric])
    have nil: "GetLogs ?h s = []" if "length (GetLogs ?h t) = 1" using that logs[of ?h] by simp
    show "\<exists>t'. entry_revert (addLogChange ?h) t = Some t' \<and> keeps t t' \<and> abs_state t' = abs_state s"
      using eq[of None] eq[of "Some (GetLogs ?h s)"] logs[of ?h] size v
      by (cases "GetLogs ?h s = []") (simp_all add: Let_def keeps_def)
  qed
  then show "ext s (AddLog l s)"
    using assms by (rule_tac e = "addLogChange (sdb_thash s)" in ext_append) (simp_all add: AddLog_def Let_def keeps_def)
qed

section \<open>Snapshots\<close>

lemma search_loop_spec:
  assumes "i \<le> j" "\<And>x y. x \<le> y \<Longrightarrow> y < j \<Longrightarrow> p x \<Longrightarrow> p y"
  shows "i \<le> search_loop p i j \<and> search_loop p i j \<le> j \<and> (\<forall>h. i \<le> h \<and> h < search_loop p i j \<longrightarrow> \<not> p h) \<and>
         (search_loop p i j < j \<longrightarrow> p (search_loop p i j))"
  using assms
proof (induction p i j rule: search_loop.induct)
  case (1 p i j)
  show ?case
  proof (cases "i < j")
    case True
    let ?h = "(i + j) div 2"
    have h: "i \<le> ?h" "?h < j" using True by auto
    show ?thesis
    proof (cases "p ?h")
      case False
      have eq: "search_loop p i j = search_loop p (?h + 1) j"
        using True False by (subst search_loop.simps) (simp add: Let_def)
      have no: "\<not> p x" if "x < ?h + 1" for x using 1(4)[of x ?h] that h False by auto
      have IH: "?h + 1 \<le> search_loop p (?h + 1) j \<and> search_loop p (?h + 1) j \<le> j \<and>
          (\<forall>x. ?h + 1 \<le> x \<and> x < search_loop p (?h + 1) j \<longrightarrow> \<not> p x) \<and>
          (search_loop p (?h + 1) j < j \<longrightarrow> p (search_loop p (?h + 1) j))"
        using 1(1)[OF True refl False] h 1(4) by fastforce
      have "\<not> p x" if "x < search_loop p (?h + 1) j" for x
        using IH no[of x] that by (cases "x < ?h + 1") auto
      moreover have "i \<le> search_loop p (?h + 1) j" using IH h(1) by linarith
      ultimately show ?thesis unfolding eq using IH by blast
    next
      case p: True
      have eq: "search_loop p i j = search_loop p i ?h"
        using True p by (subst search_loop.simps) (simp add: Let_def)
      have mono: "x \<le> y \<Longrightarrow> y < ?h \<Longrightarrow> p x \<Longrightarrow> p y" for x y using 1(4)[of x y] h by auto
      have "i \<le> search_loop p i ?h \<and> search_loop p i ?h \<le> ?h \<and>
          (\<forall>x. i \<le> x \<and> x < search_loop p i ?h \<longrightarrow> \<not> p x) \<and> (search_loop p i ?h < ?h \<longrightarrow> p (search_loop p i ?h))"
        by (rule 1(2)[OF True refl]) (use p h mono in auto)
      moreover have "p (search_loop p i ?h)" using calculation p by (cases "search_loop p i ?h = ?h") auto
      ultimately show ?thesis unfolding eq using h(2) by (meson le_less_trans less_imp_le)
    qed
  qed (use 1(3) in \<open>auto simp: search_loop.simps\<close>)
qed

lemma sort_Search_revision:
  assumes "sorted_wrt (<) (map fst (R @ (rid, n) # rs))"
  shows "sort_Search (length (R @ (rid, n) # rs)) (\<lambda>i. fst ((R @ (rid, n) # rs) ! i) \<ge> (rid :: nat)) = length R"
proof -
  let ?L = "R @ (rid, n) # rs" and ?p = "\<lambda>i. fst ((R @ (rid, n) # rs) ! i) \<ge> (rid :: nat)"
  have mono: "?p y" if "x \<le> y" "y < length ?L" "?p x" for x y
  proof (cases "x = y")
    case False
    then have "map fst ?L ! x < map fst ?L ! y" using sorted_wrt_nth_less[OF assms, of x y] that by simp
    then have "fst (?L ! x) < fst (?L ! y)" using that(1,2) nth_map[of _ ?L fst] by (metis le_less_trans)
    then show ?thesis using that(3) by linarith
  qed (use that in simp)
  have before: "\<not> ?p x" if "x < length R" for x
    using sorted_wrt_nth_less[OF assms, of x "length R"] that by (simp add: nth_append)
  have at: "?p (length R)" by simp
  note spec = search_loop_spec[of 0 "length ?L" ?p, OF _ mono]
  have "\<not> sort_Search (length ?L) ?p < length R" using spec before unfolding sort_Search_def by fastforce
  moreover have "\<not> length R < sort_Search (length ?L) ?p" using spec at unfolding sort_Search_def by fastforce
  ultimately show ?thesis by simp
qed

text \<open>\<open>RevertToSnapshot\<close> with the identifier that \<open>Snapshot\<close> returned restores the view, the journal
  and the revisions, whatever happened in between.\<close>

lemma Snapshot_fields [simp]:
  "fst (Snapshot s) = sdb_nextRevisionId s" "abs_state (snd (Snapshot s)) = abs_state s"
  "wf_state (snd (Snapshot s)) = wf_state s" "sdb_db (snd (Snapshot s)) = sdb_db s"
  "sdb_trie (snd (Snapshot s)) = sdb_trie s" "sdb_journal (snd (Snapshot s)) = sdb_journal s"
  "sdb_validRevisions (snd (Snapshot s)) = sdb_validRevisions s @ [(sdb_nextRevisionId s, length (entries s))]"
  "sdb_nextRevisionId (snd (Snapshot s)) = sdb_nextRevisionId s + 1"
  "sdb_thash (snd (Snapshot s)) = sdb_thash s" "sdb_bhash (snd (Snapshot s)) = sdb_bhash s"
  "sdb_txIndex (snd (Snapshot s)) = sdb_txIndex s"
  by (simp_all add: Snapshot_def Let_def)

lemma ext_Snapshot: "good s \<Longrightarrow> ext s (snd (Snapshot s))"
  by (fastforce simp: ext_def good_def revs_ok_def sorted_wrt_append)

lemma revert_to_snapshot:
  assumes "good s" "ext (snd (Snapshot s)) s2"
  obtains s3 where "RevertToSnapshot (fst (Snapshot s)) s2 = Some s3" "abs_state s3 = abs_state s" "ext s s3"
    "entries s3 = entries s" "sdb_validRevisions s3 = sdb_validRevisions s"
proof -
  let ?R = "sdb_validRevisions s" and ?id = "sdb_nextRevisionId s" and ?n = "length (entries s)"
  obtain es where es: "entries s2 = entries s @ es" "undoes (sdb_db s) (sdb_trie s) es (abs_state s2) (abs_state s)"
    using assms(2) by (auto simp: ext_def)
  obtain rs where rs: "sdb_validRevisions s2 = ?R @ (?id, ?n) # rs" using assms(2) by (auto simp: ext_def)
  have s2: "wf_state s2" "revs_ok s2" "sdb_db s2 = sdb_db s" "sdb_trie s2 = sdb_trie s"
    "?id + 1 \<le> sdb_nextRevisionId s2" "sdb_thash s2 = sdb_thash s" "sdb_bhash s2 = sdb_bhash s" "sdb_txIndex s2 = sdb_txIndex s"
    using assms(2) by (auto simp: ext_def good_def)
  obtain t where t: "revert_loop (rev es) s2 = Some t" "wf_state t" "sdb_db t = sdb_db s" "sdb_trie t = sdb_trie s"
    "abs_state t = abs_state s" "entries t = entries s2" "sdb_validRevisions t = sdb_validRevisions s2"
    "sdb_nextRevisionId t = sdb_nextRevisionId s2"
    "sdb_thash t = sdb_thash s2" "sdb_bhash t = sdb_bhash s2" "sdb_txIndex t = sdb_txIndex s2"
    using es(2) s2 unfolding undoes_def by blast
  define s3 where "s3 = t\<lparr> sdb_journal := (sdb_journal t)\<lparr> journal_entries := entries s \<rparr>, sdb_validRevisions := ?R \<rparr>"
  have "sorted_wrt (<) (map fst (?R @ (?id, ?n) # rs))" using s2(2) rs by (simp add: revs_ok_def)
  from sort_Search_revision[OF this]
  have "RevertToSnapshot ?id s2 = Some s3"
    unfolding RevertToSnapshot_def rs Let_def using t es(1)
    by (simp add: journal_revert_def s3_def rs nth_append)
  moreover have "good s3"
    using assms(1) t s2 by (fastforce simp: good_def s3_def revs_ok_def)
  ultimately show thesis
    using that[of s3] t s2 by (simp add: s3_def ext_def)
qed

section \<open>Sequences of operations\<close>

text \<open>What a program can do with a state: any sequence of reads, writes and snapshots, in which a
  snapshot may be followed by further operations and reverted to.\<close>

inductive operates :: "'t StateDB \<Rightarrow> 't StateDB \<Rightarrow> bool" where
  op_none: "operates s s"
| op_seq: "operates s t \<Longrightarrow> operates t u \<Longrightarrow> operates s u"
| op_Exist: "operates s (snd (Exist a s))"
| op_Empty: "operates s (snd (Empty a s))"
| op_GetBalance: "operates s (snd (GetBalance a s))"
| op_GetNonce: "operates s (snd (GetNonce a s))"
| op_GetCode: "operates s (snd (GetCode a s))"
| op_GetCodeSize: "operates s (snd (GetCodeSize a s))"
| op_GetCodeHash: "operates s (snd (GetCodeHash a s))"
| op_GetState: "operates s (snd (GetState a k s))"
| op_HasSuicided: "operates s (snd (HasSuicided a s))"
| op_CreateAccount: "operates s (CreateAccount a s)"
| op_AddBalance: "operates s (AddBalance a x s)"
| op_SubBalance: "operates s (SubBalance a x s)"
| op_SetBalance: "operates s (SetBalance a x s)"
| op_SetNonce: "operates s (SetNonce a n s)"
| op_SetCode: "operates s (SetCode a c s)"
| op_SetState: "operates s (SetState a k v s)"
| op_Suicide: "operates s (snd (Suicide a s))"
| op_AddRefund: "operates s (AddRefund g s)"
| op_AddLog: "operates s (AddLog l s)"
| op_AddPreimage: "operates s (AddPreimage h b s)"
| op_Snapshot: "operates s (snd (Snapshot s))"
| op_Revert: "operates (snd (Snapshot s)) t \<Longrightarrow> RevertToSnapshot (fst (Snapshot s)) t = Some u \<Longrightarrow> operates s u"

lemma operates_ext: "operates s t \<Longrightarrow> good s \<Longrightarrow> ext s t"
proof (induction rule: operates.induct)
  case (op_seq s t u)
  then show ?case using ext_good ext_trans by blast
next
  case (op_Revert s t u)
  then have "ext (snd (Snapshot s)) t" using ext_good ext_Snapshot by blast
  then show ?case using revert_to_snapshot[OF op_Revert.prems, of t] op_Revert.hyps(2) by auto
next
  case (op_GetCode s a)
  then show ?case by (intro ext_quiet quiet_GetCode) (auto simp: good_def)
next
  case (op_GetState s a k)
  then show ?case by (intro ext_quiet quiet_GetState) (auto simp: good_def)
qed (simp_all add: ext_quiet quiet_simple_getters quiet_GetCodeSize CreateAccount_effect AddBalance_effect
    SubBalance_effect SetBalance_effect SetNonce_effect SetCode_effect SetState_effect Suicide_effect
    AddRefund_effect AddLog_effect AddPreimage_effect ext_Snapshot)

section \<open>Contracts of a state\<close>

text \<open>What a client relies on when it moves ether: a ledger of balances, credited and debited one
  address at a time.\<close>

locale ledger =
  fixes ok :: "'s \<Rightarrow> bool"
    and balance :: "'a :: finite \<Rightarrow> 's \<Rightarrow> int"
    and credit debit :: "'a \<Rightarrow> int \<Rightarrow> 's \<Rightarrow> 's"
  assumes credit_ok: "ok s \<Longrightarrow> ok (credit a x s)"
    and debit_ok: "ok s \<Longrightarrow> ok (debit a x s)"
    and balance_credit: "ok s \<Longrightarrow> balance b (credit a x s) = balance b s + (if b = a then x else 0)"
    and balance_debit: "ok s \<Longrightarrow> balance b (debit a x s) = balance b s - (if b = a then x else 0)"
begin

lemma transfer_balance:
  "ok s \<Longrightarrow> balance b (credit r x (debit p x s)) =
     balance b s + (if b = r then x else 0) - (if b = p then x else 0)"
  by (simp add: balance_credit balance_debit debit_ok)

lemma transfer_total:
  assumes "ok s"
  shows "(\<Sum>b\<in>UNIV. balance b (credit r x (debit p x s))) = (\<Sum>b\<in>UNIV. balance b s)"
  using assms by (simp add: transfer_balance sum_subtractf sum.distrib)

lemma transfer_nonnegative:
  assumes "ok s" "\<And>b. 0 \<le> balance b s" "0 \<le> x" "x \<le> balance p s"
  shows "0 \<le> balance b (credit r x (debit p x s))"
  using assms(2)[of b] assms by (auto simp: transfer_balance)

end

text \<open>What a client relies on when it undoes work: snapshots that can be reverted to after any number
  of further steps.\<close>

locale journaled =
  fixes ok :: "'s \<Rightarrow> bool"
    and steps :: "'s \<Rightarrow> 's \<Rightarrow> bool"
    and view :: "'s \<Rightarrow> 'v"
    and snap :: "'s \<Rightarrow> 'i \<times> 's"
    and revert :: "'i \<Rightarrow> 's \<Rightarrow> 's option"
  assumes steps_ok: "steps s t \<Longrightarrow> ok t"
    and steps_refl: "ok s \<Longrightarrow> steps s s"
    and steps_trans: "steps s t \<Longrightarrow> steps t u \<Longrightarrow> steps s u"
    and snap_steps: "ok s \<Longrightarrow> steps s (snd (snap s)) \<and> view (snd (snap s)) = view s"
    and revert_snap: "ok s \<Longrightarrow> steps (snd (snap s)) t \<Longrightarrow>
      \<exists>u. revert (fst (snap s)) t = Some u \<and> view u = view s \<and> steps s u"
begin

text \<open>Work between a snapshot and a conditional revert is atomic: it happens completely or not at
  all, and the revert does not panic.\<close>

lemma atomic:
  assumes "ok s" "steps (snd (snap s)) t"
  shows "\<exists>u. (if failed then revert (fst (snap s)) t else Some t) = Some u \<and> steps s u \<and>
             (if failed then view u = view s else u = t)"
  using assms revert_snap[OF assms] snap_steps[of s] steps_trans by (cases failed) auto

lemma nested:
  assumes "ok s" "steps (snd (snap s)) t" "steps (snd (snap t)) u" "revert (fst (snap t)) u = Some u'"
  shows "\<exists>r. revert (fst (snap s)) u' = Some r \<and> view r = view s"
proof -
  have "ok t" using assms(2) by (rule steps_ok)
  with assms(3,4) have "steps t u'" using revert_snap by fastforce
  then show ?thesis using revert_snap[OF assms(1)] steps_trans assms(2) by blast
qed

end

lemma bal_on_acct:
  "bal b (on_acct db a (\<lambda>w. w\<lparr> av_balance := av_balance w + x \<rparr>) v) = bal b v + (if b = a then x else 0)"
  by (simp add: bal_def on_acct_def acct_or_new_def new_view_def view_object_def newObject_def split: option.split)

lemma bal_on_acct_sub:
  "bal b (on_acct db a (\<lambda>w. w\<lparr> av_balance := av_balance w - x \<rparr>) v) = bal b v - (if b = a then x else 0)"
  using bal_on_acct[of b db a "- x" v] by simp

interpretation sdb_ledger: ledger good "\<lambda>a s. fst (GetBalance a s)" AddBalance SubBalance
  by unfold_locales
    (auto simp: GetBalance_view AddBalance_effect SubBalance_effect bal_on_acct bal_on_acct_sub
      intro: ext_good AddBalance_effect SubBalance_effect)

interpretation sdb_journal: journaled good ext abs_state Snapshot RevertToSnapshot
proof unfold_locales
  fix s t :: "'a StateDB"
  assume "good s" "ext (snd (Snapshot s)) t"
  then show "\<exists>u. RevertToSnapshot (fst (Snapshot s)) t = Some u \<and> abs_state u = abs_state s \<and> ext s u"
    by (rule revert_to_snapshot) blast
qed (auto intro: ext_good ext_trans ext_Snapshot)

section \<open>Properties\<close>

text \<open>The hypotheses are met by a database that keeps tries as association lists. Its root hashes are
  all zero and so is its hash function; it only serves to instantiate the theorems.\<close>

definition memory_db :: "(bytes \<times> bytes) list Database" where
  "memory_db =
     \<lparr> OpenTrie = (\<lambda>_. Inr []), OpenStorageTrie = (\<lambda>_ _. ([], None)), ContractCode = (\<lambda>_ _. (None, None)),
       ContractCodeSize = (\<lambda>_ _. (0, None)),
       TryGet = (\<lambda>t k. (case map_of t k of None \<Rightarrow> [] | Some v \<Rightarrow> v, None)),
       TryUpdate = (\<lambda>t k v. ((k, v) # t, None)), TryDelete = (\<lambda>t k. (filter (\<lambda>e. fst e \<noteq> k) t, None)),
       Trie_Hash = (\<lambda>_. 0), Trie_Commit = (\<lambda>t. (t, 0, None)), Keccak256 = (\<lambda>_. replicate 32 0) \<rparr>"

definition memory_state :: "(bytes \<times> bytes) list StateDB" where
  "memory_state = (case New 0 memory_db of Inr s \<Rightarrow> s | Inl _ \<Rightarrow> undefined)"

lemma memory_state_fields [simp]:
  "sdb_db memory_state = memory_db" "sdb_objects memory_state = Map.empty" "sdb_trie memory_state = []"
  "sdb_validRevisions memory_state = []" "sdb_nextRevisionId memory_state = 0" "sdb_refund memory_state = 0"
  "sdb_preimages memory_state = Map.empty"
  "sdb_logs memory_state = Map.empty" "entries memory_state = []"
  by (simp_all add: memory_state_def New_def memory_db_def newJournal_def)

lemma memory_db_trie [simp]: "TryGet memory_db [] k = ([], None)" "OpenStorageTrie memory_db h r = ([], None)"
  by (simp_all add: memory_db_def)

lemma good_memory_state [simp]: "good memory_state"
  by (simp add: good_def wf_state_def revs_ok_def trie_object_def emptyCodeHash_def)
    (simp add: memory_db_def)

text \<open>A new state over any database whose accounts have code hashes of 32 bytes is well formed.\<close>

lemma good_New:
  assumes "New root db = Inr s" "length (Keccak256 db []) = 32"
    "\<And>a obj. trie_object db (sdb_trie s) a = Some obj \<Longrightarrow> length (acc_CodeHash (so_data obj)) = 32"
  shows "good s"
  using assms by (auto simp: New_def good_def wf_state_def revs_ok_def emptyCodeHash_def split: sum.splits)

text \<open>C7: After a snapshot, any sequence of reads, writes, snapshots and reverts can be undone:
  \<open>RevertToSnapshot\<close> with the identifier of the snapshot does not panic, and every account (nonce,
  balance, code, code hash, storage, suicide flag), the refund counter, the logs and the preimages are
  as they were when the snapshot was taken.\<close>

theorem RevertToSnapshot_restores:
  assumes "good s" "operates (snd (Snapshot s)) t"
  shows "\<exists>u. RevertToSnapshot (fst (Snapshot s)) t = Some u \<and> abs_state u = abs_state s \<and> good u"
proof -
  have "ext (snd (Snapshot s)) t"
    using assms operates_ext ext_good ext_Snapshot by blast
  then show ?thesis
    using sdb_journal.revert_snap[OF assms(1)] ext_good by blast
qed

theorem RevertToSnapshot_restores_witness:
  "\<exists>u. RevertToSnapshot (fst (Snapshot memory_state))
         (AddBalance 7 5 (SetState 7 1 9 (snd (Snapshot memory_state)))) = Some u \<and>
       abs_state u = abs_state memory_state \<and> good u"
  by (rule RevertToSnapshot_restores[OF good_memory_state op_seq[OF op_SetState op_AddBalance]])

section \<open>Everything that can be read\<close>

text \<open>All that the reading operations of a state return.\<close>

record observed =
  o_exists :: "address \<Rightarrow> bool"
  o_balance :: "address \<Rightarrow> int"
  o_nonce :: "address \<Rightarrow> uint64"
  o_codehash :: "address \<Rightarrow> hash"
  o_code :: "address \<Rightarrow> bytes option"
  o_state :: "address \<Rightarrow> hash \<Rightarrow> hash"
  o_suicided :: "address \<Rightarrow> bool"
  o_refund :: uint64
  o_logs :: "hash \<Rightarrow> Log list"
  o_preimages :: "hash \<rightharpoonup> bytes"

definition observe :: "'t StateDB \<Rightarrow> observed" where
  "observe s =
     \<lparr> o_exists = \<lambda>a. fst (Exist a s), o_balance = \<lambda>a. fst (GetBalance a s), o_nonce = \<lambda>a. fst (GetNonce a s),
       o_codehash = \<lambda>a. fst (GetCodeHash a s), o_code = \<lambda>a. fst (GetCode a s), o_state = \<lambda>a k. fst (GetState a k s),
       o_suicided = \<lambda>a. fst (HasSuicided a s), o_refund = GetRefund s, o_logs = \<lambda>h. GetLogs h s,
       o_preimages = sdb_preimages s \<rparr>"

text \<open>Writing to an account that does not exist creates it, with the hash of no code.\<close>

definition ensure :: "hash \<Rightarrow> address \<Rightarrow> observed \<Rightarrow> observed" where
  "ensure noCode a ob =
     (if o_exists ob a then ob
      else ob\<lparr> o_exists := (o_exists ob)(a := True), o_codehash := (o_codehash ob)(a := noCode) \<rparr>)"

definition view_obs :: "state_view \<Rightarrow> observed" where
  "view_obs v =
     \<lparr> o_exists = \<lambda>a. acct a v \<noteq> None, o_balance = \<lambda>a. bal a v, o_nonce = \<lambda>a. nonce_of a v,
       o_codehash = \<lambda>a. (case acct a v of None \<Rightarrow> 0 | Some w \<Rightarrow> BytesToHash (av_codehash w)), o_code = \<lambda>a. code_of a v,
       o_state = \<lambda>a k. storage_of a k v, o_suicided = \<lambda>a. \<exists>w. acct a v = Some w \<and> av_suicided w,
       o_refund = v_refund v, o_logs = v_logs v, o_preimages = v_preimages v \<rparr>"

lemma observe_view: "observe s = view_obs (abs_state s)"
  by (simp add: observe_def view_obs_def Exist_view GetBalance_view GetNonce_view GetCodeHash_view GetCode_view GetState_view
      HasSuicided_view) (simp add: abs_state_def GetRefund_def)

text \<open>An account that is new to the state has no balance, nonce, code or storage.\<close>

lemma new_view_observed:
  assumes "\<And>h k. stored_slot db (storage_trie db h 0) k = 0"
  shows "av_storage (new_view db a) = (\<lambda>k. 0)" "av_balance (new_view db a) = 0" "av_nonce (new_view db a) = 0"
    "av_code (new_view db a) = None" "\<not> av_suicided (new_view db a)" "av_codehash (new_view db a) = Keccak256 db []"
  using assms
  by (simp_all add: new_view_def view_object_def fst_so_GetState fst_so_getTrie newObject_def fun_eq_iff so_Code_def emptyCodeHash_def)

lemma upd_acct_observed:
  "v_refund (upd_acct a w v) = v_refund v" "v_logs (upd_acct a w v) = v_logs v" "v_preimages (upd_acct a w v) = v_preimages v"
  by (simp_all add: upd_acct_def)

lemma view_obs_on_acct:
  assumes "\<And>h k. stored_slot db (storage_trie db h 0) k = 0"
  shows "view_obs (on_acct db a f v) =
    (let ob = ensure (Keccak256Hash db []) a (view_obs v); w = f (acct_or_new db a v)
     in ob\<lparr> o_balance := (o_balance ob)(a := av_balance w), o_nonce := (o_nonce ob)(a := av_nonce w),
           o_codehash := (o_codehash ob)(a := BytesToHash (av_codehash w)), o_code := (o_code ob)(a := av_code w),
           o_state := (o_state ob)(a := av_storage w), o_suicided := (o_suicided ob)(a := av_suicided w) \<rparr>)"
  by (auto simp: view_obs_def on_acct_def ensure_def Let_def fun_eq_iff bal_def nonce_of_def code_of_def storage_of_def
      upd_acct_observed)

lemma acct_or_new_obs:
  assumes "\<And>h k. stored_slot db (storage_trie db h 0) k = 0"
  shows "av_balance (acct_or_new db a v) = o_balance (view_obs v) a" "av_nonce (acct_or_new db a v) = o_nonce (view_obs v) a"
    "BytesToHash (av_codehash (acct_or_new db a v)) = o_codehash (ensure (Keccak256Hash db []) a (view_obs v)) a"
    "av_code (acct_or_new db a v) = o_code (view_obs v) a" "av_storage (acct_or_new db a v) = o_state (view_obs v) a"
    "av_suicided (acct_or_new db a v) = o_suicided (view_obs v) a"
  using new_view_observed[OF assms]
  by (auto simp: view_obs_def acct_or_new_def ensure_def bal_def nonce_of_def code_of_def storage_of_def Keccak256Hash_def
      split: option.split)

lemma ensure_fields [simp]:
  "o_balance (ensure h a ob) = o_balance ob" "o_nonce (ensure h a ob) = o_nonce ob" "o_code (ensure h a ob) = o_code ob"
  "o_state (ensure h a ob) = o_state ob" "o_suicided (ensure h a ob) = o_suicided ob"
  by (simp_all add: ensure_def)

text \<open>C26: Reading after writing: what \<open>SetState\<close>, \<open>AddBalance\<close>, \<open>SubBalance\<close>, \<open>SetBalance\<close>, \<open>SetNonce\<close> and
  \<open>SetCode\<close> write is read back, and nothing else that can be read changes: for all accounts the existence,
  balance, nonce, code, code hash, storage and suicide flag, and the refund counter, the logs and the
  preimages. The only other effect is that an account that did not exist is created. The second
  hypothesis is the contract of \<open>OpenStorageTrie\<close>: the zero root is the empty trie.\<close>

theorem StateDB_read_write:
  fixes s :: "'t StateDB" and a :: address
  assumes "good s" "\<And>h k. stored_slot (sdb_db s) (storage_trie (sdb_db s) h 0) k = 0"
  defines "ob \<equiv> ensure (Keccak256Hash (sdb_db s) []) a (observe s)"
  shows "observe (SetState a k v s) = ob\<lparr> o_state := (o_state ob)(a := (o_state ob a)(k := v)) \<rparr> \<and>
     observe (AddBalance a x s) = ob\<lparr> o_balance := (o_balance ob)(a := o_balance ob a + x) \<rparr> \<and>
     observe (SubBalance a x s) = ob\<lparr> o_balance := (o_balance ob)(a := o_balance ob a - x) \<rparr> \<and>
     observe (SetBalance a x s) = ob\<lparr> o_balance := (o_balance ob)(a := x) \<rparr> \<and>
     observe (SetNonce a n s) = ob\<lparr> o_nonce := (o_nonce ob)(a := n) \<rparr> \<and>
     observe (SetCode a (Some c) s) =
       ob\<lparr> o_code := (o_code ob)(a := Some c), o_codehash := (o_codehash ob)(a := Keccak256Hash (sdb_db s) c) \<rparr>"
proof (intro conjI)
  note v = view_obs_on_acct[OF assms(2)] acct_or_new_obs[OF assms(2)] ob_def observe_view Let_def
  show "observe (SetState a k v s) = ob\<lparr> o_state := (o_state ob)(a := (o_state ob a)(k := v)) \<rparr>"
    unfolding observe_view SetState_effect(2)[OF assms(1)] by (simp add: v)
  show "observe (AddBalance a x s) = ob\<lparr> o_balance := (o_balance ob)(a := o_balance ob a + x) \<rparr>"
    unfolding observe_view AddBalance_effect(2)[OF assms(1)] by (simp add: v)
  show "observe (SubBalance a x s) = ob\<lparr> o_balance := (o_balance ob)(a := o_balance ob a - x) \<rparr>"
    unfolding observe_view SubBalance_effect(2)[OF assms(1)] by (simp add: v)
  show "observe (SetBalance a x s) = ob\<lparr> o_balance := (o_balance ob)(a := x) \<rparr>"
    unfolding observe_view SetBalance_effect(2)[OF assms(1)] by (simp add: v)
  show "observe (SetNonce a n s) = ob\<lparr> o_nonce := (o_nonce ob)(a := n) \<rparr>"
    unfolding observe_view SetNonce_effect(2)[OF assms(1)] by (simp add: v)
  show "observe (SetCode a (Some c) s) =
       ob\<lparr> o_code := (o_code ob)(a := Some c), o_codehash := (o_codehash ob)(a := Keccak256Hash (sdb_db s) c) \<rparr>"
    unfolding observe_view SetCode_effect(2)[OF assms(1)] by (simp add: v code_or_def or_else_def)
qed

theorem StateDB_read_write_witness:
  "o_state (observe (SetState 7 1 9 memory_state)) 7 1 = 9 \<and> o_nonce (observe (SetState 7 1 9 memory_state)) = o_nonce (observe memory_state)"
proof -
  have "stored_slot (sdb_db memory_state) (storage_trie (sdb_db memory_state) h 0) k = 0" for h k
    by (simp add: stored_slot_def storage_trie_def storage_value_def)
  from StateDB_read_write[OF good_memory_state this, of 7 1 9] show ?thesis by simp
qed

end
