(* ===== verification/VM_Invariant.thy ===== *)
theory VM_Invariant
  imports VM_Interpreter StateDB_Revert
begin

text \<open>The invariants of the virtual machine and the relation between its states before and after a
  step: the state database advances (what it does can be undone, no ether is created, and in
  read-only mode nothing observable changes), the environment of the machine stays as it is.\<close>

section \<open>Code that returns\<close>

text \<open>\<open>yields m P\<close>: the code \<open>m\<close> does not panic and its result satisfies \<open>P\<close>. The rules of the
  collection \<open>yields\<close> take code apart.\<close>

named_theorems yields

definition yields :: "'a option \<Rightarrow> ('a \<Rightarrow> bool) \<Rightarrow> bool" where
  "yields m P \<longleftrightarrow> (\<exists>x. m = Some x \<and> P x)"

lemma yields_Some [yields]: "P x \<Longrightarrow> yields (Some x) P"
  by (simp add: yields_def)

lemma yields_Some_iff [simp]: "yields (Some x) P \<longleftrightarrow> P x"
  by (simp add: yields_def)

lemma yields_bind [yields]: "yields m (\<lambda>x. yields (f x) P) \<Longrightarrow> yields (m \<bind> f) P"
  by (auto simp: yields_def)

lemma yields_if [yields]:
  "(b \<Longrightarrow> yields m P) \<Longrightarrow> (\<not> b \<Longrightarrow> yields n P) \<Longrightarrow> yields (if b then m else n) P"
  by simp

lemma yields_mono: "yields m P \<Longrightarrow> (\<And>x. P x \<Longrightarrow> Q x) \<Longrightarrow> yields m Q"
  by (auto simp: yields_def)

lemma yields_prod: "yields m (\<lambda>x. P (fst x) (snd x)) \<Longrightarrow> yields m (\<lambda>(a, b). P a b)"
  by (simp add: case_prod_beta')

lemma yieldsE:
  assumes "yields m P"
  obtains x where "m = Some x" "P x"
  using assms by (auto simp: yields_def)

section \<open>Sizes\<close>

text \<open>Byte strings that are far below the range of 64-bit lengths, and integers that are 256-bit
  words.\<close>

definition small :: "'a list \<Rightarrow> bool" where
  "small xs \<longleftrightarrow> length xs < 2 ^ 62"

definition small_gas :: "uint64 \<Rightarrow> bool" where
  "small_gas g \<longleftrightarrow> unat g < 2 ^ 62"

definition is_word :: "int \<Rightarrow> bool" where
  "is_word x \<longleftrightarrow> 0 \<le> x \<and> x < tt256"

lemma small_Nil [simp]: "small []"
  by (simp add: small_def)

lemma small_le: "length xs \<le> length ys \<Longrightarrow> small ys \<Longrightarrow> small xs"
  by (simp add: small_def)

lemma small_gas_le: "g \<le> h \<Longrightarrow> small_gas h \<Longrightarrow> small_gas g"
  by (simp add: small_gas_def word_le_nat_alt)

lemma small_length: "length xs \<le> 2 ^ 41 \<Longrightarrow> small xs"
  by (simp add: small_def)

section \<open>The state database\<close>

definition acct_ok :: "'t Database \<Rightarrow> account_view \<Rightarrow> bool" where
  "acct_ok db w \<longleftrightarrow> 0 \<le> av_balance w \<and>
     (\<forall>c. av_code w = Some c \<longrightarrow> small c \<and> (c \<noteq> [] \<longrightarrow> BytesToHash (av_codehash w) = Keccak256Hash db c))"

definition ether :: "state_view \<Rightarrow> int" where
  "ether v = (\<Sum>a\<in>UNIV. bal a v)"

text \<open>What is required of the database: hashes have 32 bytes, byte strings of different lengths (below
  \<open>2 ^ 62\<close>) do not collide, and the zero root is the empty trie. The second requirement idealises the hash
  function: collisions exist, but none is known. It is used for the code of accounts, which is looked up by
  its hash: the length of a code is what its hash promises.\<close>

definition db_ok :: "'t Database \<Rightarrow> bool" where
  "db_ok db \<longleftrightarrow> (\<forall>b. length (Keccak256 db b) = 32) \<and>
     (\<forall>c d. small c \<longrightarrow> small d \<longrightarrow> Keccak256Hash db c = Keccak256Hash db d \<longrightarrow> length c = length d) \<and>
     (\<forall>h k. stored_slot db (storage_trie db h 0) k = 0)"

definition sdb_ok :: "'t StateDB \<Rightarrow> bool" where
  "sdb_ok s \<longleftrightarrow> good s \<and> db_ok (sdb_db s) \<and> ether (abs_state s) < tt256 \<and>
     (\<forall>a w. acct a (abs_state s) = Some w \<longrightarrow> acct_ok (sdb_db s) w)"

text \<open>Nothing that the getters and the logs show is different, except that accounts without balance,
  nonce, code and storage may have been created.\<close>

definition suicided :: "address \<Rightarrow> state_view \<Rightarrow> bool" where
  "suicided a v \<longleftrightarrow> (\<exists>w. acct a v = Some w \<and> av_suicided w)"

definition same_obs :: "state_view \<Rightarrow> state_view \<Rightarrow> bool" where
  "same_obs v v' \<longleftrightarrow>
     (\<forall>a. bal a v' = bal a v \<and> nonce_of a v' = nonce_of a v \<and> code_of a v' = code_of a v \<and>
          (\<forall>k. storage_of a k v' = storage_of a k v) \<and> suicided a v' = suicided a v) \<and>
     v_refund v' = v_refund v \<and> v_logs v' = v_logs v \<and> v_logSize v' = v_logSize v"

lemma same_obs_refl [simp]: "same_obs v v"
  by (simp add: same_obs_def)

lemma same_obs_trans: "same_obs u v \<Longrightarrow> same_obs v w \<Longrightarrow> same_obs u w"
  by (simp add: same_obs_def)

definition advance :: "bool \<Rightarrow> 't StateDB \<Rightarrow> 't StateDB \<Rightarrow> bool" where
  "advance ro s s' \<longleftrightarrow> ext s s' \<and> sdb_ok s' \<and> ether (abs_state s') \<le> ether (abs_state s) \<and>
     (ro \<longrightarrow> same_obs (abs_state s) (abs_state s'))"

lemma advance_refl [simp]: "sdb_ok s \<Longrightarrow> advance ro s s"
  by (simp add: advance_def sdb_ok_def)

lemma advance_trans [trans]: "advance ro s t \<Longrightarrow> advance ro t u \<Longrightarrow> advance ro s u"
  by (auto simp: advance_def intro: ext_trans same_obs_trans)

lemma advance_ro: "advance ro s t \<Longrightarrow> (ro' \<Longrightarrow> ro) \<Longrightarrow> advance ro' s t"
  by (auto simp: advance_def)

lemma advance_ok: "advance ro s t \<Longrightarrow> sdb_ok t"
  by (simp add: advance_def)

lemma advance_db: "advance ro s t \<Longrightarrow> sdb_db t = sdb_db s"
  by (simp add: advance_def ext_def)

lemma advance_same_view: "sdb_ok s \<Longrightarrow> ext s t \<Longrightarrow> abs_state t = abs_state s \<Longrightarrow> advance ro s t"
  by (simp add: advance_def sdb_ok_def ext_def)

lemma advance_quiet: "sdb_ok s \<Longrightarrow> quiet s t \<Longrightarrow> advance ro s t"
  by (rule advance_same_view) (auto simp: sdb_ok_def quiet_def intro: ext_quiet)

lemma sdb_ok_good: "sdb_ok s \<Longrightarrow> good s"
  by (simp add: sdb_ok_def)

lemma sdb_ok_wf: "sdb_ok s \<Longrightarrow> wf_state s"
  by (simp add: sdb_ok_def good_def)

lemma advance_getters:
  assumes "sdb_ok s"
  shows "advance ro s (snd (Exist a s))" "advance ro s (snd (Empty a s))" "advance ro s (snd (GetBalance a s))"
    "advance ro s (snd (GetNonce a s))" "advance ro s (snd (GetCodeHash a s))" "advance ro s (snd (HasSuicided a s))"
    "advance ro s (snd (GetCode a s))" "advance ro s (snd (GetState a k s))" "advance ro s (snd (GetCodeSize a s))"
    "advance ro s (snd (CanTransfer a x s))"
  using assms sdb_ok_wf[OF assms]
  by (auto simp: CanTransfer_def case_prod_beta
      intro!: advance_quiet quiet_simple_getters quiet_GetCode quiet_GetState quiet_GetCodeSize)

lemma advance_Snapshot: "sdb_ok s \<Longrightarrow> advance ro s (snd (Snapshot s))"
  using sdb_journal.snap_steps[of s] by (auto intro: advance_same_view simp: sdb_ok_good)

lemma advance_Revert:
  assumes "sdb_ok s" "advance ro (snd (Snapshot s)) t"
  shows "yields (RevertToSnapshot (fst (Snapshot s)) t) (\<lambda>u. advance ro s u \<and> abs_state u = abs_state s)"
proof -
  obtain u where "RevertToSnapshot (fst (Snapshot s)) t = Some u" "abs_state u = abs_state s" "ext s u"
    using sdb_journal.revert_snap[of s t] assms by (auto simp: advance_def sdb_ok_good)
  then show ?thesis using advance_same_view[OF assms(1)] by (simp add: yields_def)
qed

text \<open>Changes of one account.\<close>

lemma new_view_fields [simp]:
  "av_balance (new_view db a) = 0" "av_nonce (new_view db a) = 0" "av_code (new_view db a) = None"
  "\<not> av_suicided (new_view db a)"
  by (simp_all add: new_view_def view_object_def newObject_def so_Code_def)

lemma new_view_storage: "db_ok db \<Longrightarrow> av_storage (new_view db a) k = 0"
  by (simp add: db_ok_def new_view_def view_object_def fst_so_GetState fst_so_getTrie newObject_def)

lemma acct_ok_new [simp]: "acct_ok db (new_view db a)"
  by (simp add: acct_ok_def)

lemma acct_ok_or_new: "sdb_ok s \<Longrightarrow> acct_ok (sdb_db s) (acct_or_new (sdb_db s) a (abs_state s))"
  by (auto simp: acct_or_new_def sdb_ok_def split: option.split)

lemma upd_acct_fields [simp]:
  "v_refund (upd_acct a w v) = v_refund v" "v_logs (upd_acct a w v) = v_logs v"
  "v_logSize (upd_acct a w v) = v_logSize v"
  by (simp_all add: upd_acct_def)

lemma bal_upd_acct: "bal b (upd_acct a w v) = (if b = a then av_balance w else bal b v)"
  by (simp add: bal_def)

lemma ether_upd_acct: "ether (upd_acct a w v) = ether v - bal a v + av_balance w"
proof -
  have "ether (upd_acct a w v) = (\<Sum>b\<in>UNIV. bal b v + (if b = a then av_balance w - bal a v else 0))"
    unfolding ether_def by (rule sum.cong) (simp_all add: bal_upd_acct)
  also have "\<dots> = ether v + (av_balance w - bal a v)" by (simp add: sum.distrib ether_def)
  finally show ?thesis by simp
qed

lemma bal_acct_or_new: "av_balance (acct_or_new db a v) = bal a v"
  by (simp add: acct_or_new_def bal_def split: option.split)

lemma bal_nonneg: "sdb_ok s \<Longrightarrow> 0 \<le> bal a (abs_state s)"
  by (auto simp: bal_def sdb_ok_def acct_ok_def split: option.split)

lemma bal_le_ether: "sdb_ok s \<Longrightarrow> bal a (abs_state s) \<le> ether (abs_state s)"
  unfolding ether_def by (rule member_le_sum) (auto simp: bal_nonneg)

lemma is_word_bal: "sdb_ok s \<Longrightarrow> is_word (bal a (abs_state s))"
  using bal_le_ether[of s a] bal_nonneg[of s a] by (auto simp: is_word_def sdb_ok_def)

lemma advance_upd_acct:
  assumes "sdb_ok s" "ext s t" "abs_state t = upd_acct a w (abs_state s)" "acct_ok (sdb_db s) w"
    and "av_balance w \<le> bal a (abs_state s)"
  shows "advance False s t"
  using assms by (auto simp: advance_def sdb_ok_def ext_def ether_upd_acct split: if_splits)

lemma advance_on_acct:
  assumes "sdb_ok s" "ext s t" "abs_state t = on_acct (sdb_db s) a f (abs_state s)"
    and "\<And>w. acct_ok (sdb_db s) w \<Longrightarrow> acct_ok (sdb_db s) (f w) \<and> av_balance (f w) \<le> av_balance w"
  shows "advance False s t"
  using assms(4)[OF acct_ok_or_new[OF assms(1), of a]] assms(1-3)
  by (intro advance_upd_acct[of s t a "f (acct_or_new (sdb_db s) a (abs_state s))"])
    (simp_all add: on_acct_def bal_acct_or_new)

lemma advance_SetState: "sdb_ok s \<Longrightarrow> advance False s (SetState a k v s)"
  by (rule advance_on_acct[OF _ SetState_effect]) (auto simp: sdb_ok_good acct_ok_def)

lemma advance_SetNonce: "sdb_ok s \<Longrightarrow> advance False s (SetNonce a n s)"
  by (rule advance_on_acct[OF _ SetNonce_effect]) (auto simp: sdb_ok_good acct_ok_def)

lemma Hash_Bytes_Keccak: "db_ok db \<Longrightarrow> Hash_Bytes (Keccak256Hash db b) = Keccak256 db b"
  by (simp add: Keccak256Hash_def Hash_Bytes_BytesToHash db_ok_def)

lemma advance_SetCode:
  assumes "sdb_ok s" "\<And>c. code = Some c \<Longrightarrow> small c"
  shows "advance False s (SetCode a code s)"
proof (rule advance_on_acct[OF assms(1) SetCode_effect])
  let ?db = "sdb_db s"
  have db: "db_ok ?db" using assms(1) by (simp add: sdb_ok_def)
  fix w assume "acct_ok ?db w"
  then show "acct_ok ?db (w\<lparr> av_codehash := Hash_Bytes (Keccak256Hash ?db (or_else code [])),
        av_code := code_or code (stored_code ?db (Keccak256Hash ?db (Address_Bytes a))
          (Hash_Bytes (Keccak256Hash ?db (or_else code [])))) \<rparr>) \<and>
      av_balance (w\<lparr> av_codehash := Hash_Bytes (Keccak256Hash ?db (or_else code [])),
        av_code := code_or code (stored_code ?db (Keccak256Hash ?db (Address_Bytes a))
          (Hash_Bytes (Keccak256Hash ?db (or_else code [])))) \<rparr>) \<le> av_balance w"
    using assms(2) Hash_Bytes_Keccak[OF db]
    by (cases code) (auto simp: acct_ok_def stored_code_def emptyCodeHash_def Keccak256Hash_def)
qed (simp_all add: assms sdb_ok_good)

lemma advance_other:
  assumes "sdb_ok s" "ext s t" "v_accounts (abs_state t) = v_accounts (abs_state s)"
  shows "advance False s t"
proof -
  have "acct a (abs_state t) = acct a (abs_state s)" for a using assms(3) by (simp add: acct_def)
  then show ?thesis
    using assms by (simp add: advance_def sdb_ok_def ext_def ether_def bal_def)
qed

lemma advance_AddRefund: "sdb_ok s \<Longrightarrow> advance False s (AddRefund g s)"
  by (rule advance_other) (simp_all add: AddRefund_effect sdb_ok_good)

lemma advance_AddLog: "sdb_ok s \<Longrightarrow> advance False s (AddLog l s)"
  by (rule advance_other) (simp_all add: AddLog_effect sdb_ok_good)

lemma advance_AddPreimage: "sdb_ok s \<Longrightarrow> advance ro s (AddPreimage h p s)"
proof -
  assume ok: "sdb_ok s"
  have "advance False s (AddPreimage h p s)"
    by (rule advance_other) (simp_all add: ok AddPreimage_effect sdb_ok_good)
  then show ?thesis
    using ok by (auto simp: advance_def AddPreimage_effect sdb_ok_good same_obs_def bal_def nonce_of_def
        code_of_def storage_of_def suicided_def acct_def)
qed

lemma advance_CreateAccount:
  assumes "sdb_ok s" "ro \<Longrightarrow> acct a (abs_state s) = None"
  shows "advance ro s (CreateAccount a s)"
proof -
  let ?w = "(new_view (sdb_db s) a)\<lparr> av_balance := bal a (abs_state s) \<rparr>"
  have db: "db_ok (sdb_db s)" using assms(1) by (simp add: sdb_ok_def)
  have adv: "advance False s (CreateAccount a s)"
    using assms(1) bal_nonneg[of s a]
    by (intro advance_upd_acct[OF _ CreateAccount_effect]) (auto simp: sdb_ok_good acct_ok_def)
  have "same_obs (abs_state s) (abs_state (CreateAccount a s))" if "acct a (abs_state s) = None"
    using that assms(1) new_view_storage[OF db]
    by (auto simp: CreateAccount_effect sdb_ok_good same_obs_def bal_upd_acct nonce_of_def code_of_def
        storage_of_def suicided_def split: option.split)
  with adv show ?thesis using assms(2) by (auto simp: advance_def)
qed

lemma sdb_ok_upd_acct:
  assumes "sdb_ok s" "ext s t" "abs_state t = upd_acct a w (abs_state s)" "acct_ok (sdb_db s) w"
    and "ether (abs_state t) < tt256"
  shows "sdb_ok t"
  using assms by (auto simp: sdb_ok_def ext_def split: if_splits)

lemma GetBalance_fun: "(\<Sum>b\<in>UNIV. fst (GetBalance b s)) = ether (abs_state s)"
  by (simp add: ether_def GetBalance_view)

lemma same_obs_on_acct:
  assumes "db_ok db" "\<And>w. f w = w"
  shows "same_obs v (on_acct db a f v)"
  using assms new_view_storage[OF assms(1)]
  by (auto simp: same_obs_def on_acct_def bal_def nonce_of_def code_of_def storage_of_def
      suicided_def acct_or_new_def split: option.split)

lemma advance_Transfer:
  assumes "sdb_ok s" "0 \<le> x" "x \<le> bal p (abs_state s)" "ro \<Longrightarrow> x = 0"
  shows "advance ro s (Transfer p r x s)"
proof -
  let ?t = "SubBalance p x s" and ?u = "Transfer p r x s"
  have g: "good s" "good ?t" using assms(1) SubBalance_effect(1) ext_good sdb_ok_good by blast+
  have db: "sdb_db ?t = sdb_db s" using SubBalance_effect(1)[OF g(1)] by (simp add: ext_def)
  let ?w = "acct_or_new (sdb_db s) p (abs_state s)"
  have t: "advance False s ?t"
    by (rule advance_upd_acct[OF assms(1) SubBalance_effect[OF g(1), unfolded on_acct_def]])
      (use acct_ok_or_new[OF assms(1), of p] assms(2,3) in \<open>simp_all add: acct_ok_def bal_acct_or_new\<close>)
  have ether: "ether (abs_state ?u) = ether (abs_state s)"
    using sdb_ledger.transfer_total[OF g(1), of r x p] by (simp add: GetBalance_fun Transfer_def)
  have ext: "ext ?t ?u" unfolding Transfer_def by (rule AddBalance_effect[OF g(2)])
  have "sdb_ok ?u"
    by (rule sdb_ok_upd_acct[OF advance_ok[OF t] ext[unfolded Transfer_def] AddBalance_effect(2)[OF g(2), unfolded on_acct_def],
          folded Transfer_def])
      (use acct_ok_or_new[OF advance_ok[OF t], of r] assms(1,2) ether
        in \<open>auto simp: acct_ok_def sdb_ok_def\<close>)
  moreover have "same_obs (abs_state s) (abs_state ?u)" if "x = 0"
  proof -
    have "db_ok (sdb_db s)" using assms(1) by (simp add: sdb_ok_def)
    then have "same_obs v (on_acct (sdb_db s) r (\<lambda>w. w) (on_acct (sdb_db s) p (\<lambda>w. w) v))" for v
      by (intro same_obs_trans[OF same_obs_on_acct same_obs_on_acct]) simp_all
    then show ?thesis
      using that by (simp add: Transfer_def AddBalance_effect[OF g(2)[unfolded that]] SubBalance_effect[OF g(1)] db[unfolded that])
  qed
  moreover have "ext s ?u" using t ext ext_trans by (auto simp: advance_def)
  ultimately show ?thesis using assms(4) ether by (auto simp: advance_def)
qed

text \<open>Self-destruction: the balance is credited to the heir before it is removed.\<close>

lemma advance_suicide:
  assumes "sdb_ok s"
  shows "advance False s (snd (Suicide a (AddBalance h (bal a (abs_state s)) s)))"
proof -
  let ?x = "bal a (abs_state s)" and ?t = "AddBalance h (bal a (abs_state s)) s"
  let ?u = "snd (Suicide a ?t)"
  have g: "good s" "good ?t" using assms AddBalance_effect(1) ext_good sdb_ok_good by blast+
  have ext: "ext s ?t" "ext ?t ?u" using AddBalance_effect(1)[OF g(1)] Suicide_effect(1)[OF g(2)] by auto
  have db: "sdb_db ?t = sdb_db s" using ext by (simp add: ext_def)
  have t: "acct_ok (sdb_db s) w" if "acct b (abs_state ?t) = Some w" for b w
    using that assms acct_ok_or_new[OF assms, of h] bal_nonneg[OF assms, of a]
    by (auto simp: AddBalance_effect[OF g(1)] on_acct_def sdb_ok_def acct_ok_def split: if_splits)
  have et: "ether (abs_state ?t) = ether (abs_state s) + ?x" "bal a (abs_state ?t) \<ge> ?x"
    using bal_nonneg[OF assms, of a]
    by (auto simp: AddBalance_effect[OF g(1)] on_acct_def ether_upd_acct bal_upd_acct bal_acct_or_new)
  have "ether (abs_state ?u) \<le> ether (abs_state s)"
  proof (cases "acct a (abs_state ?t)")
    case None
    then show ?thesis using et by (simp add: Suicide_effect[OF g(2)] bal_def[of a "abs_state ?t"])
  next
    case (Some w)
    then show ?thesis using et by (simp add: Suicide_effect[OF g(2)] ether_upd_acct)
  qed
  moreover have "acct_ok (sdb_db s) w" if "acct b (abs_state ?u) = Some w" for b w
    using that t by (auto simp: Suicide_effect[OF g(2)] acct_ok_def split: option.splits if_splits)
  ultimately show ?thesis
    using assms ext ext_trans[OF ext] by (auto simp: advance_def sdb_ok_def ext_def)
qed

section \<open>The machine\<close>

definition crypto_ok :: "Crypto \<Rightarrow> bool" where
  "crypto_ok cr \<longleftrightarrow> (\<forall>h sig key. Ecrecover cr h sig = Some key \<longrightarrow> key \<noteq> []) \<and> (\<forall>b. small (Sha256 cr b)) \<and>
     (\<forall>b. small (Ripemd160 cr b)) \<and> (\<forall>p. small (G1_Marshal cr p))"

text \<open>A cached analysis covers every code with its hash.\<close>

definition cache_ok :: "'t Database \<Rightarrow> destinations \<Rightarrow> bool" where
  "cache_ok db d \<longleftrightarrow>
     (\<forall>m code. d (Keccak256Hash db code) = Some m \<longrightarrow> small code \<longrightarrow> length code div 8 < length m)"

definition evm_ok :: "'t EVM \<Rightarrow> bool" where
  "evm_ok evm \<longleftrightarrow> sdb_ok (evm_StateDB evm) \<and> crypto_ok (evm_crypto evm) \<and> is_word (ctx_GasPrice (evm_ctx evm)) \<and>
     cache_ok (sdb_db (evm_StateDB evm)) (evm_jumpdests evm) \<and> small (evm_returnData evm)"

definition read_only :: "'t EVM \<Rightarrow> bool" where
  "read_only evm \<longleftrightarrow> evm_readOnly evm \<and> IsByzantium (evm_chainConfig evm) (evm_BlockNumber evm)"

text \<open>The fields of the machine that a call leaves as they are.\<close>

definition same_env :: "'t EVM \<Rightarrow> 't EVM \<Rightarrow> bool" where
  "same_env evm evm' \<longleftrightarrow> evm_ctx evm' = evm_ctx evm \<and> evm_depth evm' = evm_depth evm \<and>
     evm_chainConfig evm' = evm_chainConfig evm \<and> evm_readOnly evm' = evm_readOnly evm \<and>
     evm_crypto evm' = evm_crypto evm"

definition evm_advance :: "'t EVM \<Rightarrow> 't EVM \<Rightarrow> bool" where
  "evm_advance evm evm' \<longleftrightarrow> evm_ok evm' \<and> same_env evm evm' \<and>
     advance (read_only evm) (evm_StateDB evm) (evm_StateDB evm')"

lemma same_env_refl [simp]: "same_env evm evm"
  by (simp add: same_env_def)

lemma same_env_read_only: "same_env evm evm' \<Longrightarrow> read_only evm' = read_only evm"
  by (simp add: same_env_def read_only_def evm_BlockNumber_def)

lemma evm_advance_refl [simp]: "evm_ok evm \<Longrightarrow> evm_advance evm evm"
  by (simp add: evm_advance_def evm_ok_def)

lemma evm_advance_trans [trans]: "evm_advance a b \<Longrightarrow> evm_advance b c \<Longrightarrow> evm_advance a c"
  using advance_trans same_env_read_only[of a b] by (auto simp: evm_advance_def same_env_def)

lemma evm_advance_ok: "evm_advance a b \<Longrightarrow> evm_ok b"
  by (simp add: evm_advance_def)

lemma evm_advance_db: "evm_advance a b \<Longrightarrow> sdb_db (evm_StateDB b) = sdb_db (evm_StateDB a)"
  by (auto simp: evm_advance_def dest: advance_db)

lemma evm_ok_sdb: "evm_ok evm \<Longrightarrow> sdb_ok (evm_StateDB evm)"
  by (simp add: evm_ok_def)

lemma evm_advance_gasTable: "evm_advance a b \<Longrightarrow> evm_gasTable b = evm_gasTable a"
  by (simp add: evm_advance_def same_env_def evm_gasTable_def evm_BlockNumber_def)

lemma evm_advance_read_only: "evm_advance a b \<Longrightarrow> read_only b = read_only a"
  by (simp add: evm_advance_def same_env_read_only)

lemma evm_advance_sdb:
  "evm_ok evm \<Longrightarrow> advance (read_only evm) (evm_StateDB evm) s \<Longrightarrow> evm_advance evm (evm\<lparr> evm_StateDB := s \<rparr>)"
  using advance_db[of _ "evm_StateDB evm" s] advance_ok by (auto simp: evm_advance_def evm_ok_def same_env_def)

lemma evm_read_eq: "evm_read g evm = (fst (g (evm_StateDB evm)), evm\<lparr> evm_StateDB := snd (g (evm_StateDB evm)) \<rparr>)"
  by (simp add: evm_read_def case_prod_beta)

lemma evm_advance_read:
  "evm_ok evm \<Longrightarrow> advance (read_only evm) (evm_StateDB evm) (snd (g (evm_StateDB evm))) \<Longrightarrow>
   evm_advance evm (snd (evm_read g evm))"
  by (simp add: evm_read_eq evm_advance_sdb)

lemma evm_advance_getters:
  assumes "evm_ok evm"
  shows "evm_advance evm (snd (evm_read (Exist a) evm))" "evm_advance evm (snd (evm_read (Empty a) evm))"
    "evm_advance evm (snd (evm_read (GetBalance a) evm))" "evm_advance evm (snd (evm_read (GetNonce a) evm))"
    "evm_advance evm (snd (evm_read (GetCodeHash a) evm))" "evm_advance evm (snd (evm_read (HasSuicided a) evm))"
    "evm_advance evm (snd (evm_read (GetCode a) evm))" "evm_advance evm (snd (evm_read (GetState a k) evm))"
    "evm_advance evm (snd (evm_read (GetCodeSize a) evm))" "evm_advance evm (snd (evm_read (CanTransfer a x) evm))"
  using assms by (intro evm_advance_read advance_getters evm_ok_sdb; assumption)+

lemma evm_advance_write:
  "evm_ok evm \<Longrightarrow> advance (read_only evm) (evm_StateDB evm) (g (evm_StateDB evm)) \<Longrightarrow> evm_advance evm (evm_write g evm)"
  by (simp add: evm_write_def evm_advance_sdb)

section \<open>Contracts and frames\<close>

definition contract_ok :: "'t Database \<Rightarrow> Contract \<Rightarrow> bool" where
  "contract_ok db c \<longleftrightarrow> small (c_Code c) \<and> (c_Code c \<noteq> [] \<longrightarrow> c_CodeHash c = Keccak256Hash db (c_Code c)) \<and>
     small (c_Input c) \<and> is_word (c_value c) \<and> small_gas (c_Gas c)"

definition stack_ok :: "Stack \<Rightarrow> bool" where
  "stack_ok st \<longleftrightarrow> length st \<le> StackLimit \<and> (\<forall>x \<in> set st. is_word x)"

text \<open>The memory never exceeds the limit of \<open>memoryGasCost\<close>.\<close>

definition mem_ok :: "Memory \<Rightarrow> bool" where
  "mem_ok m \<longleftrightarrow> length (m_store m) \<le> 2 ^ 40"

definition frame_ok :: "'t frame \<Rightarrow> bool" where
  "frame_ok f \<longleftrightarrow> evm_ok (f_evm f) \<and> contract_ok (sdb_db (evm_StateDB (f_evm f))) (f_contract f) \<and>
     stack_ok (f_stack f) \<and> mem_ok (f_mem f)"

text \<open>A step of a frame changes its contract only by using gas.\<close>

definition uses_gas :: "Contract \<Rightarrow> Contract \<Rightarrow> bool" where
  "uses_gas c c' \<longleftrightarrow> c' = c\<lparr> c_Gas := c_Gas c' \<rparr> \<and> c_Gas c' \<le> c_Gas c"

definition frame_advance :: "'t frame \<Rightarrow> 't frame \<Rightarrow> bool" where
  "frame_advance f f' \<longleftrightarrow> frame_ok f' \<and> evm_advance (f_evm f) (f_evm f') \<and> uses_gas (f_contract f) (f_contract f')"

lemma uses_gas_refl [simp]: "uses_gas c c"
  by (simp add: uses_gas_def)

lemma uses_gas_trans: "uses_gas a b \<Longrightarrow> uses_gas b c \<Longrightarrow> uses_gas a c"
  unfolding uses_gas_def by (metis Contract.surjective Contract.update_convs(7) order.trans)

lemma uses_gas_fields:
  assumes "uses_gas c c'"
  shows "c_Code c' = c_Code c" "c_CodeHash c' = c_CodeHash c" "c_Input c' = c_Input c" "c_value c' = c_value c"
    "c_self c' = c_self c"
proof -
  obtain g where "c' = c\<lparr> c_Gas := g \<rparr>" using assms unfolding uses_gas_def by blast
  then show "c_Code c' = c_Code c" "c_CodeHash c' = c_CodeHash c" "c_Input c' = c_Input c" "c_value c' = c_value c"
    "c_self c' = c_self c" by simp_all
qed

lemma contract_ok_uses_gas: "contract_ok db c \<Longrightarrow> uses_gas c c' \<Longrightarrow> contract_ok db c'"
  using small_gas_le[of "c_Gas c'" "c_Gas c"] uses_gas_fields[of c c'] by (auto simp: contract_ok_def uses_gas_def)

lemma frame_advance_refl [simp]: "frame_ok f \<Longrightarrow> frame_advance f f"
  by (simp add: frame_advance_def frame_ok_def)

lemma frame_advance_trans [trans]: "frame_advance a b \<Longrightarrow> frame_advance b c \<Longrightarrow> frame_advance a c"
  by (auto simp: frame_advance_def intro: evm_advance_trans uses_gas_trans)

end
