(* ===== verification/VM_Exec_Safe.thy ===== *)
theory VM_Exec_Safe
  imports VM_Invariant
begin

text \<open>Every instruction that stays inside its frame is safe: on a stack of the validated height and a
  memory of the required size it does not panic, and it keeps the invariants.\<close>

section \<open>Words on the stack\<close>

lemma is_word_uint [simp]: "is_word (uint (w :: hash))"
  by (simp add: is_word_def uint_hash_bounds)

lemma is_wordE:
  assumes "is_word x"
  obtains w :: hash where "x = uint w"
  using assms that[of "word_of_int x"] uint_of_int_range[of x] by (simp add: is_word_def)

lemma is_word_U256 [simp]: "is_word (U256 x)"
  by (simp add: is_word_def)

lemma is_word_consts [simp]: "is_word 0" "is_word 1" "is_word (of_bool_int b)"
  by (simp_all add: is_word_def of_bool_int_def tt256_def)

lemma is_word_Exp [simp]: "is_word (Exp b e)"
  by (simp add: is_word_def)

lemma is_word_bitwise:
  assumes "is_word x" "is_word y"
  shows "is_word (x AND y)" "is_word (x OR y)" "is_word (x XOR y)"
  using assms by (auto elim!: is_wordE simp: uint_bitwise)

lemma is_word_small: "0 \<le> x \<Longrightarrow> x < 2 ^ 200 \<Longrightarrow> is_word x"
proof -
  have "(2 :: int) ^ 200 \<le> 2 ^ 256" by (rule power_increasing) simp_all
  then show "0 \<le> x \<Longrightarrow> x < 2 ^ 200 \<Longrightarrow> is_word x"
    unfolding is_word_def tt256_def by (meson order.strict_trans2)
qed

lemma is_word_uint64 [simp]: "is_word (uint (w :: uint64))"
  by (rule is_word_small) (use uint_lt2p[of w] in auto)

lemma is_word_byte [simp]: "is_word (uint (w :: byte))"
  by (rule is_word_small) (use uint_lt2p[of w] in auto)

lemma is_word_length: "small xs \<Longrightarrow> is_word (int (length xs))"
  by (rule is_word_small) (auto simp: small_def)

lemma is_word_SetBytes: "length b \<le> 32 \<Longrightarrow> is_word (SetBytes b)"
proof -
  assume "length b \<le> 32"
  then have "(256 :: int) ^ length b \<le> 256 ^ 32" by (intro power_increasing) simp_all
  moreover have "(256 :: int) ^ 32 = tt256" by (simp add: tt256_def)
  ultimately show ?thesis using SetBytes_bound[of b] unfolding is_word_def by simp
qed

lemma is_word_Hash_Big [simp]: "is_word (Hash_Big h)" "is_word (Address_Big a)"
  by (simp_all add: is_word_def Hash_Big_range Address_Big_range)

section \<open>Safe instructions\<close>

definition pc_ok :: "'t frame \<Rightarrow> bool" where
  "pc_ok f \<longleftrightarrow> unat (f_pc f) < length (c_Code (f_contract f)) + 34"

text \<open>The memory has the size that a memory size function computes.\<close>

definition mem_fits :: "memorySizeFunc option \<Rightarrow> 't frame \<Rightarrow> bool" where
  "mem_fits mso f \<longleftrightarrow>
     (case mso of None \<Rightarrow> True
      | Some ms \<Rightarrow> (\<exists>v. ms (f_stack f) = Some v \<and> v \<le> int (length (m_store (f_mem f)))))"

text \<open>The program counter stays close to where it was, or at a position of the code.\<close>

definition near :: "'t frame \<Rightarrow> 't frame \<Rightarrow> bool" where
  "near f f' \<longleftrightarrow> unat (f_pc f') \<le> unat (f_pc f) + 32 \<or> unat (f_pc f') < length (c_Code (f_contract f))"

definition outcome_ok :: "'t frame \<Rightarrow> 't frame \<times> bytes \<times> vm_error option \<Rightarrow> bool" where
  "outcome_ok f r \<longleftrightarrow> frame_advance f (fst r) \<and> near f (fst r) \<and> small (fst (snd r))"

definition exec_safe ::
    "memorySizeFunc option \<Rightarrow> nat \<Rightarrow> nat \<Rightarrow> bool \<Rightarrow> 't executionFunc \<Rightarrow> bool" where
  "exec_safe mso p q w exec \<longleftrightarrow>
     (\<forall>f. frame_ok f \<and> pc_ok f \<and> p \<le> length (f_stack f) \<and> length (f_stack f) + q \<le> StackLimit + p \<and>
          mem_fits mso f \<and> (w \<longrightarrow> \<not> read_only (f_evm f)) \<longrightarrow>
          yields (exec f) (outcome_ok f))"

lemma near_refl [simp]: "f_pc f' = f_pc f \<Longrightarrow> near f f'"
  by (simp add: near_def)

lemma stack_ok_Cons [simp]: "stack_ok (x # st) \<longleftrightarrow> Suc (length st) \<le> StackLimit \<and> is_word x \<and> stack_ok st"
  by (auto simp: stack_ok_def)

lemma frame_okD:
  assumes "frame_ok f"
  shows "evm_ok (f_evm f)" "contract_ok (sdb_db (evm_StateDB (f_evm f))) (f_contract f)" "stack_ok (f_stack f)"
    "mem_ok (f_mem f)"
  using assms by (auto simp: frame_ok_def)

lemma frame_advanceI:
  assumes "frame_ok f" "evm_advance (f_evm f) (f_evm f')" "uses_gas (f_contract f) (f_contract f')"
    "stack_ok (f_stack f')" "mem_ok (f_mem f')"
  shows "frame_advance f f'"
  using assms contract_ok_uses_gas evm_advance_db[OF assms(2)] evm_advance_ok[OF assms(2)]
  by (auto simp: frame_advance_def frame_ok_def)

lemma outcome_stack:
  "frame_ok f \<Longrightarrow> stack_ok st \<Longrightarrow> outcome_ok f (f\<lparr> f_stack := st \<rparr>, [], err)"
  by (auto simp: outcome_ok_def frame_okD intro!: frame_advanceI)

lemma exec_safeI:
  assumes "\<And>f. frame_ok f \<Longrightarrow> pc_ok f \<Longrightarrow> p \<le> length (f_stack f) \<Longrightarrow> length (f_stack f) + q \<le> StackLimit + p \<Longrightarrow>
      mem_fits mso f \<Longrightarrow> (w \<Longrightarrow> \<not> read_only (f_evm f)) \<Longrightarrow> yields (exec f) (outcome_ok f)"
  shows "exec_safe mso p q w exec"
  using assms by (simp add: exec_safe_def)

lemma f_pop_stack: "f_stack f = x # st \<Longrightarrow> f_pop f = Some (x, f\<lparr> f_stack := st \<rparr>)"
  by (simp add: f_pop_def stack_pop_def)

lemmas stack_cases = numeral_eq_Suc Suc_le_length_iff

lemma unop_safe:
  assumes "\<And>x. is_word x \<Longrightarrow> is_word (g x)"
  shows "exec_safe mso 1 1 w (unop g)"
proof (rule exec_safeI)
  fix f :: "'a frame"
  assume f: "frame_ok f" "1 \<le> length (f_stack f)" "length (f_stack f) + 1 \<le> StackLimit + 1"
  from f(2) obtain x st where st: "f_stack f = x # st" by (cases "f_stack f") auto
  have "unop g f = done_ok (f\<lparr> f_stack := g x # st \<rparr>)"
    using op_eval(1)[where f = f and st = st and x = x] by (simp flip: st)
  then show "yields (unop g f) (outcome_ok f)"
    using f frame_okD(3)[OF f(1)] assms by (simp add: st done_ok_def outcome_stack)
qed

lemma binop_safe:
  assumes "\<And>x y. is_word x \<Longrightarrow> is_word y \<Longrightarrow> is_word (g x y)"
  shows "exec_safe mso 2 1 w (binop g)"
proof (rule exec_safeI)
  fix f :: "'a frame"
  assume f: "frame_ok f" "2 \<le> length (f_stack f)" "length (f_stack f) + 1 \<le> StackLimit + 2"
  from f(2) obtain x y st where st: "f_stack f = x # y # st" by (auto simp: numeral_eq_Suc Suc_le_length_iff)
  have "binop g f = done_ok (f\<lparr> f_stack := g x y # st \<rparr>)"
    using op_eval(2)[where f = f and st = st and x = x and y = y] by (simp flip: st)
  then show "yields (binop g f) (outcome_ok f)"
    using f frame_okD(3)[OF f(1)] assms by (simp add: st done_ok_def outcome_stack)
qed

lemma ternop_safe:
  assumes "\<And>x y z. is_word x \<Longrightarrow> is_word y \<Longrightarrow> is_word z \<Longrightarrow> is_word (g x y z)"
  shows "exec_safe mso 3 1 w (ternop g)"
proof (rule exec_safeI)
  fix f :: "'a frame"
  assume f: "frame_ok f" "3 \<le> length (f_stack f)" "length (f_stack f) + 1 \<le> StackLimit + 3"
  from f(2) obtain x y z st where st: "f_stack f = x # y # z # st" by (auto simp: numeral_eq_Suc Suc_le_length_iff)
  have "ternop g f = done_ok (f\<lparr> f_stack := g x y z # st \<rparr>)"
    using op_eval(3)[where f = f and st = st and x = x and y = y and z = z] by (simp flip: st)
  then show "yields (ternop g f) (outcome_ok f)"
    using f frame_okD(3)[OF f(1)] assms by (simp add: st done_ok_def outcome_stack)
qed

lemma arithmetic_safe:
  "exec_safe None 2 1 False opAdd" "exec_safe None 2 1 False opSub" "exec_safe None 2 1 False opMul"
  "exec_safe None 2 1 False opDiv" "exec_safe None 2 1 False opSdiv" "exec_safe None 2 1 False opMod"
  "exec_safe None 2 1 False opSmod" "exec_safe None 2 1 False opExp" "exec_safe None 3 1 False opAddmod"
  "exec_safe None 3 1 False opMulmod" "exec_safe None 2 1 False opSHL" "exec_safe None 2 1 False opSHR"
  "exec_safe None 2 1 False opSAR"
  unfolding opAdd_def opSub_def opMul_def opDiv_def opSdiv_def opMod_def opSmod_def opExp_def opAddmod_def
    opMulmod_def opSHL_def opSHR_def opSAR_def
  by (intro binop_safe ternop_safe; simp add: Let_def)+

lemma comparison_safe:
  "exec_safe None 2 1 False opLt" "exec_safe None 2 1 False opGt" "exec_safe None 2 1 False opSlt"
  "exec_safe None 2 1 False opSgt" "exec_safe None 2 1 False opEq" "exec_safe None 1 1 False opIszero"
  "exec_safe None 2 1 False opAnd" "exec_safe None 2 1 False opOr" "exec_safe None 2 1 False opXor"
  "exec_safe None 1 1 False opNot" "exec_safe None 2 1 False opByte"
  unfolding opLt_def opGt_def opSlt_def opSgt_def opEq_def opIszero_def opAnd_def opOr_def opXor_def opNot_def opByte_def
  by (intro unop_safe binop_safe; simp add: is_word_bitwise)+

section \<open>Environment\<close>

lemma push_safe:
  assumes "\<And>f. frame_ok f \<Longrightarrow> is_word (g f)"
  shows "exec_safe None 0 1 False (\<lambda>f. push_ok (g f) f)"
proof (rule exec_safeI)
  fix f :: "'a frame"
  assume "frame_ok f" "length (f_stack f) + 1 \<le> StackLimit + 0"
  then show "yields (push_ok (g f) f) (outcome_ok f)"
    using assms[of f] frame_okD(3)[of f] by (simp add: push_ok_def f_push_def done_ok_def outcome_stack)
qed

lemma mem_small: "mem_ok m \<Longrightarrow> small (m_store m)"
  by (simp add: mem_ok_def small_def)

lemma frame_words:
  assumes "frame_ok f"
  shows "is_word (c_value (f_contract f))" "is_word (int (length (c_Input (f_contract f))))"
    "is_word (int (length (c_Code (f_contract f))))" "is_word (int (length (evm_returnData (f_evm f))))"
    "is_word (ctx_GasPrice (evm_ctx (f_evm f)))" "is_word (int (length (m_store (f_mem f))))"
  using assms mem_small[of "f_mem f"] by (simp_all add: frame_ok_def contract_ok_def evm_ok_def is_word_length)

lemma environment_safe:
  "exec_safe None 0 1 False opAddress" "exec_safe None 0 1 False opOrigin" "exec_safe None 0 1 False opCaller"
  "exec_safe None 0 1 False opCallValue" "exec_safe None 0 1 False opCallDataSize" "exec_safe None 0 1 False opCodeSize"
  "exec_safe None 0 1 False opGasprice" "exec_safe None 0 1 False opCoinbase" "exec_safe None 0 1 False opTimestamp"
  "exec_safe None 0 1 False opNumber" "exec_safe None 0 1 False opDifficulty" "exec_safe None 0 1 False opGasLimit"
  "exec_safe None 0 1 False opPc" "exec_safe None 0 1 False opMsize" "exec_safe None 0 1 False opGas"
  "exec_safe None 0 1 False opReturnDataSize"
  unfolding opAddress_def[abs_def] opOrigin_def[abs_def] opCaller_def[abs_def] opCallValue_def[abs_def]
    opCallDataSize_def[abs_def] opCodeSize_def[abs_def] opGasprice_def[abs_def] opCoinbase_def[abs_def]
    opTimestamp_def[abs_def] opNumber_def[abs_def] opDifficulty_def[abs_def] opGasLimit_def[abs_def]
    opPc_def[abs_def] opMsize_def[abs_def] opGas_def[abs_def] opReturnDataSize_def[abs_def]
  by (intro push_safe; simp add: frame_words)+

lemma outcome_evm:
  "frame_ok f \<Longrightarrow> stack_ok st \<Longrightarrow> evm_advance (f_evm f) evm \<Longrightarrow> outcome_ok f (f\<lparr> f_stack := st, f_evm := evm \<rparr>, [], err)"
  "frame_ok f \<Longrightarrow> stack_ok st \<Longrightarrow> evm_advance (f_evm f) evm \<Longrightarrow> outcome_ok f (f\<lparr> f_evm := evm, f_stack := st \<rparr>, [], err)"
  by (auto simp: outcome_ok_def frame_okD intro!: frame_advanceI)

lemma outcome_mem:
  "frame_ok f \<Longrightarrow> stack_ok st \<Longrightarrow> mem_ok m \<Longrightarrow> outcome_ok f (f\<lparr> f_stack := st, f_mem := m \<rparr>, [], err)"
  by (auto simp: outcome_ok_def frame_okD intro!: frame_advanceI)

lemma read_unop_safe:
  assumes "\<And>x s ro. sdb_ok s \<Longrightarrow> advance ro s (snd (g x s)) \<and> is_word (fst (g x s))"
  shows "exec_safe None 1 1 False (read_unop g)"
proof (rule exec_safeI)
  fix f :: "'a frame"
  assume f: "frame_ok f" "1 \<le> length (f_stack f)"
  from f(2) obtain x st where st: "f_stack f = x # st" by (cases "f_stack f") auto
  have ok: "stack_ok (x # st)" using frame_okD(3)[OF f(1)] st by simp
  have evm: "evm_ok (f_evm f)" using frame_okD(1)[OF f(1)] .
  then have "evm_advance (f_evm f) ((f_evm f)\<lparr> evm_StateDB := snd (g x (evm_StateDB (f_evm f))) \<rparr>)"
    using assms evm_ok_sdb by (intro evm_advance_sdb) blast+
  moreover have "is_word (fst (g x (evm_StateDB (f_evm f))))" using assms evm evm_ok_sdb by blast
  ultimately show "yields (read_unop g f) (outcome_ok f)"
    using f ok by (simp add: read_unop_def f_pop_stack[OF st] evm_read_eq push_ok_def f_push_def done_ok_def outcome_evm)
qed

lemma opBalance_safe: "exec_safe None 1 1 False opBalance"
  unfolding opBalance_def by (rule read_unop_safe) (simp add: advance_getters GetBalance_view is_word_bal)

lemma opExtCodeSize_safe: "exec_safe None 1 1 False opExtCodeSize"
  unfolding opExtCodeSize_def
  by (rule read_unop_safe) (simp add: case_prod_beta advance_getters)

lemma SetBytes_Hash_Bytes: "is_word (SetBytes (Hash_Bytes h))"
  by (rule is_word_SetBytes) (simp add: Hash_Bytes_def)

lemma opSload_safe: "exec_safe None 1 1 False opSload"
proof (rule exec_safeI)
  fix f :: "'a frame"
  assume f: "frame_ok f" "pc_ok f" "1 \<le> length (f_stack f)" "length (f_stack f) + 1 \<le> StackLimit + 1"
  have "exec_safe None 1 1 False (read_unop (\<lambda>x s. let (v, s) = GetState (c_self (f_contract f)) (BigToHash x) s
                      in (SetBytes (Hash_Bytes v), s)) :: 'a executionFunc)"
    by (rule read_unop_safe) (simp add: case_prod_beta advance_getters SetBytes_Hash_Bytes)
  then show "yields (opSload f) (outcome_ok f)"
    using f by (simp add: opSload_def exec_safe_def mem_fits_def)
qed

lemma opSignExtend_safe: "exec_safe None 2 1 False opSignExtend"
proof (rule exec_safeI)
  fix f :: "'a frame"
  assume f: "frame_ok f" "2 \<le> length (f_stack f)"
  from f(2) obtain x y st where st: "f_stack f = x # y # st" by (auto simp: stack_cases)
  have ok: "stack_ok (x # y # st)" using frame_okD(3)[OF f(1)] st by simp
  then show "yields (opSignExtend f) (outcome_ok f)"
    using f by (simp add: opSignExtend_def f_pop_stack[OF st] push_ok_def f_push_def done_ok_def outcome_stack
        sign_extend_def Let_def)
qed

lemma opBlockhash_safe: "exec_safe None 1 1 False opBlockhash"
proof (rule exec_safeI)
  fix f :: "'a frame"
  assume f: "frame_ok f" "1 \<le> length (f_stack f)"
  from f(2) obtain x st where st: "f_stack f = x # st" by (cases "f_stack f") auto
  have ok: "stack_ok (x # st)" using frame_okD(3)[OF f(1)] st by simp
  then show "yields (opBlockhash f) (outcome_ok f)"
    using f by (simp add: opBlockhash_def Let_def f_pop_stack[OF st] push_ok_def f_push_def done_ok_def outcome_stack)
qed

lemma opCallDataLoad_safe: "exec_safe None 1 1 False opCallDataLoad"
proof (rule exec_safeI)
  fix f :: "'a frame"
  assume f: "frame_ok f" "1 \<le> length (f_stack f)"
  from f(2) obtain x st where st: "f_stack f = x # st" by (cases "f_stack f") auto
  have ok: "stack_ok (x # st)" using frame_okD(3)[OF f(1)] st by simp
  let ?d = "c_Input (f_contract f)"
  have "length ?d < 2 ^ 63" using frame_okD(2)[OF f(1)] by (simp add: contract_ok_def small_def)
  then have "getDataBig ?d x 32 = Some (take 32 (drop (nat x) ?d @ replicate 32 0))"
    using getDataBig_spec[of ?d x 32] ok by (simp add: is_word_def)
  then show "yields (opCallDataLoad f) (outcome_ok f)"
    using f ok by (simp add: opCallDataLoad_def f_pop_stack[OF st] push_ok_def f_push_def done_ok_def outcome_stack
        is_word_SetBytes)
qed

section \<open>Memory\<close>

lemma mem_Get_safe:
  assumes "mem_ok m" "is_word off" "is_word sz" "calcMemSize off sz \<le> int (length (m_store m))"
  shows "yields (mem_Get (Int64 off) (Int64 sz) m) (\<lambda>b. length b = nat sz \<and> length b \<le> length (m_store m))"
proof -
  have "length (m_store m) < 2 ^ 41" using assms(1) by (simp add: mem_ok_def)
  then obtain b where "mem_Get (Int64 off) (Int64 sz) m = Some b" "length b = nat sz"
    using mem_Get_stack[of off sz m] assms by (auto simp: is_word_def)
  moreover have "nat sz \<le> length (m_store m)"
    using assms by (cases "sz = 0") (auto simp: calcMemSize_def is_word_def)
  ultimately show ?thesis by (simp add: yields_def)
qed

lemma mem_Set_safe:
  assumes "mem_ok m" "is_word off" "is_word sz" "calcMemSize off sz \<le> int (length (m_store m))"
  shows "yields (mem_Set (Uint64 off) (Uint64 sz) val m) (\<lambda>m'. mem_ok m' \<and> length (m_store m') = length (m_store m))"
proof -
  have len: "length (m_store m) < 2 ^ 41" using assms(1) by (simp add: mem_ok_def)
  have "sz < 2 ^ 64"
    using assms(2,3,4) len by (cases "sz = 0") (auto simp: calcMemSize_def is_word_def)
  then obtain m' where "mem_Set (Uint64 off) (Uint64 sz) val m = Some m'" "length (m_store m') = length (m_store m)"
    using mem_Set_stack[of off sz m val] assms len by (auto simp: is_word_def)
  then show ?thesis using assms(1) by (simp add: yields_def mem_ok_def)
qed

lemma getDataBig_safe:
  assumes "small data" "is_word start" "0 \<le> sz" "sz < 2 ^ 41"
  shows "yields (getDataBig data start sz) (\<lambda>b. length b = nat sz)"
proof -
  have "length data < 2 ^ 63" using assms(1) by (simp add: small_def)
  then show ?thesis using getDataBig_spec[of data start sz] assms by (simp add: is_word_def yields_def)
qed

lemma back_size_Some:
  "back_size i j st = Some v \<longleftrightarrow> i < length st \<and> j < length st \<and> v = calcMemSize (st ! i) (st ! j)"
  by (auto simp: back_size_def stack_Back_def go_index_def)

lemma copy_to_memory_safe:
  assumes "frame_ok f" "small data" "f_stack f = m # d # l # st"
    and "calcMemSize m l \<le> int (length (m_store (f_mem f)))"
  shows "yields (copy_to_memory data f) (outcome_ok f)"
proof -
  have ok: "stack_ok (m # d # l # st)" "mem_ok (f_mem f)" using frame_okD[OF assms(1)] assms(3) by simp_all
  have "0 \<le> l" "l < 2 ^ 41"
    using ok assms(4) by (cases "l = 0"; auto simp: calcMemSize_def is_word_def mem_ok_def)+
  from getDataBig_safe[OF assms(2) _ this, of d] obtain b where b: "getDataBig data d l = Some b"
    using ok by (auto simp: yields_def)
  obtain m' where m': "mem_Set (Uint64 m) (Uint64 l) b (f_mem f) = Some m'" "mem_ok m'"
    using mem_Set_safe[of "f_mem f" m l b] ok assms(4) by (auto simp: yields_def)
  show ?thesis
    using assms(1) ok b m' by (simp add: copy_to_memory_def f_pop_stack[OF assms(3)] done_ok_def outcome_mem)
qed

lemma opCallDataCopy_safe: "exec_safe (Some memoryCallDataCopy) 3 0 False opCallDataCopy"
proof (rule exec_safeI)
  fix f :: "'a frame"
  assume f: "frame_ok f" "3 \<le> length (f_stack f)" "mem_fits (Some memoryCallDataCopy) f"
  from f(2) obtain m d l st where st: "f_stack f = m # d # l # st" by (auto simp: stack_cases)
  show "yields (opCallDataCopy f) (outcome_ok f)"
    unfolding opCallDataCopy_def using f st frame_okD(2)[OF f(1)]
    by (intro copy_to_memory_safe[OF f(1) _ st])
      (auto simp: contract_ok_def mem_fits_def memoryCallDataCopy_def back_size_Some)
qed

lemma opCodeCopy_safe: "exec_safe (Some memoryCodeCopy) 3 0 False opCodeCopy"
proof (rule exec_safeI)
  fix f :: "'a frame"
  assume f: "frame_ok f" "3 \<le> length (f_stack f)" "mem_fits (Some memoryCodeCopy) f"
  from f(2) obtain m d l st where st: "f_stack f = m # d # l # st" by (auto simp: stack_cases)
  show "yields (opCodeCopy f) (outcome_ok f)"
    unfolding opCodeCopy_def using f st frame_okD(2)[OF f(1)]
    by (intro copy_to_memory_safe[OF f(1) _ st])
      (auto simp: contract_ok_def mem_fits_def memoryCodeCopy_def back_size_Some)
qed

lemma small_code_of: "sdb_ok s \<Longrightarrow> small (nil_bytes (code_of a (abs_state s)))"
  by (auto simp: nil_bytes_def code_of_def sdb_ok_def acct_ok_def split: option.split)

lemma outcome_ok_trans:
  assumes "frame_advance f g" "f_pc g = f_pc f" "outcome_ok g r"
  shows "outcome_ok f r"
  using assms frame_advance_trans[OF assms(1)] uses_gas_fields[of "f_contract f" "f_contract g"]
  by (auto simp: outcome_ok_def near_def frame_advance_def)

lemma yields_outcome_trans:
  "yields m (outcome_ok g) \<Longrightarrow> frame_advance f g \<Longrightarrow> f_pc g = f_pc f \<Longrightarrow> yields m (outcome_ok f)"
  using outcome_ok_trans[of f g] by (auto simp: yields_def)

lemma opExtCodeCopy_safe: "exec_safe (Some memoryExtCodeCopy) 4 0 False opExtCodeCopy"
proof (rule exec_safeI)
  fix f :: "'a frame"
  assume f: "frame_ok f" "4 \<le> length (f_stack f)" "mem_fits (Some memoryExtCodeCopy) f"
  from f(2) obtain a m d l st where st: "f_stack f = a # m # d # l # st" by (auto simp: stack_cases)
  define code where "code = evm_read (GetCode (BigToAddress a)) (f_evm f)"
  define g where "g = f\<lparr> f_stack := m # d # l # st, f_evm := snd code \<rparr>"
  have adv: "frame_advance f g"
    using frame_okD[OF f(1)] st evm_advance_getters(7)[of "f_evm f"]
    by (intro frame_advanceI[OF f(1)]) (simp_all add: g_def code_def)
  then have g: "frame_ok g" by (simp add: frame_advance_def)
  have "yields (copy_to_memory (nil_bytes (fst code)) g) (outcome_ok g)"
    using f(3) st frame_okD(1)[OF f(1)]
    by (intro copy_to_memory_safe[OF g])
      (auto simp: g_def code_def evm_read_eq GetCode_view small_code_of evm_ok_sdb mem_fits_def memoryExtCodeCopy_def back_size_Some)
  moreover have "opExtCodeCopy f = copy_to_memory (nil_bytes (fst code)) g"
    by (simp add: opExtCodeCopy_def f_pop_stack[OF st] case_prod_beta code_def g_def)
  ultimately show "yields (opExtCodeCopy f) (outcome_ok f)"
    using yields_outcome_trans[OF _ adv] by (simp add: g_def)
qed

lemma opReturnDataCopy_safe: "exec_safe (Some memoryReturnDataCopy) 3 0 False opReturnDataCopy"
proof (rule exec_safeI)
  fix f :: "'a frame"
  assume f: "frame_ok f" "3 \<le> length (f_stack f)" "mem_fits (Some memoryReturnDataCopy) f"
  from f(2) obtain m d l st where st: "f_stack f = m # d # l # st" by (auto simp: stack_cases)
  have ok: "stack_ok (m # d # l # st)" "mem_ok (f_mem f)" using frame_okD[OF f(1)] st by simp_all
  let ?r = "evm_returnData (f_evm f)"
  have r: "length ?r < 2 ^ 62" using frame_okD(1)[OF f(1)] by (simp add: evm_ok_def small_def)
  have len: "unat (of_nat (length ?r) :: uint64) = length ?r" using r by (intro unat_of_nat_64) simp
  have fits: "calcMemSize m l \<le> int (length (m_store (f_mem f)))"
    using f(3) st by (auto simp: mem_fits_def memoryReturnDataCopy_def back_size_Some)
  show "yields (opReturnDataCopy f) (outcome_ok f)"
  proof (cases "BitLen (d + l) > 64 \<or> of_nat (length ?r) < Uint64 (d + l)")
    case True
    then show ?thesis
      using f ok by (simp add: opReturnDataCopy_def Let_def f_pop_stack[OF st] outcome_stack)
  next
    case False
    have w: "0 \<le> d" "0 \<le> l" "d + l < 2 ^ 64" using ok False by (auto simp: is_word_def BitLen_gt_iff)
    then have u: "unat (Uint64 (d + l)) = nat (d + l)" "unat (Uint64 d) = nat d" using unat_Uint64 by auto
    have "nat (d + l) \<le> length ?r" using False by (simp add: word_less_nat_alt u len)
    then obtain b where b: "go_slice ?r (nat d) (nat (d + l)) = Some b" using w by (simp add: nat_le_iff)
    obtain m' where m': "mem_Set (Uint64 m) (Uint64 l) b (f_mem f) = Some m'" "mem_ok m'"
      using mem_Set_safe[of "f_mem f" m l b] ok fits by (auto simp: yields_def)
    show ?thesis
      using f(1) ok b m' False u by (simp add: opReturnDataCopy_def Let_def f_pop_stack[OF st] done_ok_def outcome_mem)
  qed
qed

lemma opSha3_safe: "exec_safe (Some memorySha3) 2 1 False opSha3"
proof (rule exec_safeI)
  fix f :: "'a frame"
  assume f: "frame_ok f" "2 \<le> length (f_stack f)" "mem_fits (Some memorySha3) f"
  from f(2) obtain x y st where st: "f_stack f = x # y # st" by (auto simp: stack_cases)
  have ok: "stack_ok (x # y # st)" "mem_ok (f_mem f)" "evm_ok (f_evm f)" using frame_okD[OF f(1)] st by simp_all
  obtain b where b: "mem_Get (Int64 x) (Int64 y) (f_mem f) = Some b"
    using mem_Get_safe[of "f_mem f" x y] ok f(3) st
    by (auto simp: mem_fits_def memorySha3_def back_size_Some yields_def)
  let ?h = "Keccak256 (sdb_db (evm_StateDB (f_evm f))) b"
  have h: "length ?h = 32" using ok(3) by (simp add: evm_ok_def sdb_ok_def db_ok_def)
  let ?e = "if evm_EnablePreimageRecording (f_evm f) then evm_write (AddPreimage (BytesToHash ?h) b) (f_evm f) else f_evm f"
  have "evm_advance (f_evm f) ?e"
    using ok(3) by (simp add: evm_advance_write advance_AddPreimage evm_ok_sdb)
  then show "yields (opSha3 f) (outcome_ok f)"
    using f ok b h by (cases "evm_EnablePreimageRecording (f_evm f)")
      (simp_all add: opSha3_def f_pop_stack[OF st] Let_def push_ok_def f_push_def done_ok_def outcome_evm
        outcome_stack is_word_SetBytes)
qed

lemma opMload_safe: "exec_safe (Some memoryMLoad) 1 1 False opMload"
proof (rule exec_safeI)
  fix f :: "'a frame"
  assume f: "frame_ok f" "1 \<le> length (f_stack f)" "mem_fits (Some memoryMLoad) f"
  from f(2) obtain x st where st: "f_stack f = x # st" by (cases "f_stack f") auto
  have ok: "stack_ok (x # st)" "mem_ok (f_mem f)" using frame_okD[OF f(1)] st by simp_all
  have "is_word 32" by (simp add: is_word_def tt256_def)
  moreover have "Int64 32 = 32" by (simp add: Int64_small)
  ultimately obtain b where "mem_Get (Int64 x) 32 (f_mem f) = Some b" "length b = 32"
    using mem_Get_safe[of "f_mem f" x 32] ok f(3) st
    by (auto simp: mem_fits_def memoryMLoad_def stack_Back_def yields_def)
  then show "yields (opMload f) (outcome_ok f)"
    using f ok by (simp add: opMload_def f_pop_stack[OF st] push_ok_def f_push_def done_ok_def outcome_stack is_word_SetBytes)
qed

lemma opMstore_safe: "exec_safe (Some memoryMStore) 2 0 False opMstore"
proof (rule exec_safeI)
  fix f :: "'a frame"
  assume f: "frame_ok f" "2 \<le> length (f_stack f)" "mem_fits (Some memoryMStore) f"
  from f(2) obtain x y st where st: "f_stack f = x # y # st" by (auto simp: stack_cases)
  have ok: "stack_ok (x # y # st)" "mem_ok (f_mem f)" using frame_okD[OF f(1)] st by simp_all
  let ?s = "m_store (f_mem f)"
  have len: "nat x + 32 \<le> length ?s" "length ?s < 2 ^ 41" "0 \<le> x"
    using f(3) st ok by (auto simp: mem_fits_def memoryMStore_def stack_Back_def calcMemSize_def is_word_def mem_ok_def)
  note set = mem_Set32_spec[OF len, of y]
  have "mem_ok ((f_mem f)\<lparr> m_store := take (nat x) ?s @ be_bytes 32 \<bar>y\<bar> @ drop (nat x + 32) ?s \<rparr>)"
    using ok(2) len by (simp add: mem_ok_def)
  then show "yields (opMstore f) (outcome_ok f)"
    using f ok set by (simp add: opMstore_def f_pop_stack[OF st] done_ok_def outcome_mem)
qed

lemma opMstore8_safe: "exec_safe (Some memoryMStore8) 2 0 False opMstore8"
proof (rule exec_safeI)
  fix f :: "'a frame"
  assume f: "frame_ok f" "2 \<le> length (f_stack f)" "mem_fits (Some memoryMStore8) f"
  from f(2) obtain x y st where st: "f_stack f = x # y # st" by (auto simp: stack_cases)
  have ok: "stack_ok (x # y # st)" "mem_ok (f_mem f)" using frame_okD[OF f(1)] st by simp_all
  have x: "x + 1 \<le> int (length (m_store (f_mem f)))" "0 \<le> x" "length (m_store (f_mem f)) < 2 ^ 41"
    using f(3) st ok by (auto simp: mem_fits_def memoryMStore8_def stack_Back_def calcMemSize_def is_word_def mem_ok_def)
  then have "Int64 x = x" by (intro Int64_small) auto
  moreover have "mem_ok ((f_mem f)\<lparr> m_store := (m_store (f_mem f))[nat x := v] \<rparr>)" for v
    using ok(2) by (simp add: mem_ok_def)
  ultimately show "yields (opMstore8 f) (outcome_ok f)"
    using f ok x by (simp add: opMstore8_def f_pop_stack[OF st] Let_def panic_unless_def done_ok_def outcome_mem)
qed

lemma return_safe:
  assumes "frame_ok f" "f_stack f = x # y # st" "calcMemSize x y \<le> int (length (m_store (f_mem f)))"
  shows "yields (mem_GetPtr (Int64 x) (Int64 y) (f_mem f)) (\<lambda>ret. outcome_ok f (f\<lparr> f_stack := st \<rparr>, ret, None))"
proof -
  have ok: "stack_ok (x # y # st)" "mem_ok (f_mem f)" using frame_okD[OF assms(1)] assms(2) by simp_all
  have "yields (mem_GetPtr (Int64 x) (Int64 y) (f_mem f)) (\<lambda>b. length b \<le> length (m_store (f_mem f)))"
    unfolding mem_GetPtr_Get using mem_Get_safe[of "f_mem f" x y] ok assms(3) by (auto intro: yields_mono)
  moreover have "outcome_ok f (f\<lparr> f_stack := st \<rparr>, b, None)" if "length b \<le> length (m_store (f_mem f))" for b
    using outcome_stack[OF assms(1), of st] ok that small_le[OF that] mem_small[of "f_mem f"] by (simp add: outcome_ok_def)
  ultimately show ?thesis by (rule yields_mono)
qed

lemma opReturn_safe: "exec_safe (Some memoryReturn) 2 0 False opReturn"
proof (rule exec_safeI)
  fix f :: "'a frame"
  assume f: "frame_ok f" "2 \<le> length (f_stack f)" "mem_fits (Some memoryReturn) f"
  from f(2) obtain x y st where st: "f_stack f = x # y # st" by (auto simp: stack_cases)
  show "yields (opReturn f) (outcome_ok f)"
    using return_safe[OF f(1) st] f(3) st
    by (auto simp: opReturn_def f_pop_stack[OF st] mem_fits_def memoryReturn_def back_size_Some intro!: yields_bind)
qed

lemma opRevert_safe: "exec_safe (Some memoryRevert) 2 0 False opRevert"
proof (rule exec_safeI)
  fix f :: "'a frame"
  assume f: "frame_ok f" "2 \<le> length (f_stack f)" "mem_fits (Some memoryRevert) f"
  from f(2) obtain x y st where st: "f_stack f = x # y # st" by (auto simp: stack_cases)
  show "yields (opRevert f) (outcome_ok f)"
    using return_safe[OF f(1) st] f(3) st
    by (auto simp: opRevert_def f_pop_stack[OF st] mem_fits_def memoryRevert_def back_size_Some intro!: yields_bind)
qed

section \<open>Stack, storage and control flow\<close>

lemma opStop_safe: "exec_safe None 0 0 False opStop"
  by (rule exec_safeI) (simp add: opStop_def done_ok_def outcome_ok_def)

lemma opJumpdest_safe: "exec_safe None 0 0 False opJumpdest"
  by (rule exec_safeI) (simp add: opJumpdest_def done_ok_def outcome_ok_def)

lemma opPop_safe: "exec_safe None 1 0 False opPop"
proof (rule exec_safeI)
  fix f :: "'a frame"
  assume f: "frame_ok f" "1 \<le> length (f_stack f)"
  from f(2) obtain x st where st: "f_stack f = x # st" by (cases "f_stack f") auto
  show "yields (opPop f) (outcome_ok f)"
    using frame_okD(3)[OF f(1)] f st by (simp add: opPop_def f_pop_stack[OF st] done_ok_def outcome_stack)
qed

lemma opSstore_safe: "exec_safe None 2 0 True opSstore"
proof (rule exec_safeI)
  fix f :: "'a frame"
  assume f: "frame_ok f" "2 \<le> length (f_stack f)" "True \<Longrightarrow> \<not> read_only (f_evm f)"
  from f(2) obtain x y st where st: "f_stack f = x # y # st" by (auto simp: stack_cases)
  have ok: "stack_ok (x # y # st)" "evm_ok (f_evm f)" using frame_okD[OF f(1)] st by simp_all
  have "evm_advance (f_evm f) (evm_write (SetState a k v) (f_evm f))" for a k v
    using ok(2) f(3) advance_SetState[OF evm_ok_sdb[OF ok(2)]] by (intro evm_advance_write) simp_all
  then show "yields (opSstore f) (outcome_ok f)"
    using f ok by (simp add: opSstore_def f_pop_stack[OF st] done_ok_def outcome_evm)
qed

lemma opSuicide_safe: "exec_safe None 1 0 True opSuicide"
proof (rule exec_safeI)
  fix f :: "'a frame"
  assume f: "frame_ok f" "1 \<le> length (f_stack f)" "True \<Longrightarrow> \<not> read_only (f_evm f)"
  from f(2) obtain x st where st: "f_stack f = x # st" by (cases "f_stack f") auto
  have ok: "stack_ok (x # st)" "evm_ok (f_evm f)" using frame_okD[OF f(1)] st by simp_all
  let ?a = "c_self (f_contract f)" and ?s = "evm_StateDB (f_evm f)"
  let ?s1 = "snd (GetBalance ?a ?s)"
  let ?s2 = "snd (Suicide ?a (AddBalance (BigToAddress x) (bal ?a (abs_state ?s)) ?s1))"
  have s1: "advance False ?s ?s1" "abs_state ?s1 = abs_state ?s"
    using advance_getters(3)[OF evm_ok_sdb[OF ok(2)]] quiet_simple_getters(3)[of ?s ?a] by (auto simp: quiet_def)
  have "advance False ?s1 ?s2" using advance_suicide[OF advance_ok[OF s1(1)], of ?a "BigToAddress x"] s1(2) by simp
  then have "advance False ?s ?s2" using s1(1) advance_trans by blast
  then have "evm_advance (f_evm f) ((f_evm f)\<lparr> evm_StateDB := ?s2 \<rparr>)"
    using ok(2) f(3) by (simp add: evm_advance_sdb)
  then show "yields (opSuicide f) (outcome_ok f)"
    using f ok by (simp add: opSuicide_def Let_def f_pop_stack[OF st] evm_read_eq evm_write_def GetBalance_view done_ok_def outcome_evm)
qed

text \<open>A jump never panics: a cached analysis is long enough for every code with its hash.\<close>

lemma destinations_has_safe:
  assumes "contract_ok db c" "cache_ok db d" "db_ok db" "0 \<le> dest"
  shows "yields (destinations_has (c_CodeHash c) (c_Code c) dest d)
    (\<lambda>(v, d'). cache_ok db d' \<and> (v \<longrightarrow> unat (Uint64 dest) < length (c_Code c)))"
proof -
  let ?code = "c_Code c" and ?u = "unat (Uint64 dest)"
  obtain bits where bits: "codeBitmap ?code = Some bits" "length bits = length ?code div 8 + 5"
    using codeBitmap_spec[of ?code] by metis
  have small: "small ?code" using assms(1) by (simp add: contract_ok_def)
  have len: "unat (of_nat (length ?code) :: uint64) = length ?code"
    using small by (intro unat_of_nat_64) (simp add: small_def)
  show ?thesis
  proof (cases "BitLen dest \<ge> 63 \<or> Uint64 dest \<ge> of_nat (length ?code)")
    case True
    then show ?thesis using assms by (simp add: destinations_has_def Let_def)
  next
    case False
    then have u: "?u < length ?code" by (simp add: word_le_nat_alt len)
    then have h: "c_CodeHash c = Keccak256Hash db ?code" using assms(1) by (auto simp: contract_ok_def)
    define m where "m = (case d (c_CodeHash c) of Some m \<Rightarrow> m | None \<Rightarrow> bits)"
    define d' where "d' = (case d (c_CodeHash c) of Some m \<Rightarrow> d | None \<Rightarrow> d(c_CodeHash c \<mapsto> bits))"
    have same: "length code = length ?code" if "small code" "Keccak256Hash db code = c_CodeHash c" for code
      using that assms(3) small unfolding h db_ok_def by blast
    have "cache_ok db (d(c_CodeHash c \<mapsto> bits))"
      unfolding cache_ok_def
    proof (intro allI impI)
      fix m code
      assume "(d(c_CodeHash c \<mapsto> bits)) (Keccak256Hash db code) = Some m" "small code"
      then show "length code div 8 < length m"
        using same[of code] assms(2) bits(2) by (cases "Keccak256Hash db code = c_CodeHash c") (simp_all add: cache_ok_def)
    qed
    then have d': "cache_ok db d'" using assms(2) by (simp add: d'_def split: option.split)
    have "length ?code div 8 < length m"
      using assms(2) small bits(2) by (auto simp: cache_ok_def h m_def split: option.split)
    then have "?u div 8 < length m" using u div_le_mono[of ?u "length ?code" 8] by linarith
    then obtain b where b: "codeSegment ?u m = Some b" by (simp add: codeSegment_def)
    have "destinations_has (c_CodeHash c) ?code dest d = Some (?code ! ?u = 0x5b \<and> b, d')"
      using False u b bits(1) by (auto simp: destinations_has_def Let_def m_def d'_def split: option.splits)
    then show ?thesis using d' u by (simp add: yields_def)
  qed
qed

lemma jump_to_safe:
  assumes "frame_ok f" "is_word pos" "pc_ok f"
  shows "yields (jump_to pos f) (outcome_ok f)"
proof -
  let ?db = "sdb_db (evm_StateDB (f_evm f))"
  have ok: "evm_ok (f_evm f)" "contract_ok ?db (f_contract f)" using frame_okD[OF assms(1)] by auto
  obtain v d where h: "destinations_has (c_CodeHash (f_contract f)) (c_Code (f_contract f)) pos (evm_jumpdests (f_evm f)) = Some (v, d)"
    "cache_ok ?db d" "v \<Longrightarrow> unat (Uint64 pos) < length (c_Code (f_contract f))"
    using destinations_has_safe[of ?db "f_contract f" "evm_jumpdests (f_evm f)" pos] ok assms(2)
    by (auto simp: evm_ok_def sdb_ok_def is_word_def yields_def)
  have "evm_advance (f_evm f) ((f_evm f)\<lparr> evm_jumpdests := d \<rparr>)"
    using ok(1) h(2) by (simp add: evm_advance_def evm_ok_def same_env_def)
  then have "frame_advance f (f\<lparr> f_evm := (f_evm f)\<lparr> evm_jumpdests := d \<rparr>, f_pc := n \<rparr>)" for n
    using frame_okD[OF assms(1)] by (intro frame_advanceI[OF assms(1)]) simp_all
  note adv = this this[of "f_pc f"]
  show ?thesis
    using h adv(1)[of "Uint64 pos"] adv(2) by (simp add: jump_to_def Let_def done_ok_def outcome_ok_def near_def)
qed

lemma opJump_safe: "exec_safe None 1 0 False opJump"
proof (rule exec_safeI)
  fix f :: "'a frame"
  assume f: "frame_ok f" "pc_ok f" "1 \<le> length (f_stack f)"
  from f(3) obtain x st where st: "f_stack f = x # st" by (cases "f_stack f") auto
  let ?g = "f\<lparr> f_stack := st \<rparr>"
  have ok: "stack_ok (x # st)" using frame_okD[OF f(1)] st by simp
  then have adv: "frame_advance f ?g" using outcome_stack[OF f(1), of st] by (simp add: outcome_ok_def)
  then have "yields (jump_to x ?g) (outcome_ok ?g)"
    using ok f(2) by (intro jump_to_safe) (simp_all add: frame_advance_def pc_ok_def)
  then show "yields (opJump f) (outcome_ok f)"
    using yields_outcome_trans[OF _ adv] by (simp add: opJump_def f_pop_stack[OF st])
qed

lemma unat_plus_small:
  assumes "pc_ok f" "frame_ok f" "unat n \<le> 33"
  shows "unat (f_pc f + n) = unat (f_pc f) + unat n"
proof (rule unat_add_no_wrap)
  have "length (c_Code (f_contract f)) < 2 ^ 62" using frame_okD(2)[OF assms(2)] by (simp add: contract_ok_def small_def)
  then show "unat (f_pc f) + unat n < 2 ^ 64" using assms(1,3) by (simp add: pc_ok_def)
qed

lemma opJumpi_safe: "exec_safe None 2 0 False opJumpi"
proof (rule exec_safeI)
  fix f :: "'a frame"
  assume f: "frame_ok f" "pc_ok f" "2 \<le> length (f_stack f)"
  from f(3) obtain x y st where st: "f_stack f = x # y # st" by (auto simp: stack_cases)
  let ?g = "f\<lparr> f_stack := st \<rparr>"
  have ok: "stack_ok (x # y # st)" using frame_okD[OF f(1)] st by simp
  then have adv: "frame_advance f ?g" using outcome_stack[OF f(1), of st] by (simp add: outcome_ok_def)
  then have "yields (jump_to x ?g) (outcome_ok ?g)"
    using ok f(2) by (intro jump_to_safe) (simp_all add: frame_advance_def pc_ok_def)
  moreover have "outcome_ok f (?g\<lparr> f_pc := f_pc f + 1 \<rparr>, [], None)"
    using f ok frame_okD[OF f(1)] unat_plus_small[OF f(2,1), of 1]
    by (auto simp: outcome_ok_def near_def intro!: frame_advanceI)
  ultimately show "yields (opJumpi f) (outcome_ok f)"
    using yields_outcome_trans[OF _ adv]
    by (simp add: opJumpi_def f_pop_stack[OF st] done_ok_def)
qed

lemma pop_topics_eq:
  "n \<le> length (f_stack f) \<Longrightarrow>
   pop_topics n f = Some (map BigToHash (take n (f_stack f)), f\<lparr> f_stack := drop n (f_stack f) \<rparr>)"
proof (induction n arbitrary: f)
  case (Suc n)
  then obtain x st where st: "f_stack f = x # st" by (cases "f_stack f") auto
  with Suc show ?case by (simp add: f_pop_stack[OF st])
qed simp

lemma stack_ok_drop: "stack_ok st \<Longrightarrow> stack_ok (drop n st)"
  by (auto simp: stack_ok_def dest: in_set_dropD)

lemma makeLog_safe: "exec_safe (Some memoryLog) (n + 2) 0 True (makeLog n)"
proof (rule exec_safeI)
  fix f :: "'a frame"
  assume f: "frame_ok f" "n + 2 \<le> length (f_stack f)" "mem_fits (Some memoryLog) f" "True \<Longrightarrow> \<not> read_only (f_evm f)"
  from f(2) obtain x y st where st: "f_stack f = x # y # st" "n \<le> length st"
    by (cases "f_stack f"; cases "tl (f_stack f)") auto
  have ok: "stack_ok (x # y # st)" "mem_ok (f_mem f)" "evm_ok (f_evm f)" using frame_okD[OF f(1)] st by simp_all
  obtain b where b: "mem_Get (Int64 x) (Int64 y) (f_mem f) = Some b"
    using mem_Get_safe[of "f_mem f" x y] ok f(3) st
    by (auto simp: mem_fits_def memoryLog_def back_size_Some yields_def)
  have "evm_advance (f_evm f) (evm_write (AddLog l) (f_evm f))" for l
    using ok(3) f(4) advance_AddLog[OF evm_ok_sdb[OF ok(3)]] by (intro evm_advance_write) simp_all
  then show "yields (makeLog n f) (outcome_ok f)"
    using f ok b st(2) by (simp add: makeLog_def f_pop_stack[OF st(1)] pop_topics_eq Let_def done_ok_def outcome_evm stack_ok_drop)
qed

lemma makeDup_safe: "0 < n \<Longrightarrow> exec_safe None n (n + 1) False (makeDup n)"
proof (rule exec_safeI)
  fix f :: "'a frame"
  assume "0 < n" and f: "frame_ok f" "n \<le> length (f_stack f)" "length (f_stack f) + (n + 1) \<le> StackLimit + n"
  then have "n - 1 < length (f_stack f)" by simp
  moreover have "stack_ok (f_stack f ! (n - 1) # f_stack f)"
    using frame_okD(3)[OF f(1)] f \<open>n - 1 < _\<close> by (simp add: stack_ok_def)
  ultimately show "yields (makeDup n f) (outcome_ok f)"
    using f by (simp add: makeDup_def stack_dup_def done_ok_def outcome_stack)
qed

lemma makeSwap_safe: "exec_safe None (n + 1) (n + 1) False (makeSwap n)"
proof (rule exec_safeI)
  fix f :: "'a frame"
  assume f: "frame_ok f" "n + 1 \<le> length (f_stack f)"
  let ?st = "(f_stack f)[n := f_stack f ! 0, 0 := f_stack f ! n]"
  have len: "0 < length (f_stack f)" "n < length (f_stack f)" using f(2) by auto
  then have "is_word (f_stack f ! 0)" "is_word (f_stack f ! n)" using frame_okD(3)[OF f(1)] by (simp_all add: stack_ok_def)
  moreover have "set ?st \<subseteq> insert (f_stack f ! n) (insert (f_stack f ! 0) (set (f_stack f)))"
    using set_update_subset_insert[of "f_stack f" n "f_stack f ! 0"]
      set_update_subset_insert[of "(f_stack f)[n := f_stack f ! 0]" 0 "f_stack f ! n"] by fast
  ultimately have "is_word z" if "z \<in> set ?st" for z
    using that frame_okD(3)[OF f(1)] unfolding stack_ok_def by fast
  then have "stack_ok ?st" using frame_okD(3)[OF f(1)] by (simp add: stack_ok_def)
  then show "yields (makeSwap n f) (outcome_ok f)"
    using f len by (simp add: makeSwap_def stack_swap_def done_ok_def outcome_stack)
qed

lemma makePush_safe:
  assumes "k \<le> 32" "unat n \<le> 32"
  shows "exec_safe None 0 1 False (makePush n k)"
proof (rule exec_safeI)
  fix f :: "'a frame"
  assume f: "frame_ok f" "pc_ok f" "length (f_stack f) + 1 \<le> StackLimit + 0"
  let ?code = "c_Code (f_contract f)"
  have len: "length ?code < 2 ^ 62" using frame_okD(2)[OF f(1)] by (simp add: contract_ok_def small_def)
  have pc: "unat (f_pc f + 1) = unat (f_pc f) + 1" using unat_plus_small[OF f(2,1), of 1] by simp
  have next_pos: "0 \<le> sint (f_pc f + 1)"
  proof -
    have "unat (f_pc f + 1) < 2 ^ 63" using pc f(2) len by (simp add: pc_ok_def)
    then have "uint (f_pc f + 1) < 2 ^ 63" by (metis of_nat_less_iff of_nat_numeral of_nat_power uint_nat)
    then show ?thesis using Int64_small[of "uint (f_pc f + 1)"] by (simp add: Int64_def)
  qed
  define start where "start = (if sint (f_pc f + 1) < int (length ?code) then sint (f_pc f + 1) else int (length ?code))"
  define stop where "stop = (if start + int k < int (length ?code) then start + int k else int (length ?code))"
  have le: "0 \<le> start" "start \<le> stop" "stop \<le> int (length ?code)" "stop - start \<le> 32"
    using next_pos assms(1) by (auto simp: start_def stop_def)
  define b where "b = take (nat (stop - start)) (drop (nat start) ?code)"
  have b: "mem_slice ?code start (stop - start) = Some b" "length b \<le> 32"
    using mem_slice_ok[of start "stop - start" ?code] le by (simp_all add: b_def)
  have "is_word (SetBytes (RightPadBytes b (int k)))"
    using assms(1) b(2) by (intro is_word_SetBytes) (simp add: length_RightPadBytes)
  then have "stack_ok (SetBytes (RightPadBytes b (int k)) # f_stack f)"
    using frame_okD(3)[OF f(1)] f(3) by simp
  moreover have "makePush n k f =
      done_ok (f\<lparr> f_stack := SetBytes (RightPadBytes b (int k)) # f_stack f, f_pc := f_pc f + n \<rparr>)"
    unfolding makePush_def Let_def start_def[symmetric] stop_def[symmetric] b(1) by (simp add: f_push_def)
  ultimately show "yields (makePush n k f) (outcome_ok f)"
    using f frame_okD[OF f(1)] unat_plus_small[OF f(2,1), of n] assms(2)
    by (auto simp: done_ok_def outcome_ok_def near_def intro!: frame_advanceI)
qed

end
