(* ===== verification/VM_Gas_Safe.thy ===== *)
theory VM_Gas_Safe
  imports VM_Exec_Safe
begin

text \<open>Every gas function is safe on a stack of the validated height: it does not panic and keeps the
  invariants. If it returns a cost, then the memory size is below the limit of \<open>memoryGasCost\<close> and the
  cost has a known lower bound, which is positive for every instruction after which the loop goes on.
  The cost of a call exceeds the gas that is passed on.\<close>

definition charged :: "'t frame \<Rightarrow> 't frame \<Rightarrow> bool" where
  "charged f f' \<longleftrightarrow> evm_advance (f_evm f) (f_evm f') \<and> f_contract f' = f_contract f \<and> f_stack f' = f_stack f \<and>
     f_pc f' = f_pc f \<and> m_store (f_mem f') = m_store (f_mem f)"

definition gas_ok :: "('t frame \<Rightarrow> uint64 \<Rightarrow> bool) \<Rightarrow> uint64 \<Rightarrow> 't frame \<Rightarrow> 't frame \<times> gas_result \<Rightarrow> bool" where
  "gas_ok Q n f r \<longleftrightarrow> charged f (fst r) \<and> (\<forall>g. snd r = Inr g \<longrightarrow> Q (fst r) g \<and> n \<le> 0xffffffffe0)"

definition gas_safe :: "memorySizeFunc option \<Rightarrow> nat \<Rightarrow> bool \<Rightarrow> nat \<Rightarrow> 't gasFunc \<Rightarrow> bool" where
  "gas_safe mso p w lo gc \<longleftrightarrow>
     (\<forall>f n. frame_ok f \<and> p \<le> length (f_stack f) \<and> (w \<longrightarrow> \<not> read_only (f_evm f)) \<and> (mso = None \<longrightarrow> n = 0) \<longrightarrow>
        yields (gc (evm_gasTable (f_evm f)) f n) (gas_ok (\<lambda>f g. lo \<le> unat g) n f))"

lemma charged_refl [simp]: "frame_ok f \<Longrightarrow> charged f f"
  by (simp add: charged_def frame_okD)

lemma charged_mem: "frame_ok f \<Longrightarrow> m_store m = m_store (f_mem f) \<Longrightarrow> charged f (f\<lparr> f_mem := m \<rparr>)"
  by (simp add: charged_def frame_okD)

lemma gas_safeI:
  assumes "\<And>f n. frame_ok f \<Longrightarrow> p \<le> length (f_stack f) \<Longrightarrow> (w \<Longrightarrow> \<not> read_only (f_evm f)) \<Longrightarrow>
      (mso = None \<Longrightarrow> n = 0) \<Longrightarrow> yields (gc (evm_gasTable (f_evm f)) f n) (gas_ok (\<lambda>f g. lo \<le> unat g) n f)"
  shows "gas_safe mso p w lo gc"
  using assms by (simp add: gas_safe_def)

lemma evm_gas_table:
  "20 \<le> unat (gtExtcodeSize (evm_gasTable evm))" "20 \<le> unat (gtExtcodeCopy (evm_gasTable evm))"
  "20 \<le> unat (gtBalance (evm_gasTable evm))" "50 \<le> unat (gtSLoad (evm_gasTable evm))"
  "40 \<le> unat (gtCalls (evm_gasTable evm))" "unat (gtCalls (evm_gasTable evm)) \<le> 700"
  using gas_table_positive[OF refl] by (simp_all add: evm_gasTable_def)

lemma const_gas_safe: "lo \<le> unat g \<Longrightarrow> gas_safe None p w lo (constGasFunc g)"
  by (rule gas_safeI) (simp add: constGasFunc_def gas_ok_def)

lemma gas_ok_const: "frame_ok f \<Longrightarrow> n = 0 \<Longrightarrow> lo \<le> unat g \<Longrightarrow> gas_ok (\<lambda>f g. lo \<le> unat g) n f (f, Inr g)"
  by (simp add: gas_ok_def)

lemma simple_gas_safe:
  "gas_safe None p w 20 gasBalance" "gas_safe None p w 20 gasExtCodeSize" "gas_safe None p w 50 gasSLoad"
  "gas_safe None p w 3 gasPush" "gas_safe None p w 3 gasSwap" "gas_safe None p w 3 gasDup"
  by (rule gas_safeI, simp only: gasBalance_def gasExtCodeSize_def gasSLoad_def gasPush_def gasSwap_def gasDup_def
      yields_Some_iff, rule gas_ok_const, assumption, simp, simp add: evm_gas_table params)+

text \<open>Functions that add to the memory fee.\<close>

lemma with_memory_fee_ok:
  assumes "frame_ok f" "\<And>fee g. k fee = Inr g \<Longrightarrow> unat fee + lo \<le> unat g"
  shows "gas_ok (\<lambda>f g. lo \<le> unat g) n f (with_memory_fee k f n)"
proof -
  obtain mem r where m: "memoryGasCost n (f_mem f) = (mem, r)" by (cases "memoryGasCost n (f_mem f)")
  have "charged f (f\<lparr> f_mem := mem \<rparr>)" using assms(1) memoryGasCost_store[OF m] by (rule charged_mem)
  then show ?thesis
    using m assms(2) memoryGasCost_Inr(1)[of n "f_mem f" mem] add_leD2
    by (fastforce simp: with_memory_fee_def gas_ok_def gas_bind_Inr)
qed

lemma memory_gas_safe:
  "gas_safe (Some ms) p w 3 gasMLoad" "gas_safe (Some ms) p w 3 gasMStore8" "gas_safe (Some ms) p w 3 gasMStore"
  "gas_safe (Some ms) p w 32000 gasCreate"
  by (rule gas_safeI, auto simp: gasMLoad_def gasMStore8_def gasMStore_def gasCreate_def params
      dest!: gas_add_unat intro!: with_memory_fee_ok)+

lemma return_gas_safe: "gas_safe (Some ms) p w 0 gasReturn" "gas_safe (Some ms) p w 0 gasRevert"
  by (rule gas_safeI, simp only: gasReturn_def gasRevert_def yields_Some_iff, rule with_memory_fee_ok, assumption, simp)+

lemma copy_gas_ok:
  assumes "frame_ok f" "k < length (f_stack f)" "lo \<le> unat base"
  shows "yields (copy_gas base k f n) (gas_ok (\<lambda>f g. lo \<le> unat g) n f)"
  using assms
  by (auto simp: copy_gas_def stack_Back_def gas_bind_Inr dest!: gas_add_unat add_words_ge intro!: with_memory_fee_ok)

lemma copy_gas_safe:
  "gas_safe (Some ms) 3 w 3 gasCallDataCopy" "gas_safe (Some ms) 3 w 3 gasCodeCopy"
  "gas_safe (Some ms) 3 w 3 gasReturnDataCopy" "gas_safe (Some ms) 4 w 20 gasExtCodeCopy"
  by (rule gas_safeI, auto simp: gasCallDataCopy_def gasCodeCopy_def gasReturnDataCopy_def gasExtCodeCopy_def params
      evm_gas_table intro!: copy_gas_ok)+

lemma gasSha3_safe: "gas_safe (Some ms) 2 w 30 gasSha3"
  by (rule gas_safeI)
    (auto simp: gasSha3_def stack_Back_def gas_bind_Inr params dest!: gas_add_unat add_words_ge intro!: with_memory_fee_ok)

lemma makeGasLog_safe: "gas_safe (Some ms) (k + 2) w 375 (makeGasLog n)"
proof (rule gas_safeI)
  fix f :: "'a frame" and m
  assume "frame_ok f" "k + 2 \<le> length (f_stack f)"
  then show "yields (makeGasLog n (evm_gasTable (f_evm f)) f m) (gas_ok (\<lambda>f g. 375 \<le> unat g) m f)"
    by (cases "gas_uint64 (f_stack f ! 1)")
      (auto simp: makeGasLog_def stack_Back_def gas_bind_Inr params gas_ok_def[of _ _ _ "(f, Inl e)" for e]
        dest!: gas_add_unat intro!: with_memory_fee_ok)
qed

lemma gasExp_safe: "gas_safe None 2 w 10 gasExp"
proof (rule gas_safeI)
  fix f :: "'a frame" and n :: uint64
  assume "frame_ok f" "2 \<le> length (f_stack f)" "None = None \<Longrightarrow> n = 0"
  then show "yields (gasExp (evm_gasTable (f_evm f)) f n) (gas_ok (\<lambda>f g. 10 \<le> unat g) n f)"
    by (auto simp: gasExp_def Let_def gas_ok_def params dest!: gas_add_unat)
qed

section \<open>Storage and self-destruction\<close>

lemma charged_evm: "frame_ok f \<Longrightarrow> evm_advance (f_evm f) evm \<Longrightarrow> charged f (f\<lparr> f_evm := evm \<rparr>)"
  by (simp add: charged_def)

lemma evm_AddRefund:
  "evm_ok evm \<Longrightarrow> \<not> read_only evm \<Longrightarrow> evm_advance evm (evm_write (AddRefund g) evm)"
  using advance_AddRefund[OF evm_ok_sdb] by (intro evm_advance_write) simp_all

lemma gasSStore_safe: "gas_safe None 2 True 5000 gasSStore"
proof (rule gas_safeI)
  fix f :: "'a frame" and n :: uint64
  assume f: "frame_ok f" "2 \<le> length (f_stack f)" "True \<Longrightarrow> \<not> read_only (f_evm f)" "None = None \<Longrightarrow> n = 0"
  let ?evm = "snd (evm_read (GetState (c_self (f_contract f)) (BigToHash (f_stack f ! 0))) (f_evm f))"
  have adv: "evm_advance (f_evm f) ?evm" by (rule evm_advance_getters(8)[OF frame_okD(1)[OF f(1)]])
  have "evm_advance ?evm (evm_write (AddRefund SstoreRefundGas) ?evm)"
    using f(3) evm_advance_ok[OF adv] evm_advance_read_only[OF adv] by (intro evm_AddRefund) simp_all
  note adv' = evm_advance_trans[OF adv this]
  have len: "0 < length (f_stack f)" "1 < length (f_stack f)" using f(2) by auto
  show "yields (gasSStore (evm_gasTable (f_evm f)) f n) (gas_ok (\<lambda>f g. 5000 \<le> unat g) n f)"
    using f charged_evm[OF f(1) adv] charged_evm[OF f(1) adv'] len
    by (simp add: gasSStore_def stack_Back_def case_prod_beta Let_def gas_ok_def params)
qed

text \<open>What the fee for a self-destruction depends on is only read.\<close>

lemma gasSuicide_cases:
  assumes "frame_ok f" "0 < length (f_stack f)"
  obtains gas evm where "evm_advance (f_evm f) evm"
    "gasSuicide gt f n =
       (let (dead, evm) = evm_read (HasSuicided (c_self (f_contract f))) evm
        in Some (f\<lparr> f_evm := if \<not> dead then evm_write (AddRefund SuicideRefundGas) evm else evm \<rparr>, Inr gas))"
proof -
  let ?e = "f_evm f" and ?self = "c_self (f_contract f)"
  let ?addr = "BigToAddress (f_stack f ! 0)"
  have ok: "evm_ok ?e" using assms(1) by (rule frame_okD)
  note adv = evm_advance_getters(1,2)[OF ok, of ?addr]
  have "evm_advance ?e (snd (evm_read (GetBalance ?self) (snd (evm_read (Empty ?addr) ?e))))"
    using adv(2) evm_advance_getters(3) evm_advance_ok evm_advance_trans by blast
  note adv = adv this
  show thesis
  proof (cases "IsEIP150 (evm_chainConfig ?e) (evm_BlockNumber ?e)")
    case False
    then show thesis using that[OF evm_advance_refl[OF ok]] by (simp add: gasSuicide_def Let_def case_prod_beta)
  next
    case e150: True
    show thesis
    proof (cases "IsEIP158 (evm_chainConfig ?e) (evm_BlockNumber ?e)")
      case False
      then show thesis using that[OF adv(1)] assms(2) e150 by (simp add: gasSuicide_def Let_def case_prod_beta stack_Back_def)
    next
      case True
      then show thesis using that[OF adv(2)] that[OF adv(3)] assms(2) e150
        by (cases "fst (evm_read (Empty ?addr) ?e)")
          (simp_all add: gasSuicide_def Let_def case_prod_beta stack_Back_def)
    qed
  qed
qed

lemma gasSuicide_safe: "gas_safe None 1 True 0 gasSuicide"
proof (rule gas_safeI)
  fix f :: "'a frame" and n :: uint64
  assume f: "frame_ok f" "1 \<le> length (f_stack f)" "True \<Longrightarrow> \<not> read_only (f_evm f)" "None = None \<Longrightarrow> n = 0"
  have "0 < length (f_stack f)" using f(2) by auto
  from gasSuicide_cases[OF f(1) this, of "evm_gasTable (f_evm f)" n] obtain gas evm
    where evm: "evm_advance (f_evm f) evm" and eq: "gasSuicide (evm_gasTable (f_evm f)) f n =
       (let (dead, evm) = evm_read (HasSuicided (c_self (f_contract f))) evm
        in Some (f\<lparr> f_evm := if \<not> dead then evm_write (AddRefund SuicideRefundGas) evm else evm \<rparr>, Inr gas))" .
  let ?e = "snd (evm_read (HasSuicided (c_self (f_contract f))) evm)"
  have e: "evm_advance (f_evm f) ?e"
    using evm_advance_trans[OF evm evm_advance_getters(6)[OF evm_advance_ok[OF evm]]] .
  have "evm_advance ?e (evm_write (AddRefund SuicideRefundGas) ?e)"
    using f(3) evm_advance_ok[OF e] evm_advance_read_only[OF e] by (intro evm_AddRefund) simp_all
  then show "yields (gasSuicide (evm_gasTable (f_evm f)) f n) (gas_ok (\<lambda>f g. 0 \<le> unat g) n f)"
    using f(1,4) e charged_evm[OF f(1) e] charged_evm[OF f(1) evm_advance_trans[OF e]]
    unfolding eq case_prod_beta Let_def by (simp add: gas_ok_def)
qed

section \<open>Calls\<close>

text \<open>The cost of a call is at least its base fee together with the gas passed on.\<close>

definition call_cost :: "nat \<Rightarrow> 't frame \<Rightarrow> uint64 \<Rightarrow> bool" where
  "call_cost base f g \<longleftrightarrow> base + unat (evm_callGasTemp (f_evm f)) \<le> unat g"

lemma evm_advance_callGasTemp: "evm_ok evm \<Longrightarrow> evm_advance evm (evm\<lparr> evm_callGasTemp := g \<rparr>)"
  by (simp add: evm_advance_def evm_ok_def same_env_def)

lemma call_gas_ok:
  assumes "frame_ok f" "lo \<le> unat base"
  shows "gas_ok (call_cost lo) n f (call_gas gt requested base f n)"
proof -
  obtain f1 r where w: "with_memory_fee (\<lambda>memoryGas. gas_add base memoryGas) f n = (f1, r)"
    by (cases "with_memory_fee (\<lambda>memoryGas. gas_add base memoryGas) f n")
  have ok: "gas_ok (\<lambda>f g. unat base \<le> unat g) n f (f1, r)"
    unfolding w[symmetric] using assms(1) by (rule with_memory_fee_ok) (auto dest: gas_add_unat)
  then have f1: "charged f f1" by (simp add: gas_ok_def)
  have adv: "evm_advance (f_evm f) ((f_evm f1)\<lparr> evm_callGasTemp := g \<rparr>)" for g
    using f1 evm_advance_callGasTemp evm_advance_ok evm_advance_trans unfolding charged_def by blast
  then have ch: "charged f (f1\<lparr> f_evm := (f_evm f1)\<lparr> evm_callGasTemp := g \<rparr> \<rparr>)" for g
    using f1 by (simp add: charged_def)
  show ?thesis
  proof (cases r)
    case (Inl e)
    then show ?thesis using f1 by (simp add: call_gas_def w gas_ok_def)
  next
    case (Inr gas)
    then have g: "unat base \<le> unat gas" "n \<le> 0xffffffffe0" using ok by (simp_all add: gas_ok_def)
    show ?thesis
      using ch g assms(2) Inr
      by (auto simp: call_gas_def w charge_call_def gas_ok_def call_cost_def dest!: gas_add_unat split: sum.split)
  qed
qed

lemma simple_call_gas_ok:
  assumes "frame_ok f" "0 < length (f_stack f)"
  shows "yields (gasDelegateCall (evm_gasTable (f_evm f)) f n) (gas_ok (call_cost 40) n f)"
    "yields (gasStaticCall (evm_gasTable (f_evm f)) f n) (gas_ok (call_cost 40) n f)"
  using assms call_gas_ok[OF assms(1) evm_gas_table(5)]
  by (simp_all add: gasDelegateCall_def gasStaticCall_def stack_Back_def)

lemma unat_call_base:
  fixes x y :: uint64
  assumes "unat x \<le> 30000" "unat y \<le> 30000"
  shows "unat (x + y) = unat x + unat y"
  using assms by (intro unat_add_no_wrap) simp

definition call_base :: "int \<Rightarrow> nat" where
  "call_base v = (if v = 0 then 40 else 9040)"

lemma gasCallCode_ok:
  assumes "frame_ok f" "2 < length (f_stack f)"
  shows "yields (gasCallCode (evm_gasTable (f_evm f)) f n) (gas_ok (call_cost (call_base (f_stack f ! 2))) n f)"
proof -
  let ?gt = "evm_gasTable (f_evm f)" and ?v = "f_stack f ! 2"
  have idx: "stack_Back (f_stack f) i = Some (f_stack f ! i)" if "i \<le> 2" for i
    using that assms(2) by (simp add: stack_Back_def)
  have "unat (gtCalls ?gt + CallValueTransferGas) = unat (gtCalls ?gt) + 9000"
    using unat_call_base[of "gtCalls ?gt" CallValueTransferGas] evm_gas_table(6)[of "f_evm f"] by (simp add: params)
  then have "call_base ?v \<le> unat (if ?v \<noteq> 0 then gtCalls ?gt + CallValueTransferGas else gtCalls ?gt)"
    using evm_gas_table(5)[of "f_evm f"] by (simp add: call_base_def)
  then show ?thesis
    using idx call_gas_ok[OF assms(1)] by (simp add: gasCallCode_def Let_def del: if_split)
qed

lemma gasCall_ok:
  assumes "frame_ok f" "2 < length (f_stack f)"
  shows "yields (gasCall (evm_gasTable (f_evm f)) f n) (gas_ok (call_cost (call_base (f_stack f ! 2))) n f)"
proof -
  let ?gt = "evm_gasTable (f_evm f)" and ?v = "f_stack f ! 2" and ?e = "f_evm f"
  let ?addr = "BigToAddress (f_stack f ! 1)"
  have idx: "stack_Back (f_stack f) i = Some (f_stack f ! i)" if "i \<le> 2" for i
    using that assms(2) by (simp add: stack_Back_def)
  define ge where "ge = (if IsEIP158 (evm_chainConfig ?e) (evm_BlockNumber ?e) then
       if ?v \<noteq> 0 then (let (e, evm) = evm_read (Empty ?addr) ?e in (if e then gtCalls ?gt + CallNewAccountGas else gtCalls ?gt, evm))
       else (gtCalls ?gt, ?e)
     else let (e, evm) = evm_read (Exist ?addr) ?e in (if \<not> e then gtCalls ?gt + CallNewAccountGas else gtCalls ?gt, evm))"
  have adv: "evm_advance ?e (snd ge)"
    using evm_advance_getters(1,2)[OF frame_okD(1)[OF assms(1)], of ?addr] frame_okD(1)[OF assms(1)]
    by (simp add: ge_def case_prod_beta)
  have "unat (gtCalls ?gt + CallNewAccountGas) = unat (gtCalls ?gt) + 25000"
    using unat_call_base[of "gtCalls ?gt" CallNewAccountGas] evm_gas_table(6)[of ?e] by (simp add: params)
  then have g: "40 \<le> unat (fst ge)" "unat (fst ge) \<le> 30000"
    using evm_gas_table(5,6)[of ?e] by (simp_all add: ge_def case_prod_beta)
  have "unat (fst ge + CallValueTransferGas) = unat (fst ge) + 9000"
    using unat_call_base[of "fst ge" CallValueTransferGas] g by (simp add: params)
  then have base: "call_base ?v \<le> unat (if ?v \<noteq> 0 then fst ge + CallValueTransferGas else fst ge)"
    using g by (simp add: call_base_def)
  let ?f = "f\<lparr> f_evm := snd ge \<rparr>"
  have ch: "charged f ?f" using charged_evm[OF assms(1) adv] .
  have "frame_ok ?f"
    using frame_advanceI[of f ?f] assms(1) adv frame_okD[OF assms(1)] by (simp add: frame_advance_def)
  note ok = call_gas_ok[OF this base, of n ?gt "f_stack f ! 0"]
  have "gas_ok (call_cost (call_base ?v)) n f (call_gas ?gt (f_stack f ! 0) (if ?v \<noteq> 0 then fst ge + CallValueTransferGas else fst ge) ?f n)"
    using ok ch unfolding gas_ok_def charged_def by (auto intro: evm_advance_trans)
  moreover have "gasCall ?gt f n = Some (call_gas ?gt (f_stack f ! 0) (if ?v \<noteq> 0 then fst ge + CallValueTransferGas else fst ge) ?f n)"
    using idx by (simp add: gasCall_def Let_def ge_def[unfolded Let_def] case_prod_beta)
  ultimately show ?thesis by simp
qed

end
