(* ===== verification/Precompiles_Safe.thy ===== *)
theory Precompiles_Safe
  imports VM_Invariant
begin

text \<open>The precompiled contracts do not panic when they are paid for, their results are of moderate size,
  and the modular exponentiation returns the power it is asked for.\<close>

section \<open>Reading the input\<close>

lemma sint_small:
  fixes w :: uint64
  assumes "unat w < 2 ^ 63"
  shows "sint w = int (unat w)"
proof -
  have "int (unat w) < int (2 ^ 63)" using assms by (simp only: of_nat_less_iff)
  then have "uint w < 2 ^ 63" by simp
  then show ?thesis using Int64_small[of "uint w"] by (simp add: Int64_def)
qed

lemma getData_safe:
  assumes "small data" "unat sz \<le> 3 * 2 ^ 62"
  shows "yields (getData data start sz) (\<lambda>b. unat sz < 2 ^ 62 \<longrightarrow> length b = unat sz)"
proof -
  let ?n = "length data"
  have n: "?n < 2 ^ 62" using assms(1) by (simp add: small_def)
  have len: "unat (of_nat ?n :: uint64) = ?n" using n by (intro unat_of_nat_64) simp
  define s where "s = min (unat start) ?n"
  define e where "e = min (s + unat sz) ?n"
  define w where "w = (if start > of_nat ?n then of_nat ?n else start)"
  have min: "unat (if x > y then y else x) = min (unat x) (unat y)" for x y :: uint64
    by (auto simp: word_less_nat_alt)
  have s: "unat w = s" by (simp only: w_def min len s_def)
  have "s + unat sz < 2 ^ 64" using n assms(2) by (simp add: s_def)
  then have "unat (w + sz) = s + unat sz" by (subst unat_add_no_wrap) (simp_all only: s)
  then have e: "unat (if w + sz > of_nat ?n then of_nat ?n else w + sz) = e" by (simp only: min len e_def)
  have "getData data start sz = Some (RightPadBytes (take (e - s) (drop s data)) (sint sz))"
    unfolding getData_def Let_def w_def[symmetric] s e by (simp add: s_def e_def)
  moreover have "length (RightPadBytes (take (e - s) (drop s data)) (sint sz)) = unat sz" if "unat sz < 2 ^ 62"
  proof -
    have "sint sz = int (unat sz)" using that by (intro sint_small) simp
    then show ?thesis by (simp add: length_RightPadBytes s_def e_def)
  qed
  ultimately show ?thesis by (simp add: yields_def)
qed

section \<open>Modular exponentiation\<close>

lemma mod_exp_eq: "0 < m \<Longrightarrow> mod_exp x n m = x ^ n mod m"
proof (induction x n m rule: mod_exp.induct)
  case (1 x n m)
  show ?case
  proof (cases "n = 0")
    case True
    then show ?thesis by (simp add: mod_exp.simps)
  next
    case False
    have sq: "(x * x) ^ k = x ^ (2 * k)" for k by (simp add: power_mult power2_eq_square)
    have pow: "x ^ n = (x * x) ^ (n div 2) * (if odd n then x else 1)"
      unfolding sq by (cases "odd n") (auto elim!: oddE simp: mult.commute)
    have h: "mod_exp (x * x mod m) (n div 2) m = (x * x) ^ (n div 2) mod m"
      using "1.IH"[OF False "1.prems"] by (simp add: power_mod)
    show ?thesis
      using False by (subst mod_exp.simps) (simp add: h pow mod_mult_right_eq mult.commute)
  qed
qed

lemma BigBytes_length:
  assumes "0 \<le> x" "x < 256 ^ n"
  shows "length (BigBytes x) \<le> n"
proof -
  have "BitLen x \<le> 8 * n" using assms by (simp add: BitLen_le_iff power_mult)
  then show ?thesis by (simp add: BigBytes_def)
qed

lemma modexp_complexity_pos: "1 \<le> x \<Longrightarrow> 1 \<le> modexp_complexity x"
proof -
  assume x: "1 \<le> x"
  have sq: "1 \<le> x * x" "0 \<le> x * x div 4" "0 \<le> x * x div 16" using x mult_mono[of 1 x 1 x] by simp_all
  show ?thesis using sq x by (simp add: modexp_complexity_def)
qed

lemma modexp_complexity_large:
  assumes "2 ^ 40 \<le> x"
  shows "2 ^ 76 \<le> modexp_complexity x"
proof -
  have "(2 ^ 40 :: int) * 2 ^ 40 \<le> x * x" using assms by (intro mult_mono) simp_all
  then have "(2 ^ 40 * 2 ^ 40 :: int) div 16 \<le> x * x div 16" by (rule zdiv_mono1) simp
  then show ?thesis using assms by (simp add: modexp_complexity_def)
qed

text \<open>What the fee says about the lengths in the header of the input: if it is small, then base and
  modulus are short, and so is the exponent unless both are empty.\<close>

definition modexp_gas :: "int \<Rightarrow> int \<Rightarrow> int" where
  "modexp_gas x adj = modexp_complexity x * BigMax adj 1 div uint ModExpQuadCoeffDiv"

lemma modexp_gas_bounds:
  assumes "modexp_gas x adj < 2 ^ 62" "0 \<le> x"
  shows "x < 2 ^ 40" "x = 0 \<or> adj < 11 * 2 ^ 63"
proof -
  have m: "1 \<le> BigMax adj 1" "adj \<le> BigMax adj 1" by (simp_all add: BigMax_def)
  show x: "x < 2 ^ 40"
  proof (rule ccontr)
    assume "\<not> x < 2 ^ 40"
    then have "2 ^ 76 \<le> modexp_complexity x" using modexp_complexity_large by simp
    then have "2 ^ 76 * 1 \<le> modexp_complexity x * BigMax adj 1" using m by (intro mult_mono) simp_all
    then have "2 ^ 76 div 20 \<le> modexp_gas x adj"
      unfolding modexp_gas_def by (simp add: params zdiv_mono1)
    then show False using assms(1) by simp
  qed
  show "x = 0 \<or> adj < 11 * 2 ^ 63"
  proof (rule disjCI, rule ccontr)
    assume "\<not> adj < 11 * 2 ^ 63" "\<not> x = 0"
    then have "1 \<le> modexp_complexity x" "11 * 2 ^ 63 \<le> BigMax adj 1"
      using assms(2) modexp_complexity_pos m by simp_all
    then have "1 * (11 * 2 ^ 63) \<le> modexp_complexity x * BigMax adj 1" by (intro mult_mono) simp_all
    then have "(11 * 2 ^ 63) div 20 \<le> modexp_gas x adj"
      unfolding modexp_gas_def by (simp add: params zdiv_mono1)
    then show False using assms(1) by simp
  qed
qed

lemma modexp_adjExpLen_ge: "0 \<le> expLen \<Longrightarrow> 8 * expLen - 256 \<le> modexp_adjExpLen expLen expHead"
  by (simp add: modexp_adjExpLen_def Let_def)

lemma modexp_rest_small: "small input \<Longrightarrow> small (modexp_rest input)"
  by (erule small_le[rotated]) (simp add: modexp_rest_def)

lemma modexp_expHead_safe:
  assumes "small input" "0 \<le> expLen"
  shows "yields (modexp_expHead input baseLen expLen) (\<lambda>_. True)"
proof -
  have "unat (if expLen > 32 then 32 else Uint64 expLen) \<le> 3 * 2 ^ 62"
    using assms(2) unat_Uint64[of expLen] by (auto simp: nat_le_iff)
  then obtain b where "getData input (Uint64 baseLen) (if expLen > 32 then 32 else Uint64 expLen) = Some b"
    using getData_safe[OF assms(1)] unfolding yields_def by blast
  then show ?thesis by (auto simp: modexp_expHead_def yields_def simp del: if_split split: if_split)
qed

lemma modexp_required:
  fixes gas :: int
  defines "g \<equiv> (if BitLen gas > 64 then MaxUint64 else Uint64 gas)"
  assumes "0 \<le> gas" "small_gas g"
  shows "gas < 2 ^ 62"
proof -
  have "\<not> BitLen gas > 64"
    using assms(3) by (auto simp: g_def small_gas_def unat_MaxUint64 split: if_splits)
  then have "unat (Uint64 gas) = nat gas" "gas < 2 ^ 64"
    using assms(2) unat_Uint64[of gas] by (simp_all add: BitLen_gt_iff)
  then show ?thesis using \<open>\<not> BitLen gas > 64\<close> assms by (simp add: g_def small_gas_def nat_less_iff)
qed

lemma modexp_result_small:
  assumes "length mb = n" "n < 2 ^ 40" "0 < SetBytes mb"
  shows "length (BigBytes (mod_exp x k (SetBytes mb))) \<le> n"
proof (rule BigBytes_length)
  show "0 \<le> mod_exp x k (SetBytes mb)" using assms(3) by (simp add: mod_exp_eq)
  have "mod_exp x k (SetBytes mb) < SetBytes mb" using assms(3) by (simp add: mod_exp_eq)
  then show "mod_exp x k (SetBytes mb) < 256 ^ n" using SetBytes_bound[of mb] assms(1) by simp
qed

lemma bigModExp_safe:
  assumes "small input"
  shows "yields (bigModExp_RequiredGas input) (\<lambda>g. small_gas g \<longrightarrow> yields (bigModExp_Run input) small)"
proof -
  obtain b0 b1 b2 where b: "getData input 0 32 = Some b0" "getData input 32 32 = Some b1" "getData input 64 32 = Some b2"
    using getData_safe[OF assms, of 32 0] getData_safe[OF assms, of 32 32] getData_safe[OF assms, of 32 64]
    by (auto simp: yields_def)
  define x where "x = BigMax (SetBytes b2) (SetBytes b0)"
  define rest where "rest = modexp_rest input"
  have rest: "small rest" unfolding rest_def using assms by (rule modexp_rest_small)
  obtain hd where hd: "modexp_expHead rest (SetBytes b0) (SetBytes b1) = Some hd"
    using modexp_expHead_safe[OF rest, of "SetBytes b1" "SetBytes b0"] by (auto simp: yields_def)
  define adj where "adj = modexp_adjExpLen (SetBytes b1) hd"
  define g where "g = (if BitLen (modexp_gas x adj) > 64 then MaxUint64 else Uint64 (modexp_gas x adj))"
  have x: "0 \<le> x" "SetBytes b2 \<le> x" "SetBytes b0 \<le> x" by (simp_all add: x_def BigMax_def)
  have req: "bigModExp_RequiredGas input = Some g"
    using b hd by (simp add: bigModExp_RequiredGas_def rest_def g_def modexp_gas_def x_def adj_def Let_def)
  have "yields (bigModExp_Run input) small" if gas: "small_gas g"
  proof -
    have "0 \<le> modexp_gas x adj"
      using x(1) modexp_complexity_pos[of x] by (cases "x = 0")
        (simp_all add: modexp_gas_def params BigMax_def modexp_complexity_def[of 0] pos_imp_zdiv_nonneg_iff)
    then have "modexp_gas x adj < 2 ^ 62" using modexp_required gas by (simp add: g_def)
    note bounds = modexp_gas_bounds[OF this x(1)]
    have small: "SetBytes b0 < 2 ^ 40" "SetBytes b2 < 2 ^ 40" using x bounds(1) by linarith+
    then have u: "unat (Uint64 (SetBytes b0)) = nat (SetBytes b0)" "unat (Uint64 (SetBytes b2)) = nat (SetBytes b2)"
      by (simp_all add: unat_Uint64)
    show ?thesis
    proof (cases "x = 0")
      case True
      then have "SetBytes b0 = 0" "SetBytes b2 = 0" using x by (simp_all add: order.antisym)
      then show ?thesis using b by (simp add: bigModExp_Run_def Let_def Uint64_def)
    next
      case False
      then have e: "8 * SetBytes b1 - 256 < 11 * 2 ^ 63"
        using bounds(2) modexp_adjExpLen_ge[of "SetBytes b1" hd] by (simp add: adj_def)
      then have "unat (Uint64 (SetBytes b1)) \<le> 3 * 2 ^ 62" using unat_Uint64[of "SetBytes b1"] by simp
      then obtain eb where eb: "getData rest (Uint64 (SetBytes b0)) (Uint64 (SetBytes b1)) = Some eb"
        using getData_safe[OF rest] unfolding yields_def by blast
      have le: "unat (Uint64 (SetBytes b0)) < 2 ^ 62" "unat (Uint64 (SetBytes b2)) < 2 ^ 62" using small u by simp_all
      obtain bb where bb: "getData rest 0 (Uint64 (SetBytes b0)) = Some bb"
        using getData_safe[OF rest, of "Uint64 (SetBytes b0)" 0] le(1) by (auto simp: yields_def)
      obtain mb where mb: "getData rest (Uint64 (SetBytes b0) + Uint64 (SetBytes b1)) (Uint64 (SetBytes b2)) = Some mb"
        "length mb = nat (SetBytes b2)"
        using getData_safe[OF rest, of "Uint64 (SetBytes b2)"] le(2) u by (auto simp: yields_def)
      have sint: "sint (Uint64 (SetBytes b2)) = SetBytes b2" using sint_small[of "Uint64 (SetBytes b2)"] le(2) u by simp
      have "length (LeftPadBytes v (SetBytes b2)) = max (length v) (nat (SetBytes b2))" for v
        by (rule length_LeftPadBytes)
      moreover have "length (BigBytes (mod_exp a k (SetBytes mb))) \<le> nat (SetBytes b2)" if "SetBytes mb \<noteq> 0" for a k
        using modexp_result_small[OF mb(2)] small(2) that SetBytes_nonneg[of mb] by (simp add: le_less)
      ultimately have res: "small (if SetBytes mb = 0 then LeftPadBytes [] (SetBytes b2)
          else LeftPadBytes (BigBytes (mod_exp a k (SetBytes mb))) (SetBytes b2))" for a k
        using small(2) by (simp add: small_def)
      show ?thesis
        using b eb bb mb(1) res[of "SetBytes bb" "nat (SetBytes eb)"] unfolding rest_def
        by (cases "SetBytes mb = 0") (simp_all add: bigModExp_Run_def Let_def sint)
    qed
  qed
  then show ?thesis by (simp add: req)
qed

section \<open>The other contracts\<close>

lemma ecrecover_safe:
  assumes "crypto_ok cr" "db_ok db"
  shows "yields (ecrecover_Run db cr input) (\<lambda>r. small (fst r))"
proof -
  have len: "128 \<le> length (RightPadBytes input 128)" by (simp add: length_RightPadBytes)
  have key: "length (Keccak256 db k) = 32" for k using assms(2) by (simp add: db_ok_def)
  have out: "small (LeftPadBytes (drop 12 (Keccak256 db k)) 32)" for k
    using key by (simp add: small_def length_LeftPadBytes)
  have pk: "Suc 0 \<le> length key" if "Ecrecover cr h sig = Some key" for h sig key
    using that assms(1) by (cases key) (simp_all add: crypto_ok_def, blast)
  show ?thesis
    using len by (auto simp: ecrecover_Run_def Let_def key out split: option.split dest!: pk)
qed

lemma curve_safe:
  assumes "crypto_ok cr" "small input"
  shows "yields (bn256Add_Run cr input) (\<lambda>r. \<forall>ret. r = Inr ret \<longrightarrow> small ret)"
    "yields (bn256ScalarMul_Run cr input) (\<lambda>r. \<forall>ret. r = Inr ret \<longrightarrow> small ret)"
proof -
  obtain b0 b1 b2 where b: "getData input 0 64 = Some b0" "getData input 64 64 = Some b1" "getData input 64 32 = Some b2"
    using getData_safe[OF assms(2), of 64 0] getData_safe[OF assms(2), of 64 64] getData_safe[OF assms(2), of 32 64]
    by (auto simp: yields_def)
  have "small (G1_Marshal cr p)" for p using assms(1) unfolding crypto_ok_def by blast
  then show "yields (bn256Add_Run cr input) (\<lambda>r. \<forall>ret. r = Inr ret \<longrightarrow> small ret)"
    "yields (bn256ScalarMul_Run cr input) (\<lambda>r. \<forall>ret. r = Inr ret \<longrightarrow> small ret)"
    using b by (simp_all add: bn256Add_Run_def bn256ScalarMul_Run_def split: sum.split)
qed

lemma pairing_loop_safe:
  assumes "192 dvd length input" "192 dvd i"
  shows "yields (pairing_loop cr input i cs ts) (\<lambda>_. True)"
  using assms
proof (induction cr input i cs ts rule: pairing_loop.induct)
  case (1 cr input i cs ts)
  show ?case
  proof (cases "i < length input")
    case True
    have "i + 192 \<le> length input"
    proof -
      have "192 dvd length input - i" using "1.prems" by (simp add: dvd_diff_nat)
      then show ?thesis using True dvd_imp_le[of 192 "length input - i"] by simp
    qed
    then show ?thesis
      using True "1.IH" "1.prems" by (subst pairing_loop.simps) (auto split: sum.split)
  next
    case False
    then show ?thesis by (subst pairing_loop.simps) simp
  qed
qed

lemma pairing_safe: "yields (bn256Pairing_Run cr input) (\<lambda>r. \<forall>ret. r = Inr ret \<longrightarrow> small ret)"
proof (cases "length input mod 192 > 0")
  case False
  then have "192 dvd length input" by (simp add: dvd_eq_mod_eq_0)
  then obtain r where r: "pairing_loop cr input 0 [] [] = Some r"
    using pairing_loop_safe[of input 0 cr "[]" "[]"] by (auto simp: yields_def)
  have "small true32Byte" "small false32Byte" by (simp_all add: true32Byte_def false32Byte_def small_def)
  then show ?thesis
    unfolding bn256Pairing_Run_def using False r by (simp split: sum.split prod.split)
qed (simp add: bn256Pairing_Run_def)

text \<open>Running a precompiled contract: the fee is charged first, and the work is done only if the gas
  suffices.\<close>

lemma UseGas_uses: "uses_gas c (snd (UseGas g c))" "fst (UseGas g c) \<Longrightarrow> g \<le> c_Gas c"
proof -
  have "c_Gas c - g \<le> c_Gas c" if "\<not> c_Gas c < g" using that by (simp add: word_sub_le)
  then show "uses_gas c (snd (UseGas g c))" "fst (UseGas g c) \<Longrightarrow> g \<le> c_Gas c"
    by (auto simp: UseGas_def uses_gas_def split: if_splits)
qed

lemma Run_precompiled_safe:
  assumes "crypto_ok cr" "db_ok db" "small input"
  shows "yields (RequiredGas p input)
    (\<lambda>g. small_gas g \<longrightarrow> yields (Run_precompiled db cr p input) (\<lambda>r. \<forall>ret. r = Inr ret \<longrightarrow> small ret))"
proof (cases p)
  case ecrecover
  then show ?thesis using ecrecover_safe[OF assms(1,2), of input] by (auto simp: yields_def)
next
  case bigModExp
  then show ?thesis using bigModExp_safe[OF assms(3)] by (auto simp: yields_def)
qed (use assms curve_safe[OF assms(1,3)] pairing_safe in
    \<open>auto simp: crypto_ok_def sha256hash_Run_def ripemd160hash_Run_def dataCopy_Run_def small_def length_LeftPadBytes\<close>)

lemma RunPrecompiledContract_safe:
  assumes "crypto_ok cr" "db_ok db" "small input" "small_gas (c_Gas c)"
  shows "yields (RunPrecompiledContract db cr p input c) (\<lambda>(c', ret, err). uses_gas c c' \<and> small ret)"
proof -
  obtain g where g: "RequiredGas p input = Some g"
    "small_gas g \<Longrightarrow> yields (Run_precompiled db cr p input) (\<lambda>r. \<forall>ret. r = Inr ret \<longrightarrow> small ret)"
    using Run_precompiled_safe[OF assms(1-3), of p] by (auto simp: yields_def)
  have "small_gas g" if "fst (UseGas g c)" using UseGas_uses(2)[OF that] assms(4) by (rule small_gas_le)
  then show ?thesis
    using g UseGas_uses(1)[of c g]
    by (auto simp: RunPrecompiledContract_def case_prod_beta yields_def split: sum.split)
qed

end
