(* ===== verification/VM_Calls_Safe.thy ===== *)
theory VM_Calls_Safe
  imports VM_Gas_Safe Precompiles_Safe
begin

text \<open>Calls and creations keep the invariants, given a function that runs contracts and keeps them: they
  do not panic, return at most the gas they are given, and a failed call leaves the state as it was.\<close>

section \<open>The contract of the function that runs contracts\<close>

definition runner_ok :: "nat \<Rightarrow> 't runner \<Rightarrow> bool" where
  "runner_ok G rc \<longleftrightarrow>
     (\<forall>evm c input. evm_ok evm \<and> contract_ok (sdb_db (evm_StateDB evm)) c \<and> small input \<and> unat (c_Gas c) < G \<longrightarrow>
        yields (rc evm c input)
          (\<lambda>(evm', c', ret, err). evm_advance evm evm' \<and> c_Gas c' \<le> c_Gas c \<and> small ret))"

lemma runner_okE:
  assumes "runner_ok G rc" "evm_ok evm" "contract_ok (sdb_db (evm_StateDB evm)) c" "small input" "unat (c_Gas c) < G"
  obtains evm' c' ret err where "rc evm c input = Some (evm', c', ret, err)" "evm_advance evm evm'"
    "c_Gas c' \<le> c_Gas c" "small ret"
proof -
  have "yields (rc evm c input)
      (\<lambda>(evm', c', ret, err). evm_advance evm evm' \<and> c_Gas c' \<le> c_Gas c \<and> small ret)"
    using assms unfolding runner_ok_def by blast
  then show thesis using that by (auto simp: yields_def)
qed

text \<open>What a call promises to its caller: a failure restores the state, and if it is a failure of the code
  other than a revert, it uses all gas.\<close>

definition call_ok :: "'t EVM \<Rightarrow> uint64 \<Rightarrow> 't EVM \<times> bytes \<times> uint64 \<times> vm_error option \<Rightarrow> bool" where
  "call_ok evm gas r \<longleftrightarrow> (case r of (evm', ret, left, err) \<Rightarrow>
     evm_advance evm evm' \<and> small ret \<and> left \<le> gas \<and>
     (err \<noteq> None \<longrightarrow> abs_state (evm_StateDB evm') = abs_state (evm_StateDB evm)) \<and>
     (err \<in> {None, Some errExecutionReverted, Some ErrDepth, Some ErrInsufficientBalance} \<or> left = 0))"

lemma call_ok_simp [simp]:
  "call_ok evm gas (evm', ret, left, err) \<longleftrightarrow> evm_advance evm evm' \<and> small ret \<and> left \<le> gas \<and>
     (err \<noteq> None \<longrightarrow> abs_state (evm_StateDB evm') = abs_state (evm_StateDB evm)) \<and>
     (err \<in> {None, Some errExecutionReverted, Some ErrDepth, Some ErrInsufficientBalance} \<or> left = 0)"
  by (simp add: call_ok_def)

lemma fail_gas_le: "c_Gas (fail_gas err c) \<le> c_Gas c"
  using UseGas_uses(1)[of c "c_Gas c"] by (simp add: fail_gas_def uses_gas_def)

lemma fail_gas_zero: "err \<noteq> Some errExecutionReverted \<Longrightarrow> c_Gas (fail_gas err c) = 0"
  by (simp add: fail_gas_def UseGas_def)

lemma evm_advance_replace:
  assumes "evm_advance a b" "advance (read_only a) (evm_StateDB a) u"
  shows "evm_advance a (b\<lparr> evm_StateDB := u \<rparr>)"
  using assms advance_db[OF assms(2)] evm_advance_db[OF assms(1)] advance_ok[OF assms(2)]
  by (auto simp: evm_advance_def evm_ok_def same_env_def)

text \<open>A snapshot can be taken at any time, and reverting to it undoes every advance.\<close>

lemma snapshot_revert:
  assumes "evm_ok evm0" "snap = Snapshot (evm_StateDB evm0)"
  shows "evm_advance evm0 (evm0\<lparr> evm_StateDB := snd snap \<rparr>)"
    "evm_advance (evm0\<lparr> evm_StateDB := snd snap \<rparr>) evm \<Longrightarrow>
     yields (RevertToSnapshot (fst snap) (evm_StateDB evm))
       (\<lambda>u. evm_advance evm0 (evm\<lparr> evm_StateDB := u \<rparr>) \<and> abs_state u = abs_state (evm_StateDB evm0))"
proof -
  have s: "sdb_ok (evm_StateDB evm0)" using assms(1) by (rule evm_ok_sdb)
  show snap: "evm_advance evm0 (evm0\<lparr> evm_StateDB := snd snap \<rparr>)"
    using assms advance_Snapshot[OF s] by (simp add: evm_advance_sdb)
  assume adv: "evm_advance (evm0\<lparr> evm_StateDB := snd snap \<rparr>) evm"
  then have "advance (read_only evm0) (snd (Snapshot (evm_StateDB evm0))) (evm_StateDB evm)"
    using assms(2) by (simp add: evm_advance_def read_only_def evm_BlockNumber_def)
  from advance_Revert[OF s this]
  show "yields (RevertToSnapshot (fst snap) (evm_StateDB evm))
      (\<lambda>u. evm_advance evm0 (evm\<lparr> evm_StateDB := u \<rparr>) \<and> abs_state u = abs_state (evm_StateDB evm0))"
    unfolding assms(2) by (rule yields_mono) (use evm_advance_replace[OF evm_advance_trans[OF snap adv]] in blast)
qed

lemma settle_safe:
  assumes "evm_ok evm0" "snap = Snapshot (evm_StateDB evm0)"
    and adv: "evm_advance (evm0\<lparr> evm_StateDB := snd snap \<rparr>) evm"
    and run: "runner_ok G rc" "unat (c_Gas c) < G"
    and c: "contract_ok (sdb_db (evm_StateDB evm)) c" "small input"
  shows "yields (settle (fst snap) (rc evm c input)) (call_ok evm0 (c_Gas c))"
proof -
  obtain evm2 c2 ret err where r: "rc evm c input = Some (evm2, c2, ret, err)"
    "evm_advance evm evm2" "c_Gas c2 \<le> c_Gas c" "small ret"
    by (rule runner_okE[OF run(1) evm_advance_ok[OF adv] c run(2)])
  note snap = snapshot_revert(1)[OF assms(1,2)]
  have all: "evm_advance (evm0\<lparr> evm_StateDB := snd snap \<rparr>) evm2" using adv r(2) by (rule evm_advance_trans)
  show ?thesis
  proof (cases "err = None")
    case True
    then show ?thesis using r evm_advance_trans[OF snap all] by (simp add: settle_def)
  next
    case False
    obtain u where u: "RevertToSnapshot (fst snap) (evm_StateDB evm2) = Some u"
      "evm_advance evm0 (evm2\<lparr> evm_StateDB := u \<rparr>)" "abs_state u = abs_state (evm_StateDB evm0)"
      using snapshot_revert(2)[OF assms(1,2) all] by (auto simp: yields_def)
    then show ?thesis
      using r u False order_trans[OF fail_gas_le r(3)] by (auto simp: settle_def fail_gas_zero)
  qed
qed

section \<open>Loading code\<close>

lemma contract_for_ok:
  assumes "evm_ok evm" "is_word val" "small_gas gas"
  obtains c evm' where "contract_for caller object val gas evm = (c, evm')" "evm_advance evm evm'"
    "c_Gas c = gas" "small (c_Input c)" "is_word (c_value c)"
proof -
  have "cache_ok db Map.empty" for db :: "'a Database" by (simp add: cache_ok_def)
  then show thesis
    using assms that by (cases caller)
      (auto simp: contract_for_def NewContract_def evm_advance_def evm_ok_def same_env_def)
qed

lemma load_code_ok:
  assumes "evm_ok evm" "small (c_Input c)" "is_word (c_value c)" "small_gas (c_Gas c)"
  obtains c' evm' where "load_code addr c evm = (c', evm')" "evm_advance evm evm'"
    "contract_ok (sdb_db (evm_StateDB evm')) c'" "c_Gas c' = c_Gas c"
proof -
  let ?evm1 = "snd (evm_read (GetCodeHash addr) evm)"
  let ?evm2 = "snd (evm_read (GetCode addr) ?evm1)"
  let ?s = "evm_StateDB evm"
  let ?c = "SetCallCode addr (fst (evm_read (GetCodeHash addr) evm)) (nil_bytes (fst (evm_read (GetCode addr) ?evm1))) c"
  have adv1: "evm_advance evm ?evm1" using assms(1) by (rule evm_advance_getters)
  have adv: "evm_advance evm ?evm2"
    using evm_advance_trans[OF adv1 evm_advance_getters(7)[OF evm_advance_ok[OF adv1]]] .
  have abs1: "abs_state (evm_StateDB ?evm1) = abs_state ?s"
    using quiet_simple_getters(5)[of ?s addr] by (simp add: evm_read_eq quiet_def)
  have code: "fst (evm_read (GetCode addr) ?evm1) = code_of addr (abs_state ?s)"
    by (simp add: evm_read_eq[of "GetCode addr"] GetCode_view abs1)
  have hash: "fst (evm_read (GetCodeHash addr) evm) =
      (case acct addr (abs_state ?s) of None \<Rightarrow> 0 | Some w \<Rightarrow> BytesToHash (av_codehash w))"
    by (simp add: evm_read_eq GetCodeHash_view)
  have s: "sdb_ok ?s" using assms(1) by (rule evm_ok_sdb)
  have "contract_ok (sdb_db ?s) ?c"
    using assms s small_code_of[OF s, of addr] unfolding code hash
    by (auto simp: contract_ok_def SetCallCode_def code_of_def nil_bytes_def sdb_ok_def acct_ok_def split: option.splits)
  then show thesis
    using that[of ?c ?evm2] adv evm_advance_db[OF adv] by (simp add: load_code_def case_prod_beta SetCallCode_def)
qed

section \<open>Calls\<close>

text \<open>From the snapshot on, a call prepares the state, loads the code and runs it.\<close>

lemma call_safe:
  assumes "evm_ok evm0" "snap = Snapshot (evm_StateDB evm0)"
    and adv: "evm_advance (evm0\<lparr> evm_StateDB := snd snap \<rparr>) evm"
    and rc: "runner_ok G rc" "unat gas < G" "small_gas gas"
    and c: "is_word val" "small input"
    and load: "contract_for caller object val gas evm = (c1, evm1)" "load_code addr c1 evm1 = (c2, evm2)"
  shows "yields (settle (fst snap) (rc evm2 c2 input)) (call_ok evm0 gas)"
proof -
  have c1: "evm_advance evm evm1" "c_Gas c1 = gas" "small (c_Input c1)" "is_word (c_value c1)"
    using contract_for_ok[OF evm_advance_ok[OF adv] c(1) rc(3), of caller object] load(1) by auto
  then have c2: "evm_advance evm1 evm2" "contract_ok (sdb_db (evm_StateDB evm2)) c2" "c_Gas c2 = gas"
    using load_code_ok[OF evm_advance_ok[OF c1(1)] c1(3,4), of addr] rc(3) load(2) by auto
  have "evm_advance (evm0\<lparr> evm_StateDB := snd snap \<rparr>) evm2"
    using adv c1(1) c2(1) evm_advance_trans by blast
  from settle_safe[OF assms(1,2) this rc(1) _ c2(2) c(2)] show ?thesis using rc(2) c2(3) by simp
qed

lemma evm_Snapshot:
  assumes "evm_ok evm"
  shows "evm_ok (evm\<lparr> evm_StateDB := snd (Snapshot (evm_StateDB evm)) \<rparr>)"
    "read_only (evm\<lparr> evm_StateDB := s \<rparr>) = read_only evm"
  using evm_advance_sdb[OF assms advance_Snapshot[OF evm_ok_sdb[OF assms]]] evm_advance_ok
  by (auto simp: read_only_def evm_BlockNumber_def)

text \<open>The check of the balance that comes before the snapshot.\<close>

lemma CanTransfer_ok:
  assumes "evm_ok evm"
  obtains evm1 where "evm_read (CanTransfer a x) evm = (x \<le> bal a (abs_state (evm_StateDB evm)), evm1)"
    "evm_advance evm evm1" "abs_state (evm_StateDB evm1) = abs_state (evm_StateDB evm)"
proof -
  have "fst (CanTransfer a x s) \<longleftrightarrow> x \<le> bal a (abs_state s)" for s :: "'a StateDB"
    using GetBalance_view[of a s] by (simp add: CanTransfer_def case_prod_beta)
  moreover have "evm_advance evm (snd (evm_read (CanTransfer a x) evm))" by (rule evm_advance_getters[OF assms])
  moreover have "abs_state (snd (CanTransfer a x (evm_StateDB evm))) = abs_state (evm_StateDB evm)"
    using quiet_simple_getters(3)[of "evm_StateDB evm" a] by (simp add: CanTransfer_def case_prod_beta quiet_def)
  ultimately show thesis using that by (simp add: evm_read_eq)
qed

lemma call_ok_trans:
  assumes "yields m (call_ok evm1 gas)" "evm_advance evm evm1"
    "abs_state (evm_StateDB evm1) = abs_state (evm_StateDB evm)"
  shows "yields m (call_ok evm gas)"
  using assms(1) evm_advance_trans[OF assms(2)] assms(3) by (auto simp: yields_def)

lemma EVM_CallCode_safe:
  assumes "evm_ok evm" "is_word val" "small input" "runner_ok G rc" "unat gas < G" "small_gas gas"
  shows "yields (EVM_CallCode rc caller addr input gas val evm) (call_ok evm gas)"
proof -
  obtain evm1 where e1: "evm_read (CanTransfer (ref_Address caller) val) evm =
      (val \<le> bal (ref_Address caller) (abs_state (evm_StateDB evm)), evm1)"
    "evm_advance evm evm1" "abs_state (evm_StateDB evm1) = abs_state (evm_StateDB evm)"
    using CanTransfer_ok[OF assms(1)] by blast
  let ?snap = "Snapshot (evm_StateDB evm1)"
  have ok1: "evm_ok evm1" using e1(2) by (rule evm_advance_ok)
  obtain c2 evm2 where c2: "contract_for caller (ref_Address caller) val gas (evm1\<lparr> evm_StateDB := snd ?snap \<rparr>) = (c2, evm2)"
    by (cases "contract_for caller (ref_Address caller) val gas (evm1\<lparr> evm_StateDB := snd ?snap \<rparr>)")
  obtain c3 evm3 where c3: "load_code addr c2 evm2 = (c3, evm3)" by (cases "load_code addr c2 evm2")
  have "yields (settle (fst ?snap) (rc evm3 c3 input)) (call_ok evm gas)"
    by (rule call_ok_trans[OF call_safe[OF ok1 refl evm_advance_refl[OF evm_Snapshot(1)[OF ok1]] assms(4-6) assms(2,3) c2 c3] e1(2,3)])
  then show ?thesis
    using assms(1) e1 c2 c3 by (simp add: EVM_CallCode_def evm_read_eq[of Snapshot] case_prod_beta)
qed

lemma EVM_DelegateCall_safe:
  assumes "evm_ok evm" "is_word (c_value parent)" "small input" "runner_ok G rc" "unat gas < G" "small_gas gas"
  shows "yields (EVM_DelegateCall rc (CallerContract parent) addr input gas evm) (call_ok evm gas)"
proof -
  let ?caller = "CallerContract parent"
  let ?snap = "Snapshot (evm_StateDB evm)"
  let ?evm = "evm\<lparr> evm_StateDB := snd ?snap \<rparr>"
  obtain c1 evm1 where c1: "contract_for ?caller (ref_Address ?caller) 0 gas ?evm = (c1, evm1)" "evm_advance ?evm evm1"
    "c_Gas c1 = gas" "small (c_Input c1)"
    by (rule contract_for_ok[OF evm_Snapshot(1)[OF assms(1)] _ assms(6), of 0 ?caller "ref_Address ?caller"]) auto
  define d where "d = c1\<lparr> c_DelegateCall := True, c_CallerAddress := c_CallerAddress parent, c_value := c_value parent \<rparr>"
  obtain c2 evm2 where c2: "load_code addr d evm1 = (c2, evm2)" "evm_advance evm1 evm2"
    "contract_ok (sdb_db (evm_StateDB evm2)) c2" "c_Gas c2 = gas"
    using load_code_ok[OF evm_advance_ok[OF c1(2)], of d addr] c1 assms(2,6) by (auto simp: d_def)
  have "yields (settle (fst ?snap) (rc evm2 c2 input)) (call_ok evm (c_Gas c2))"
    using settle_safe[OF assms(1) refl evm_advance_trans[OF c1(2) c2(2)] assms(4) _ c2(3) assms(3)] assms(5) c2(4) by simp
  then show ?thesis
    using assms(1) c1(1) c2 by (simp add: EVM_DelegateCall_def AsDelegate_def evm_read_eq[of Snapshot] case_prod_beta d_def)
qed

lemma Exist_none: "\<not> fst (Exist a s) \<Longrightarrow> acct a (abs_state s) = None"
  by (simp add: Exist_view)

text \<open>What \<open>Call\<close> does with the account of the callee before the code runs.\<close>

lemma prepare_callee:
  assumes "evm_ok evm" "0 \<le> val" "val \<le> bal a (abs_state (evm_StateDB evm))" "read_only evm \<Longrightarrow> val = 0"
    and "\<not> ex \<Longrightarrow> acct addr (abs_state (evm_StateDB evm)) = None"
  shows "evm_advance evm
    (evm_write (Transfer a addr val) (if \<not> ex then evm_write (CreateAccount addr) evm else evm))"
proof -
  let ?evm = "if \<not> ex then evm_write (CreateAccount addr) evm else evm"
  have s: "sdb_ok (evm_StateDB evm)" using assms(1) by (rule evm_ok_sdb)
  have 1: "evm_advance evm ?evm"
    using assms(1,5) by (auto intro!: evm_advance_write advance_CreateAccount s)
  have b: "bal a (abs_state (evm_StateDB ?evm)) = bal a (abs_state (evm_StateDB evm))"
    using s by (simp add: evm_write_def CreateAccount_effect sdb_ok_good bal_upd_acct)
  have "evm_advance ?evm (evm_write (Transfer a addr val) ?evm)"
    by (intro evm_advance_write advance_Transfer evm_ok_sdb evm_advance_ok[OF 1])
      (use assms b evm_advance_read_only[OF 1] in auto)
  with 1 show ?thesis by (rule evm_advance_trans)
qed

lemma EVM_Call_safe:
  assumes "evm_ok evm" "is_word val" "read_only evm \<Longrightarrow> val = 0"
    and "small input" "runner_ok G rc" "unat gas < G" "small_gas gas"
  shows "yields (EVM_Call rc caller addr input gas val evm) (call_ok evm gas)"
proof -
  let ?me = "ref_Address caller"
  obtain evm1 where e1: "evm_read (CanTransfer ?me val) evm = (val \<le> bal ?me (abs_state (evm_StateDB evm)), evm1)"
    "evm_advance evm evm1" "abs_state (evm_StateDB evm1) = abs_state (evm_StateDB evm)"
    using CanTransfer_ok[OF assms(1)] by blast
  let ?snap = "Snapshot (evm_StateDB evm1)"
  let ?s1 = "evm1\<lparr> evm_StateDB := snd ?snap \<rparr>"
  have ok1: "evm_ok evm1" using e1(2) by (rule evm_advance_ok)
  have snap: "evm_advance evm1 ?s1"
    using evm_advance_sdb[OF ok1 advance_Snapshot[OF evm_ok_sdb[OF ok1]]] .
  have abs1: "abs_state (snd ?snap) = abs_state (evm_StateDB evm1)"
    using sdb_journal.snap_steps[of "evm_StateDB evm1"] sdb_ok_good[OF evm_ok_sdb[OF ok1]] by blast
  obtain ex evm2 where ex: "evm_read (Exist addr) ?s1 = (ex, evm2)" by (cases "evm_read (Exist addr) ?s1")
  have e2: "evm_advance ?s1 evm2" "abs_state (evm_StateDB evm2) = abs_state (evm_StateDB evm1)"
    "\<not> ex \<Longrightarrow> acct addr (abs_state (evm_StateDB evm2)) = None"
    using evm_advance_getters(1)[OF evm_Snapshot(1)[OF ok1], of addr] ex abs1 Exist_none[of addr "snd ?snap"]
      quiet_simple_getters(1)[of "snd ?snap" addr] by (auto simp: evm_read_eq quiet_def)
  have ro2: "read_only evm2 = read_only evm"
    using evm_advance_read_only[OF e1(2)] evm_advance_read_only[OF e2(1)] by (simp add: evm_Snapshot(2)[OF ok1])
  define evm3 where "evm3 = evm_write (Transfer ?me addr val) (if \<not> ex then evm_write (CreateAccount addr) evm2 else evm2)"
  obtain c4 evm4 where c4: "contract_for caller addr val gas evm3 = (c4, evm4)" by (cases "contract_for caller addr val gas evm3")
  obtain c5 evm5 where c5: "load_code addr c4 evm4 = (c5, evm5)" by (cases "load_code addr c4 evm4")
  have early: "evm_advance evm evm2" using evm_advance_trans[OF evm_advance_trans[OF e1(2) snap] e2(1)] .
  have "yields (settle (fst ?snap) (rc evm5 c5 input)) (call_ok evm gas)" if "val \<le> bal ?me (abs_state (evm_StateDB evm))"
  proof (rule call_ok_trans[OF call_safe[OF ok1 refl _ assms(5-7,2,4) c4 c5] e1(2,3)])
    have "evm_advance evm2 evm3"
      unfolding evm3_def by (rule prepare_callee) (use assms that e1 e2 ro2 evm_advance_ok[OF e2(1)] in \<open>auto simp: is_word_def\<close>)
    then show "evm_advance ?s1 evm3" using e2(1) evm_advance_trans by blast
  qed
  then show ?thesis
    using assms(1) e1 ex early c4 c5 unfolding EVM_Call_def evm_read_eq[of Snapshot]
    by (simp add: evm3_def[symmetric])
qed

lemma evm_readOnly_ok [simp]: "evm_ok (evm\<lparr> evm_readOnly := b \<rparr>) = evm_ok evm"
  by (simp add: evm_ok_def)

text \<open>A static call runs in read-only mode and leaves the mode as it was.\<close>

lemma EVM_StaticCall_safe:
  assumes "evm_ok evm" "small input" "runner_ok G rc" "unat gas < G" "small_gas gas"
  shows "yields (EVM_StaticCall rc caller addr input gas evm) (\<lambda>r. call_ok evm gas r \<and>
    (IsByzantium (evm_chainConfig evm) (evm_BlockNumber evm) \<longrightarrow>
       same_obs (abs_state (evm_StateDB evm)) (abs_state (evm_StateDB (fst r)))))"
proof -
  let ?evm = "evm\<lparr> evm_readOnly := True \<rparr>"
  let ?snap = "Snapshot (evm_StateDB ?evm)"
  let ?r = "\<lambda>evm'. if evm_readOnly evm then evm' else evm'\<lparr> evm_readOnly := False \<rparr>"
  have ok: "evm_ok ?evm" using assms(1) by simp
  have w: "is_word 0" by (simp add: is_word_def tt256_def)
  obtain c1 evm1 where c1: "contract_for caller addr 0 gas (?evm\<lparr> evm_StateDB := snd ?snap \<rparr>) = (c1, evm1)"
    by (cases "contract_for caller addr 0 gas (?evm\<lparr> evm_StateDB := snd ?snap \<rparr>)")
  obtain c2 evm2 where c2: "load_code addr c1 evm1 = (c2, evm2)" by (cases "load_code addr c1 evm1")
  have "yields (settle (fst ?snap) (rc evm2 c2 input)) (call_ok ?evm gas)"
    by (rule call_safe[OF ok refl evm_advance_refl[OF evm_Snapshot(1)[OF ok]] assms(3-5) w assms(2) c1 c2])
  then obtain evm' ret left err where r: "settle (fst ?snap) (rc evm2 c2 input) = Some (evm', ret, left, err)"
    "call_ok ?evm gas (evm', ret, left, err)" by (auto simp: yields_def)
  have adv: "evm_advance ?evm evm'" using r(2) by simp
  then have "advance (read_only ?evm) (evm_StateDB evm) (evm_StateDB evm')" by (simp add: evm_advance_def)
  then have ro: "advance (IsByzantium (evm_chainConfig evm) (evm_BlockNumber evm)) (evm_StateDB evm) (evm_StateDB evm')"
    by (simp add: read_only_def evm_BlockNumber_def)
  then have "advance (read_only evm) (evm_StateDB evm) (evm_StateDB evm')"
    by (rule advance_ro) (simp add: read_only_def)
  then have "evm_advance evm (?r evm')"
    using adv by (auto simp: evm_advance_def same_env_def)
  then show ?thesis
    using assms(1) c1 c2 r ro unfolding EVM_StaticCall_def evm_read_eq[of Snapshot]
    by (auto simp: case_prod_beta advance_def)
qed

section \<open>Creation\<close>

lemma CreateAddress_safe:
  assumes "db_ok db"
  shows "yields (CreateAddress db b nonce) (\<lambda>_. True)"
proof -
  have "length (BigBytes (uint nonce)) \<le> 8"
    using uint_lt2p[of nonce] by (intro length_BigBytes_64) simp_all
  moreover
  have str: "length (rlp_string s) \<le> length s + 1" if "length s < 56" for s :: bytes
    using that by (simp add: rlp_string_def rlp_head_def)
  ultimately have "length (rlp_string (BigBytes (uint nonce))) \<le> 9" "length (rlp_string (Address_Bytes b)) \<le> 21"
    using str[of "BigBytes (uint nonce)"] str[of "Address_Bytes b"]
    by (linarith, simp add: Address_Bytes_def)
  then have "length (rlp_string (Address_Bytes b) @ rlp_string (BigBytes (uint nonce))) \<le> 30" by simp
  then have "EncodeToBytes (SliceVal False [BytesVal (Address_Bytes b), UintVal nonce]) =
      Some (rlp (SliceVal False [BytesVal (Address_Bytes b), UintVal nonce]))"
    by (intro EncodeToBytes_rlp) (auto simp: rlp_list_def rlp_head_def)
  moreover have "length (Keccak256 db d) = 32" for d using assms by (simp add: db_ok_def)
  ultimately show ?thesis by (simp add: CreateAddress_def)
qed

text \<open>The state after the nonce of the creator is incremented, which a failure does not undo.\<close>

definition bump_nonce :: "'t EVM \<Rightarrow> address \<Rightarrow> state_view" where
  "bump_nonce evm a = on_acct (sdb_db (evm_StateDB evm)) a
     (\<lambda>w. w\<lparr> av_nonce := nonce_of a (abs_state (evm_StateDB evm)) + 1 \<rparr>) (abs_state (evm_StateDB evm))"

definition create_ok ::
    "'t EVM \<Rightarrow> address \<Rightarrow> uint64 \<Rightarrow> 't EVM \<times> bytes \<times> address \<times> uint64 \<times> vm_error option \<Rightarrow> bool" where
  "create_ok evm me gas r \<longleftrightarrow> (case r of (evm', ret, addr, left, err) \<Rightarrow>
     evm_advance evm evm' \<and> small ret \<and> left \<le> gas \<and>
     (err \<noteq> None \<and> IsHomestead (evm_chainConfig evm) (evm_BlockNumber evm) \<longrightarrow>
        abs_state (evm_StateDB evm') \<in> {abs_state (evm_StateDB evm), bump_nonce evm me}))"

text \<open>What \<open>create_finish\<close> promises: the state before the snapshot comes back after an error.\<close>

lemma create_finish_safe:
  assumes "evm_ok evm0" "snap = Snapshot (evm_StateDB evm0)" "\<not> read_only evm0"
    and adv: "evm_advance (evm0\<lparr> evm_StateDB := snd snap \<rparr>) evm" and ret: "small ret"
  shows "yields (create_finish (fst snap) addr evm c ret err) (\<lambda>(evm', ret', addr', left, err').
    evm_advance evm0 evm' \<and> ret' = ret \<and> left \<le> c_Gas c \<and>
    (err' \<noteq> None \<and> IsHomestead (evm_chainConfig evm0) (evm_BlockNumber evm0) \<longrightarrow>
       abs_state (evm_StateDB evm') = abs_state (evm_StateDB evm0)))"
proof -
  note snap = snapshot_revert(1)[OF assms(1,2)]
  have env: "evm_chainConfig evm = evm_chainConfig evm0" "evm_BlockNumber evm = evm_BlockNumber evm0"
    using adv by (simp_all add: evm_advance_def same_env_def evm_BlockNumber_def)
  let ?code = "code_slice ret"
  have set: "evm_advance evm (evm_write (SetCode addr ?code) evm)"
  proof (rule evm_advance_write)
    have "\<not> read_only evm" using assms(3) evm_advance_read_only[OF adv] evm_Snapshot(2)[OF assms(1)] by simp
    then show "advance (read_only evm) (evm_StateDB evm) (SetCode addr ?code (evm_StateDB evm))"
      using advance_SetCode[OF evm_ok_sdb[OF evm_advance_ok[OF adv]], of ?code addr] ret
      by (auto simp: code_slice_def split: if_splits)
  qed (rule evm_advance_ok[OF adv])
  note adv2 = evm_advance_trans[OF adv set]
  have use: "c_Gas (snd (UseGas g c)) \<le> c_Gas c" for g c using UseGas_uses(1)[of c g] by (simp add: uses_gas_def)
  obtain u where u: "RevertToSnapshot (fst snap) (evm_StateDB evm) = Some u"
    "evm_advance evm0 (evm\<lparr> evm_StateDB := u \<rparr>)" "abs_state u = abs_state (evm_StateDB evm0)"
    using snapshot_revert(2)[OF assms(1,2) adv] by (auto simp: yields_def)
  show ?thesis
    using u evm_advance_trans[OF snap adv] evm_advance_trans[OF snap adv2] use order_trans[OF fail_gas_le use] fail_gas_le
    by (auto simp: create_finish_def env Let_def case_prod_beta split: if_splits)
qed

text \<open>The account of the new contract before its initialisation code runs.\<close>

lemma prepare_creation:
  assumes "evm_ok evm" "\<not> read_only evm" "0 \<le> val" "val \<le> bal me (abs_state (evm_StateDB evm))"
    and evm1_def: "evm1 = evm_write (CreateAccount addr) evm"
  shows "evm_advance evm (evm_write (Transfer me addr val)
    (if IsEIP158 (evm_chainConfig evm1) (evm_BlockNumber evm1) then evm_write (SetNonce addr 1) evm1 else evm1))"
proof -
  let ?evm2 = "if IsEIP158 (evm_chainConfig evm1) (evm_BlockNumber evm1) then evm_write (SetNonce addr 1) evm1 else evm1"
  have s: "sdb_ok (evm_StateDB evm)" using assms(1) by (rule evm_ok_sdb)
  have 1: "evm_advance evm evm1"
    unfolding evm1_def using assms(2) by (intro evm_advance_write assms(1) advance_CreateAccount s) simp
  have s1: "sdb_ok (evm_StateDB evm1)" using evm_ok_sdb[OF evm_advance_ok[OF 1]] .
  have "evm_advance evm1 ?evm2"
    using advance_SetNonce[OF s1] evm_advance_ok[OF 1] assms(2) evm_advance_read_only[OF 1]
    by (auto intro!: evm_advance_write)
  with 1 have 2: "evm_advance evm ?evm2" by (rule evm_advance_trans)
  have "bal me (abs_state (evm_StateDB ?evm2)) = bal me (abs_state (evm_StateDB evm1))"
    by (simp add: evm_write_def SetNonce_effect[OF sdb_ok_good[OF s1]] on_acct_def bal_upd_acct bal_acct_or_new)
  also have "\<dots> = bal me (abs_state (evm_StateDB evm))"
    using s by (simp add: evm1_def evm_write_def CreateAccount_effect sdb_ok_good bal_upd_acct)
  finally have "evm_advance ?evm2 (evm_write (Transfer me addr val) ?evm2)"
    using assms(2-4) evm_advance_ok[OF 2] evm_advance_read_only[OF 2]
    by (intro evm_advance_write advance_Transfer evm_ok_sdb) simp_all
  with 2 show ?thesis by (rule evm_advance_trans)
qed

text \<open>From the snapshot on, a creation prepares the account, runs the code and stores the result.\<close>

lemma create_run_safe:
  assumes "evm_ok evm0" "snap = Snapshot (evm_StateDB evm0)" "\<not> read_only evm0"
    and adv: "evm_advance (evm0\<lparr> evm_StateDB := snd snap \<rparr>) evm"
    and rc: "runner_ok G rc" "unat gas < G" "small_gas gas" and "is_word val" "small code"
    and c: "contract_for caller addr val gas evm = (c1, evm1)" "db = sdb_db (evm_StateDB evm0)"
  shows "yields (do { (evm, c, ret, err) \<leftarrow> rc evm1 (SetCallCode addr (Keccak256Hash db code) code c1) [];
                      create_finish (fst snap) addr evm c ret err })
    (\<lambda>(evm', ret, addr', left, err). evm_advance evm0 evm' \<and> small ret \<and> left \<le> gas \<and>
      (err \<noteq> None \<and> IsHomestead (evm_chainConfig evm0) (evm_BlockNumber evm0) \<longrightarrow>
         abs_state (evm_StateDB evm') = abs_state (evm_StateDB evm0)))"
proof -
  let ?c = "SetCallCode addr (Keccak256Hash db code) code c1"
  have c1: "evm_advance evm evm1" "c_Gas c1 = gas" "small (c_Input c1)" "is_word (c_value c1)"
    using contract_for_ok[OF evm_advance_ok[OF adv] assms(8) rc(3), of caller addr] c(1) by auto
  have adv1: "evm_advance (evm0\<lparr> evm_StateDB := snd snap \<rparr>) evm1" using adv c1(1) by (rule evm_advance_trans)
  have "sdb_db (evm_StateDB evm1) = db"
    using c(2) evm_advance_db[OF evm_advance_trans[OF snapshot_revert(1)[OF assms(1,2)] adv1]] by simp
  then have ok: "contract_ok (sdb_db (evm_StateDB evm1)) ?c"
    using c1 rc(3) assms(9) by (simp add: contract_ok_def SetCallCode_def)
  have gas: "c_Gas ?c = gas" using c1(2) by (simp add: SetCallCode_def)
  obtain evm2 c2 ret err where r: "rc evm1 ?c [] = Some (evm2, c2, ret, err)"
    "evm_advance evm1 evm2" "c_Gas c2 \<le> gas" "small ret"
    using runner_okE[OF rc(1) evm_advance_ok[OF adv1] ok small_Nil] rc(2) gas by metis
  from create_finish_safe[OF assms(1-3) evm_advance_trans[OF adv1 r(2)] r(4), of addr c2 err]
  have "yields (create_finish (fst snap) addr evm2 c2 ret err)
    (\<lambda>(evm', ret, addr', left, err). evm_advance evm0 evm' \<and> small ret \<and> left \<le> gas \<and>
      (err \<noteq> None \<and> IsHomestead (evm_chainConfig evm0) (evm_BlockNumber evm0) \<longrightarrow>
         abs_state (evm_StateDB evm') = abs_state (evm_StateDB evm0)))"
    by (rule yields_mono) (use r(3,4) in auto)
  then show ?thesis by (simp add: r(1))
qed

text \<open>Reading the state keeps its view.\<close>

lemma evm_reads_view:
  shows "abs_state (evm_StateDB (snd (evm_read (GetNonce a) evm))) = abs_state (evm_StateDB evm)"
    "abs_state (evm_StateDB (snd (evm_read (GetCodeHash a) evm))) = abs_state (evm_StateDB evm)"
    "fst (evm_read (GetNonce a) evm) = nonce_of a (abs_state (evm_StateDB evm))"
  using quiet_simple_getters(4,5)[of "evm_StateDB evm" a]
  by (simp_all add: evm_read_eq quiet_def GetNonce_view)

lemma bump_nonce_ok:
  assumes "evm_ok evm" "\<not> read_only evm"
    and r_def: "r = evm_read (GetNonce me) evm"
  shows "evm_advance evm (evm_write (SetNonce me (fst r + 1)) (snd r))"
    "abs_state (evm_StateDB (evm_write (SetNonce me (fst r + 1)) (snd r))) = bump_nonce evm me"
    "bal a (bump_nonce evm me) = bal a (abs_state (evm_StateDB evm))"
proof -
  have r: "evm_advance evm (snd r)" unfolding r_def by (rule evm_advance_getters[OF assms(1)])
  note ok = evm_advance_ok[OF r]
  have "evm_advance (snd r) (evm_write (SetNonce me (fst r + 1)) (snd r))"
    using ok advance_SetNonce[OF evm_ok_sdb[OF ok]] assms(2) evm_advance_read_only[OF r]
    by (intro evm_advance_write) simp_all
  with r show "evm_advance evm (evm_write (SetNonce me (fst r + 1)) (snd r))" by (rule evm_advance_trans)
  show "abs_state (evm_StateDB (evm_write (SetNonce me (fst r + 1)) (snd r))) = bump_nonce evm me"
    using SetNonce_effect(2)[OF sdb_ok_good[OF evm_ok_sdb[OF ok]]] evm_advance_db[OF r] evm_reads_view[of me evm]
    by (simp add: evm_write_def bump_nonce_def r_def)
  show "bal a (bump_nonce evm me) = bal a (abs_state (evm_StateDB evm))"
    by (simp add: bump_nonce_def on_acct_def bal_upd_acct bal_acct_or_new)
qed

lemma EVM_Create_safe:
  assumes "evm_ok evm" "is_word val" "\<not> read_only evm" "small code" "runner_ok G rc" "unat gas < G" "small_gas gas"
  shows "yields (EVM_Create rc caller code gas val evm) (create_ok evm (ref_Address caller) gas)"
proof -
  let ?me = "ref_Address caller"
  obtain evm1 where e1: "evm_read (CanTransfer ?me val) evm = (val \<le> bal ?me (abs_state (evm_StateDB evm)), evm1)"
    "evm_advance evm evm1" "abs_state (evm_StateDB evm1) = abs_state (evm_StateDB evm)"
    using CanTransfer_ok[OF assms(1)] by blast
  obtain n evm2 where r: "evm_read (GetNonce ?me) evm1 = (n, evm2)" by (cases "evm_read (GetNonce ?me) evm1")
  define evm3 where "evm3 = evm_write (SetNonce ?me (n + 1)) evm2"
  have ro1: "\<not> read_only evm1" using assms(3) evm_advance_read_only[OF e1(2)] by simp
  note bump = bump_nonce_ok[OF evm_advance_ok[OF e1(2)] ro1 r[symmetric], simplified fst_conv snd_conv, folded evm3_def]
  have view3: "abs_state (evm_StateDB evm3) = bump_nonce evm ?me"
    using bump(2) e1(3) evm_advance_db[OF e1(2)] by (simp add: bump_nonce_def)
  define db where "db = sdb_db (evm_StateDB evm1)"
  have "db_ok db" using evm_advance_ok[OF e1(2)] by (simp add: db_def evm_ok_def sdb_ok_def)
  then obtain addr where addr: "CreateAddress db ?me n = Some addr"
    using CreateAddress_safe[of db ?me n] by (auto simp: yields_def)
  define evm4 where "evm4 = snd (evm_read (GetCodeHash addr) evm3)"
  define evm5 where "evm5 = snd (evm_read (GetNonce addr) evm4)"
  have "evm_advance evm3 evm5"
    unfolding evm5_def evm4_def
    by (rule evm_advance_trans[OF _ evm_advance_getters(4)]) (use evm_advance_getters(5) evm_advance_ok[OF bump(1)] evm_advance_ok in blast)+
  with e1(2) bump(1) have adv5: "evm_advance evm evm5" using evm_advance_trans by blast
  have view5: "abs_state (evm_StateDB evm5) = bump_nonce evm ?me" by (simp add: evm5_def evm4_def evm_reads_view view3)
  let ?snap = "Snapshot (evm_StateDB evm5)"
  define evm6 where "evm6 = evm5\<lparr> evm_StateDB := snd ?snap \<rparr>"
  define evm7 where "evm7 = evm_write (CreateAccount addr) evm6"
  define evm8 where "evm8 = evm_write (Transfer ?me addr val)
    (if IsEIP158 (evm_chainConfig evm7) (evm_BlockNumber evm7) then evm_write (SetNonce addr 1) evm7 else evm7)"
  note ok5 = evm_advance_ok[OF adv5]
  have adv6: "evm_advance evm5 evm6" unfolding evm6_def by (rule snapshot_revert(1)[OF ok5 refl])
  have view6: "abs_state (evm_StateDB evm6) = bump_nonce evm ?me"
    using sdb_journal.snap_steps[of "evm_StateDB evm5"] sdb_ok_good[OF evm_ok_sdb[OF ok5]] view5 by (simp add: evm6_def)
  have ro: "\<not> read_only evm5" "\<not> read_only evm6"
    using assms(3) evm_advance_read_only[OF adv5] evm_advance_read_only[OF adv6] by simp_all
  obtain c9 evm9 where c9: "contract_for caller addr val gas evm8 = (c9, evm9)" by (cases "contract_for caller addr val gas evm8")
  have go: "evm_advance evm5 evm9 \<and> yields (do { (evm, c, ret, err) \<leftarrow> rc evm9 (SetCallCode addr (Keccak256Hash db code) code c9) [];
          create_finish (fst ?snap) addr evm c ret err }) (create_ok evm ?me gas)"
    if "val \<le> bal ?me (abs_state (evm_StateDB evm))"
  proof
    have "bal ?me (abs_state (evm_StateDB evm6)) = bal ?me (abs_state (evm_StateDB evm))"
      by (simp add: view6 bump_nonce_ok(3)[OF assms(1,3) refl])
    then have 8: "evm_advance evm6 evm8"
      unfolding evm8_def using that assms(2) ro(2) evm_advance_ok[OF adv6]
      by (intro prepare_creation[OF _ _ _ _ evm7_def]) (simp_all add: is_word_def)
    have db5: "db = sdb_db (evm_StateDB evm5)" using evm_advance_db[OF adv5] evm_advance_db[OF e1(2)] by (simp add: db_def)
    have "evm_advance evm8 evm9" using contract_for_ok[OF evm_advance_ok[OF 8] assms(2,7), of caller addr] c9 by auto
    then show "evm_advance evm5 evm9" using 8 adv6 evm_advance_trans by blast
    have env: "evm_chainConfig evm5 = evm_chainConfig evm" "evm_BlockNumber evm5 = evm_BlockNumber evm"
      using adv5 by (simp_all add: evm_advance_def same_env_def evm_BlockNumber_def)
    show "yields (do { (evm, c, ret, err) \<leftarrow> rc evm9 (SetCallCode addr (Keccak256Hash db code) code c9) [];
          create_finish (fst ?snap) addr evm c ret err }) (create_ok evm ?me gas)"
      by (rule yields_mono[OF create_run_safe[OF ok5 refl ro(1) 8[unfolded evm6_def] assms(5-7,2,4) c9 db5]])
        (use evm_advance_trans[OF adv5] env view5 in \<open>auto simp: create_ok_def\<close>)
  qed
  obtain h where h: "evm_read (GetCodeHash addr) evm3 = (h, evm4)" using evm4_def by (metis prod.collapse)
  obtain n2 where n2: "evm_read (GetNonce addr) evm4 = (n2, evm5)" using evm5_def by (metis prod.collapse)
  have snap: "evm_read Snapshot evm5 = (fst ?snap, evm6)" by (simp add: evm6_def evm_read_eq)
  show ?thesis
  proof (cases "evm_depth evm > CallCreateDepth \<or> \<not> val \<le> bal ?me (abs_state (evm_StateDB evm))")
    case True
    then show ?thesis using e1 assms(1) by (auto simp: EVM_Create_def create_ok_def)
  next
    case False
    then have "evm_advance evm evm9" using go evm_advance_trans[OF adv5] by blast
    then have "create_ok evm ?me gas (evm9, [], addr, gas, None)" by (simp add: create_ok_def)
    moreover have "create_ok evm ?me gas (evm5, [], 0, 0, Some e)" for e using adv5 view5 by (simp add: create_ok_def)
    ultimately show ?thesis
      using False go
      by (simp add: EVM_Create_def e1(1) r h n2 snap evm3_def[symmetric] db_def[symmetric] addr
          evm7_def[symmetric] evm8_def[symmetric] c9)
  qed
qed

section \<open>The instructions\<close>

text \<open>The frame after a call: its contract got back some of the gas that was passed on.\<close>

definition returned :: "nat \<Rightarrow> 't frame \<Rightarrow> 't frame \<times> bytes \<times> vm_error option \<Rightarrow> bool" where
  "returned k f r \<longleftrightarrow> (case r of (f', res, err) \<Rightarrow>
     evm_advance (f_evm f) (f_evm f') \<and> stack_ok (f_stack f') \<and> mem_ok (f_mem f') \<and> f_pc f' = f_pc f \<and> small res \<and>
     (\<exists>g. f_contract f' = (f_contract f)\<lparr> c_Gas := g \<rparr> \<and> unat g \<le> unat (c_Gas (f_contract f)) + k))"

lemma returned_stack [simp]: "returned k (f\<lparr> f_stack := st \<rparr>) = returned k f"
  by (simp add: returned_def fun_eq_iff)

lemma finish_call_safe:
  assumes "frame_ok f" "length (f_stack f) < StackLimit" "small_gas gas"
    and r: "yields r (call_ok (f_evm f) gas)"
    and mem: "is_word off" "is_word sz" "calcMemSize off sz \<le> int (length (m_store (f_mem f)))"
  shows "yields (finish_call off sz r f) (returned (unat gas) f)"
proof -
  obtain evm ret left err where r: "r = Some (evm, ret, left, err)" "evm_advance (f_evm f) evm" "small ret" "left \<le> gas"
    using r by (auto simp: yields_def)
  obtain m where m: "mem_Set (Uint64 off) (Uint64 sz) ret (f_mem f) = Some m" "mem_ok m"
    using mem_Set_safe[OF frame_okD(4)[OF assms(1)] mem, of ret] by (auto simp: yields_def)
  let ?c = "f_contract f"
  have "unat (c_Gas ?c) < 2 ^ 62" using frame_okD(2)[OF assms(1)] by (simp add: contract_ok_def small_gas_def)
  moreover have le: "unat left \<le> unat gas" "unat gas < 2 ^ 62" using r(4) assms(3) by (simp_all add: word_le_nat_alt small_gas_def)
  ultimately have "unat (c_Gas ?c + left) = unat (c_Gas ?c) + unat left" by (intro unat_add_no_wrap) simp
  then have "\<exists>g. ?c\<lparr> c_Gas := c_Gas ?c + left \<rparr> = ?c\<lparr> c_Gas := g \<rparr> \<and> unat g \<le> unat (c_Gas ?c) + unat gas"
    using le by (intro exI[of _ "c_Gas ?c + left"]) simp
  then show ?thesis
    using r m assms(2) frame_okD[OF assms(1)]
    by (cases err) (auto simp: Let_def finish_call_def returned_def f_push_def f_return_gas_def)
qed

lemma memory_call_fits:
  assumes "mem_fits (Some memoryCall) f" "f_stack f = g # a # v # i # il # r # rl # st"
  shows "calcMemSize i il \<le> int (length (m_store (f_mem f)))" "calcMemSize r rl \<le> int (length (m_store (f_mem f)))"
  using assms by (auto simp: mem_fits_def memoryCall_def back_size_Some bind_eq_Some_conv BigMax_def split: if_splits)

lemma memory_delegate_fits:
  assumes "mem_fits (Some ms) f" "ms \<in> {memoryDelegateCall, memoryStaticCall}" "f_stack f = g # a # i # il # r # rl # st"
  shows "calcMemSize i il \<le> int (length (m_store (f_mem f)))" "calcMemSize r rl \<le> int (length (m_store (f_mem f)))"
  using assms
  by (auto simp: mem_fits_def memoryDelegateCall_def memoryStaticCall_def back_size_Some bind_eq_Some_conv BigMax_def split: if_splits)

definition stipend :: "int \<Rightarrow> nat" where
  "stipend v = (if v = 0 then 0 else 2300)"

text \<open>The gas of the callee: what was charged for it, and the stipend.\<close>

lemma callee_gas:
  assumes "unat temp + stipend v < 2 ^ 62"
  shows "unat (if v \<noteq> 0 then temp + CallStipend else temp) = unat temp + stipend v"
    "small_gas (if v \<noteq> 0 then temp + CallStipend else temp)"
proof -
  have "unat (temp + CallStipend) = unat temp + 2300" if "v \<noteq> 0"
    using that assms unat_add_no_wrap[of temp CallStipend] by (simp add: params stipend_def)
  then show "unat (if v \<noteq> 0 then temp + CallStipend else temp) = unat temp + stipend v"
    "small_gas (if v \<noteq> 0 then temp + CallStipend else temp)"
    using assms by (auto simp: stipend_def small_gas_def)
qed

lemma opCall_safe:
  assumes f: "frame_ok f" "7 \<le> length (f_stack f)" "mem_fits (Some memoryCall) f"
    and rc: "runner_ok G rc" "unat (evm_callGasTemp (f_evm f)) + stipend (f_stack f ! 2) < 2 ^ 62"
      "unat (evm_callGasTemp (f_evm f)) + stipend (f_stack f ! 2) < G"
  shows "(read_only (f_evm f) \<Longrightarrow> f_stack f ! 2 = 0) \<Longrightarrow>
      yields (opCall rc f) (returned (unat (evm_callGasTemp (f_evm f)) + stipend (f_stack f ! 2)) f)"
    and "yields (opCallCode rc f) (returned (unat (evm_callGasTemp (f_evm f)) + stipend (f_stack f ! 2)) f)"
proof -
  from f(2) obtain g a v i il r rl st where st: "f_stack f = g # a # v # i # il # r # rl # st"
    by (auto simp: stack_cases)
  let ?temp = "evm_callGasTemp (f_evm f)" and ?f = "f\<lparr> f_stack := st \<rparr>"
  let ?gas = "if v \<noteq> 0 then ?temp + CallStipend else ?temp"
  have ok: "stack_ok (g # a # v # i # il # r # rl # st)" "mem_ok (f_mem f)" "evm_ok (f_evm f)"
    using frame_okD[OF f(1)] st by simp_all
  obtain args where args: "mem_Get (Int64 i) (Int64 il) (f_mem f) = Some args" "small args"
    using mem_Get_safe[OF ok(2) _ _ memory_call_fits(1)[OF f(3) st]] ok small_le[OF _ mem_small[OF ok(2)]]
    by (auto simp: yields_def)
  have "is_word v" using ok(1) by simp
  then have v: "U256 v = v" using U256_uint_id by (auto elim: is_wordE)
  have gas: "unat ?gas < G" "small_gas ?gas" "unat ?gas = unat ?temp + stipend (f_stack f ! 2)"
    using callee_gas[of ?temp v] rc(2,3) st by simp_all
  have fin: "yields (finish_call r rl m ?f) (returned (unat ?gas) f)" if "yields m (call_ok (f_evm f) ?gas)" for m
    using finish_call_safe[of ?f ?gas m r rl] that gas(2) ok memory_call_fits(2)[OF f(3) st]
      frame_okD[OF f(1)] by (simp add: frame_ok_def)
  have call: "(read_only (f_evm f) \<Longrightarrow> v = 0) \<Longrightarrow> yields (EVM_Call rc caller addr args ?gas v (f_evm f)) (call_ok (f_evm f) ?gas)"
    "yields (EVM_CallCode rc caller addr args ?gas v (f_evm f)) (call_ok (f_evm f) ?gas)" for caller addr
    using EVM_Call_safe[OF ok(3) _ _ args(2) rc(1) gas(1,2)] EVM_CallCode_safe[OF ok(3) _ args(2) rc(1) gas(1,2)]
      ok(1) by auto
  show "yields (opCall rc f) (returned (unat ?temp + stipend (f_stack f ! 2)) f)"
    if "read_only (f_evm f) \<Longrightarrow> f_stack f ! 2 = 0"
  proof -
    have "read_only (f_evm f) \<Longrightarrow> v = 0" using that st by simp
    from fin[OF call(1)[OF this]] show ?thesis
      using v unfolding gas(3) by (cases "v = 0") (simp_all add: opCall_def f_pop_stack[OF st] v args Let_def)
  qed
  show "yields (opCallCode rc f) (returned (unat ?temp + stipend (f_stack f ! 2)) f)"
    using fin[OF call(2)] v unfolding gas(3)
    by (cases "v = 0") (simp_all add: opCallCode_def f_pop_stack[OF st] v args Let_def)
qed

lemma opDelegateCall_safe:
  assumes f: "frame_ok f" "6 \<le> length (f_stack f)"
    and rc: "runner_ok G rc" "small_gas (evm_callGasTemp (f_evm f))" "unat (evm_callGasTemp (f_evm f)) < G"
  shows "mem_fits (Some memoryDelegateCall) f \<Longrightarrow>
      yields (opDelegateCall rc f) (returned (unat (evm_callGasTemp (f_evm f))) f)"
    and "mem_fits (Some memoryStaticCall) f \<Longrightarrow>
      yields (opStaticCall rc f) (returned (unat (evm_callGasTemp (f_evm f))) f)"
proof -
  from f(2) obtain g a i il r rl st where st: "f_stack f = g # a # i # il # r # rl # st" by (auto simp: stack_cases)
  let ?gas = "evm_callGasTemp (f_evm f)" and ?f = "f\<lparr> f_stack := st \<rparr>" and ?c = "f_contract f"
  have ok: "stack_ok (g # a # i # il # r # rl # st)" "mem_ok (f_mem f)" "evm_ok (f_evm f)" "is_word (c_value ?c)"
    using frame_okD[OF f(1)] st by (simp_all add: contract_ok_def)
  have args: "\<exists>args. mem_Get (Int64 i) (Int64 il) (f_mem f) = Some args \<and> small args"
    and fin: "\<And>m. yields m (call_ok (f_evm f) ?gas) \<Longrightarrow> yields (finish_call r rl m ?f) (returned (unat ?gas) f)"
    if fits: "mem_fits (Some ms) f" "ms \<in> {memoryDelegateCall, memoryStaticCall}" for ms
  proof -
    show "\<exists>args. mem_Get (Int64 i) (Int64 il) (f_mem f) = Some args \<and> small args"
      using mem_Get_safe[OF ok(2) _ _ memory_delegate_fits(1)[OF fits st]] ok small_le[OF _ mem_small[OF ok(2)]]
      by (auto simp: yields_def)
    show "yields (finish_call r rl m ?f) (returned (unat ?gas) f)" if "yields m (call_ok (f_evm f) ?gas)" for m
      using finish_call_safe[of ?f ?gas m r rl] that rc(2) ok memory_delegate_fits(2)[OF fits st]
        frame_okD[OF f(1)] by (simp add: frame_ok_def)
  qed
  have static: "yields (EVM_StaticCall rc caller addr args ?gas (f_evm f)) (call_ok (f_evm f) ?gas)"
    if "small args" for caller addr args
    by (rule yields_mono[OF EVM_StaticCall_safe[OF ok(3) that rc(1,3,2)]]) simp
  show "yields (opDelegateCall rc f) (returned (unat ?gas) f)" if "mem_fits (Some memoryDelegateCall) f"
    using args[OF that] fin[OF that _ EVM_DelegateCall_safe[OF ok(3,4) _ rc(1,3,2)]]
    by (auto simp: opDelegateCall_def f_pop_stack[OF st])
  show "yields (opStaticCall rc f) (returned (unat ?gas) f)" if "mem_fits (Some memoryStaticCall) f"
    using args[OF that] fin[OF that _ static]
    by (auto simp: opStaticCall_def f_pop_stack[OF st])
qed

lemma opCreate_safe:
  assumes f: "frame_ok f" "3 \<le> length (f_stack f)" "mem_fits (Some memoryCreate) f" "\<not> read_only (f_evm f)"
    and rc: "runner_ok G rc" "unat (c_Gas (f_contract f)) < G"
  shows "yields (opCreate rc f) (outcome_ok f)"
proof -
  from f(2) obtain v i il st where st: "f_stack f = v # i # il # st" by (auto simp: stack_cases)
  let ?c = "f_contract f" and ?evm = "f_evm f"
  define gas where "gas = (if IsEIP150 (evm_chainConfig ?evm) (evm_BlockNumber ?evm) then c_Gas ?c - c_Gas ?c div 64 else c_Gas ?c)"
  have ok: "stack_ok (v # i # il # st)" "mem_ok (f_mem f)" "evm_ok ?evm" "small_gas (c_Gas ?c)"
    using frame_okD[OF f(1)] st by (simp_all add: contract_ok_def)
  have "calcMemSize i il \<le> int (length (m_store (f_mem f)))"
    using f(3) st by (simp add: mem_fits_def memoryCreate_def back_size_Some)
  then obtain code where code: "mem_Get (Int64 i) (Int64 il) (f_mem f) = Some code" "small code"
    using mem_Get_safe[OF ok(2), of i il] ok small_le[OF _ mem_small[OF ok(2)]] by (auto simp: yields_def)
  have "c_Gas ?c div 64 \<le> c_Gas ?c" by (simp add: word_le_nat_alt unat_div)
  then have gas: "gas \<le> c_Gas ?c" by (simp add: gas_def word_sub_le)
  then have use: "f_UseGas gas (f\<lparr> f_stack := st \<rparr>) = f\<lparr> f_stack := st, f_contract := ?c\<lparr> c_Gas := c_Gas ?c - gas \<rparr> \<rparr>"
    by (auto simp: f_UseGas_def UseGas_def)
  have "unat gas < G" using rc(2) gas by (simp add: word_le_nat_alt)
  from EVM_Create_safe[OF ok(3) _ f(4) code(2) rc(1) this small_gas_le[OF gas ok(4)], of v "CallerContract (?c\<lparr> c_Gas := c_Gas ?c - gas \<rparr>)"]
  obtain evm res addr left err where
    r: "EVM_Create rc (CallerContract (?c\<lparr> c_Gas := c_Gas ?c - gas \<rparr>)) code gas v ?evm = Some (evm, res, addr, left, err)"
    and left: "evm_advance ?evm evm" "small res" "left \<le> gas"
    using ok(1) by (auto simp: yields_def create_ok_def)
  have "unat (c_Gas ?c - gas + left) \<le> unat (c_Gas ?c)"
    using gas left(3) by (simp add: word_le_nat_alt unat_sub unat_word_ariths(1))
  then have uses: "uses_gas ?c (?c\<lparr> c_Gas := c_Gas ?c - gas + left \<rparr>)" by (simp add: uses_gas_def word_le_nat_alt)
  have "outcome_ok f (f\<lparr> f_evm := evm, f_stack := x # st, f_contract := ?c\<lparr> c_Gas := c_Gas ?c - gas + left \<rparr> \<rparr>, y, None)"
    if "is_word x" "small y" for x y
    using left uses ok f(1) that by (auto simp: outcome_ok_def intro!: frame_advanceI)
  then show ?thesis
    using left(2) use r unfolding gas_def
    by (cases "IsEIP150 (evm_chainConfig ?evm) (evm_BlockNumber ?evm)")
      (simp_all add: opCreate_def f_pop_stack[OF st] code Let_def f_push_def f_return_gas_def)
qed

end
