(* ===== verification/VM_Safety.thy ===== *)
theory VM_Safety
  imports VM_Calls_Safe
begin

text \<open>The interpreter is safe: every entry of the instruction tables keeps the invariants and, unless it
  stops, uses gas. With more fuel than gas the loop therefore returns a result.\<close>

section \<open>One turn of the loop\<close>

definition turn_ok :: "'t frame \<Rightarrow> 't turn \<Rightarrow> bool" where
  "turn_ok f t \<longleftrightarrow> (case t of
     Next f' \<Rightarrow> frame_advance f f' \<and> pc_ok f' \<and> c_Gas (f_contract f') < c_Gas (f_contract f)
   | Stop f' ret err \<Rightarrow> frame_advance f f' \<and> small ret)"

lemma turn_ok_simps [simp]:
  "turn_ok f (Next f') \<longleftrightarrow> frame_advance f f' \<and> pc_ok f' \<and> c_Gas (f_contract f') < c_Gas (f_contract f)"
  "turn_ok f (Stop f' ret err) \<longleftrightarrow> frame_advance f f' \<and> small ret"
  by (simp_all add: turn_ok_def)

text \<open>Memory size functions are defined on stacks of the validated height.\<close>

definition sized :: "nat \<Rightarrow> memorySizeFunc option \<Rightarrow> bool" where
  "sized p mso \<longleftrightarrow> (\<forall>ms st. mso = Some ms \<longrightarrow> p \<le> length st \<longrightarrow> ms st \<noteq> None)"

lemma sized_memory:
  "sized p None" "sized 2 (Some memorySha3)" "sized 3 (Some memoryCallDataCopy)" "sized 3 (Some memoryReturnDataCopy)"
  "sized 3 (Some memoryCodeCopy)" "sized 4 (Some memoryExtCodeCopy)" "sized 3 (Some memoryCreate)"
  "sized 2 (Some memoryReturn)" "sized 2 (Some memoryRevert)" "sized (n + 2) (Some memoryLog)"
  "sized (Suc 0) (Some memoryMLoad)" "sized 2 (Some memoryMStore)" "sized 2 (Some memoryMStore8)"
  "sized 7 (Some memoryCall)" "sized 6 (Some memoryDelegateCall)" "sized 6 (Some memoryStaticCall)"
  by (auto simp: sized_def memorySha3_def memoryCallDataCopy_def memoryReturnDataCopy_def memoryCodeCopy_def
      memoryExtCodeCopy_def memoryCreate_def memoryReturn_def memoryRevert_def memoryLog_def memoryMLoad_def
      memoryMStore_def memoryMStore8_def memoryCall_def memoryDelegateCall_def memoryStaticCall_def
      back_size_def stack_Back_def go_index_def)

lemma required_memory_ok:
  assumes "sized p (memorySize r)" "p \<le> length (f_stack f)"
  obtains (error) e where "required_memory r f = Some (Inl e)"
    | (none) "required_memory r f = Some (Inr 0)" "memorySize r = None"
    | (some) ms v n where "required_memory r f = Some (Inr n)" "memorySize r = Some ms" "ms (f_stack f) = Some v" "v \<le> int (unat n)"
proof (cases "memorySize r")
  case None
  then show thesis using none by (simp add: required_memory_def)
next
  case (Some ms)
  then obtain v where v: "ms (f_stack f) = Some v" using assms by (auto simp: sized_def)
  obtain n o' where n: "SafeMul (toWordSize (Uint64 v)) 32 = (n, o')" by (cases "SafeMul (toWordSize (Uint64 v)) 32")
  show thesis
  proof (cases "BitLen v > 64 \<or> o'")
    case True
    then show thesis using error[of errGasUintOverflow] Some v n by (auto simp: required_memory_def bigUint64_def)
  next
    case False
    then have "v \<le> int (unat (Uint64 v))"
    proof (cases "0 \<le> v")
      case True
      then have "v < 2 ^ 64" using False BitLen_le_iff[of v 64] by simp
      then show ?thesis using True by (simp add: Uint64_def unsigned_of_int take_bit_int_eq_self)
    next
      case False
      moreover have "0 \<le> int (unat (Uint64 v))" by simp
      ultimately show ?thesis by linarith
    qed
    moreover have "unat (Uint64 v) \<le> unat n" using toWordSize_mult(2) n False by auto
    ultimately have "v \<le> int (unat n)" by linarith
    from some[OF _ Some v this] show thesis using False Some v n by (simp add: required_memory_def bigUint64_def)
  qed
qed

section \<open>The rule for one instruction\<close>

text \<open>The frame in which an instruction is executed: the gas is paid and the memory has grown.\<close>

definition paid_frame :: "'t frame \<Rightarrow> uint64 \<Rightarrow> Memory \<Rightarrow> 't frame" where
  "paid_frame f g m = f\<lparr> f_contract := (f_contract f)\<lparr> c_Gas := c_Gas (f_contract f) - g \<rparr>, f_mem := m \<rparr>"

definition result_ok :: "'t operation \<Rightarrow> 't frame \<Rightarrow> 't frame \<times> bytes \<times> vm_error option \<Rightarrow> bool" where
  "result_ok r f res \<longleftrightarrow> (case res of (f', ret, err) \<Rightarrow> frame_advance f f' \<and> small ret \<and>
     (halts r \<or> reverts r \<or> err \<noteq> None \<or> near f f' \<and> c_Gas (f_contract f') < c_Gas (f_contract f)))"

lemma evm_advance_returnData: "evm_ok evm \<Longrightarrow> small ret \<Longrightarrow> evm_advance evm (evm\<lparr> evm_returnData := ret \<rparr>)"
  by (simp add: evm_advance_def evm_ok_def same_env_def)

lemma frame_advance_evm:
  assumes "frame_advance f f'" "evm_advance (f_evm f') evm"
  shows "frame_advance f (f'\<lparr> f_evm := evm \<rparr>)"
proof -
  have "frame_ok f'" using assms(1) by (simp add: frame_advance_def)
  then show ?thesis
    using frame_advanceI[of f' "f'\<lparr> f_evm := evm \<rparr>"] assms frame_advance_trans frame_okD[of f'] by fastforce
qed

lemma execute_op_safe:
  assumes "yields (execute r f2) (result_ok r f)" "frame_ok f"
    and pc: "halts r \<or> reverts r \<or> unat (f_pc f) < length (c_Code (f_contract f))"
  shows "yields (execute_op r f2) (turn_ok f)"
proof -
  obtain f' ret err where r: "execute r f2 = Some (f', ret, err)" "frame_advance f f'" "small ret"
    "halts r \<or> reverts r \<or> err \<noteq> None \<or> near f f' \<and> c_Gas (f_contract f') < c_Gas (f_contract f)"
    using assms(1) by (auto simp: yields_def result_ok_def)
  define h where "h = (if returns r then f'\<lparr> f_evm := (f_evm f')\<lparr> evm_returnData := ret \<rparr> \<rparr> else f')"
  have ok: "frame_ok f'" using r(2) by (simp add: frame_advance_def)
  have h: "frame_advance f h" "f_contract h = f_contract f'" "f_pc h = f_pc f'"
    using r(2) frame_advance_evm[OF r(2) evm_advance_returnData[OF frame_okD(1)[OF ok] r(3)]] by (simp_all add: h_def)
  have "frame_advance f (h\<lparr> f_pc := p \<rparr>)" for p
    using h(1) by (simp add: frame_advance_def frame_ok_def)
  moreover have "pc_ok h \<and> pc_ok (h\<lparr> f_pc := f_pc h + 1 \<rparr>)" if "near f f'" "\<not> halts r" "\<not> reverts r"
  proof -
    have "c_Code (f_contract f') = c_Code (f_contract f)"
      using r(2) uses_gas_fields(1) by (auto simp: frame_advance_def)
    then have le: "unat (f_pc f') + 1 < length (c_Code (f_contract f')) + 34" using that pc by (auto simp: near_def)
    have "length (c_Code (f_contract f')) < 2 ^ 62" using frame_okD(2)[OF ok] by (simp add: contract_ok_def small_def)
    then have "unat (f_pc f' + 1) = unat (f_pc f') + 1" using le unat_add_no_wrap[of "f_pc f'" 1] by simp
    then show ?thesis using le h by (simp add: pc_ok_def)
  qed
  ultimately show ?thesis
    using r h by (auto simp: execute_op_def h_def[symmetric])
qed

lemma validated:
  assumes "makeStackFunc p q st = None"
  shows "p \<le> length st" "length st + q \<le> StackLimit + p"
  using assms by (auto simp: makeStackFunc_def stack_require_def split: if_splits)

text \<open>In read-only mode nothing is written and no value is sent.\<close>

lemma enforce_ok:
  assumes "frame_ok f" "p \<le> length (f_stack f)" "b = 0xf1 \<Longrightarrow> 3 \<le> p"
  obtains e where "enforceRestrictions b r f = Some e"
    "e = None \<Longrightarrow> (writes r \<longrightarrow> \<not> read_only (f_evm f)) \<and> (b = 0xf1 \<longrightarrow> read_only (f_evm f) \<longrightarrow> f_stack f ! 2 = 0)"
proof -
  have "is_word (f_stack f ! 2)" if "b = 0xf1"
    using that assms frame_okD(3)[of f] by (auto simp: stack_ok_def)
  then have "0 < BitLen (f_stack f ! 2)" if "b = 0xf1" "f_stack f ! 2 \<noteq> 0"
    using that by (simp add: BitLen_gt_iff is_word_def)
  moreover have "stack_Back (f_stack f) 2 = Some (f_stack f ! 2)" if "b = 0xf1" using that assms by (simp add: stack_Back_def)
  ultimately have "\<exists>e. enforceRestrictions b r f = Some e \<and>
      (e = None \<longrightarrow> (writes r \<longrightarrow> \<not> read_only (f_evm f)) \<and> (b = 0xf1 \<longrightarrow> read_only (f_evm f) \<longrightarrow> f_stack f ! 2 = 0))"
    by (auto simp: enforceRestrictions_def read_only_def Let_def)
  then show thesis using that by blast
qed

text \<open>Charging: the frame that the instruction sees, or a stop.\<close>

lemma charge_safe:
  assumes f: "frame_ok f" and gas: "yields (gasCost r (evm_gasTable (f_evm f)) f n) (gas_ok Q n f)"
    and k: "\<And>f1 g m. charged f f1 \<Longrightarrow> Q f1 g \<Longrightarrow> g \<le> c_Gas (f_contract f) \<Longrightarrow> frame_advance f (paid_frame f1 g m) \<Longrightarrow>
      unat n \<le> length (m_store m) \<Longrightarrow> yields (execute_op r (paid_frame f1 g m)) (turn_ok f)"
  shows "yields (do { (f, paid) \<leftarrow> charge_op r f n;
                     if \<not> paid then Some (Stop f [] (Some ErrOutOfGas))
                     else execute_op r (if n > 0 then f\<lparr> f_mem := mem_Resize n (f_mem f) \<rparr> else f) }) (turn_ok f)"
proof -
  obtain f1 cost where c: "gasCost r (evm_gasTable (f_evm f)) f n = Some (f1, cost)" "charged f f1"
    "\<And>g. cost = Inr g \<Longrightarrow> Q f1 g \<and> n \<le> 0xffffffffe0"
    using gas by (auto simp: yields_def gas_ok_def)
  have mem: "length (m_store (f_mem f1)) \<le> 2 ^ 40" using frame_okD(4)[OF f] c(2) by (simp add: charged_def mem_ok_def)
  have adv: "frame_advance f (f1\<lparr> f_contract := c, f_mem := m \<rparr>)" if "uses_gas (f_contract f) c" "mem_ok m" for c m
    using that c(2) frame_okD[OF f] by (intro frame_advanceI[OF f]) (simp_all add: charged_def)
  have adv1: "frame_advance f f1"
    using c(2) frame_okD[OF f] mem by (intro frame_advanceI[OF f]) (simp_all add: charged_def mem_ok_def)
  show ?thesis
  proof (cases cost)
    case (Inl e)
    then show ?thesis using c adv1 by (simp add: charge_op_def)
  next
    case (Inr g)
    define m where "m = (if n > 0 then mem_Resize n (f_mem f1) else f_mem f1)"
    have n: "unat n \<le> 2 ^ 40" using c(3)[OF Inr] by (simp add: word_le_nat_alt)
    have m: "mem_ok m" "unat n \<le> length (m_store m)"
      using mem n by (auto simp: m_def mem_Resize_spec mem_ok_def word_gt_0)
    have same: "f_contract f1 = f_contract f" using c(2) by (simp add: charged_def)
    show ?thesis
    proof (cases "c_Gas (f_contract f) < g")
      case True
      moreover have "frame_advance f (f1\<lparr> f_contract := f_contract f1 \<rparr>)" using adv1 by simp
      ultimately show ?thesis using c Inr same by (simp add: charge_op_def UseGas_def)
    next
      case False
      then have "uses_gas (f_contract f) ((f_contract f)\<lparr> c_Gas := c_Gas (f_contract f) - g \<rparr>)"
        using UseGas_uses(1)[of "f_contract f" g] by (simp add: UseGas_def)
      then have "frame_advance f (paid_frame f1 g m)" using adv m(1) by (simp add: paid_frame_def same)
      from k[OF c(2) _ _ this m(2)] have "yields (execute_op r (paid_frame f1 g m)) (turn_ok f)"
        using c(3)[OF Inr] False by auto
      then show ?thesis using c(1) Inr False by (auto simp: charge_op_def UseGas_def same paid_frame_def m_def split: if_splits)
    qed
  qed
qed

text \<open>After the stack is validated and the restrictions of read-only mode are enforced, the gas is charged
  and the instruction is executed.\<close>

lemma interpret_op_rule:
  assumes f: "frame_ok f" and r: "valid r" "validateStack r = makeStackFunc p q" "sized p (memorySize r)"
    and pc: "halts r \<or> reverts r \<or> unat (f_pc f) < length (c_Code (f_contract f))"
    and call: "b = 0xf1 \<Longrightarrow> 3 \<le> p"
    and gas: "\<And>n. p \<le> length (f_stack f) \<Longrightarrow> (writes r \<Longrightarrow> \<not> read_only (f_evm f)) \<Longrightarrow>
      (memorySize r = None \<Longrightarrow> n = 0) \<Longrightarrow> yields (gasCost r (evm_gasTable (f_evm f)) f n) (gas_ok Q n f)"
    and exec: "\<And>f1 g m. charged f f1 \<Longrightarrow> Q f1 g \<Longrightarrow> g \<le> c_Gas (f_contract f) \<Longrightarrow> frame_advance f (paid_frame f1 g m) \<Longrightarrow>
      p \<le> length (f_stack f) \<Longrightarrow> length (f_stack f) + q \<le> StackLimit + p \<Longrightarrow>
      mem_fits (memorySize r) (paid_frame f1 g m) \<Longrightarrow> (writes r \<Longrightarrow> \<not> read_only (f_evm f)) \<Longrightarrow>
      (b = 0xf1 \<Longrightarrow> read_only (f_evm f) \<Longrightarrow> f_stack f ! 2 = 0) \<Longrightarrow>
      yields (execute r (paid_frame f1 g m)) (result_ok r f)"
  shows "yields (interpret_op b r f) (turn_ok f)"
proof (cases "makeStackFunc p q (f_stack f)")
  case (Some e)
  then show ?thesis using f r by (simp add: interpret_op_def)
next
  case None
  note len = validated[OF None]
  have stop: "turn_ok f (Stop f [] err)" for err using f by simp
  obtain e where enf: "enforceRestrictions b r f = Some e"
    "e = None \<Longrightarrow> (writes r \<longrightarrow> \<not> read_only (f_evm f)) \<and> (b = 0xf1 \<longrightarrow> read_only (f_evm f) \<longrightarrow> f_stack f ! 2 = 0)"
    using enforce_ok[OF f, of p b r] len(1) call by blast
  have go: "yields (do { (f, paid) \<leftarrow> charge_op r f n;
                     if \<not> paid then Some (Stop f [] (Some ErrOutOfGas))
                     else execute_op r (if n > 0 then f\<lparr> f_mem := mem_Resize n (f_mem f) \<rparr> else f) }) (turn_ok f)"
    if "e = None" and n: "memorySize r = None \<Longrightarrow> n = 0"
      "\<And>ms. memorySize r = Some ms \<Longrightarrow> \<exists>v. ms (f_stack f) = Some v \<and> v \<le> int (unat n)" for n
  proof -
    have w: "writes r \<Longrightarrow> \<not> read_only (f_evm f)" "b = 0xf1 \<Longrightarrow> read_only (f_evm f) \<Longrightarrow> f_stack f ! 2 = 0"
      using enf(2) that(1) by auto
    show ?thesis
    proof (rule charge_safe[OF f gas[OF len(1) w(1) n(1)]])
      fix f1 g m
      assume f1: "charged f f1" "Q f1 g" "g \<le> c_Gas (f_contract f)" "frame_advance f (paid_frame f1 g m)" "unat n \<le> length (m_store m)"
      have "mem_fits (memorySize r) (paid_frame f1 g m)"
      proof (cases "memorySize r")
        case (Some ms)
        then obtain v where "ms (f_stack f) = Some v" "v \<le> int (unat n)" using n(2) by blast
        moreover from this have "v \<le> int (length (m_store m))" using f1(5) by linarith
        ultimately show ?thesis using Some f1(1) by (simp add: mem_fits_def paid_frame_def charged_def)
      qed (simp add: mem_fits_def)
      from execute_op_safe[OF exec[OF f1(1-4) len this w] f pc]
      show "yields (execute_op r (paid_frame f1 g m)) (turn_ok f)" .
    qed
  qed
  show ?thesis
  proof (cases e)
    case (Some e')
    then show ?thesis using None enf(1) r stop by (simp add: interpret_op_def)
  next
    case e: None
    from r(3) len(1) show ?thesis
      by (cases rule: required_memory_ok) (use None e enf(1) r stop go[OF e] in \<open>auto simp: interpret_op_def\<close>)
  qed
qed

section \<open>The instruction tables\<close>

text \<open>An entry is safe if calls may use less than \<open>G\<close> gas. An opcode that is not STOP is read inside the code.\<close>

definition op_ok :: "nat \<Rightarrow> byte \<Rightarrow> 't operation \<Rightarrow> bool" where
  "op_ok G b r \<longleftrightarrow>
     (\<forall>f. frame_ok f \<and> (b \<noteq> 0 \<longrightarrow> unat (f_pc f) < length (c_Code (f_contract f))) \<and> pc_ok f \<and>
          unat (c_Gas (f_contract f)) \<le> G \<longrightarrow> yields (interpret_op b r f) (turn_ok f))"

lemma paid_frame_simps [simp]:
  "f_evm (paid_frame f g m) = f_evm f" "f_stack (paid_frame f g m) = f_stack f" "f_mem (paid_frame f g m) = m"
  "f_pc (paid_frame f g m) = f_pc f" "f_contract (paid_frame f g m) = (f_contract f)\<lparr> c_Gas := c_Gas (f_contract f) - g \<rparr>"
  by (simp_all add: paid_frame_def)

lemma pc_ok_paid: "charged f f1 \<Longrightarrow> pc_ok (paid_frame f1 g m) = pc_ok f"
  by (simp add: pc_ok_def charged_def)

lemma paid_less:
  assumes "g \<le> c_Gas c" "0 < unat g"
  shows "c_Gas c - g < c_Gas c"
  using assms by (simp add: word_less_nat_alt word_le_nat_alt unat_sub)

lemma op_ok_execI:
  assumes r: "valid r" "validateStack r = makeStackFunc p q"
    and safe: "gas_safe (memorySize r) p (writes r) lo (gasCost r)"
      "\<And>f. frame_ok f \<Longrightarrow> pc_ok f \<Longrightarrow> p \<le> length (f_stack f) \<Longrightarrow> length (f_stack f) + q \<le> StackLimit + p \<Longrightarrow>
        mem_fits (memorySize r) f \<Longrightarrow> (writes r \<Longrightarrow> \<not> read_only (f_evm f)) \<Longrightarrow>
        (0 < lo \<Longrightarrow> unat (c_Gas (f_contract f)) < G) \<Longrightarrow> yields (execute r f) (outcome_ok f)"
    and "0 < lo \<or> halts r \<or> reverts r" "sized p (memorySize r)" "b \<noteq> 0xf1" "b = 0 \<Longrightarrow> halts r"
  shows "op_ok G b r"
  unfolding op_ok_def
proof (intro allI impI, elim conjE)
  fix f :: "'a frame"
  assume f: "frame_ok f" "b \<noteq> 0 \<longrightarrow> unat (f_pc f) < length (c_Code (f_contract f))" "pc_ok f"
    "unat (c_Gas (f_contract f)) \<le> G"
  show "yields (interpret_op b r f) (turn_ok f)"
  proof (rule interpret_op_rule[OF f(1) r assms(6), where Q = "\<lambda>f g. lo \<le> unat g"])
    show "yields (gasCost r (evm_gasTable (f_evm f)) f n) (gas_ok (\<lambda>f g. lo \<le> unat g) n f)"
      if "p \<le> length (f_stack f)" "writes r \<Longrightarrow> \<not> read_only (f_evm f)" "memorySize r = None \<Longrightarrow> n = 0" for n
      using safe(1) that f(1) by (simp add: gas_safe_def)
    fix f1 :: "'a frame" and g m
    let ?f = "paid_frame f1 g m"
    assume c: "charged f f1" "lo \<le> unat g" "g \<le> c_Gas (f_contract f)" "frame_advance f ?f"
      and st: "p \<le> length (f_stack f)" "length (f_stack f) + q \<le> StackLimit + p" "mem_fits (memorySize r) ?f"
      and w: "writes r \<Longrightarrow> \<not> read_only (f_evm f)"
    have "f_stack f1 = f_stack f" "f_pc f1 = f_pc f" "f_contract f1 = f_contract f" "read_only (f_evm f1) = read_only (f_evm f)"
      using c(1) evm_advance_read_only by (auto simp: charged_def)
    note same = this
    have "frame_ok ?f" using c(4) by (simp add: frame_advance_def)
    moreover have "unat (c_Gas (f_contract f) - g) < G" if "0 < lo"
      using paid_less[OF c(3)] that c(2) f(4) by (simp add: word_less_nat_alt)
    ultimately have "yields (execute r ?f) (outcome_ok ?f)"
      using st w f(3) same pc_ok_paid[OF c(1)] by (intro safe(2)) auto
    then obtain f' ret err where x: "execute r ?f = Some (f', ret, err)" "outcome_ok ?f (f', ret, err)"
      by (auto simp: yields_def)
    have "c_Gas (f_contract f') \<le> c_Gas (f_contract f) - g"
      using x(2) same by (simp add: outcome_ok_def frame_advance_def uses_gas_def)
    then have "c_Gas (f_contract f') < c_Gas (f_contract f)" if "0 < lo"
      using paid_less[OF c(3)] that c(2) by (meson less_le_trans order.strict_trans1)
    moreover have "frame_advance f f'" using c(4) x(2) frame_advance_trans by (auto simp: outcome_ok_def)
    ultimately show "yields (execute r ?f) (result_ok r f)"
      using x same assms(5) by (auto simp: result_ok_def outcome_ok_def near_def)
  qed (use f(2) assms(7,8) in auto)
qed

lemma op_okI:
  assumes "valid r" "validateStack r = makeStackFunc p q" "gas_safe (memorySize r) p (writes r) lo (gasCost r)"
    and "exec_safe (memorySize r) p q (writes r) (execute r)"
    and "0 < lo \<or> halts r \<or> reverts r" "sized p (memorySize r)" "b \<noteq> 0xf1" "b = 0 \<Longrightarrow> halts r"
  shows "op_ok G b r"
  using assms(4) by (intro op_ok_execI[OF assms(1-3) _ assms(5-8)]) (simp_all add: exec_safe_def)

text \<open>The shapes of the entries.\<close>

lemma const_gas_exact: "gas_safe None p w (unat g) (constGasFunc g)"
  by (rule const_gas_safe) simp

lemma op_ok_op:
  "gas_safe ms p False lo gc \<Longrightarrow> exec_safe ms p q False ex \<Longrightarrow> 0 < lo \<Longrightarrow> sized p ms \<Longrightarrow> b \<noteq> 0xf1 \<Longrightarrow> b \<noteq> 0 \<Longrightarrow>
   op_ok G b (op ex gc (makeStackFunc p q) ms)"
  "gas_safe ms p False lo gc \<Longrightarrow> exec_safe ms p q False ex \<Longrightarrow> 0 < lo \<Longrightarrow> sized p ms \<Longrightarrow> b \<noteq> 0xf1 \<Longrightarrow> b \<noteq> 0 \<Longrightarrow>
   op_ok G b (jumps_op (op ex gc (makeStackFunc p q) ms))"
  "gas_safe ms p True lo gc \<Longrightarrow> exec_safe ms p q True ex \<Longrightarrow> 0 < lo \<Longrightarrow> sized p ms \<Longrightarrow> b \<noteq> 0xf1 \<Longrightarrow> b \<noteq> 0 \<Longrightarrow>
   op_ok G b (writes_op (op ex gc (makeStackFunc p q) ms))"
  "gas_safe ms p False lo gc \<Longrightarrow> exec_safe ms p q False ex \<Longrightarrow> sized p ms \<Longrightarrow> b \<noteq> 0xf1 \<Longrightarrow>
   op_ok G b (halts_op (op ex gc (makeStackFunc p q) ms))"
  "gas_safe ms p True lo gc \<Longrightarrow> exec_safe ms p q True ex \<Longrightarrow> sized p ms \<Longrightarrow> b \<noteq> 0xf1 \<Longrightarrow>
   op_ok G b (writes_op (halts_op (op ex gc (makeStackFunc p q) ms)))"
  "gas_safe ms p False lo gc \<Longrightarrow> exec_safe ms p q False ex \<Longrightarrow> sized p ms \<Longrightarrow> b \<noteq> 0xf1 \<Longrightarrow> b \<noteq> 0 \<Longrightarrow>
   op_ok G b (returns_op (reverts_op (op ex gc (makeStackFunc p q) ms)))"
  by (rule op_okI[where p = p and q = q and lo = lo];
      simp add: op_def jumps_op_def writes_op_def halts_op_def reverts_op_def returns_op_def)+

lemmas safe_gas = const_gas_exact simple_gas_safe memory_gas_safe return_gas_safe copy_gas_safe gasSha3_safe
  makeGasLog_safe gasExp_safe gasSStore_safe gasSuicide_safe

lemmas safe_exec = arithmetic_safe comparison_safe environment_safe opBalance_safe opExtCodeSize_safe opSload_safe
  opSignExtend_safe opBlockhash_safe opCallDataLoad_safe opCallDataCopy_safe opCodeCopy_safe opExtCodeCopy_safe
  opReturnDataCopy_safe opSha3_safe opMload_safe opMstore_safe opMstore8_safe opReturn_safe opRevert_safe opStop_safe
  opJumpdest_safe opPop_safe opSstore_safe opSuicide_safe opJump_safe opJumpi_safe makeLog_safe

lemma plain_table:
  "\<forall>(b, r) \<in> set (arithmetic_ops @ comparison_ops @ closure_ops @ block_ops @ storage_ops). op_ok G b r"
  unfolding arithmetic_ops_def comparison_ops_def closure_ops_def block_ops_def storage_ops_def
  by (simp only: append.simps list.set ball_simps prod.case simp_thms, intro conjI;
      rule op_ok_op, rule safe_gas, rule safe_exec, (simp add: params sized_memory)+)

lemma opcode_range:
  fixes b :: byte
  assumes "i < 32" "0 < unat b" "unat b \<le> 0xa0"
  shows "b + of_nat i \<noteq> 0xf1" "b + of_nat i \<noteq> 0"
proof -
  have "unat (b + of_nat i) = unat b + i" using assms by (simp add: unat_word_ariths unat_of_nat)
  moreover have "unat (0xf1 :: byte) = 241" by simp
  ultimately show "b + of_nat i \<noteq> 0xf1" "b + of_nat i \<noteq> 0" using assms by fastforce+
qed

lemma generated_table: "\<forall>(b, r) \<in> set (push_ops @ dup_ops @ swap_ops @ log_ops). op_ok G b r"
proof -
  have "op_ok G (0x60 + of_nat i) (op (makePush (of_nat (i + 1)) (i + 1)) gasPush (makeStackFunc 0 1) None)" if "i < 32" for i
  proof -
    have "unat (of_nat (i + 1) :: uint64) \<le> 32" using that unat_of_nat_64[of "i + 1"] by simp
    from makePush_safe[OF _ this, of "i + 1"] show ?thesis
      by (intro op_ok_op(1)[OF safe_gas(5)]) (use opcode_range[of i "0x60"] that in \<open>auto simp: sized_memory\<close>)
  qed
  moreover have "op_ok G (0x80 + of_nat i) (op (makeDup (i + 1)) gasDup (makeDupStackFunc (i + 1)) None)" if "i < 16" for i
    unfolding makeDupStackFunc_def
    by (rule op_ok_op, rule safe_gas, rule makeDup_safe) (use opcode_range[of i "0x80"] that in \<open>auto simp: sized_memory\<close>)
  moreover have "op_ok G (0x90 + of_nat i) (op (makeSwap (i + 1)) gasSwap (makeSwapStackFunc (i + 2)) None)" if "i < 16" for i
    unfolding makeSwapStackFunc_def
    by (rule op_ok_op, rule safe_gas, use makeSwap_safe[of "i + 1"] in simp)
      (use opcode_range[of i "0x90"] that in \<open>auto simp: sized_memory\<close>)
  moreover have "op_ok G (0xa0 + of_nat i)
      (writes_op (op (makeLog i) (makeGasLog (of_nat i)) (makeStackFunc (i + 2) 0) (Some memoryLog)))" if "i < 5" for i
    by (rule op_ok_op, rule safe_gas, rule makeLog_safe) (use opcode_range[of i "0xa0"] that sized_memory(10)[where n = i] in auto)
  ultimately show ?thesis by (auto simp: push_ops_def dup_ops_def swap_ops_def log_ops_def)
qed

section \<open>Calls and creations\<close>

text \<open>What a call costs exceeds the gas of the callee: \<open>base\<close> and \<open>tip\<close> are the fee and the stipend.\<close>

lemma call_op_okI:
  assumes r: "valid r" "validateStack r = makeStackFunc p 1" "sized p (memorySize r)" "3 \<le> p" "b \<noteq> 0"
    and gas: "\<And>f n. frame_ok f \<Longrightarrow> p \<le> length (f_stack f) \<Longrightarrow>
      yields (gasCost r (evm_gasTable (f_evm f)) f n) (gas_ok (call_cost (base (f_stack f))) n f)"
    and exec: "\<And>f. frame_ok f \<Longrightarrow> p \<le> length (f_stack f) \<Longrightarrow> mem_fits (memorySize r) f \<Longrightarrow>
      (b = 0xf1 \<Longrightarrow> read_only (f_evm f) \<Longrightarrow> f_stack f ! 2 = 0) \<Longrightarrow>
      unat (evm_callGasTemp (f_evm f)) + tip (f_stack f) < 2 ^ 62 \<Longrightarrow>
      unat (evm_callGasTemp (f_evm f)) + tip (f_stack f) < G \<Longrightarrow>
      yields (execute r f) (returned (unat (evm_callGasTemp (f_evm f)) + tip (f_stack f)) f)"
    and tip: "\<And>st. tip st < base st"
  shows "op_ok G b r"
  unfolding op_ok_def
proof (intro allI impI, elim conjE)
  fix f :: "'a frame"
  assume f: "frame_ok f" "b \<noteq> 0 \<longrightarrow> unat (f_pc f) < length (c_Code (f_contract f))" "unat (c_Gas (f_contract f)) \<le> G"
  show "yields (interpret_op b r f) (turn_ok f)"
  proof (rule interpret_op_rule[OF f(1) r(1-3), where Q = "call_cost (base (f_stack f))"])
    fix f1 :: "'a frame" and g m
    let ?f = "paid_frame f1 g m" and ?temp = "unat (evm_callGasTemp (f_evm f1))" and ?gas = "c_Gas (f_contract f)"
    assume c: "charged f f1" "call_cost (base (f_stack f)) f1 g" "g \<le> ?gas" "frame_advance f ?f"
      and st: "p \<le> length (f_stack f)" "mem_fits (memorySize r) ?f"
      and w: "b = 0xf1 \<Longrightarrow> read_only (f_evm f) \<Longrightarrow> f_stack f ! 2 = 0"
    have same: "f_stack f1 = f_stack f" "f_pc f1 = f_pc f" "f_contract f1 = f_contract f" "evm_advance (f_evm f) (f_evm f1)"
      "read_only (f_evm f1) = read_only (f_evm f)"
      using c(1) evm_advance_read_only by (auto simp: charged_def)
    have "unat ?gas < 2 ^ 62" using frame_okD(2)[OF f(1)] by (simp add: contract_ok_def small_gas_def)
    moreover have cost: "?temp + tip (f_stack f) < unat g" using c(2) tip[of "f_stack f"] by (simp add: call_cost_def)
    moreover have "unat g \<le> unat ?gas" using c(3) by (simp add: word_le_nat_alt)
    moreover have "frame_ok ?f" using c(4) by (simp add: frame_advance_def)
    ultimately have "yields (execute r ?f) (returned (?temp + tip (f_stack f)) ?f)"
      using st w f(3) same exec[of ?f] by (simp add: same)
    then obtain f' ret err g' where x: "execute r ?f = Some (f', ret, err)" "evm_advance (f_evm f1) (f_evm f')"
      "stack_ok (f_stack f')" "mem_ok (f_mem f')" "f_pc f' = f_pc f" "small ret"
      "f_contract f' = (f_contract f)\<lparr> c_Gas := g' \<rparr>" "unat g' \<le> unat (?gas - g) + (?temp + tip (f_stack f))"
      by (auto simp: yields_def returned_def same)
    have "unat (?gas - g) = unat ?gas - unat g" using c(3) by (simp add: unat_sub)
    then have less: "g' < ?gas" using x(8) cost \<open>unat g \<le> unat ?gas\<close> by (simp add: word_less_nat_alt)
    then have "frame_advance f f'"
      using x(2-4,7) same(4) evm_advance_trans by (intro frame_advanceI[OF f(1)]) (auto simp: uses_gas_def)
    then show "yields (execute r ?f) (result_ok r f)"
      using x(1,5-7) less by (simp add: result_ok_def)
  qed (use f(1,2) gas r(4,5) in auto)
qed

lemma call_entry:
  "returns_op (op ex gc vs ms) = \<lparr> execute = ex, gasCost = gc, validateStack = vs, memorySize = ms, halts = False,
     jumps = False, writes = False, valid = True, reverts = False, returns = True \<rparr>"
  by (simp add: op_def returns_op_def)

lemma stipend_less: "stipend v < call_base v"
  by (simp add: stipend_def call_base_def)

lemma call_ops_ok:
  assumes "runner_ok G rc"
  shows "op_ok G 0xf1 (returns_op (op (opCall rc) gasCall (makeStackFunc 7 1) (Some memoryCall)))"
    "op_ok G 0xf2 (returns_op (op (opCallCode rc) gasCallCode (makeStackFunc 7 1) (Some memoryCall)))"
    "op_ok G 0xf4 (returns_op (op (opDelegateCall rc) gasDelegateCall (makeStackFunc 6 1) (Some memoryDelegateCall)))"
    "op_ok G 0xfa (returns_op (op (opStaticCall rc) gasStaticCall (makeStackFunc 6 1) (Some memoryStaticCall)))"
proof -
  show "op_ok G 0xf1 (returns_op (op (opCall rc) gasCall (makeStackFunc 7 1) (Some memoryCall)))"
    unfolding call_entry
    by (rule call_op_okI[where p = 7 and base = "\<lambda>st. call_base (st ! 2)" and tip = "\<lambda>st. stipend (st ! 2)"])
      (use opCall_safe(1) assms in \<open>auto simp: sized_memory stipend_less intro!: gasCall_ok\<close>)
  show "op_ok G 0xf2 (returns_op (op (opCallCode rc) gasCallCode (makeStackFunc 7 1) (Some memoryCall)))"
    unfolding call_entry
    by (rule call_op_okI[where p = 7 and base = "\<lambda>st. call_base (st ! 2)" and tip = "\<lambda>st. stipend (st ! 2)"])
      (use opCall_safe(2) assms in \<open>auto simp: sized_memory stipend_less intro!: gasCallCode_ok\<close>)
  show "op_ok G 0xf4 (returns_op (op (opDelegateCall rc) gasDelegateCall (makeStackFunc 6 1) (Some memoryDelegateCall)))"
    unfolding call_entry
    by (rule call_op_okI[where p = 6 and base = "\<lambda>st. 40" and tip = "\<lambda>st. 0"])
      (use opDelegateCall_safe(1) assms in \<open>auto simp: sized_memory small_gas_def intro!: simple_call_gas_ok\<close>)
  show "op_ok G 0xfa (returns_op (op (opStaticCall rc) gasStaticCall (makeStackFunc 6 1) (Some memoryStaticCall)))"
    unfolding call_entry
    by (rule call_op_okI[where p = 6 and base = "\<lambda>st. 40" and tip = "\<lambda>st. 0"])
      (use opDelegateCall_safe(2) assms in \<open>auto simp: sized_memory small_gas_def intro!: simple_call_gas_ok\<close>)
qed

lemma create_op_ok:
  assumes "runner_ok G rc"
  shows "op_ok G 0xf0 (returns_op (writes_op (op (opCreate rc) gasCreate (makeStackFunc 3 1) (Some memoryCreate))))"
  by (rule op_ok_execI[where p = 3 and q = 1 and lo = 32000])
    (use opCreate_safe[OF _ _ _ _ assms] in \<open>simp_all add: op_def returns_op_def writes_op_def memory_gas_safe sized_memory\<close>)

lemma system_table:
  assumes "runner_ok G rc"
  shows "\<forall>(b, r) \<in> set (system_ops rc). op_ok G b r"
proof -
  have "op_ok G 0xf3 (halts_op (op opReturn gasReturn (makeStackFunc 2 0) (Some memoryReturn)))"
    "op_ok G 0xff (writes_op (halts_op (op opSuicide gasSuicide (makeStackFunc 1 0) None)))"
    by (rule op_ok_op, rule safe_gas, rule safe_exec; simp add: sized_memory)+
  then show ?thesis using call_ops_ok[OF assms] create_op_ok[OF assms] by (simp add: system_ops_def)
qed

lemma newer_table:
  "op_ok G 0x3d (op opReturnDataSize (constGasFunc GasQuickStep) (makeStackFunc 0 1) None)"
  "op_ok G 0x3e (op opReturnDataCopy gasReturnDataCopy (makeStackFunc 3 0) (Some memoryReturnDataCopy))"
  "op_ok G 0xfd (returns_op (reverts_op (op opRevert gasRevert (makeStackFunc 2 0) (Some memoryRevert))))"
  "op_ok G 0x1b (op opSHL (constGasFunc GasFastestStep) (makeStackFunc 2 1) None)"
  "op_ok G 0x1c (op opSHR (constGasFunc GasFastestStep) (makeStackFunc 2 1) None)"
  "op_ok G 0x1d (op opSAR (constGasFunc GasFastestStep) (makeStackFunc 2 1) None)"
  by (rule op_ok_op, rule safe_gas, rule safe_exec; simp add: params sized_memory)+

text \<open>Every entry of every table is safe.\<close>

lemma JumpTable_ok:
  assumes "runner_ok G rc"
  shows "op_ok G b (JumpTable rc cfg n b)"
proof -
  have frontier: "\<forall>(b, r) \<in> set (newFrontierInstructionSet rc). op_ok G b r"
    using plain_table[of G] generated_table[of G] system_table[OF assms] by (auto simp: newFrontierInstructionSet_def)
  then have "\<forall>(b, r) \<in> set (newConstantinopleInstructionSet rc). op_ok G b r"
    using call_ops_ok[OF assms] newer_table[of G]
    by (simp add: newConstantinopleInstructionSet_def newByzantiumInstructionSet_def newHomesteadInstructionSet_def)
  moreover have "set (newFrontierInstructionSet rc) \<subseteq> set (newHomesteadInstructionSet rc)"
    "set (newHomesteadInstructionSet rc) \<subseteq> set (newByzantiumInstructionSet rc)"
    "set (newByzantiumInstructionSet rc) \<subseteq> set (newConstantinopleInstructionSet rc)"
    by (auto simp: newConstantinopleInstructionSet_def newByzantiumInstructionSet_def newHomesteadInstructionSet_def)
  ultimately have "op_ok G b r" if "JumpTable rc cfg n b = r" "r \<noteq> invalid_op" for r
    using that by (fastforce simp: JumpTable_def split: option.splits if_splits dest!: map_of_SomeD)
  moreover have "op_ok G b invalid_op" by (simp add: op_ok_def invalid_op_def interpret_op_def)
  ultimately show ?thesis by metis
qed

section \<open>The loop\<close>

lemma GetOp_in_code:
  assumes "contract_ok db c" "GetOp n c \<noteq> 0"
  shows "unat n < length (c_Code c)"
proof -
  have "length (c_Code c) < 2 ^ 64" using assms(1) by (simp add: contract_ok_def small_def)
  then show ?thesis
    using assms(2) unat_of_nat_64[of "length (c_Code c)"] by (auto simp: GetOp_def GetByte_def word_less_nat_alt split: if_splits)
qed

lemma interpret_turn_safe:
  assumes "runner_ok G rc" "frame_ok f" "pc_ok f" "unat (c_Gas (f_contract f)) \<le> G"
  shows "yields (interpret_turn rc f) (turn_ok f)"
proof -
  let ?f = "f\<lparr> f_evm := (f_evm f)\<lparr> evm_ticks := evm_ticks (f_evm f) + 1 \<rparr> \<rparr>"
  let ?b = "GetOp (f_pc f) (f_contract f)"
  have f: "frame_advance f ?f"
    by (rule frame_advance_evm) (use assms(2) in \<open>simp_all add: frame_ok_def evm_advance_def evm_ok_def same_env_def\<close>)
  then have ok: "frame_ok ?f" by (simp add: frame_advance_def)
  have trans: "turn_ok f t" if "turn_ok ?f t" for t using that frame_advance_trans[OF f] by (cases t) auto
  have "yields (interpret_op ?b (JumpTable rc cfg n ?b) ?f) (turn_ok ?f)" for cfg n
    using JumpTable_ok[OF assms(1), of ?b cfg n] ok assms(3,4) GetOp_in_code[OF frame_okD(2)[OF assms(2)]]
    unfolding op_ok_def by (simp add: pc_ok_def)
  then have "yields (interpret_op ?b (JumpTable rc cfg n ?b) ?f) (turn_ok f)" for cfg n
    by (rule yields_mono) (rule trans)
  then show ?thesis using f by (simp add: interpret_turn_def Let_def)
qed

definition loop_ok :: "nat \<Rightarrow> ('t frame \<Rightarrow> ('t frame \<times> bytes \<times> vm_error option) option) \<Rightarrow> bool" where
  "loop_ok G loop \<longleftrightarrow> (\<forall>f. frame_ok f \<and> pc_ok f \<and> unat (c_Gas (f_contract f)) < G \<longrightarrow>
     yields (loop f) (\<lambda>(f', ret, err). frame_advance f f' \<and> small ret))"

lemma evm_depth_ok: "evm_ok evm \<Longrightarrow> evm_ok (evm\<lparr> evm_depth := d, evm_returnData := [] \<rparr>)"
  by (simp add: evm_ok_def)

lemma Interpreter_Run_safe:
  assumes "loop_ok G loop" "evm_ok evm" "contract_ok (sdb_db (evm_StateDB evm)) c" "small input" "unat (c_Gas c) < G"
  shows "yields (Interpreter_Run loop evm c input)
    (\<lambda>(evm', c', ret, err). evm_advance evm evm' \<and> c_Gas c' \<le> c_Gas c \<and> small ret)"
proof -
  let ?evm = "evm\<lparr> evm_depth := evm_depth evm + 1, evm_returnData := [] \<rparr>"
  let ?f = "\<lparr> f_pc = 0, f_evm = ?evm, f_contract = c\<lparr> c_Input := input \<rparr>, f_mem = NewMemory, f_stack = [] \<rparr>"
  have ret: "evm_advance evm (evm2\<lparr> evm_depth := evm_depth evm2 - 1 \<rparr>)" if "evm_advance ?evm evm2" for evm2
    using that by (auto simp: evm_advance_def evm_ok_def same_env_def read_only_def evm_BlockNumber_def)
  have "frame_ok ?f" "pc_ok ?f"
    using assms(2-4) by (simp_all add: frame_ok_def evm_depth_ok contract_ok_def stack_ok_def mem_ok_def NewMemory_def pc_ok_def)
  then have "yields (loop ?f) (\<lambda>(f', ret, err). frame_advance ?f f' \<and> small ret)"
    using assms(1,5) by (simp add: loop_ok_def)
  then have "yields (loop ?f \<bind> (\<lambda>(f, ret, err). Some ((f_evm f)\<lparr> evm_depth := evm_depth (f_evm f) - 1 \<rparr>, f_contract f, ret, err)))
      (\<lambda>(evm', c', ret, err). evm_advance evm evm' \<and> c_Gas c' \<le> c_Gas c \<and> small ret)"
    using ret by (auto simp: yields_def frame_advance_def uses_gas_def)
  then show ?thesis
    using ret[OF evm_advance_refl[OF evm_depth_ok[OF assms(2)]]] by (simp add: Interpreter_Run_def Let_def)
qed

lemma run_contract_ok:
  assumes "loop_ok G loop"
  shows "runner_ok G (run_contract loop)"
  unfolding runner_ok_def
proof (intro allI impI, elim conjE)
  fix evm :: "'a EVM" and c and input :: bytes
  assume a: "evm_ok evm" "contract_ok (sdb_db (evm_StateDB evm)) c" "small input" "unat (c_Gas c) < G"
  have "yields (RunPrecompiledContract (sdb_db (evm_StateDB evm)) (evm_crypto evm) p input c \<bind> (\<lambda>(c, ret, err). Some (evm, c, ret, err)))
      (\<lambda>(evm', c', ret, err). evm_advance evm evm' \<and> c_Gas c' \<le> c_Gas c \<and> small ret)" for p
    using RunPrecompiledContract_safe[of "evm_crypto evm" "sdb_db (evm_StateDB evm)" input c p] a
    by (auto simp: evm_ok_def sdb_ok_def contract_ok_def yields_def uses_gas_def evm_advance_def)
  then show "yields (run_contract loop evm c input)
      (\<lambda>(evm', c', ret, err). evm_advance evm evm' \<and> c_Gas c' \<le> c_Gas c \<and> small ret)"
    using Interpreter_Run_safe[OF assms a] by (simp add: run_contract_def split: option.split)
qed

theorem interpret_loop_ok: "loop_ok fuel (interpret_loop fuel)"
proof (induction fuel)
  case 0
  then show ?case by (simp add: loop_ok_def)
next
  case (Suc fuel)
  note rc = run_contract_ok[OF Suc]
  show ?case
    unfolding loop_ok_def
  proof (intro allI impI, elim conjE)
    fix f :: "'a frame"
    assume f: "frame_ok f" "pc_ok f" "unat (c_Gas (f_contract f)) < Suc fuel"
    from interpret_turn_safe[OF rc f(1,2)] f(3) obtain t
      where t: "interpret_turn (run_contract (interpret_loop fuel)) f = Some t" "turn_ok f t"
      by (auto simp: yields_def)
    show "yields (interpret_loop (Suc fuel) f) (\<lambda>(f', ret, err). frame_advance f f' \<and> small ret)"
    proof (cases t)
      case (Next f')
      then have "frame_ok f'" "unat (c_Gas (f_contract f')) < fuel"
        using t(2) f(3) by (auto simp: frame_advance_def word_less_nat_alt)
      then have "yields (interpret_loop fuel f') (\<lambda>(f'', ret, err). frame_advance f' f'' \<and> small ret)"
        using Suc Next t(2) by (simp add: loop_ok_def)
      then have "yields (interpret_loop fuel f') (\<lambda>(f'', ret, err). frame_advance f f'' \<and> small ret)"
        by (rule yields_mono) (use Next t(2) frame_advance_trans in fastforce)
      then show ?thesis using t(1) Next by simp
    qed (use t in simp)
  qed
qed

text \<open>The function that the calls use runs every contract whose gas is below the fuel.\<close>

theorem run_ok: "runner_ok fuel (run fuel)"
  unfolding run_def by (rule run_contract_ok[OF interpret_loop_ok])

end
