(* ===== verification/VM_Correct.thy ===== *)
theory VM_Correct
  imports VM_Safety
begin

text \<open>The properties of the virtual machine: execution returns, gas and ether are conserved, failures are
  undone and static calls change nothing. The hypotheses are the invariants of \<open>VM_Invariant\<close>; a small
  machine instantiates them.\<close>

section \<open>A machine\<close>

text \<open>The database keeps tries as association lists, and its hash function encodes the length of its
  argument, so that strings of different lengths have different hashes. The account 9 has code that
  stores 1 in slot 0 and the account 7 has a balance.\<close>

definition example_db :: "(bytes \<times> bytes) list Database" where
  "example_db = memory_db\<lparr> Keccak256 := \<lambda>b. be_bytes 32 (int (length b)) \<rparr>"

definition example_code :: bytes where
  "example_code = [0x60, 1, 0x60, 0, 0x55]"

definition example_state :: "(bytes \<times> bytes) list StateDB" where
  "example_state = SetCode 9 (Some example_code) (AddBalance 7 1000 (memory_state\<lparr> sdb_db := example_db \<rparr>))"

definition example_crypto :: Crypto where
  "example_crypto =
     \<lparr> Ecrecover = \<lambda>_ _. None, Sha256 = \<lambda>_. replicate 32 0, Ripemd160 = \<lambda>_. replicate 20 0, G1_Unmarshal = \<lambda>_. None,
       G2_Unmarshal = \<lambda>_. None, G1_Add = \<lambda>p q. p, G1_ScalarMult = \<lambda>p n. p, G1_Marshal = \<lambda>_. replicate 64 0,
       PairingCheck = \<lambda>_ _. False \<rparr>"

definition example_evm :: "(bytes \<times> bytes) list EVM" where
  "example_evm = NewEVM
     \<lparr> ctx_GetHash = \<lambda>_. 0, ctx_Origin = 7, ctx_GasPrice = 1, ctx_Coinbase = 8, ctx_GasLimit = 8000000,
       ctx_BlockNumber = 5, ctx_Time = 100, ctx_Difficulty = 1 \<rparr> example_state
     \<lparr> ChainID = Some 1, HomesteadBlock = Some 0, DAOForkBlock = None, DAOForkSupport = False, EIP150Block = Some 0,
       EIP155Block = Some 0, EIP158Block = Some 0, ByzantiumBlock = Some 0, ConstantinopleBlock = None \<rparr>
     False False (\<lambda>_. False) example_crypto"

lemma db_ok_example: "db_ok example_db"
proof -
  have hash: "Keccak256Hash example_db b = word_of_int (int (length b))" if "small b" for b
  proof -
    have "(2 :: int) ^ 62 \<le> 2 ^ (8 * 32)" by (rule power_increasing) simp_all
    then have "int (length b) < 2 ^ (8 * 32)" using that by (simp add: small_def)
    then show ?thesis by (simp add: Keccak256Hash_def example_db_def BytesToHash_eq SetBytes_be_bytes)
  qed
  moreover have "c = d" if "(word_of_int (int c) :: hash) = word_of_int (int d)" "c < 2 ^ 62" "d < 2 ^ 62" for c d
  proof -
    have "(2 :: int) ^ 62 \<le> 2 ^ 256" by (rule power_increasing) simp_all
    moreover have "uint (word_of_int (int c) :: hash) = uint (word_of_int (int d) :: hash)" using that(1) by simp
    ultimately show ?thesis using that(2,3) uint_of_int_range[of "int c"] uint_of_int_range[of "int d"] by (simp add: tt256_def)
  qed
  ultimately have "length c = length d"
    if "small c" "small d" "Keccak256Hash example_db c = Keccak256Hash example_db d" for c d
    using that by (simp add: small_def)
  moreover have "length (Keccak256 example_db b) = 32" for b by (simp add: example_db_def)
  moreover have "stored_slot example_db (storage_trie example_db h 0) k = 0" for h k
    by (simp add: stored_slot_def storage_trie_def storage_value_def example_db_def memory_db_def)
  ultimately show ?thesis unfolding db_ok_def by blast
qed

lemma example_trie [simp]: "TryGet example_db [] k = ([], None)"
  by (simp add: example_db_def memory_db_def)

text \<open>The empty state is well formed, and crediting an account keeps it so.\<close>

lemma sdb_ok_empty: "sdb_ok (memory_state\<lparr> sdb_db := example_db \<rparr>)"
proof -
  let ?s = "memory_state\<lparr> sdb_db := example_db \<rparr>"
  have "acct a (abs_state ?s) = None" for a by (simp add: acct_abs lookup_def trie_object_def)
  moreover have "good ?s"
    by (simp add: good_def wf_state_def revs_ok_def trie_object_def emptyCodeHash_def) (simp add: example_db_def)
  ultimately show ?thesis by (simp add: sdb_ok_def db_ok_example ether_def bal_def tt256_def)
qed

lemma sdb_ok_AddBalance:
  assumes "sdb_ok s" "0 \<le> x" "ether (abs_state s) + x < tt256"
  shows "sdb_ok (AddBalance a x s)" "ether (abs_state (AddBalance a x s)) = ether (abs_state s) + x"
proof -
  note eff = AddBalance_effect[OF sdb_ok_good[OF assms(1)], of a x]
  show eth: "ether (abs_state (AddBalance a x s)) = ether (abs_state s) + x"
    unfolding eff(2) by (simp add: on_acct_def ether_upd_acct bal_acct_or_new)
  show "sdb_ok (AddBalance a x s)"
    by (rule sdb_ok_upd_acct[OF assms(1) eff(1) eff(2)[unfolded on_acct_def]])
      (use assms eth acct_ok_or_new[OF assms(1), of a] in \<open>simp_all add: acct_ok_def\<close>)
qed

lemma evm_ok_example [simp]: "evm_ok example_evm"
proof -
  let ?s = "memory_state\<lparr> sdb_db := example_db \<rparr>"
  have "ether (abs_state ?s) = 0" by (simp add: ether_def bal_def acct_abs lookup_def trie_object_def)
  then have "sdb_ok (AddBalance 7 1000 ?s)" by (intro sdb_ok_AddBalance sdb_ok_empty) (simp_all add: tt256_def)
  then have "advance False (AddBalance 7 1000 ?s) example_state"
    unfolding example_state_def by (rule advance_SetCode) (auto simp: small_def example_code_def)
  then have "sdb_ok example_state" by (rule advance_ok)
  moreover have "crypto_ok example_crypto" by (simp add: crypto_ok_def example_crypto_def small_def)
  ultimately show ?thesis by (simp add: evm_ok_def example_evm_def NewEVM_def cache_ok_def is_word_def tt256_def)
qed

lemma example_fields [simp]:
  "evm_StateDB example_evm = example_state" "evm_depth example_evm = 0" "\<not> evm_readOnly example_evm"
  "IsByzantium (evm_chainConfig example_evm) (evm_BlockNumber example_evm)"
  "IsHomestead (evm_chainConfig example_evm) (evm_BlockNumber example_evm)"
  "\<not> IsConstantinople (evm_chainConfig example_evm) (evm_BlockNumber example_evm)" "\<not> evm_abort example_evm n"
  by (simp_all add: example_evm_def NewEVM_def IsByzantium_def IsHomestead_def IsConstantinople_def isForked_def evm_BlockNumber_def)

section \<open>Execution\<close>

text \<open>Well-formed contracts and frames, without a bound on their gas.\<close>

definition contract_wf :: "'t Database \<Rightarrow> Contract \<Rightarrow> bool" where
  "contract_wf db c \<longleftrightarrow> length (c_Code c) < 2 ^ 62 \<and> (c_Code c \<noteq> [] \<longrightarrow> c_CodeHash c = Keccak256Hash db (c_Code c)) \<and>
     length (c_Input c) < 2 ^ 62 \<and> is_word (c_value c)"

definition frame_wf :: "'t frame \<Rightarrow> bool" where
  "frame_wf f \<longleftrightarrow> evm_ok (f_evm f) \<and> contract_wf (sdb_db (evm_StateDB (f_evm f))) (f_contract f) \<and>
     stack_ok (f_stack f) \<and> mem_ok (f_mem f) \<and> unat (f_pc f) \<le> length (c_Code (f_contract f)) + 33"

lemma contract_ok_iff: "contract_ok db c \<longleftrightarrow> contract_wf db c \<and> unat (c_Gas c) < 2 ^ 62"
  by (auto simp: contract_ok_def contract_wf_def small_def small_gas_def)

lemma frame_ok_iff: "frame_ok f \<and> pc_ok f \<longleftrightarrow> frame_wf f \<and> unat (c_Gas (f_contract f)) < 2 ^ 62"
  by (auto simp: frame_ok_def frame_wf_def pc_ok_def contract_ok_iff)

text \<open>C1: Executing a contract with less than \<open>2\<^sup>6\<^sup>2\<close> gas terminates without a panic: for every
  machine that satisfies the invariant \<open>evm_ok\<close>, every code and every input (shorter than \<open>2\<^sup>6\<^sup>2\<close> bytes), if the fuel (which bounds the number of
  instructions, those of nested calls included) exceeds the gas of the contract, \<open>run\<close> returns a result.
  The gas left is at most the gas given, the machine has the same depth, configuration and mode as before,
  and its invariants hold again. Allocation of memory is assumed to succeed.\<close>

theorem run_terminates:
  assumes "evm_ok evm" "contract_wf (sdb_db (evm_StateDB evm)) c" "length input < 2 ^ 62"
    "unat (c_Gas c) < 2 ^ 62" "unat (c_Gas c) < fuel"
  shows "\<exists>evm' c' ret err. run fuel evm c input = Some (evm', c', ret, err) \<and> c_Gas c' \<le> c_Gas c \<and>
    length ret < 2 ^ 62 \<and> evm_ok evm' \<and> same_env evm evm'"
proof -
  have "contract_ok (sdb_db (evm_StateDB evm)) c" "small input" using assms by (simp_all add: contract_ok_iff small_def)
  then show ?thesis by (rule runner_okE[OF run_ok assms(1) _ _ assms(5)]) (auto simp: evm_advance_def small_def)
qed

definition example_contract :: Contract where
  "example_contract = fst (load_code 9 (fst (contract_for (AccountRef 7) 9 0 100000 example_evm)) example_evm)"

lemma example_contract_ok:
  "contract_ok (sdb_db (evm_StateDB example_evm)) example_contract" "c_Gas example_contract = 100000"
proof -
  have gas: "small_gas 100000" by (simp add: small_gas_def)
  obtain c evm where c: "contract_for (AccountRef 7) 9 0 100000 example_evm = (c, evm)"
    "c_Gas c = 100000" "small (c_Input c)" "is_word (c_value c)"
    using contract_for_ok[OF evm_ok_example is_word_consts(1) gas, of "AccountRef 7" 9] by blast
  obtain c' evm' where c': "load_code 9 c example_evm = (c', evm')" "evm_advance example_evm evm'"
    "contract_ok (sdb_db (evm_StateDB evm')) c'" "c_Gas c' = c_Gas c"
    using load_code_ok[OF evm_ok_example c(3,4), of 9] c(2) gas by auto
  show "contract_ok (sdb_db (evm_StateDB example_evm)) example_contract" "c_Gas example_contract = 100000"
    using c c' evm_advance_db[OF c'(2)] by (simp_all add: example_contract_def)
qed

theorem run_terminates_witness:
  "\<exists>evm' c' ret err. run 100001 example_evm example_contract [1, 2, 3] = Some (evm', c', ret, err) \<and>
     c_Gas c' \<le> c_Gas example_contract \<and> length ret < 2 ^ 62 \<and> evm_ok evm' \<and> same_env example_evm evm'"
  by (rule run_terminates) (use example_contract_ok in \<open>simp_all add: contract_ok_iff\<close>)

text \<open>An input of the modular exponentiation: the base and the modulus have one byte and the exponent is
  said to have \<open>2\<^sup>6\<^sup>4 - 1\<close> bytes.\<close>

definition modexp_input :: bytes where
  "modexp_input = be_bytes 32 1 @ be_bytes 32 (2 ^ 64 - 1) @ be_bytes 32 1 @ [1]"

lemma modexp_input_parts:
  "getData modexp_input 0 32 = Some (be_bytes 32 1)" "getData modexp_input 32 32 = Some (be_bytes 32 (2 ^ 64 - 1))"
  "getData modexp_input 64 32 = Some (be_bytes 32 1)" "modexp_rest modexp_input = [1]"
  by (simp_all add: modexp_input_def getData_def Let_def go_slice_def RightPadBytes_def modexp_rest_def)

lemma modexp_input_sizes:
  "SetBytes (be_bytes 32 1) = 1" "SetBytes (be_bytes 32 (2 ^ 64 - 1)) = 2 ^ 64 - 1"
  by (simp_all add: SetBytes_be_bytes)

lemma modexp_input_gas: "bigModExp_RequiredGas modexp_input = Some 7378697629483820633"
proof -
  have z: "BitLen 0 = 0" by simp
  have "\<not> 64 < BitLen 7378697629483820633" by (simp add: BitLen_gt_iff)
  then show ?thesis
    unfolding bigModExp_RequiredGas_def modexp_input_parts Option.bind.bind_lunit Let_def modexp_input_sizes
    by (simp add: modexp_expHead_def modexp_adjExpLen_def modexp_complexity_def BigMax_def params Uint64_def z)
qed

lemma modexp_input_run: "bigModExp_Run modexp_input = None"
proof -
  have w: "(18446744073709551616 :: uint64) = 0" by code_simp
  show ?thesis
    unfolding bigModExp_Run_def modexp_input_parts Option.bind.bind_lunit Let_def modexp_input_sizes
    by (simp add: getData_def go_slice_def Uint64_def w)
qed

text \<open>C29: The bound on the gas in the properties of the machine is needed. From Byzantium on, a contract that runs the
  precompiled modular exponentiation with enough gas (half of the range of 64 bits, the default of a call
  without a gas limit, is enough) on an input of 97 bytes panics: the end of the exponent wraps around in
  \<open>getData\<close>, and the slice expression fails.\<close>

theorem modexp_panics:
  assumes "IsByzantium (evm_chainConfig evm) (evm_BlockNumber evm)" "c_CodeAddr c = Some 5" "7378697629483820633 \<le> c_Gas c"
  shows "run fuel evm c modexp_input = None"
proof -
  have "precompiles evm 5 = Some bigModExp"
    using assms(1) by (simp add: precompiles_def PrecompiledContractsByzantium_def BytesToAddress_eq SetBytes_def)
  then show ?thesis using assms(2,3)
    by (simp add: run_def run_contract_def RunPrecompiledContract_def modexp_input_gas modexp_input_run UseGas_def Let_def)
qed

theorem modexp_panics_witness:
  "run 1 example_evm (example_contract\<lparr> c_CodeAddr := Some 5, c_Gas := 9223372036854775807 \<rparr>) modexp_input = None"
  by (rule modexp_panics) simp_all

text \<open>The frames that a number of turns of the loop lead to.\<close>

inductive reaches :: "nat \<Rightarrow> nat \<Rightarrow> 't frame \<Rightarrow> 't frame \<Rightarrow> bool" for fuel where
  reaches_start: "reaches fuel 0 f f"
| reaches_turn: "reaches fuel n f g \<Longrightarrow> interpret_turn (run fuel) g = Some (Next h) \<Longrightarrow> reaches fuel (Suc n) f h"

inductive_cases reaches_SucE: "reaches fuel (Suc n) f g"

lemma reaches_advance:
  assumes "reaches fuel n f g" "frame_ok f" "pc_ok f" "unat (c_Gas (f_contract f)) \<le> fuel"
  shows "frame_advance f g \<and> pc_ok g \<and> n + unat (c_Gas (f_contract g)) \<le> unat (c_Gas (f_contract f))"
  using assms
proof (induction rule: reaches.induct)
  case (reaches_turn n f g h)
  then have g: "frame_ok g" "pc_ok g" "unat (c_Gas (f_contract g)) \<le> fuel" "frame_advance f g"
    "n + unat (c_Gas (f_contract g)) \<le> unat (c_Gas (f_contract f))"
    by (auto simp: frame_advance_def)
  then have "turn_ok g (Next h)"
    using interpret_turn_safe[OF run_ok g(1-3)] reaches_turn.hyps(2) by (simp add: yields_def)
  then show ?case using g frame_advance_trans by (fastforce simp: word_less_nat_alt)
qed simp

text \<open>C15: The type invariant of the interpreter. In every frame that is reached from a well-formed frame with
  less than \<open>2\<^sup>6\<^sup>2\<close> gas, the stack holds at most 1024 integers, all of them 256-bit words, the memory is
  within the limit of the gas function, the code is the same, and the next turn of the loop does not panic
  if the fuel for nested calls is at least the gas. Every turn that goes on uses gas, so that the number of
  turns is bounded by the gas used.\<close>

theorem reachable_frames:
  assumes "frame_wf f" "unat (c_Gas (f_contract f)) < 2 ^ 62" "unat (c_Gas (f_contract f)) \<le> fuel" "reaches fuel n f g"
  shows "length (f_stack g) \<le> 1024 \<and> (\<forall>x \<in> set (f_stack g). 0 \<le> x \<and> x < 2 ^ 256) \<and>
    length (m_store (f_mem g)) \<le> 2 ^ 40 \<and> c_Code (f_contract g) = c_Code (f_contract f) \<and>
    interpret_turn (run fuel) g \<noteq> None \<and> n + unat (c_Gas (f_contract g)) \<le> unat (c_Gas (f_contract f))"
proof -
  have f: "frame_ok f" "pc_ok f" using assms(1,2) frame_ok_iff[of f] by simp_all
  from reaches_advance[OF assms(4) f assms(3)] have g: "frame_ok g" "frame_advance f g" "pc_ok g"
    "n + unat (c_Gas (f_contract g)) \<le> unat (c_Gas (f_contract f))" by (auto simp: frame_advance_def)
  then have "unat (c_Gas (f_contract g)) \<le> fuel" using assms(3) by linarith
  from interpret_turn_safe[OF run_ok g(1,3) this] have "interpret_turn (run fuel) g \<noteq> None" by (auto simp: yields_def)
  then show ?thesis
    using g uses_gas_fields(1)[of "f_contract f" "f_contract g"]
    by (auto simp: frame_ok_def stack_ok_def mem_ok_def is_word_def tt256_def StackLimit_def frame_advance_def)
qed

text \<open>The first instruction of the example pushes a byte.\<close>

definition example_frame :: "(bytes \<times> bytes) list frame" where
  "example_frame = \<lparr> f_pc = 0, f_evm = example_evm, f_contract = example_contract, f_mem = NewMemory, f_stack = [] \<rparr>"

lemma example_contract_code: "c_Code example_contract = example_code"
proof -
  let ?s = "AddBalance 7 1000 (memory_state\<lparr> sdb_db := example_db \<rparr>)"
  have "good ?s" using AddBalance_effect(1)[OF sdb_ok_good[OF sdb_ok_empty], of 7 1000] ext_good by blast
  then have "acct 9 (abs_state example_state) \<noteq> None \<and> code_of 9 (abs_state example_state) = Some example_code"
    by (simp add: example_state_def SetCode_effect on_acct_def code_of_def)
  moreover have "abs_state (snd (GetCodeHash 9 example_state)) = abs_state example_state"
    using quiet_simple_getters(5)[of example_state 9] by (simp add: quiet_def)
  ultimately show ?thesis
    by (simp add: example_contract_def load_code_def case_prod_beta SetCallCode_def evm_read_eq GetCode_view nil_bytes_def)
qed

lemma push_in_table: "JumpTable rc (evm_chainConfig example_evm) (evm_BlockNumber example_evm) 0x60 =
    op (makePush 1 1) gasPush (makeStackFunc 0 1) None"
  by (simp add: JumpTable_def newByzantiumInstructionSet_def newHomesteadInstructionSet_def newFrontierInstructionSet_def
      arithmetic_ops_def comparison_ops_def closure_ops_def block_ops_def storage_ops_def push_ops_def upt_rec)

lemma example_turn: "\<exists>h. interpret_turn (run 100000) example_frame = Some (Next h)"
proof -
  let ?c = "evm_chainConfig example_evm" and ?n = "evm_BlockNumber example_evm"
  have "GetOp 0 example_contract = 0x60" by (simp add: GetOp_def GetByte_def example_contract_code example_code_def)
  then have "interpret_turn (run 100000) example_frame =
      interpret_op 0x60 (op (makePush 1 1) gasPush (makeStackFunc 0 1) None)
        (example_frame\<lparr> f_evm := example_evm\<lparr> evm_ticks := evm_ticks example_evm + 1 \<rparr> \<rparr>)"
    by (simp add: interpret_turn_def push_in_table example_frame_def)
  then show ?thesis
    by (simp add: interpret_op_def op_def makeStackFunc_def stack_require_def example_frame_def enforceRestrictions_def Let_def
        required_memory_def charge_op_def gasPush_def params UseGas_def example_contract_ok execute_op_def makePush_def
        example_contract_code example_code_def StackLimit_def mem_slice_def done_ok_def f_push_def)
qed

theorem reachable_frames_witness:
  "\<exists>g. reaches 100000 1 example_frame g \<and> length (f_stack g) \<le> 1024"
proof -
  obtain g where g: "reaches 100000 1 example_frame g"
    using example_turn reaches_turn[OF reaches_start] by fastforce
  have "frame_wf example_frame" "unat (c_Gas (f_contract example_frame)) < 2 ^ 62" "unat (c_Gas (f_contract example_frame)) \<le> 100000"
    using example_contract_ok by (simp_all add: example_frame_def frame_wf_def contract_ok_iff stack_ok_def mem_ok_def NewMemory_def)
  from reachable_frames[OF this g] g show ?thesis by blast
qed

section \<open>Calls\<close>

text \<open>A call is turned away before it runs if it is nested too deep or, for the calls that transfer ether
  (\<open>pays\<close>), if the caller does not have the value.\<close>

definition turned_away :: "bool \<Rightarrow> address \<Rightarrow> int \<Rightarrow> 't EVM \<Rightarrow> bool" where
  "turned_away pays me val evm \<longleftrightarrow> evm_depth evm > 1024 \<or> pays \<and> fst (GetBalance me (evm_StateDB evm)) < val"

text \<open>The three calls, with the flag that tells whether they transfer ether.\<close>

definition calls ::
    "'t runner \<Rightarrow> ContractRef \<Rightarrow> Contract \<Rightarrow> address \<Rightarrow> bytes \<Rightarrow> uint64 \<Rightarrow> int \<Rightarrow> 't EVM \<Rightarrow> (bool \<times> address \<times> 't call_result) set" where
  "calls rc caller parent addr input gas val evm =
     {(True, ref_Address caller, EVM_Call rc caller addr input gas val evm),
      (True, ref_Address caller, EVM_CallCode rc caller addr input gas val evm),
      (False, ref_Address (CallerContract parent), EVM_DelegateCall rc (CallerContract parent) addr input gas evm)}"

lemma settle_left:
  "settle snap R = Some (evm', ret, left, err) \<Longrightarrow> err \<notin> {None, Some errExecutionReverted} \<Longrightarrow> left = 0"
  by (auto simp: settle_def fail_gas_def UseGas_def split: bind_splits if_splits)

lemma CanTransfer_balance:
  assumes "evm_ok evm"
  shows "fst (evm_read (CanTransfer a x) evm) \<longleftrightarrow> \<not> fst (GetBalance a (evm_StateDB evm)) < x"
  using CanTransfer_ok[OF assms, of a x] by (metis GetBalance_view fst_conv not_less)

text \<open>The gas that a call leaves, and the error of a call that is turned away.\<close>

definition left_ok :: "bool \<Rightarrow> address \<Rightarrow> int \<Rightarrow> uint64 \<Rightarrow> 't EVM \<Rightarrow> uint64 \<Rightarrow> vm_error option \<Rightarrow> bool" where
  "left_ok pays me val gas evm left err \<longleftrightarrow>
     (if turned_away pays me val evm
      then left = gas \<and> (evm_NoRecursion evm \<and> evm_depth evm > 0 \<or>
        err = Some (if evm_depth evm > 1024 then ErrDepth else ErrInsufficientBalance))
      else err \<notin> {None, Some errExecutionReverted} \<longrightarrow> left = 0)"

lemma left_ok_settle:
  assumes "\<not> turned_away pays me val evm" "settle snap R = Some (evm', ret, left, err)"
  shows "left_ok pays me val gas evm left err"
  using assms settle_left[OF assms(2)] by (simp add: left_ok_def)

lemma left_ok_early:
  "evm_NoRecursion evm \<and> evm_depth evm > 0 \<Longrightarrow> left_ok pays me val gas evm gas None"
  "evm_depth evm > 1024 \<Longrightarrow> left_ok pays me val gas evm gas (Some ErrDepth)"
  "\<not> evm_depth evm > 1024 \<Longrightarrow> pays \<Longrightarrow> fst (GetBalance me (evm_StateDB evm)) < val \<Longrightarrow>
     left_ok pays me val gas evm gas (Some ErrInsufficientBalance)"
  "\<not> turned_away pays me val evm \<Longrightarrow> left_ok pays me val gas evm gas None"
  by (auto simp: left_ok_def turned_away_def)

lemma EVM_Call_left:
  assumes "evm_ok evm" "EVM_Call rc caller addr input gas val evm = Some (evm', ret, left, err)"
  shows "left_ok True (ref_Address caller) val gas evm left err"
  using assms(2) CanTransfer_balance[OF assms(1), of "ref_Address caller" val]
    left_ok_early[where pays = True and me = "ref_Address caller" and val = val and gas = gas and evm = evm] left_ok_settle[of True "ref_Address caller" val evm _ _ evm' ret left err gas]
  unfolding EVM_Call_def Let_def case_prod_beta CallCreateDepth_def turned_away_def
  by (auto split: if_splits)

lemma EVM_CallCode_left:
  assumes "evm_ok evm" "EVM_CallCode rc caller addr input gas val evm = Some (evm', ret, left, err)"
  shows "left_ok True (ref_Address caller) val gas evm left err"
  using assms(2) CanTransfer_balance[OF assms(1), of "ref_Address caller" val]
    left_ok_early[where pays = True and me = "ref_Address caller" and val = val and gas = gas and evm = evm] left_ok_settle[of True "ref_Address caller" val evm _ _ evm' ret left err gas]
  unfolding EVM_CallCode_def Let_def case_prod_beta CallCreateDepth_def turned_away_def
  by (auto split: if_splits)

lemma EVM_DelegateCall_left:
  assumes "EVM_DelegateCall rc caller addr input gas evm = Some (evm', ret, left, err)"
  shows "left_ok False me val gas evm left err"
  using assms left_ok_early[where pays = False and me = me and val = val and gas = gas and evm = evm] left_ok_settle[of False me val evm _ _ evm' ret left err gas]
  unfolding EVM_DelegateCall_def Let_def case_prod_beta CallCreateDepth_def turned_away_def
  by (auto split: if_splits bind_splits)

lemma call_left:
  assumes "evm_ok evm" "(pays, me, r) \<in> calls rc caller parent addr input gas val evm" "r = Some (evm', ret, left, err)"
  shows "left_ok pays me val gas evm left err"
proof -
  consider "pays" "me = ref_Address caller" "EVM_Call rc caller addr input gas val evm = r"
    | "pays" "me = ref_Address caller" "EVM_CallCode rc caller addr input gas val evm = r"
    | "\<not> pays" "EVM_DelegateCall rc (CallerContract parent) addr input gas evm = r"
    using assms(2) by (auto simp: calls_def)
  then show ?thesis
  proof cases
    case 1
    then show ?thesis using EVM_Call_left[OF assms(1) 1(3)[unfolded assms(3)]] by simp
  next
    case 2
    then show ?thesis using EVM_CallCode_left[OF assms(1) 2(3)[unfolded assms(3)]] by simp
  next
    case 3
    then show ?thesis using EVM_DelegateCall_left[OF 3(2)[unfolded assms(3)]] by simp
  qed
qed

text \<open>C2: A message call with less than \<open>2\<^sup>6\<^sup>2\<close> gas whose gas is below the fuel returns, and a call that fails has
  no effect: every account, the refund counter, the logs and the preimages are what they were before the
  call. At most the gas of the call is left. A call that is turned away because it is nested too deep or
  because the caller does not have the value gives all its gas back; if the code of any other call fails
  otherwise than by a revert, no gas is left. This holds of \<open>Call\<close>, \<open>CallCode\<close> and \<open>DelegateCall\<close>. (With the
  option \<open>NoRecursion\<close>, nested calls return at once without an error.)\<close>

theorem failed_call_restores:
  assumes "evm_ok evm" "is_word val" "read_only evm \<Longrightarrow> val = 0" "is_word (c_value parent)" "length input < 2 ^ 62"
    and "unat gas < 2 ^ 62" "unat gas < fuel"
    and "(pays, me, r) \<in> calls (run fuel) caller parent addr input gas val evm"
  shows "\<exists>evm' ret left err. r = Some (evm', ret, left, err) \<and> left \<le> gas \<and>
    (err \<noteq> None \<longrightarrow> abs_state (evm_StateDB evm') = abs_state (evm_StateDB evm)) \<and>
    (if turned_away pays me val evm
     then left = gas \<and> (evm_NoRecursion evm \<and> evm_depth evm > 0 \<or>
       err = Some (if evm_depth evm > 1024 then ErrDepth else ErrInsufficientBalance))
     else err \<notin> {None, Some errExecutionReverted} \<longrightarrow> left = 0)"
proof -
  have g: "small_gas gas" "small input" using assms(5,6) by (simp_all add: small_gas_def small_def)
  have "yields r (call_ok evm gas)"
    using assms(8) EVM_Call_safe[OF assms(1-3) g(2) run_ok assms(7) g(1)] EVM_CallCode_safe[OF assms(1,2) g(2) run_ok assms(7) g(1)]
      EVM_DelegateCall_safe[OF assms(1,4) g(2) run_ok assms(7) g(1)] unfolding calls_def by blast
  then obtain evm' ret left err where r: "r = Some (evm', ret, left, err)" "call_ok evm gas (evm', ret, left, err)"
    by (auto simp: yields_def)
  with call_left[OF assms(1,8) r(1)] show ?thesis unfolding r(1) call_ok_simp left_ok_def by blast
qed

theorem failed_call_restores_witness:
  "\<exists>evm' ret left err. EVM_Call (run 50001) (AccountRef 7) 9 [] 50000 100 example_evm = Some (evm', ret, left, err) \<and>
     left \<le> 50000 \<and> (err \<noteq> None \<longrightarrow> abs_state (evm_StateDB evm') = abs_state example_state)"
  using failed_call_restores[of example_evm 100 example_contract "[]" 50000 50001 True 7
      "EVM_Call (run 50001) (AccountRef 7) 9 [] 50000 100 example_evm" "AccountRef 7" 9] example_contract_ok
  by (auto simp: is_word_def tt256_def read_only_def contract_ok_def calls_def)

text \<open>C4: No ether is created. After a message call with less than \<open>2\<^sup>6\<^sup>2\<close> gas, whatever code it runs, the sum of the balances of all
  accounts is at most what it was before, and every balance is a non-negative 256-bit integer.\<close>

theorem call_conserves_ether:
  assumes "evm_ok evm" "is_word val" "read_only evm \<Longrightarrow> val = 0" "length input < 2 ^ 62" "unat gas < 2 ^ 62" "unat gas < fuel"
  shows "\<exists>evm' ret left err. EVM_Call (run fuel) caller addr input gas val evm = Some (evm', ret, left, err) \<and>
    (\<Sum>a\<in>UNIV. fst (GetBalance a (evm_StateDB evm'))) \<le> (\<Sum>a\<in>UNIV. fst (GetBalance a (evm_StateDB evm))) \<and>
    (\<forall>a. 0 \<le> fst (GetBalance a (evm_StateDB evm')) \<and> fst (GetBalance a (evm_StateDB evm')) < 2 ^ 256)"
proof -
  obtain evm' ret left err where r: "EVM_Call (run fuel) caller addr input gas val evm = Some (evm', ret, left, err)"
    "evm_advance evm evm'"
    using EVM_Call_safe[OF assms(1-3) _ run_ok assms(6), of input caller addr] assms(4,5)
    by (auto simp: yields_def small_def small_gas_def)
  then have "advance (read_only evm) (evm_StateDB evm) (evm_StateDB evm')" by (simp add: evm_advance_def)
  then have "sdb_ok (evm_StateDB evm')" "ether (abs_state (evm_StateDB evm')) \<le> ether (abs_state (evm_StateDB evm))"
    by (auto simp: advance_def)
  then show ?thesis
    using r(1) is_word_bal[of "evm_StateDB evm'"] by (simp add: GetBalance_view ether_def is_word_def tt256_def)
qed

theorem call_conserves_ether_witness:
  "\<exists>evm' ret left err. EVM_Call (run 50001) (AccountRef 7) 9 [] 50000 100 example_evm = Some (evm', ret, left, err) \<and>
     (\<Sum>a\<in>UNIV. fst (GetBalance a (evm_StateDB evm'))) \<le> (\<Sum>a\<in>UNIV. fst (GetBalance a example_state))"
  using call_conserves_ether[of example_evm 100 "[]" 50000 50001 "AccountRef 7" 9]
  by (auto simp: is_word_def tt256_def read_only_def)

text \<open>C3: A static call with less than \<open>2\<^sup>6\<^sup>2\<close> gas changes nothing that a contract can observe: from the Byzantium fork on, every balance,
  nonce, code, storage slot and suicide flag, the refund counter and the logs are the same after the call, whatever code
  it runs and whether or not it fails. The mode of the caller is restored.\<close>

theorem static_call_pure:
  assumes "evm_ok evm" "length input < 2 ^ 62" "unat gas < 2 ^ 62" "unat gas < fuel"
    and "IsByzantium (evm_chainConfig evm) (evm_BlockNumber evm)"
  shows "\<exists>evm' ret left err. EVM_StaticCall (run fuel) caller addr input gas evm = Some (evm', ret, left, err) \<and>
    evm_readOnly evm' = evm_readOnly evm \<and> left \<le> gas \<and>
    GetRefund (evm_StateDB evm') = GetRefund (evm_StateDB evm) \<and>
    (\<forall>h. GetLogs h (evm_StateDB evm') = GetLogs h (evm_StateDB evm)) \<and>
    (\<forall>a. fst (GetBalance a (evm_StateDB evm')) = fst (GetBalance a (evm_StateDB evm)) \<and>
         fst (GetNonce a (evm_StateDB evm')) = fst (GetNonce a (evm_StateDB evm)) \<and>
         fst (GetCode a (evm_StateDB evm')) = fst (GetCode a (evm_StateDB evm)) \<and>
         fst (HasSuicided a (evm_StateDB evm')) = fst (HasSuicided a (evm_StateDB evm)) \<and>
         (\<forall>k. fst (GetState a k (evm_StateDB evm')) = fst (GetState a k (evm_StateDB evm))))"
proof -
  obtain evm' ret left err where r: "EVM_StaticCall (run fuel) caller addr input gas evm = Some (evm', ret, left, err)"
    "call_ok evm gas (evm', ret, left, err)" "same_obs (abs_state (evm_StateDB evm)) (abs_state (evm_StateDB evm'))"
    using EVM_StaticCall_safe[OF assms(1) _ run_ok assms(4), of input caller addr] assms(2,3,5)
    by (auto simp: yields_def small_def small_gas_def)
  have "v_logs (abs_state s) = (\<lambda>h. GetLogs h s)" "v_refund (abs_state s) = GetRefund s" for s :: "'a StateDB"
    by (simp_all add: abs_state_def GetRefund_def)
  moreover have "GetLogs h (evm_StateDB evm') = GetLogs h (evm_StateDB evm)" for h
    using r(3) calculation(1) unfolding same_obs_def by metis
  moreover have "evm_readOnly evm' = evm_readOnly evm" using r(2) by (simp add: evm_advance_def same_env_def)
  ultimately show ?thesis
    using r by (simp add: same_obs_def GetBalance_view GetNonce_view GetCode_view GetState_view HasSuicided_view suicided_def)
qed

theorem static_call_pure_witness:
  "\<exists>evm' ret left err. EVM_StaticCall (run 50001) (AccountRef 7) 9 [] 50000 example_evm = Some (evm', ret, left, err) \<and>
     (\<forall>k. fst (GetState 9 k (evm_StateDB evm')) = fst (GetState 9 k example_state))"
  using static_call_pure[of example_evm "[]" 50000 50001 "AccountRef 7" 9] by auto

lemma bump_nonce_getters:
  assumes "db_ok (sdb_db (evm_StateDB evm))"
  shows "bal a (bump_nonce evm me) = bal a (abs_state (evm_StateDB evm))"
    "code_of a (bump_nonce evm me) = code_of a (abs_state (evm_StateDB evm))"
    "storage_of a k (bump_nonce evm me) = storage_of a k (abs_state (evm_StateDB evm))"
    "a \<noteq> me \<Longrightarrow> nonce_of a (bump_nonce evm me) = nonce_of a (abs_state (evm_StateDB evm))"
  using new_view_storage[OF assms]
  by (auto simp: bump_nonce_def on_acct_def acct_or_new_def bal_def code_of_def storage_of_def nonce_of_def split: option.split)

lemma view_obs_bump_nonce:
  assumes "db_ok (sdb_db (evm_StateDB evm))"
  shows "view_obs (bump_nonce evm me) =
    (ensure (Keccak256Hash (sdb_db (evm_StateDB evm)) []) me (view_obs (abs_state (evm_StateDB evm))))
      \<lparr> o_nonce := (o_nonce (view_obs (abs_state (evm_StateDB evm))))
          (me := o_nonce (view_obs (abs_state (evm_StateDB evm))) me + 1) \<rparr>"
proof -
  have db: "stored_slot (sdb_db (evm_StateDB evm)) (storage_trie (sdb_db (evm_StateDB evm)) h 0) k = 0" for h k
    using assms by (simp add: db_ok_def)
  have "nonce_of me v = o_nonce (view_obs v) me" for v by (simp add: view_obs_def)
  then show ?thesis unfolding bump_nonce_def by (simp add: view_obs_on_acct[OF db] acct_or_new_obs[OF db] Let_def)
qed

text \<open>C16: A contract creation with less than \<open>2\<^sup>6\<^sup>2\<close> gas whose gas is below the fuel returns, leaves at most its
  gas and creates no ether. From the Homestead fork on, a creation that fails changes nothing that can be
  read from the state (for all accounts the existence, balance, nonce, code, code hash, storage and suicide
  flag, and the refund counter, the logs and the preimages), except that the nonce of its creator may be
  incremented, which creates the account of the creator if it did not exist. (Before Homestead, a creation
  that cannot pay for storing its code keeps its effects.)\<close>

theorem failed_create_restores:
  fixes evm :: "'t EVM" and caller :: ContractRef
  assumes "evm_ok evm" "is_word val" "\<not> read_only evm" "length code < 2 ^ 62" "unat gas < 2 ^ 62" "unat gas < fuel"
  defines "before \<equiv> observe (evm_StateDB evm)" and "me \<equiv> ref_Address caller"
  shows "\<exists>evm' ret addr left err. EVM_Create (run fuel) caller code gas val evm = Some (evm', ret, addr, left, err) \<and>
    left \<le> gas \<and>
    (\<Sum>a\<in>UNIV. fst (GetBalance a (evm_StateDB evm'))) \<le> (\<Sum>a\<in>UNIV. fst (GetBalance a (evm_StateDB evm))) \<and>
    (err \<noteq> None \<and> IsHomestead (evm_chainConfig evm) (evm_BlockNumber evm) \<longrightarrow>
       observe (evm_StateDB evm') = before \<or>
       observe (evm_StateDB evm') = (ensure (Keccak256Hash (sdb_db (evm_StateDB evm)) []) me before)
         \<lparr> o_nonce := (o_nonce before)(me := o_nonce before me + 1) \<rparr>)"
proof -
  have g: "small_gas gas" "small code" using assms(4,5) by (simp_all add: small_gas_def small_def)
  obtain evm' ret addr left err where r: "EVM_Create (run fuel) caller code gas val evm = Some (evm', ret, addr, left, err)"
    "create_ok evm me gas (evm', ret, addr, left, err)"
    using EVM_Create_safe[OF assms(1-3) g(2) run_ok assms(6) g(1), of caller] by (auto simp: yields_def me_def)
  have "advance (read_only evm) (evm_StateDB evm) (evm_StateDB evm')" using r(2) by (simp add: create_ok_def evm_advance_def)
  then have "ether (abs_state (evm_StateDB evm')) \<le> ether (abs_state (evm_StateDB evm))" by (simp add: advance_def)
  moreover have db: "db_ok (sdb_db (evm_StateDB evm))" using assms(1) by (simp add: evm_ok_def sdb_ok_def)
  have "observe (evm_StateDB evm') \<in> {before, (ensure (Keccak256Hash (sdb_db (evm_StateDB evm)) []) me before)
         \<lparr> o_nonce := (o_nonce before)(me := o_nonce before me + 1) \<rparr>}"
    if "abs_state (evm_StateDB evm') \<in> {abs_state (evm_StateDB evm), bump_nonce evm me}"
    using that view_obs_bump_nonce[OF db, of me] by (auto simp: before_def observe_view)
  ultimately show ?thesis
    using r by (auto simp: create_ok_def GetBalance_view ether_def)
qed

theorem failed_create_restores_witness:
  "\<exists>evm' ret addr left err. EVM_Create (run 50001) (AccountRef 7) [0x60, 0, 0x57] 50000 100 example_evm = Some (evm', ret, addr, left, err) \<and>
     left \<le> 50000 \<and> (err \<noteq> None \<longrightarrow> o_balance (observe (evm_StateDB evm')) = o_balance (observe example_state))"
  using failed_create_restores[of example_evm 100 "[0x60, 0, 0x57]" 50000 50001 "AccountRef 7"]
  by (auto simp: is_word_def tt256_def read_only_def)

end
