(* ===== verification/Transition_Correct.thy ===== *)
theory Transition_Correct
  imports StateTransition VM_Correct
begin

text \<open>The properties of transactions: a transition returns, the gas it uses is between zero and the gas limit
  of the message and comes out of the gas pool of the block, and no ether is created by fees and refunds.\<close>

section \<open>Fees\<close>

lemma evm_SubBalance:
  assumes "evm_ok evm" "0 \<le> x" "x \<le> bal p (abs_state (evm_StateDB evm))"
  defines "evm' \<equiv> evm_write (SubBalance p x) evm"
  shows "evm_ok evm'" "same_env evm evm'"
    "ether (abs_state (evm_StateDB evm')) = ether (abs_state (evm_StateDB evm)) - x"
proof -
  let ?s = "evm_StateDB evm"
  have s: "sdb_ok ?s" using assms(1) by (rule evm_ok_sdb)
  note eff = SubBalance_effect[OF sdb_ok_good[OF s], of p x]
  have adv: "advance False ?s (SubBalance p x ?s)"
    by (rule advance_upd_acct[OF s eff[unfolded on_acct_def]])
      (use acct_ok_or_new[OF s, of p] assms(2,3) in \<open>simp_all add: acct_ok_def bal_acct_or_new\<close>)
  show "ether (abs_state (evm_StateDB evm')) = ether (abs_state ?s) - x"
    by (simp add: evm'_def evm_write_def eff(2) on_acct_def ether_upd_acct bal_acct_or_new)
  show "evm_ok evm'" "same_env evm evm'"
    using assms(1) advance_ok[OF adv] advance_db[OF adv] by (simp_all add: evm'_def evm_write_def evm_ok_def same_env_def)
qed

lemma evm_AddBalance:
  fixes p :: address
  assumes "evm_ok evm" "0 \<le> x" "ether (abs_state (evm_StateDB evm)) + x < tt256"
  defines "evm' \<equiv> evm_write (AddBalance p x) evm"
  shows "evm_ok evm'" "same_env evm evm'"
    "ether (abs_state (evm_StateDB evm')) = ether (abs_state (evm_StateDB evm)) + x"
proof -
  let ?s = "evm_StateDB evm"
  have s: "sdb_ok ?s" using assms(1) by (rule evm_ok_sdb)
  note ok = sdb_ok_AddBalance[OF s assms(2,3), of p]
  have "sdb_db (AddBalance p x ?s) = sdb_db ?s"
    using AddBalance_effect(1)[OF sdb_ok_good[OF s], of p x] by (simp add: ext_def)
  then show "evm_ok evm'" "same_env evm evm'"
    "ether (abs_state (evm_StateDB evm')) = ether (abs_state (evm_StateDB evm)) + x"
    using assms(1) ok by (simp_all add: evm'_def evm_write_def evm_ok_def same_env_def)
qed

section \<open>Buying gas\<close>

text \<open>The messages that the transition accepts: the value and the price are 256-bit words and the gas limit
  and the data are far below the range of 64 bits.\<close>

definition msg_ok :: "Message \<Rightarrow> bool" where
  "msg_ok msg \<longleftrightarrow> is_word (msg_Value msg) \<and> 0 \<le> msg_GasPrice msg \<and> small_gas (msg_Gas msg) \<and> small (msg_Data msg)"

definition start_ok :: "'t StateTransition \<Rightarrow> bool" where
  "start_ok st \<longleftrightarrow> evm_ok (st_evm st) \<and> \<not> evm_readOnly (st_evm st) \<and> msg_ok (st_msg st) \<and> st_gas st = 0"

text \<open>The same without the bound on the gas, which the properties state themselves.\<close>

definition start_wf :: "'t StateTransition \<Rightarrow> bool" where
  "start_wf st \<longleftrightarrow> evm_ok (st_evm st) \<and> \<not> evm_readOnly (st_evm st) \<and> st_gas st = 0 \<and>
     is_word (msg_Value (st_msg st)) \<and> 0 \<le> msg_GasPrice (st_msg st) \<and> length (msg_Data (st_msg st)) < 2 ^ 62"

lemma start_ok_iff: "start_ok st \<longleftrightarrow> start_wf st \<and> unat (msg_Gas (st_msg st)) < 2 ^ 62"
  by (auto simp: start_ok_def start_wf_def msg_ok_def small_def small_gas_def)

text \<open>After the gas is bought: the sender has paid for the limit, which was taken from the pool.\<close>

definition bought :: "'t StateTransition \<Rightarrow> 't StateTransition \<Rightarrow> bool" where
  "bought st st' \<longleftrightarrow> evm_ok (st_evm st') \<and> same_env (st_evm st) (st_evm st') \<and> st_msg st' = st_msg st \<and>
     st_gas st' = msg_Gas (st_msg st) \<and> st_initialGas st' = msg_Gas (st_msg st) \<and>
     msg_Gas (st_msg st) \<le> st_gp st \<and> st_gp st' = st_gp st - msg_Gas (st_msg st) \<and>
     ether (abs_state (evm_StateDB (st_evm st'))) =
       ether (abs_state (evm_StateDB (st_evm st))) - uint (msg_Gas (st_msg st)) * msg_GasPrice (st_msg st)"

text \<open>An error before the gas is bought leaves everything as it was.\<close>

definition refused :: "'t StateTransition \<Rightarrow> 't StateTransition \<Rightarrow> bool" where
  "refused st st' \<longleftrightarrow> evm_ok (st_evm st') \<and> st_gp st' = st_gp st \<and> st_gas st' = st_gas st \<and>
     abs_state (evm_StateDB (st_evm st')) = abs_state (evm_StateDB (st_evm st))"

lemma buyGas_ok:
  assumes "start_ok st" "buyGas st = (err, st')"
  shows "if err = None then bought st st' else refused st st'"
proof -
  let ?msg = "st_msg st"
  let ?x = "uint (msg_Gas ?msg) * msg_GasPrice ?msg"
  let ?evm = "snd (evm_read (GetBalance (msg_From ?msg)) (st_evm st))"
  have ok: "evm_ok (st_evm st)" using assms(1) by (simp add: start_ok_def)
  have adv: "evm_advance (st_evm st) ?evm" by (rule evm_advance_getters(3)[OF ok])
  have view: "abs_state (evm_StateDB ?evm) = abs_state (evm_StateDB (st_evm st))"
    using quiet_simple_getters(3)[of "evm_StateDB (st_evm st)"] by (simp add: evm_read_eq quiet_def)
  have bal: "fst (evm_read (GetBalance (msg_From ?msg)) (st_evm st)) = bal (msg_From ?msg) (abs_state (evm_StateDB (st_evm st)))"
    by (simp add: evm_read_eq GetBalance_view)
  have "0 \<le> ?x" using assms(1) by (simp add: start_ok_def msg_ok_def)
  note sub = evm_SubBalance[OF evm_advance_ok[OF adv] this, of "msg_From ?msg"]
  have env: "same_env (st_evm st) ?evm" using adv by (simp add: evm_advance_def)
  have st0: "st_gas st = 0" using assms(1) by (simp add: start_ok_def)
  show ?thesis
  proof (cases "bal (msg_From ?msg) (abs_state (evm_StateDB (st_evm st))) < ?x \<or> st_gp st < msg_Gas ?msg")
    case True
    then show ?thesis
      using assms(2) evm_advance_ok[OF adv] view bal
      by (auto simp: buyGas_def Let_def case_prod_beta SubGas_def refused_def split: if_splits)
  next
    case False
    then have le: "?x \<le> bal (msg_From ?msg) (abs_state (evm_StateDB ?evm))" using view by simp
    show ?thesis
      using assms(2) False bal st0 env sub[OF le] unfolding view
      by (auto simp: buyGas_def Let_def case_prod_beta SubGas_def bought_def same_env_def)
  qed
qed

lemma preCheck_ok:
  assumes "start_ok st" "preCheck st = (err, st')"
  shows "if err = None then bought st st' else refused st st'"
proof (cases "msg_CheckNonce (st_msg st)")
  case False
  then show ?thesis using assms(2) buyGas_ok[OF assms(1), of err st'] by (simp add: preCheck_def)
next
  case True
  let ?r = "evm_read (GetNonce (msg_From (st_msg st))) (st_evm st)"
  let ?st = "st\<lparr> st_evm := snd ?r \<rparr>"
  have adv: "evm_advance (st_evm st) (snd ?r)"
    using assms(1) by (intro evm_advance_getters(4)) (simp add: start_ok_def)
  have view: "abs_state (evm_StateDB (snd ?r)) = abs_state (evm_StateDB (st_evm st))" by (rule evm_reads_view)
  have env: "same_env (st_evm st) (snd ?r)" using adv by (simp add: evm_advance_def)
  have start: "start_ok ?st"
    using assms(1) evm_advance_ok[OF adv] env by (simp add: start_ok_def same_env_def)
  have "bought st st'" if "bought ?st st'" using that env unfolding bought_def by (auto simp: view same_env_def)
  moreover have "refused st st'" if "refused ?st st'" using that by (simp add: refused_def view)
  ultimately show ?thesis
    using True assms(2) buyGas_ok[OF start] evm_advance_ok[OF adv] view
    by (auto simp: preCheck_def Let_def case_prod_beta refused_def split: if_splits)
qed

section \<open>Running the message\<close>

text \<open>While the message runs, the gas left is at most the limit, and the ether that was paid for the gas is
  set aside.\<close>

definition ran :: "'t StateTransition \<Rightarrow> 't StateTransition \<Rightarrow> bool" where
  "ran st st' \<longleftrightarrow> evm_ok (st_evm st') \<and> same_env (st_evm st) (st_evm st') \<and> st_msg st' = st_msg st \<and>
     st_gas st' \<le> msg_Gas (st_msg st) \<and> st_initialGas st' = msg_Gas (st_msg st) \<and>
     msg_Gas (st_msg st) \<le> st_gp st \<and> st_gp st' = st_gp st - msg_Gas (st_msg st) \<and>
     ether (abs_state (evm_StateDB (st_evm st'))) + uint (msg_Gas (st_msg st)) * msg_GasPrice (st_msg st)
       \<le> ether (abs_state (evm_StateDB (st_evm st)))"

lemma bought_ran: "bought st st' \<Longrightarrow> ran st st'"
  by (simp add: bought_def ran_def)

lemma useGas_ran:
  assumes "ran st st1" "useGas g st1 = Inr st2"
  shows "ran st st2"
  using assms order_trans[OF word_sub_le[of g "st_gas st1"]] by (auto simp: useGas_def ran_def not_less split: if_splits)

lemma ran_advance:
  assumes "ran st st1" "evm_advance (st_evm st1) evm" "gas \<le> st_gas st1"
  shows "ran st (st1\<lparr> st_evm := evm, st_gas := gas \<rparr>)"
  using assms by (auto simp: ran_def evm_advance_def advance_def same_env_def)

lemma execute_msg_ok:
  assumes "start_ok st" "ran st st1" "unat (msg_Gas (st_msg st)) < fuel"
  shows "yields (execute_msg fuel st1) (\<lambda>(st2, ret, err). ran st st2)"
proof -
  let ?evm = "st_evm st1" and ?msg = "st_msg st1"
  have ok: "evm_ok ?evm" "is_word (msg_Value ?msg)" "small (msg_Data ?msg)" "\<not> read_only ?evm"
    using assms(1,2) by (auto simp: ran_def start_ok_def msg_ok_def same_env_def read_only_def)
  have gas: "unat (st_gas st1) < fuel" "small_gas (st_gas st1)"
    using assms by (auto simp: ran_def word_le_nat_alt start_ok_def msg_ok_def small_gas_def)
  show ?thesis
  proof (cases "msg_To ?msg")
    case None
    from EVM_Create_safe[OF ok(1,2,4,3) run_ok gas, of "AccountRef (msg_From ?msg)"] show ?thesis
      using None ran_advance[OF assms(2)] by (auto simp: execute_msg_def yields_def create_ok_def)
  next
    case (Some to)
    define r where "r = evm_read (GetNonce (msg_From ?msg)) ?evm"
    let ?evm1 = "evm_write (SetNonce (msg_From ?msg) (fst r + 1)) (snd r)"
    have adv: "evm_advance ?evm ?evm1" by (rule bump_nonce_ok(1)[OF ok(1,4) r_def])
    have "\<not> read_only ?evm1" using ok(4) evm_advance_read_only[OF adv] by simp
    with EVM_Call_safe[OF evm_advance_ok[OF adv] ok(2) _ ok(3) run_ok gas, of "AccountRef (msg_From ?msg)" "st_to st1"]
    obtain evm' ret left err where "EVM_Call (run fuel) (AccountRef (msg_From ?msg)) (st_to st1) (msg_Data ?msg) (st_gas st1)
        (msg_Value ?msg) ?evm1 = Some (evm', ret, left, err)" "evm_advance ?evm1 evm'" "left \<le> st_gas st1"
      by (auto simp: yields_def)
    then show ?thesis
      using Some ran_advance[OF assms(2) evm_advance_trans[OF adv]]
      by (simp add: execute_msg_def Let_def case_prod_beta r_def[symmetric])
  qed
qed

section \<open>Refund and fee\<close>

text \<open>After the refund: the gas left was given back to the pool and paid back to the sender.\<close>

definition refunded :: "'t StateTransition \<Rightarrow> 't StateTransition \<Rightarrow> bool" where
  "refunded st st' \<longleftrightarrow> evm_ok (st_evm st') \<and> same_env (st_evm st) (st_evm st') \<and> st_msg st' = st_msg st \<and>
     st_gas st' \<le> msg_Gas (st_msg st) \<and> st_initialGas st' = msg_Gas (st_msg st) \<and>
     gasUsed st' \<le> msg_Gas (st_msg st) \<and> gasUsed st' \<le> st_gp st \<and> st_gp st' = st_gp st - gasUsed st' \<and>
     ether (abs_state (evm_StateDB (st_evm st'))) + uint (gasUsed st') * msg_GasPrice (st_msg st)
       \<le> ether (abs_state (evm_StateDB (st_evm st)))"

lemma unat_64_bound: "unat (x :: uint64) < 2 ^ 64"
  using unsigned_less[where 'a = nat, of x] by simp

lemma refund_gas:
  fixes gas limit :: uint64
  assumes "gas \<le> limit" "refund \<le> (limit - gas) div 2"
  shows "gas + refund \<le> limit" "unat (gas + refund) = unat gas + unat refund"
proof -
  have "unat refund \<le> (unat limit - unat gas) div 2" "unat gas \<le> unat limit"
    using assms by (simp_all add: word_le_nat_alt unat_div unat_sub)
  moreover from this show "unat (gas + refund) = unat gas + unat refund"
    using unat_64_bound[of limit] by (intro unat_add_no_wrap) linarith
  ultimately show "gas + refund \<le> limit" by (simp add: word_le_nat_alt)
qed

lemma AddGas_back:
  assumes "gas \<le> limit" "limit \<le> gp"
  shows "AddGas gas (gp - limit) = Some (gp - (limit - gas))"
proof -
  have le: "unat gas \<le> unat limit" "unat limit \<le> unat gp" using assms by (simp_all add: word_le_nat_alt)
  have "unat (gp - limit) = unat gp - unat limit" "unat (MaxUint64 - gas) = 2 ^ 64 - 1 - unat gas"
    using assms unat_64_bound[of gas] by (simp_all add: unat_sub word_le_nat_alt)
  moreover have "unat gp \<le> 2 ^ 64 - 1" using unat_64_bound[of gp] by simp
  ultimately have "\<not> gp - limit > MaxUint64 - gas" using le unfolding word_less_nat_alt by linarith
  then show ?thesis by (simp add: AddGas_def algebra_simps)
qed

lemma gas_split:
  assumes "gas \<le> (limit :: uint64)"
  shows "uint gas * price + uint (limit - gas) * price = uint limit * price"
proof -
  have "uint (limit - gas) = uint limit - uint gas"
    unfolding uint_nat unat_sub[OF assms] using assms by (simp add: of_nat_diff word_le_nat_alt)
  then show ?thesis by (simp flip: distrib_right)
qed

lemma refundGas_ok:
  assumes "start_ok st" "ran st st1"
  shows "yields (refundGas st1) (refunded st)"
proof -
  let ?limit = "msg_Gas (st_msg st)" and ?price = "msg_GasPrice (st_msg st)" and ?E = "\<lambda>st. ether (abs_state (evm_StateDB (st_evm st)))"
  define refund where "refund = (if gasUsed st1 div 2 > GetRefund (evm_StateDB (st_evm st1))
    then GetRefund (evm_StateDB (st_evm st1)) else gasUsed st1 div 2)"
  define gas where "gas = st_gas st1 + refund"
  have r: "st_gas st1 \<le> ?limit" "st_initialGas st1 = ?limit" "?limit \<le> st_gp st" "st_gp st1 = st_gp st - ?limit" "evm_ok (st_evm st1)"
    "same_env (st_evm st) (st_evm st1)" "st_msg st1 = st_msg st" "?E st1 + uint ?limit * ?price \<le> ?E st" using assms(2) by (auto simp: ran_def)
  have gas: "gas \<le> ?limit" unfolding gas_def by (rule refund_gas) (use r in \<open>auto simp: refund_def gasUsed_def\<close>)
  have price: "0 \<le> ?price" "?E st < tt256" using assms(1) by (simp_all add: start_ok_def msg_ok_def evm_ok_def sdb_ok_def)
  have "?E st1 + uint gas * ?price + uint (?limit - gas) * ?price \<le> ?E st" using r(8) gas_split[OF gas, of ?price] by linarith
  moreover have "0 \<le> uint gas * ?price" "0 \<le> uint (?limit - gas) * ?price" using price by simp_all
  ultimately have "?E st1 + uint gas * ?price < tt256" using price(2) by linarith
  note add = evm_AddBalance[OF r(5) \<open>0 \<le> uint gas * ?price\<close> this, of "msg_From (st_msg st)"]
  let ?st2 = "st1\<lparr> st_gas := gas, st_evm := evm_write (AddBalance (msg_From (st_msg st)) (uint gas * ?price)) (st_evm st1),
    st_gp := st_gp st - (?limit - gas) \<rparr>"
  have "refundGas st1 = Some ?st2"
    unfolding refundGas_def Let_def refund_def[symmetric] using AddGas_back[OF gas r(3)] r(2,4,7)
    by (simp add: gas_def[symmetric] gasUsed_def)
  moreover have "refunded st ?st2"
    using r gas add \<open>?E st1 + uint gas * ?price + uint (?limit - gas) * ?price \<le> ?E st\<close> order_trans[OF word_sub_le[OF gas] r(3)]
    by (simp add: refunded_def gasUsed_def word_sub_le same_env_def)
  ultimately show ?thesis by simp
qed

section \<open>Transitions\<close>

text \<open>What a transition promises, for a message that was paid for and executed.\<close>

definition transition_ok ::
    "'t StateTransition \<Rightarrow> 't StateTransition \<times> (tx_error + bytes \<times> uint64 \<times> bool) \<Rightarrow> bool" where
  "transition_ok st r \<longleftrightarrow> (case r of (st', res) \<Rightarrow>
     evm_ok (st_evm st') \<and> ether (abs_state (evm_StateDB (st_evm st'))) \<le> ether (abs_state (evm_StateDB (st_evm st))) \<and>
     (case res of
        Inl e \<Rightarrow> (case fst (preCheck st) of
            Some e' \<Rightarrow> e = e' \<and> st_gp st' = st_gp st \<and> abs_state (evm_StateDB (st_evm st')) = abs_state (evm_StateDB (st_evm st))
          | None \<Rightarrow> msg_Gas (st_msg st) \<le> st_gp st \<and> st_gp st' = st_gp st - msg_Gas (st_msg st))
      | Inr (ret, used, failed) \<Rightarrow> used \<le> msg_Gas (st_msg st) \<and> used \<le> st_gp st \<and> st_gp st' = st_gp st - used))"

lemma ran_transition: "start_ok st \<Longrightarrow> fst (preCheck st) = None \<Longrightarrow> ran st st' \<Longrightarrow> transition_ok st (st', Inl e)"
proof -
  assume a: "start_ok st" "fst (preCheck st) = None" "ran st st'"
  have "0 \<le> uint (msg_Gas (st_msg st)) * msg_GasPrice (st_msg st)" using a(1) by (simp add: start_ok_def msg_ok_def)
  then show ?thesis using a by (auto simp: transition_ok_def ran_def intro: word_sub_le)
qed

text \<open>The fee is paid to the coinbase.\<close>

lemma fee_ok:
  assumes "start_ok st" "refunded st st1"
  shows "transition_ok st (st1\<lparr> st_evm := evm_write (AddBalance cb (uint (gasUsed st1) * msg_GasPrice (st_msg st))) (st_evm st1) \<rparr>,
    Inr (ret, gasUsed st1, failed))"
proof -
  let ?fee = "uint (gasUsed st1) * msg_GasPrice (st_msg st)"
  have "0 \<le> ?fee" "ether (abs_state (evm_StateDB (st_evm st))) < tt256"
    using assms(1) by (simp_all add: start_ok_def msg_ok_def evm_ok_def sdb_ok_def)
  moreover have "ether (abs_state (evm_StateDB (st_evm st1))) + ?fee \<le> ether (abs_state (evm_StateDB (st_evm st)))"
    using assms(2) by (simp add: refunded_def)
  moreover have "evm_ok (st_evm st1)" using assms(2) by (simp add: refunded_def)
  ultimately show ?thesis
    using evm_AddBalance[of "st_evm st1" ?fee cb] assms(2) by (simp add: transition_ok_def refunded_def)
qed

lemma TransitionDb_ok:
  assumes "start_ok st" "unat (msg_Gas (st_msg st)) < fuel"
  shows "yields (TransitionDb fuel st) (transition_ok st)"
proof -
  obtain err st1 where pre: "preCheck st = (err, st1)" by (cases "preCheck st")
  note ok = preCheck_ok[OF assms(1) pre]
  show ?thesis
  proof (cases err)
    case (Some e)
    then show ?thesis using ok pre by (simp add: TransitionDb_def refused_def transition_ok_def)
  next
    case None
    then have ran1: "ran st st1" and msg: "st_msg st1 = st_msg st" using ok bought_ran by (auto simp: bought_def)
    let ?ig = "IntrinsicGas (msg_Data (st_msg st1)) (msg_To (st_msg st1) = None)
      (IsHomestead (evm_chainConfig (st_evm st1)) (evm_BlockNumber (st_evm st1)))"
    have none: "fst (preCheck st) = None" using pre None by simp
    have stop: "transition_ok st (st1, Inl e)" for e by (rule ran_transition[OF assms(1) none ran1])
    show ?thesis
    proof (cases "\<exists>g st2. ?ig = Inr g \<and> useGas g st1 = Inr st2")
      case False
      then show ?thesis using None pre stop by (auto simp: TransitionDb_def Let_def split: sum.split)
    next
      case True
      then obtain g st2 where g: "?ig = Inr g" "useGas g st1 = Inr st2" by blast
      have ran2: "ran st st2" by (rule useGas_ran[OF ran1 g(2)])
      obtain st3 ret vmerr where x: "execute_msg fuel st2 = Some (st3, ret, vmerr)" "ran st st3"
        using execute_msg_ok[OF assms(1) ran2 assms(2)] by (auto simp: yields_def)
      obtain st4 where r: "refundGas st3 = Some st4" "refunded st st4"
        using refundGas_ok[OF assms(1) x(2)] by (auto simp: yields_def)
      show ?thesis
        using None pre g x r msg ran_transition[OF assms(1) none x(2)] fee_ok[OF assms(1) r(2)]
        by (simp add: TransitionDb_def Let_def gasUsed_def)
    qed
  qed
qed

text \<open>C5: A state transition of a message with a gas limit below \<open>2\<^sup>6\<^sup>2\<close> returns, whatever the message does, if
  the fuel exceeds the gas limit. If it succeeds, the gas used is at most the gas limit and the pool of the
  block is reduced by exactly the gas used; giving gas back to the pool never overflows. If the checks before
  the execution refuse the message, neither the state nor the pool changes. If the transition fails after the
  gas was bought, which the code reports with zero gas used, the pool is reduced by the whole gas limit. No
  ether is created in any case: the price of the gas, the refund and the fee for the coinbase add up, and
  every balance is still a non-negative 256-bit integer.\<close>

theorem TransitionDb_correct:
  assumes "start_wf st" "unat (msg_Gas (st_msg st)) < 2 ^ 62" "unat (msg_Gas (st_msg st)) < fuel"
  shows "\<exists>st' res. TransitionDb fuel st = Some (st', res) \<and>
    (\<Sum>a\<in>UNIV. fst (GetBalance a (evm_StateDB (st_evm st')))) \<le> (\<Sum>a\<in>UNIV. fst (GetBalance a (evm_StateDB (st_evm st)))) \<and>
    (\<forall>a. 0 \<le> fst (GetBalance a (evm_StateDB (st_evm st'))) \<and> fst (GetBalance a (evm_StateDB (st_evm st'))) < 2 ^ 256) \<and>
    (case res of
       Inl e \<Rightarrow> (case fst (preCheck st) of
           Some e' \<Rightarrow> e = e' \<and> st_gp st' = st_gp st \<and> abs_state (evm_StateDB (st_evm st')) = abs_state (evm_StateDB (st_evm st))
         | None \<Rightarrow> msg_Gas (st_msg st) \<le> st_gp st \<and> st_gp st' = st_gp st - msg_Gas (st_msg st))
     | Inr (ret, used, failed) \<Rightarrow> used \<le> msg_Gas (st_msg st) \<and> used \<le> st_gp st \<and> st_gp st' = st_gp st - used)"
proof -
  have "start_ok st" using assms(1,2) by (simp add: start_ok_iff)
  then obtain st' res where r: "TransitionDb fuel st = Some (st', res)" "transition_ok st (st', res)"
    using TransitionDb_ok[OF _ assms(3)] by (auto simp: yields_def)
  then have "sdb_ok (evm_StateDB (st_evm st'))" by (simp add: transition_ok_def evm_ok_def)
  then show ?thesis
    using r is_word_bal[of "evm_StateDB (st_evm st')"]
    by (simp add: transition_ok_def GetBalance_view ether_def is_word_def tt256_def)
qed

definition example_msg :: Message where
  "example_msg = \<lparr> msg_From = 7, msg_To = Some 9, msg_GasPrice = 0, msg_Gas = 60000, msg_Value = 5, msg_Nonce = 0,
     msg_CheckNonce = True, msg_Data = [] \<rparr>"

lemma example_start: "start_ok (NewStateTransition example_evm example_msg gp)"
  by (simp add: start_ok_def msg_ok_def NewStateTransition_def example_msg_def is_word_def tt256_def small_gas_def)

theorem TransitionDb_correct_witness:
  "\<exists>st' res. TransitionDb 60001 (NewStateTransition example_evm example_msg 8000000) = Some (st', res) \<and>
     (\<Sum>a\<in>UNIV. fst (GetBalance a (evm_StateDB (st_evm st')))) \<le> (\<Sum>a\<in>UNIV. fst (GetBalance a example_state))"
  using TransitionDb_correct[of "NewStateTransition example_evm example_msg 8000000" 60001] example_start[of 8000000]
  by (auto simp: start_ok_iff NewStateTransition_def example_msg_def)

text \<open>C24: The checks before a transition: the nonce, the balance of the sender and the gas pool are checked in this
  order, with these errors, and a refused message changes neither the state nor the pool.\<close>

theorem preCheck_exact:
  fixes st :: "'t StateTransition"
  defines "s \<equiv> evm_StateDB (st_evm st)" and "msg \<equiv> st_msg st"
  shows "fst (preCheck st) =
      (if msg_CheckNonce msg \<and> fst (GetNonce (msg_From msg) s) < msg_Nonce msg then Some ErrNonceTooHigh
       else if msg_CheckNonce msg \<and> fst (GetNonce (msg_From msg) s) > msg_Nonce msg then Some ErrNonceTooLow
       else if fst (GetBalance (msg_From msg) s) < uint (msg_Gas msg) * msg_GasPrice msg then Some errInsufficientBalanceForGas
       else if st_gp st < msg_Gas msg then Some ErrGasLimitReached else None) \<and>
    (fst (preCheck st) \<noteq> None \<longrightarrow>
       st_gp (snd (preCheck st)) = st_gp st \<and>
       abs_state (evm_StateDB (st_evm (snd (preCheck st)))) = abs_state s)"
proof -
  let ?r = "evm_read (GetNonce (msg_From msg)) (st_evm st)"
  have view: "abs_state (evm_StateDB (snd ?r)) = abs_state s" by (simp add: evm_reads_view s_def)
  have buy: "fst (buyGas st1) =
      (if fst (GetBalance (msg_From msg) s) < uint (msg_Gas msg) * msg_GasPrice msg then Some errInsufficientBalanceForGas
       else if st_gp st < msg_Gas msg then Some ErrGasLimitReached else None) \<and>
      (fst (buyGas st1) \<noteq> None \<longrightarrow> st_gp (snd (buyGas st1)) = st_gp st \<and>
         abs_state (evm_StateDB (st_evm (snd (buyGas st1)))) = abs_state s)"
    if "abs_state (evm_StateDB (st_evm st1)) = abs_state s" "st_msg st1 = msg" "st_gp st1 = st_gp st" for st1
    using that quiet_simple_getters(3)[of "evm_StateDB (st_evm st1)" "msg_From msg"]
    by (auto simp: buyGas_def Let_def case_prod_beta SubGas_def evm_read_eq GetBalance_view quiet_def)
  have nonce: "fst (GetNonce (msg_From msg) s) = fst ?r" by (simp add: evm_read_eq s_def)
  show ?thesis
    using buy[of st] buy[of "st\<lparr> st_evm := snd ?r \<rparr>"] view
    by (auto simp: preCheck_def Let_def case_prod_beta nonce s_def[symmetric] msg_def[symmetric])
qed

theorem preCheck_exact_witness:
  "fst (preCheck (NewStateTransition example_evm (example_msg\<lparr> msg_CheckNonce := False \<rparr>) 100)) = Some ErrGasLimitReached"
proof -
  have "0 \<le> fst (GetBalance 7 example_state)"
    using bal_nonneg[OF evm_ok_sdb[OF evm_ok_example], of 7] by (simp add: GetBalance_view)
  then show ?thesis
    using preCheck_exact[of "NewStateTransition example_evm (example_msg\<lparr> msg_CheckNonce := False \<rparr>) 100"]
    by (simp add: NewStateTransition_def example_msg_def)
qed

section \<open>Intrinsic gas\<close>

lemma count_nonzero_eq:
  assumes "length data < 2 ^ 64"
  shows "unat (count_nonzero data) = length (filter (\<lambda>b. b \<noteq> 0) data)"
proof -
  let ?f = "\<lambda>nz byt. if byt \<noteq> (0 :: byte) then nz + 1 else nz"
  have "foldl ?f nz data = nz + (of_nat (length (filter (\<lambda>b. b \<noteq> 0) data)) :: uint64)" for nz
    by (induction data arbitrary: nz) (simp_all add: algebra_simps)
  moreover have "length (filter (\<lambda>b. b \<noteq> 0) data) < 2 ^ 64" using assms length_filter_le[of "\<lambda>b. b \<noteq> 0" data] by linarith
  ultimately show ?thesis unfolding count_nonzero_def by (simp add: unat_of_nat_64)
qed

lemma overflow_check:
  fixes gas n k :: uint64
  assumes "0 < unat k"
  shows "(MaxUint64 - gas) div k < n \<longleftrightarrow> 2 ^ 64 \<le> unat gas + unat n * unat k"
    "unat gas + unat n * unat k < 2 ^ 64 \<Longrightarrow> unat (gas + n * k) = unat gas + unat n * unat k"
proof -
  have max: "unat (MaxUint64 - gas) = 2 ^ 64 - 1 - unat gas"
    using unat_64_bound[of gas] by (simp add: unat_sub word_le_nat_alt)
  have "(2 ^ 64 - 1 - unat gas) div unat k < unat n \<longleftrightarrow> 2 ^ 64 - 1 - unat gas < unat n * unat k"
    using assms by (simp add: div_less_iff_less_mult)
  also have "\<dots> \<longleftrightarrow> 2 ^ 64 \<le> unat gas + unat n * unat k" using unat_64_bound[of gas] by linarith
  finally show "(MaxUint64 - gas) div k < n \<longleftrightarrow> 2 ^ 64 \<le> unat gas + unat n * unat k"
    by (simp add: word_less_nat_alt unat_div max)
  assume "unat gas + unat n * unat k < 2 ^ 64"
  then show "unat (gas + n * k) = unat gas + unat n * unat k" by (simp add: unat_word_ariths)
qed

text \<open>C25: \<open>IntrinsicGas\<close> is exact: the base fee, 68 for every non-zero byte and 4 for every zero byte of the
  data. It fails exactly if this sum does not fit in 64 bits.\<close>

theorem IntrinsicGas_exact:
  fixes creation homestead :: bool
  assumes "length data < 2 ^ 64"
  defines "total_gas \<equiv> (if creation \<and> homestead then 53000 else 21000) +
    68 * length (filter (\<lambda>b. b \<noteq> 0) data) + 4 * length (filter (\<lambda>b. b = 0) data)"
  shows "IntrinsicGas data creation homestead =
    (if total_gas < 2 ^ 64 then Inr (of_nat total_gas) else Inl (vm_tx_error ErrOutOfGas))"
proof (cases "data = []")
  case True
  then show ?thesis by (simp add: IntrinsicGas_def total_gas_def params)
next
  case False
  let ?nz = "length (filter (\<lambda>b. b \<noteq> 0) data)" and ?z = "length (filter (\<lambda>b. b = 0) data)"
  define base :: uint64 where "base = (if creation \<and> homestead then TxGasContractCreation else TxGas)"
  define nz where "nz = count_nonzero data"
  define z where "z = of_nat (length data) - nz"
  have base: "unat base = (if creation \<and> homestead then 53000 else 21000)" by (simp add: base_def params)
  have nz: "unat nz = ?nz" unfolding nz_def by (rule count_nonzero_eq[OF assms(1)])
  have sum: "?nz + ?z = length data" using sum_length_filter_compl[of "\<lambda>b. b \<noteq> 0" data] by simp
  have "unat z = ?z"
    using sum assms(1) nz unat_of_nat_64[OF assms(1)] by (simp add: z_def unat_sub word_le_nat_alt)
  note z = this
  have k: "0 < unat TxDataNonZeroGas" "0 < unat TxDataZeroGas" "unat TxDataNonZeroGas = 68" "unat TxDataZeroGas = 4"
    by (simp_all add: params)
  have eq: "IntrinsicGas data creation homestead =
      (if (MaxUint64 - base) div TxDataNonZeroGas < nz then Inl (vm_tx_error ErrOutOfGas)
       else if (MaxUint64 - (base + nz * TxDataNonZeroGas)) div TxDataZeroGas < z then Inl (vm_tx_error ErrOutOfGas)
       else Inr (base + nz * TxDataNonZeroGas + z * TxDataZeroGas))"
    using False by (simp add: IntrinsicGas_def Let_def base_def[symmetric] nz_def[symmetric] z_def[symmetric])
  have total: "total_gas = unat base + unat nz * 68 + unat z * 4" by (simp add: total_gas_def base nz z)
  show ?thesis
  proof (cases "unat base + unat nz * 68 < 2 ^ 64")
    case False
    then show ?thesis using overflow_check(1)[OF k(1), of base nz] by (simp add: eq k(3) total)
  next
    case True
    then have "unat (base + nz * TxDataNonZeroGas) = unat base + unat nz * 68"
      using overflow_check(2)[OF k(1), of base nz] by (simp add: k(3))
    then have two: "(MaxUint64 - (base + nz * TxDataNonZeroGas)) div TxDataZeroGas < z \<longleftrightarrow> 2 ^ 64 \<le> total_gas"
      "total_gas < 2 ^ 64 \<Longrightarrow> unat (base + nz * TxDataNonZeroGas + z * TxDataZeroGas) = total_gas"
      using overflow_check[OF k(2), of "base + nz * TxDataNonZeroGas" z] by (simp_all add: k(4) total)
    then have "base + nz * TxDataNonZeroGas + z * TxDataZeroGas = of_nat total_gas" if "total_gas < 2 ^ 64"
      using that unat_of_nat_64[OF that] by (simp add: word_unat_eq_iff)
    then show ?thesis using overflow_check(1)[OF k(1), of base nz] True two(1) by (auto simp: eq k(3))
  qed
qed

theorem IntrinsicGas_exact_witness: "IntrinsicGas [1, 0, 2, 3] False True = Inr 21208"
  using IntrinsicGas_exact[of "[1, 0, 2, 3]" False True] by simp

section \<open>Plain transfers\<close>

text \<open>Operations on the state that change balances only: \<open>d\<close> is what every balance gains.\<close>

definition moves :: "(address \<Rightarrow> int) \<Rightarrow> state_view \<Rightarrow> state_view \<Rightarrow> bool" where
  "moves d v v' \<longleftrightarrow> (\<forall>a. bal a v' = bal a v + d a \<and> nonce_of a v' = nonce_of a v \<and>
     nil_bytes (code_of a v') = nil_bytes (code_of a v)) \<and> v_refund v' = v_refund v"

lemma moves_refl: "moves (\<lambda>_. 0) v v"
  by (simp add: moves_def)

lemma moves_trans: "moves d u v \<Longrightarrow> moves e v w \<Longrightarrow> moves (\<lambda>a. d a + e a) u w"
  by (simp add: moves_def)

lemma moves_on_acct:
  "moves (\<lambda>b. if b = a then x else 0) v (on_acct db a (\<lambda>w. w\<lparr> av_balance := av_balance w + x \<rparr>) v)"
  by (auto simp: moves_def on_acct_def acct_or_new_def bal_def nonce_of_def code_of_def nil_bytes_def split: option.split)

lemma moves_AddBalance:
  "good s \<Longrightarrow> moves (\<lambda>b. if b = a then x else 0) (abs_state s) (abs_state (AddBalance a x s))"
  "good s \<Longrightarrow> moves (\<lambda>b. if b = a then - x else 0) (abs_state s) (abs_state (SubBalance a x s))"
  using moves_on_acct[of a x] moves_on_acct[of a "- x"] by (simp_all add: AddBalance_effect SubBalance_effect)

lemma moves_Transfer:
  assumes "good s"
  shows "moves (\<lambda>a. (if a = p then - x else 0) + (if a = r then x else 0)) (abs_state s) (abs_state (Transfer p r x s))"
proof -
  have "good (SubBalance p x s)" using SubBalance_effect(1)[OF assms] ext_good by blast
  then show ?thesis unfolding Transfer_def by (intro moves_trans[OF moves_AddBalance(2)[OF assms] moves_AddBalance(1)])
qed

lemma moves_CreateAccount:
  assumes "good s" "acct a (abs_state s) = None"
  shows "moves (\<lambda>_. 0) (abs_state s) (abs_state (CreateAccount a s))"
  using assms by (auto simp: moves_def CreateAccount_effect bal_upd_acct nonce_of_def code_of_def nil_bytes_def bal_def split: option.split)

text \<open>Running a contract without code does nothing.\<close>

lemma run_no_code:
  assumes "c_CodeAddr c = Some a" "precompiles evm a = None" "c_Code c = []"
  shows "run fuel evm c input = Some (evm\<lparr> evm_returnData := [] \<rparr>, c, [], None)"
  using assms by (simp add: run_def run_contract_def Interpreter_Run_def Let_def)

lemma load_code_empty:
  assumes "evm_ok evm" "nil_bytes (code_of a (abs_state (evm_StateDB evm))) = []"
  obtains c' evm' where "load_code a c evm = (c', evm')" "c_Code c' = []" "c_CodeAddr c' = Some a" "c_Gas c' = c_Gas c"
    "abs_state (evm_StateDB evm') = abs_state (evm_StateDB evm)" "precompiles evm' = precompiles evm"
proof -
  let ?s = "evm_StateDB evm"
  have q: "quiet ?s (snd (GetCodeHash a ?s))" by (rule quiet_simple_getters)
  have "wf_state ?s" using assms(1) by (intro sdb_ok_wf evm_ok_sdb)
  then have "wf_state (snd (GetCodeHash a ?s))" using q by (simp add: quiet_def)
  from quiet_GetCode[OF this, of a] have "abs_state (snd (GetCode a (snd (GetCodeHash a ?s)))) = abs_state ?s"
    using q by (simp add: quiet_def)
  then show thesis
    using that[of "fst (load_code a c evm)" "snd (load_code a c evm)"] assms(2) q
    by (simp add: load_code_def case_prod_beta SetCallCode_def evm_read_eq GetCode_view quiet_def precompiles_def
        evm_BlockNumber_def)
qed

lemma evm_write_simps:
  "evm_StateDB (evm_write g evm) = g (evm_StateDB evm)" "precompiles (evm_write g evm) = precompiles evm"
  by (simp_all add: evm_write_def precompiles_def evm_BlockNumber_def fun_eq_iff)

lemma precompiles_env: "same_env evm evm' \<Longrightarrow> precompiles evm' = precompiles evm"
  by (simp add: precompiles_def same_env_def evm_BlockNumber_def)

lemma EVM_Call_plain:
  assumes "evm_ok evm" "evm_depth evm = 0" "\<not> read_only evm" "is_word val" "val \<le> bal (ref_Address caller) (abs_state (evm_StateDB evm))"
    and "nil_bytes (code_of addr (abs_state (evm_StateDB evm))) = []" "precompiles evm addr = None" "small_gas gas"
  shows "\<exists>evm'. EVM_Call (run fuel) caller addr input gas val evm = Some (evm', [], gas, None) \<and>
    moves (\<lambda>a. (if a = ref_Address caller then - val else 0) + (if a = addr then val else 0))
      (abs_state (evm_StateDB evm)) (abs_state (evm_StateDB evm'))"
proof -
  let ?me = "ref_Address caller"
  let ?d = "\<lambda>a. (if a = ?me then - val else 0) + (if a = addr then val else 0)"
  obtain evm1 where e1: "evm_read (CanTransfer ?me val) evm = (True, evm1)" "evm_advance evm evm1"
    "abs_state (evm_StateDB evm1) = abs_state (evm_StateDB evm)"
    using CanTransfer_ok[OF assms(1), of ?me val] assms(5) by metis
  have ok1: "evm_ok evm1" using e1(2) by (rule evm_advance_ok)
  define evm2 where "evm2 = evm1\<lparr> evm_StateDB := snd (Snapshot (evm_StateDB evm1)) \<rparr>"
  have adv2: "evm_advance evm1 evm2" unfolding evm2_def by (rule snapshot_revert(1)[OF ok1 refl])
  have abs2: "abs_state (evm_StateDB evm2) = abs_state (evm_StateDB evm)"
    using sdb_journal.snap_steps[of "evm_StateDB evm1"] sdb_ok_good[OF evm_ok_sdb[OF ok1]] e1(3) by (simp add: evm2_def)
  obtain ex evm3 where ex: "evm_read (Exist addr) evm2 = (ex, evm3)" by (cases "evm_read (Exist addr) evm2")
  have adv3: "evm_advance evm2 evm3" using evm_advance_getters(1)[OF evm_advance_ok[OF adv2], of addr] ex by simp
  have abs3: "abs_state (evm_StateDB evm3) = abs_state (evm_StateDB evm)"
    "\<not> ex \<Longrightarrow> acct addr (abs_state (evm_StateDB evm3)) = None"
    using ex abs2 Exist_none[of addr "evm_StateDB evm2"] quiet_simple_getters(1)[of "evm_StateDB evm2" addr]
    by (auto simp: evm_read_eq quiet_def)
  have adv: "evm_advance evm evm3" using e1(2) adv2 adv3 evm_advance_trans by blast
  define evm4 where "evm4 = evm_write (Transfer ?me addr val) (if \<not> ex then evm_write (CreateAccount addr) evm3 else evm3)"
  have adv4: "evm_advance evm3 evm4"
    unfolding evm4_def using assms(3-5) abs3 evm_advance_ok[OF adv3] evm_advance_read_only[OF adv]
    by (intro prepare_callee) (auto simp: is_word_def)
  let ?evm3 = "if \<not> ex then evm_write (CreateAccount addr) evm3 else evm3"
  have good3: "good (evm_StateDB evm3)" using evm_advance_ok[OF adv3] by (intro sdb_ok_good evm_ok_sdb)
  have c3: "moves (\<lambda>_. 0) (abs_state (evm_StateDB evm)) (abs_state (evm_StateDB ?evm3))" "good (evm_StateDB ?evm3)"
    using moves_CreateAccount[OF good3 abs3(2)] abs3(1) moves_refl good3 CreateAccount_effect(1)[OF good3, of addr] ext_good
    by (auto simp: evm_write_simps)
  have m4: "moves ?d (abs_state (evm_StateDB evm)) (abs_state (evm_StateDB evm4))"
    using moves_trans[OF c3(1) moves_Transfer[OF c3(2), of ?me val addr]] by (simp add: evm4_def evm_write_simps)
  obtain c5 evm5 where c5: "contract_for caller addr val gas evm4 = (c5, evm5)" "evm_advance evm4 evm5" "c_Gas c5 = gas"
    using contract_for_ok[OF evm_advance_ok[OF adv4] assms(4,8), of caller addr] by blast
  have s5: "evm_StateDB evm5 = evm_StateDB evm4" using c5(1) by (auto simp: contract_for_def case_prod_beta)
  have "precompiles evm5 addr = None"
    using assms(7) precompiles_env adv adv4 c5(2) by (metis evm_advance_def)
  moreover have "nil_bytes (code_of addr (abs_state (evm_StateDB evm5))) = []" using m4 assms(6) by (simp add: moves_def s5)
  then obtain c6 evm6 where c6: "load_code addr c5 evm5 = (c6, evm6)" "c_Code c6 = []" "c_CodeAddr c6 = Some addr"
    "c_Gas c6 = c_Gas c5" "abs_state (evm_StateDB evm6) = abs_state (evm_StateDB evm5)" "precompiles evm6 = precompiles evm5"
    by (rule load_code_empty[OF evm_advance_ok[OF c5(2)], of addr c5])
  ultimately have "run fuel evm6 c6 input = Some (evm6\<lparr> evm_returnData := [] \<rparr>, c6, [], None)" by (intro run_no_code) simp_all
  moreover have "moves ?d (abs_state (evm_StateDB evm)) (abs_state (evm_StateDB evm3))" if "val = 0"
    using that abs3(1) by (simp add: moves_def)
  ultimately show ?thesis
    using assms(2) e1 ex c5 c6 m4 unfolding EVM_Call_def
    by (simp add: evm_read_eq[of Snapshot] evm2_def[symmetric] evm4_def[symmetric] settle_def s5 CallCreateDepth_def)
qed

lemma buyGas_moves:
  assumes "start_ok st" "preCheck st = (None, st1)"
  shows "moves (\<lambda>a. if a = msg_From (st_msg st) then - (uint (msg_Gas (st_msg st)) * msg_GasPrice (st_msg st)) else 0)
    (abs_state (evm_StateDB (st_evm st))) (abs_state (evm_StateDB (st_evm st1)))"
proof -
  let ?x = "uint (msg_Gas (st_msg st)) * msg_GasPrice (st_msg st)" and ?p = "msg_From (st_msg st)"
  have buy: "moves (\<lambda>a. if a = ?p then - ?x else 0) (abs_state (evm_StateDB (st_evm st2))) (abs_state (evm_StateDB (st_evm st1)))"
    if b: "buyGas st2 = (None, st1)" "st_msg st2 = st_msg st" "evm_ok (st_evm st2)" for st2
  proof -
    let ?s = "snd (GetBalance ?p (evm_StateDB (st_evm st2)))"
    have q: "quiet (evm_StateDB (st_evm st2)) ?s" by (rule quiet_simple_getters)
    have "good ?s" using advance_ok[OF advance_getters(3)[OF evm_ok_sdb[OF b(3)]]] sdb_ok_good by blast
    moreover have "evm_StateDB (st_evm st1) = SubBalance ?p ?x ?s"
      using b(1,2) by (auto simp: buyGas_def Let_def case_prod_beta evm_read_eq evm_write_def split: if_splits sum.splits)
    ultimately show ?thesis using moves_AddBalance(2)[of ?s ?p ?x] q by (simp add: quiet_def)
  qed
  let ?r = "evm_read (GetNonce ?p) (st_evm st)"
  have ok: "evm_ok (st_evm st)" "evm_ok (snd ?r)"
    using assms(1) evm_advance_ok[OF evm_advance_getters(4)] by (auto simp: start_ok_def)
  show ?thesis
  proof (cases "msg_CheckNonce (st_msg st)")
    case True
    then have "buyGas (st\<lparr> st_evm := snd ?r \<rparr>) = (None, st1)"
      using assms(2) by (simp add: preCheck_def Let_def case_prod_beta split: if_splits)
    from buy[OF this] ok show ?thesis using evm_reads_view(1)[of ?p "st_evm st"] by simp
  next
    case False
    then show ?thesis using assms(2) buy[of st] ok by (simp add: preCheck_def)
  qed
qed

lemma refundGas_moves:
  assumes "evm_ok (st_evm st1)" "GetRefund (evm_StateDB (st_evm st1)) = 0" "refundGas st1 = Some st2"
  shows "moves (\<lambda>a. if a = msg_From (st_msg st1) then uint (st_gas st1) * msg_GasPrice (st_msg st1) else 0)
    (abs_state (evm_StateDB (st_evm st1))) (abs_state (evm_StateDB (st_evm st2)))" "st_gas st2 = st_gas st1"
proof -
  have "good (evm_StateDB (st_evm st1))" using assms(1) by (intro sdb_ok_good evm_ok_sdb)
  then show "moves (\<lambda>a. if a = msg_From (st_msg st1) then uint (st_gas st1) * msg_GasPrice (st_msg st1) else 0)
      (abs_state (evm_StateDB (st_evm st1))) (abs_state (evm_StateDB (st_evm st2)))" "st_gas st2 = st_gas st1"
    using assms(2,3) moves_AddBalance(1)
    by (auto simp: refundGas_def Let_def evm_write_def word_gt_0 split: bind_splits if_splits)
qed

text \<open>Execution of a plain transfer: the nonce is incremented and the value moves.\<close>

lemma execute_plain:
  assumes "start_ok st" "ran st st2" "msg_To (st_msg st) = Some to" "evm_depth (st_evm st) = 0"
    and "msg_Value (st_msg st) \<le> bal (msg_From (st_msg st)) (abs_state (evm_StateDB (st_evm st2)))"
    and "nil_bytes (code_of to (abs_state (evm_StateDB (st_evm st2)))) = []" "precompiles (st_evm st) to = None"
  defines "p \<equiv> msg_From (st_msg st)" and "x \<equiv> msg_Value (st_msg st)"
  obtains st3 where "execute_msg fuel st2 = Some (st3, [], None)" "st_gas st3 = st_gas st2"
    "moves (\<lambda>a. (if a = p then - x else 0) + (if a = to then x else 0)) (bump_nonce (st_evm st2) p) (abs_state (evm_StateDB (st_evm st3)))"
proof -
  let ?evm = "st_evm st2"
  have same: "st_msg st2 = st_msg st" "same_env (st_evm st) ?evm" "evm_ok ?evm" using assms(2) by (auto simp: ran_def)
  have ro: "\<not> read_only ?evm" using assms(1) same by (auto simp: start_ok_def read_only_def same_env_def)
  define r where "r = evm_read (GetNonce p) ?evm"
  define evm1 where "evm1 = evm_write (SetNonce p (fst r + 1)) (snd r)"
  note bump = bump_nonce_ok[OF same(3) ro r_def, folded evm1_def]
  have db: "db_ok (sdb_db (evm_StateDB ?evm))" using same(3) by (simp add: evm_ok_def sdb_ok_def)
  have env: "same_env (st_evm st) evm1" using bump(1) same(2) by (auto simp: evm_advance_def same_env_def)
  have "is_word x" "small_gas (st_gas st2)"
    using assms(1,2) small_gas_le[of "st_gas st2" "msg_Gas (st_msg st)"] by (auto simp: start_ok_def msg_ok_def ran_def x_def)
  moreover have "x \<le> bal p (abs_state (evm_StateDB evm1))" using assms(5) bump(2,3) by (simp add: x_def p_def)
  moreover have "nil_bytes (code_of to (abs_state (evm_StateDB evm1))) = []"
    using assms(6) by (simp add: bump(2) bump_nonce_getters(2)[OF db])
  moreover have "evm_depth evm1 = 0" "precompiles evm1 to = None" "\<not> read_only evm1"
    using env assms(4,7) precompiles_env[OF env] ro evm_advance_read_only[OF bump(1)] by (auto simp: same_env_def)
  ultimately obtain evm' where "EVM_Call (run fuel) (AccountRef p) to (msg_Data (st_msg st)) (st_gas st2) x evm1 = Some (evm', [], st_gas st2, None)"
    "moves (\<lambda>a. (if a = p then - x else 0) + (if a = to then x else 0)) (abs_state (evm_StateDB evm1)) (abs_state (evm_StateDB evm'))"
    using EVM_Call_plain[OF evm_advance_ok[OF bump(1)], of x "AccountRef p" to "st_gas st2" fuel "msg_Data (st_msg st)"] by auto
  then show thesis
    using assms(3) same(1)
    by (intro that[of "st2\<lparr> st_evm := evm', st_gas := st_gas st2 \<rparr>"])
      (simp_all add: execute_msg_def Let_def case_prod_beta st_to_def r_def evm1_def p_def x_def bump(2)[unfolded evm1_def r_def p_def])
qed

lemma bump_nonce_increments: "nonce_of p (bump_nonce evm p) = nonce_of p (abs_state (evm_StateDB evm)) + 1"
  by (simp add: bump_nonce_def on_acct_def nonce_of_def)

text \<open>C6: A message that sends ether to an account without code, which is not a precompiled contract, does exactly what
  it should. The message passes the checks before the execution, its gas limit is below \<open>2\<^sup>6\<^sup>2\<close> and covers the
  intrinsic gas \<open>g\<close> of its data, the sender can pay the value in addition to the gas limit, and it is
  executed at depth zero with the refund counter at zero, as at the start of a transaction. Then it uses
  exactly \<open>g\<close> gas, which is 21000 if it has no data, and does not fail; the recipient gets the value, the sender pays
  the value and the fee, the coinbase gets the fee, every other balance is unchanged, the nonce of the sender
  is incremented and the pool is reduced by \<open>g\<close>.\<close>

theorem plain_transfer:
  fixes st :: "'t StateTransition"
  defines "s \<equiv> evm_StateDB (st_evm st)" and "msg \<equiv> st_msg st"
  assumes start: "start_wf st" "unat (msg_Gas msg) < 2 ^ 62" "fst (preCheck st) = None" "msg_To msg = Some to"
    and intrinsic: "IntrinsicGas (msg_Data msg) False (IsHomestead (evm_chainConfig (st_evm st)) (evm_BlockNumber (st_evm st))) = Inr g"
      "g \<le> msg_Gas msg"
    and funds: "uint (msg_Gas msg) * msg_GasPrice msg + msg_Value msg \<le> fst (GetBalance (msg_From msg) s)"
    and plain: "fst (GetCode to s) = None" "precompiles (st_evm st) to = None" "GetRefund s = 0" "evm_depth (st_evm st) = 0"
    and fuel: "unat (msg_Gas msg) < fuel"
  shows "(msg_Data msg = [] \<longrightarrow> g = 21000) \<and>
    (\<exists>st'. TransitionDb fuel st = Some (st', Inr ([], g, False)) \<and> st_gp st' = st_gp st - g \<and>
    fst (GetNonce (msg_From msg) (evm_StateDB (st_evm st'))) = fst (GetNonce (msg_From msg) s) + 1 \<and>
    (\<forall>a. fst (GetBalance a (evm_StateDB (st_evm st'))) = fst (GetBalance a s)
        - (if a = msg_From msg then msg_Value msg + uint g * msg_GasPrice msg else 0)
        + (if a = to then msg_Value msg else 0)
        + (if a = ctx_Coinbase (evm_ctx (st_evm st)) then uint g * msg_GasPrice msg else 0)))"
proof
  show "msg_Data msg = [] \<longrightarrow> g = 21000" using intrinsic(1) by (auto simp: IntrinsicGas_def params)
  let ?p = "msg_From msg" and ?x = "msg_Value msg" and ?price = "msg_GasPrice msg" and ?gas = "msg_Gas msg"
  let ?v = "\<lambda>st. abs_state (evm_StateDB (st_evm st))" and ?cb = "ctx_Coinbase (evm_ctx (st_evm st))"
  have ok: "start_ok st" using start(1,2) by (simp add: start_ok_iff msg_def)
  obtain st1 where pre: "preCheck st = (None, st1)" using start(3) by (metis prod.collapse)
  have bought: "bought st st1" using preCheck_ok[OF ok pre] by simp
  note m1 = buyGas_moves[OF ok pre, folded msg_def]
  define st2 where "st2 = st1\<lparr> st_gas := ?gas - g \<rparr>"
  have use: "useGas g st1 = Inr st2"
    using bought intrinsic(2) by (auto simp: useGas_def bought_def msg_def st2_def)
  have ran2: "ran st st2" by (rule useGas_ran[OF bought_ran[OF bought] use])
  have "?x \<le> bal ?p (?v st2)" using m1 funds by (simp add: moves_def st2_def GetBalance_view s_def)
  moreover have "nil_bytes (code_of to (?v st2)) = []"
    using m1 plain(1) by (simp add: moves_def st2_def GetCode_view s_def nil_bytes_def)
  ultimately obtain st3 where x: "execute_msg fuel st2 = Some (st3, [], None)" "st_gas st3 = ?gas - g"
    "moves (\<lambda>a. (if a = ?p then - ?x else 0) + (if a = to then ?x else 0)) (bump_nonce (st_evm st2) ?p) (?v st3)"
    using execute_plain[OF ok ran2 start(4)[unfolded msg_def] plain(4) _ _ plain(2), folded msg_def, where fuel = fuel]
    by (auto simp: st2_def)
  have ran3: "ran st st3" using execute_msg_ok[OF ok ran2, of fuel] fuel x(1) by (simp add: msg_def)
  obtain st4 where r: "refundGas st3 = Some st4" "refunded st st4"
    using refundGas_ok[OF ok ran3] by (auto simp: yields_def)
  have "v_refund (bump_nonce (st_evm st2) ?p) = v_refund (?v st)"
    using m1 by (simp add: bump_nonce_def on_acct_def moves_def st2_def)
  then have "GetRefund (evm_StateDB (st_evm st3)) = 0"
    using x(3) plain(3) by (simp add: moves_def abs_state_def GetRefund_def s_def)
  note m4 = refundGas_moves[OF _ this r(1)]
  have same: "st_msg st3 = msg" "st_msg st4 = msg" "evm_ok (st_evm st3)" "evm_ok (st_evm st4)" "gasUsed st4 = g"
    "evm_ctx (st_evm st4) = evm_ctx (st_evm st)" "st_gp st4 = st_gp st - gasUsed st4" "st_msg st1 = msg" "evm_ok (st_evm st2)"
    "same_env (st_evm st) (st_evm st1)"
    using ran3 r(2) ran2 bought m4(2) x(2) by (auto simp: ran_def refunded_def msg_def gasUsed_def same_env_def bought_def)
  define fee where "fee = uint g * ?price"
  let ?st5 = "st4\<lparr> st_evm := evm_write (AddBalance ?cb fee) (st_evm st4) \<rparr>"
  have "TransitionDb fuel st = Some (?st5, Inr ([], g, False))"
    using start(4) pre use x(1) r(1) same intrinsic(1)
    by (simp add: TransitionDb_def Let_def fee_def same_env_def evm_BlockNumber_def)
  moreover have m5: "moves (\<lambda>a. if a = ?cb then fee else 0) (?v st4) (?v ?st5)"
    using moves_AddBalance(1)[OF sdb_ok_good[OF evm_ok_sdb[OF same(4)]], of ?cb fee] by (simp add: evm_write_simps)
  have db: "db_ok (sdb_db (evm_StateDB (st_evm st2)))" using same(9) by (simp add: evm_ok_def sdb_ok_def)
  have split: "uint (?gas - g) * ?price = uint ?gas * ?price - fee"
    using gas_split[of "?gas - g" ?gas ?price] intrinsic(2) word_sub_le[OF intrinsic(2)] by (simp add: fee_def)
  have "bal a (?v ?st5) = bal a (?v st) - (if a = ?p then ?x + fee else 0) + (if a = to then ?x else 0) + (if a = ?cb then fee else 0)" for a
    using m1 x(3) m4(1)[OF same(3)] m5 bump_nonce_getters(1)[OF db, of a ?p] same(1) x(2) split
    by (simp add: moves_def st2_def)
  moreover have "nonce_of ?p (?v ?st5) = nonce_of ?p (?v st) + 1"
    using m1 x(3) m4(1)[OF same(3)] m5 bump_nonce_increments[of ?p "st_evm st2"] by (simp add: moves_def st2_def)
  ultimately show "\<exists>st'. TransitionDb fuel st = Some (st', Inr ([], g, False)) \<and> st_gp st' = st_gp st - g \<and>
    fst (GetNonce (msg_From msg) (evm_StateDB (st_evm st'))) = fst (GetNonce (msg_From msg) s) + 1 \<and>
    (\<forall>a. fst (GetBalance a (evm_StateDB (st_evm st'))) = fst (GetBalance a s)
        - (if a = msg_From msg then msg_Value msg + uint g * msg_GasPrice msg else 0)
        + (if a = to then msg_Value msg else 0)
        + (if a = ctx_Coinbase (evm_ctx (st_evm st)) then uint g * msg_GasPrice msg else 0))"
    by (intro exI[of _ ?st5]) (simp add: same(5,7) GetBalance_view GetNonce_view s_def fee_def)
qed

text \<open>The account 7 sends 5 to the account 11.\<close>

lemma example_views:
  "fst (GetBalance 7 example_state) = 1000" "fst (GetNonce 7 example_state) = 0" "fst (GetCode 11 example_state) = None"
  "GetRefund example_state = 0"
proof -
  let ?s = "memory_state\<lparr> sdb_db := example_db \<rparr>"
  let ?t = "AddBalance 7 1000 ?s"
  have g: "good ?s" "good ?t" using sdb_ok_good[OF sdb_ok_empty] AddBalance_effect(1)[of ?s 7 1000] ext_good by blast+
  have none: "acct a (abs_state ?s) = None" for a by (simp add: acct_abs lookup_def trie_object_def)
  note eff = AddBalance_effect(2)[OF g(1), of 7 1000] SetCode_effect(2)[OF g(2), of 9 "Some example_code"]
  have "v_refund (abs_state example_state) = 0"
    unfolding example_state_def eff by (simp add: on_acct_def abs_state_def[of ?s])
  then show "GetRefund example_state = 0" by (simp add: abs_state_def GetRefund_def)
  show "fst (GetBalance 7 example_state) = 1000" "fst (GetNonce 7 example_state) = 0" "fst (GetCode 11 example_state) = None"
    unfolding GetBalance_view GetNonce_view GetCode_view example_state_def eff
    by (simp_all add: on_acct_def bal_def nonce_of_def code_of_def acct_or_new_def none)
qed

theorem plain_transfer_witness:
  "\<exists>st'. TransitionDb 60001 (NewStateTransition example_evm (example_msg\<lparr> msg_To := Some 11 \<rparr>) 8000000) = Some (st', Inr ([], 21000, False)) \<and>
     fst (GetBalance 7 (evm_StateDB (st_evm st'))) = 995 \<and> fst (GetBalance 11 (evm_StateDB (st_evm st'))) = fst (GetBalance 11 example_state) + 5"
proof -
  let ?st = "NewStateTransition example_evm (example_msg\<lparr> msg_To := Some 11 \<rparr>) 8000000"
  have start: "start_ok ?st"
    by (simp add: start_ok_def msg_ok_def NewStateTransition_def example_msg_def is_word_def tt256_def small_gas_def)
  have "snd (evm_read (GetNonce 7) example_evm) = example_evm\<lparr> evm_StateDB := snd (GetNonce 7 example_state) \<rparr>" by (simp add: evm_read_eq)
  moreover have "fst (GetBalance 7 (snd (GetNonce 7 example_state))) = 1000"
    using example_views(1) quiet_simple_getters(4)[of example_state 7] by (simp add: GetBalance_view quiet_def)
  ultimately have pre: "fst (preCheck ?st) = None"
    using example_views by (simp add: preCheck_def buyGas_def NewStateTransition_def example_msg_def Let_def case_prod_beta SubGas_def evm_read_eq)
  have "precompiles example_evm 11 = None" by (simp add: precompiles_def PrecompiledContractsByzantium_def PrecompiledContractsHomestead_def
        BytesToAddress_eq SetBytes_def)
  with plain_transfer[of ?st 11 21000 60001] start pre show ?thesis
    using example_views by (auto simp: start_ok_iff NewStateTransition_def example_msg_def IntrinsicGas_def params)
qed

end
