(* ===== verification/RLP_RoundTrip.thy ===== *)
theory RLP_RoundTrip
  imports RLP_Decode
begin

text \<open>The decoder of \<open>rlp/decode.go\<close> inverts the encoder of \<open>rlp/encode.go\<close>. The lemmas follow the layers
  of the decoder: reading bytes with \<open>willRead\<close>, the header of the next value with \<open>Kind\<close>, the decoders of
  strings and integers, the loops over lists and struct fields, and last \<open>makeDecoder\<close> by induction on the
  type. \<open>room k s\<close> says that the limits of the stream and of the innermost list allow \<open>k\<close> more bytes,
  \<open>done_with k r s s'\<close> that \<open>k\<close> bytes have been consumed and \<open>r\<close> is left.\<close>

section \<open>Reading bytes\<close>

definition room :: "nat \<Rightarrow> Stream \<Rightarrow> bool" where
  "room k s \<longleftrightarrow> st_limited s \<and> k \<le> unat (st_remaining s) \<and>
     (case st_stack s of [] \<Rightarrow> True | (pos, sz) # _ \<Rightarrow> k \<le> unat (sz - pos))"

definition past :: "nat \<Rightarrow> (uint64 \<times> uint64) list \<Rightarrow> (uint64 \<times> uint64) list" where
  "past k stack = (case stack of [] \<Rightarrow> [] | (pos, sz) # rest \<Rightarrow> (pos + of_nat k, sz) # rest)"

definition took :: "nat \<Rightarrow> bytes \<Rightarrow> Stream \<Rightarrow> Stream" where
  "took k r s = s\<lparr> st_r := r, st_remaining := st_remaining s - of_nat k, st_kind := None,
     st_stack := past k (st_stack s) \<rparr>"

lemma past_past [simp]: "past k (past j stack) = past (j + k) stack"
  by (simp add: past_def algebra_simps split: list.split)

lemma took_took [simp]: "took k r (took j r' s) = took (j + k) r s"
  by (simp add: took_def algebra_simps)

lemma took_simps [simp]:
  "st_r (took k r s) = r" "st_limited (took k r s) = st_limited s" "st_kind (took k r s) = None"
  "st_byteval (took k r s) = st_byteval s" "st_stack (took k r s) = past k (st_stack s)"
  by (simp_all add: took_def)

lemma unat_diff_of_nat: "j \<le> unat (x :: uint64) \<Longrightarrow> unat (x - of_nat j) = unat x - j"
proof -
  assume j: "j \<le> unat x"
  then have "j < 2 ^ 64" using unsigned_less[of x, where 'a = nat] by simp
  then have "unat (of_nat j :: uint64) = j" by (rule unat_of_nat_64)
  with j show ?thesis by (simp add: unat_sub word_le_nat_alt)
qed

lemma room_took:
  assumes "room (j + k) s"
  shows "room k (took j r s)"
proof -
  have "unat (sz - (pos + of_nat j)) = unat (sz - pos) - j" if "j \<le> unat (sz - pos)" for sz pos :: uint64
    using unat_diff_of_nat[OF that] by (simp add: algebra_simps)
  with assms show ?thesis
    by (auto simp: room_def took_def past_def unat_diff_of_nat split: list.splits)
qed

lemma room_le: "room k s \<Longrightarrow> j \<le> k \<Longrightarrow> room j s"
  by (auto simp: room_def split: list.splits)

lemma room_bound: "room k s \<Longrightarrow> k < 2 ^ 64"
  using unsigned_less[of "st_remaining s", where 'a = nat] by (simp add: room_def)

lemma willRead_room:
  assumes "room k s"
  shows "willRead (of_nat k) s = (took k (st_r s) s, None)"
proof -
  have k: "unat (of_nat k :: uint64) = k" using room_bound[OF assms] by (rule unat_of_nat_64)
  show ?thesis using assms
    by (auto simp: willRead_def room_def took_def past_def word_less_nat_alt k Let_def split: list.splits)
qed

lemma readByte_room: "room 1 s \<Longrightarrow> st_r s = b # r \<Longrightarrow> readByte s = (took 1 r s, Inr b)"
  using willRead_room[of 1 s] by (simp add: readByte_def) (simp add: took_def)

lemma readFull_room:
  assumes "room (length c) s" "st_r s = c @ r"
  shows "readFull (length c) s = (took (length c) r s, Inr c)"
  using willRead_room[OF assms(1)] assms(2) by (simp add: readFull_def) (simp add: took_def)

lemma readUint_room:
  assumes "room (length c) s" "st_r s = c @ r" "length c \<le> 8" "c \<noteq> []" "hd c \<noteq> 0"
  shows "readUint (of_nat (length c)) s = (took (length c) r s, Inr (word_of_int (SetBytes c)))"
proof -
  have l: "unat (of_nat (length c) :: byte) = length c"
    using assms(3) by (simp add: unsigned_of_nat take_bit_nat_eq_self)
  then have z: "(of_nat (length c) :: byte) \<noteq> 0" using assms(4) by (metis length_0_conv unsigned_0)
  show ?thesis
  proof (cases "length c = 1")
    case True
    then obtain b where c: "c = [b]" by (cases c) auto
    with assms have "readByte s = (took 1 r s, Inr b)" by (intro readByte_room) auto
    moreover have "SetBytes [b] = uint b" using SetBytes_Cons[of b "[]"] by simp
    moreover have "(ucast b :: uint64) = word_of_int (uint b)" by (rule ucast_eq)
    ultimately show ?thesis by (simp add: readUint_def c)
  next
    case False
    then have "(of_nat (length c) :: byte) \<noteq> 1" using l by (metis unsigned_1)
    with readFull_room[OF assms(1,2)] z l assms(4,5) show ?thesis
      by (simp add: readUint_def hd_conv_nth)
  qed
qed

text \<open>The header of the next value: \<open>body\<close> is what the stream holds behind it.\<close>

definition head_len :: "Kind \<Rightarrow> bytes \<Rightarrow> nat" where
  "head_len k c = (if k = KByte then 1 else length (raw_head k (length c)))"

definition body :: "Kind \<Rightarrow> bytes \<Rightarrow> bytes \<Rightarrow> bytes" where
  "body k c r = (if k = KByte then r else c @ r)"

definition body_len :: "Kind \<Rightarrow> bytes \<Rightarrow> nat" where
  "body_len k c = (if k = KByte then 0 else length c)"

lemma length_raw_enc: "kind_ok k c \<Longrightarrow> length (raw_enc k c) = head_len k c + body_len k c"
  by (auto simp: raw_enc_head head_len_def body_len_def)

lemma readKind_short:
  assumes "st_r s = (t + of_nat n) # r" "n < 56" "t = 0x80 \<and> k = KString \<or> t = 0xC0 \<and> k = KList" "room 1 s"
  shows "readKind s = ((took 1 r s)\<lparr> st_byteval := 0 \<rparr>, k, of_nat n, None)"
proof -
  have t: "unat (t + of_nat n) = unat t + n" using short_tag(2)[of n t] assms(2,3) by auto
  have "ucast (t + of_nat n - t :: byte) = (of_nat n :: uint64)" using assms(2) by (intro ucast_tag) simp
  then show ?thesis using assms(2,3) t readByte_room[OF assms(4,1)]
    by (auto simp: readKind_def word_less_nat_alt Let_def)
qed

lemma readKind_long:
  fixes n :: nat
  defines "B \<equiv> BigBytes (int n)"
  assumes "st_r s = (t + of_nat (length B)) # B @ r" "56 \<le> n" "n < 2 ^ 64"
    "t = 0xB7 \<and> k = KString \<or> t = 0xF7 \<and> k = KList" "room (1 + length B) s"
  shows "readKind s = ((took (1 + length B) r s)\<lparr> st_byteval := 0 \<rparr>, k, of_nat n, None)"
proof -
  note lt = long_tag[of n t, folded B_def, OF assms(3,4)]
  have t: "unat (t + of_nat (length B)) = unat t + length B" "1 \<le> length B" "length B \<le> 8"
    using lt assms(5) by auto
  let ?s = "(took 1 (B @ r) s)\<lparr> st_byteval := 0 \<rparr>"
  have rb: "readByte s = (took 1 (B @ r) s, Inr (t + of_nat (length B)))"
    using assms(2,6) room_le by (intro readByte_room) auto
  have "room (length B) (took 1 (B @ r) s)" using assms(6) by (rule room_took)
  then have rm: "room (length B) ?s" by (simp add: room_def took_def)
  have "SetBytes B = int n" unfolding B_def by (simp add: SetBytes_BigBytes)
  moreover have "hd B \<noteq> 0" unfolding B_def using assms(3) by (intro hd_BigBytes) simp
  ultimately have ru: "readUint (of_nat (length B)) ?s = (took (length B) r ?s, Inr (of_nat n))"
    using readUint_room[OF rm, of r] t by force
  have "\<not> (of_nat n :: uint64) < 56" using assms(3,4) by (simp add: word_less_nat_alt unat_of_nat_64)
  moreover have "took (length B) r ?s = (took (1 + length B) r s)\<lparr> st_byteval := 0 \<rparr>"
    by (simp add: took_def)
  ultimately show ?thesis using assms(5) t rb ru
    by (auto simp: readKind_def word_less_nat_alt Let_def)
qed

definition headed :: "Kind \<Rightarrow> bytes \<Rightarrow> bytes \<Rightarrow> Stream \<Rightarrow> Stream" where
  "headed k c r s = (took (head_len k c) (body k c r) s)\<lparr> st_kind := Some k,
     st_size := of_nat (body_len k c), st_kinderr := None, st_byteval := (if k = KByte then hd c else 0) \<rparr>"

lemma readKind_room:
  assumes "kind_ok k c" "st_r s = raw_enc k c @ r" "room (length (raw_enc k c)) s"
  shows "readKind s = ((took (head_len k c) (body k c r) s)\<lparr> st_byteval := (if k = KByte then hd c else 0) \<rparr>,
    k, of_nat (body_len k c), None)"
proof -
  have n: "length c < 2 ^ 64" using room_bound[OF assms(3)] assms(1) by (simp add: raw_enc_head)
  have r1: "room (head_len k c) s" using assms(3) by (rule room_le) (simp add: length_raw_enc[OF assms(1)])
  consider (b) "k = KByte" | (short) t l where "t = 0x80 \<and> k = KString \<or> t = 0xC0 \<and> k = KList"
      "raw_head k (length c) = rlp_head t l (length c)" "length c < 56"
    | (long) t l where "t = 0xB7 \<and> k = KString \<or> t = 0xF7 \<and> k = KList"
      "raw_head k (length c) = rlp_head l t (length c)" "56 \<le> length c"
    by (cases k; cases "length c < 56") (auto simp: not_less)
  then show ?thesis
  proof cases
    case b
    then obtain x where x: "c = [x]" "x < 0x80" using assms(1) by (cases c) auto
    then have "readByte s = (took 1 r s, Inr x)"
      using r1 b assms(2) by (intro readByte_room) (simp_all add: head_len_def rlp_string_def)
    then show ?thesis using b x by (simp add: readKind_def head_len_def body_def body_len_def Let_def)
  next
    case short
    have "st_r s = (t + of_nat (length c)) # c @ r"
      using assms(1,2) short by (simp add: raw_enc_head rlp_head_def)
    moreover have "head_len k c = 1" "k \<noteq> KByte" using short by (auto simp: head_len_def rlp_head_def)
    ultimately show ?thesis using readKind_short[OF _ short(3,1), of s "c @ r"] r1
      by (simp add: body_def body_len_def)
  next
    case long
    let ?B = "BigBytes (int (length c))"
    have "st_r s = (t + of_nat (length ?B)) # ?B @ c @ r"
      using assms(1,2) long by (simp add: raw_enc_head rlp_head_def)
    moreover have "head_len k c = 1 + length ?B" "k \<noteq> KByte" using long by (auto simp: head_len_def rlp_head_def)
    ultimately show ?thesis using readKind_long[OF _ long(3) n long(1), of s "c @ r"] r1
      by (simp add: body_def body_len_def)
  qed
qed

lemma head_len_pos: "kind_ok k c \<Longrightarrow> 0 < head_len k c"
  by (cases k) (auto simp: head_len_def rlp_head_def)

lemma room_not_end: "room (Suc k) s \<Longrightarrow> st_stack s = (pos, sz) # rest \<Longrightarrow> pos \<noteq> sz"
  by (auto simp: room_def)

lemma room_kinderr [simp]: "room k (s\<lparr> st_kinderr := e \<rparr>) = room k s"
  by (simp add: room_def)

lemma Stream_Kind_room:
  assumes "kind_ok k c" "st_kind s = None" "st_r s = raw_enc k c @ r" "room (length (raw_enc k c)) s"
  shows "Stream_Kind s = (headed k c r s, Inr (k, of_nat (body_len k c)))"
proof -
  let ?s = "s\<lparr> st_kinderr := None \<rparr>" and ?t = "took (head_len k c) (body k c r) s"
  obtain h where h: "head_len k c = Suc h" using head_len_pos[OF assms(1)] gr0_implies_Suc by blast
  have rk: "readKind ?s = ((took (head_len k c) (body k c r) ?s)\<lparr> st_byteval := (if k = KByte then hd c else 0) \<rparr>,
      k, of_nat (body_len k c), None)"
    using assms by (intro readKind_room) simp_all
  have room: "room (body_len k c) ?t" using assms(4) length_raw_enc[OF assms(1)] by (intro room_took) simp
  have n: "unat (of_nat (body_len k c) :: uint64) = body_len k c" using room_bound[OF room] by (rule unat_of_nat_64)
  have st: "\<not> (case st_stack s of [] \<Rightarrow> False | (pos, sz) # _ \<Rightarrow> pos = sz)"
    using room_not_end[of "h + body_len k c" s] assms(4) length_raw_enc[OF assms(1)] h by (auto split: list.split)
  show ?thesis
  proof (cases "st_stack s")
    case Nil
    with room n have "\<not> of_nat (body_len k c) > st_remaining s - of_nat (head_len k c)"
      by (simp add: room_def took_def word_less_nat_alt)
    then show ?thesis using assms(2) rk Nil
      by (simp add: Stream_Kind_def past_def) (auto simp: took_def headed_def past_def)
  next
    case (Cons top rest)
    then obtain pos sz where top: "st_stack s = (pos, sz) # rest" by (cases top) auto
    with room n have "\<not> of_nat (body_len k c) > sz - (pos + of_nat (head_len k c))"
      by (simp add: room_def took_def past_def word_less_nat_alt)
    moreover have "pos \<noteq> sz" using st top by simp
    ultimately show ?thesis using assms(2) rk top
      by (simp add: Stream_Kind_def past_def) (auto simp: took_def headed_def past_def)
  qed
qed

lemma Stream_Kind_headed [simp]:
  "Stream_Kind (headed k c r s) = (headed k c r s, Inr (k, of_nat (body_len k c)))"
  by (simp add: Stream_Kind_def headed_def)

definition done_with :: "nat \<Rightarrow> bytes \<Rightarrow> Stream \<Rightarrow> Stream \<Rightarrow> bool" where
  "done_with k r s s' \<longleftrightarrow> st_r s' = r \<and> st_kind s' = None \<and> st_limited s' = st_limited s \<and>
     st_remaining s' = st_remaining s - of_nat k \<and> st_stack s' = past k (st_stack s)"

lemma done_with_trans: "done_with j r' s s' \<Longrightarrow> done_with k r s' s'' \<Longrightarrow> done_with (j + k) r s s''"
  by (simp add: done_with_def algebra_simps)

lemma room_done:
  assumes "room (j + k) s" "done_with j r s s'"
  shows "room k s'"
  using room_took[OF assms(1), of r] assms(2) by (simp add: room_def done_with_def took_def)

lemma readFull_headed:
  assumes "kind_ok k c" "k \<noteq> KByte" "room (length (raw_enc k c)) s"
  shows "\<exists>s'. readFull (length c) (headed k c r s) = (s', Inr c) \<and> done_with (length (raw_enc k c)) r s s'"
proof -
  have len: "length (raw_enc k c) = head_len k c + length c"
    using length_raw_enc[OF assms(1)] assms(2) by (simp add: body_len_def)
  have "room (length c) (took (head_len k c) (body k c r) s)" using assms(3) len by (intro room_took) simp
  then have "room (length c) (headed k c r s)" by (simp add: room_def headed_def)
  then have "readFull (length c) (headed k c r s) = (took (length c) r (headed k c r s), Inr c)"
    using assms(2) by (intro readFull_room) (simp_all add: headed_def body_def)
  then show ?thesis by (simp add: len done_with_def headed_def took_def algebra_simps)
qed

definition string_kind :: "bytes \<Rightarrow> Kind" where
  "string_kind b = (if length b = 1 \<and> hd b < 0x80 then KByte else KString)"

lemma string_kind: "kind_ok (string_kind b) b" "raw_enc (string_kind b) b = rlp_string b" "string_kind b \<noteq> KList"
  by (auto simp: string_kind_def)

lemma Stream_Kind_string:
  "st_kind s = None \<Longrightarrow> st_r s = rlp_string b @ r \<Longrightarrow> room (length (rlp_string b)) s \<Longrightarrow>
   Stream_Kind s = (headed (string_kind b) b r s, Inr (string_kind b, of_nat (body_len (string_kind b) b)))"
  using Stream_Kind_room[of "string_kind b" b s r] by (simp add: string_kind)

lemma Stream_Bytes_headed:
  assumes "room (length (rlp_string b)) s"
  shows "\<exists>s'. Stream_Bytes (headed (string_kind b) b r s) = (s', Inr b) \<and> done_with (length (rlp_string b)) r s s'"
proof (cases "string_kind b")
  case KByte
  then obtain x where x: "b = [x]" "x < 0x80" by (cases b) (auto simp: string_kind_def split: if_splits)
  then show ?thesis using KByte
    by (simp add: Stream_Bytes_def) (simp add: headed_def done_with_def head_len_def body_def took_def rlp_string_def)
next
  case KString
  then have k: "kind_ok KString b" "raw_enc KString b = rlp_string b" using string_kind[of b] by simp_all
  obtain s' where s': "readFull (length b) (headed KString b r s) = (s', Inr b)" "done_with (length (rlp_string b)) r s s'"
    using readFull_headed[OF k(1), of s r] assms k(2) by auto
  have n: "length b < 2 ^ 64" using room_bound[OF assms] length_rlp_string[of b] by simp
  have "\<not> ((of_nat (length b) :: uint64) = 1 \<and> b ! 0 < 128)"
  proof
    assume "(of_nat (length b) :: uint64) = 1 \<and> b ! 0 < 128"
    then have "length b = 1" "b ! 0 < 128" using unat_of_nat_64[OF n] by auto
    with k(1) show False by (cases b) auto
  qed
  then show ?thesis using s' KString n
    by (simp add: Stream_Bytes_def) (simp add: body_len_def unat_of_nat_64)
next
  case KList
  then show ?thesis using string_kind(3) by blast
qed

lemma Stream_Bytes_room:
  assumes "st_kind s = None" "st_r s = rlp_string b @ r" "room (length (rlp_string b)) s"
  shows "\<exists>s'. Stream_Bytes s = (s', Inr b) \<and> done_with (length (rlp_string b)) r s s'"
proof -
  have "Stream_Bytes s = Stream_Bytes (headed (string_kind b) b r s)"
    using Stream_Kind_string[OF assms] by (simp add: Stream_Bytes_def)
  with Stream_Bytes_headed[OF assms(3)] show ?thesis by metis
qed

section \<open>Strings and integers\<close>

definition decodes :: "decoder \<Rightarrow> goval \<Rightarrow> bytes \<Rightarrow> bool" where
  "decodes d v E \<longleftrightarrow> (\<forall>s r. st_kind s = None \<longrightarrow> st_r s = E @ r \<longrightarrow> room (length E) s \<longrightarrow>
     (\<exists>s'. d s = Some (s', Inr v) \<and> done_with (length E) r s s'))"

lemma decodesI:
  assumes "\<And>s r. st_kind s = None \<Longrightarrow> st_r s = E @ r \<Longrightarrow> room (length E) s \<Longrightarrow>
    \<exists>s'. d s = Some (s', Inr v) \<and> done_with (length E) r s s'"
  shows "decodes d v E"
  using assms by (simp add: decodes_def)

lemma decodesD:
  assumes "decodes d v E" "st_kind s = None" "st_r s = E @ r" "room (length E) s"
  obtains s' where "d s = Some (s', Inr v)" "done_with (length E) r s s'"
  using assms by (auto simp: decodes_def)

lemma done_headed_byte:
  "done_with (length (rlp_string [x])) r s ((headed KByte [x] r s)\<lparr> st_kind := None \<rparr>)" if "x < 0x80"
  using that by (simp add: headed_def done_with_def head_len_def body_def took_def rlp_string_def)

lemma Stream_uint_room:
  assumes "st_kind s = None" "st_r s = rlp_string (BigBytes (uint i)) @ r"
    "room (length (rlp_string (BigBytes (uint i)))) s" "length (BigBytes (uint i)) \<le> maxbits div 8" "maxbits \<le> 64"
  shows "\<exists>s'. Stream_uint maxbits s = (s', Inr i) \<and> done_with (length (rlp_string (BigBytes (uint i)))) r s s'"
proof -
  let ?b = "BigBytes (uint i)"
  note K = Stream_Kind_string[OF assms(1-3)]
  consider (zero) "i = 0" | (small) "0 < uint i" "uint i < 128" | (big) "128 \<le> uint i"
    using uint_0_iff[of i] uint_ge_0[of i] by linarith
  then show ?thesis
  proof cases
    case zero
    have "string_kind [] = KString" by (simp add: string_kind_def)
    then show ?thesis using K zero by (simp add: Stream_uint_def body_len_def readUint_def)
        (simp add: headed_def done_with_def head_len_def body_def took_def rlp_head_def)
  next
    case small
    define x :: byte where "x = word_of_int (uint i)"
    have b: "?b = [x]" using BigBytes_ranges(1)[of "uint i"] small by (simp add: x_def be_bytes_numeral)
    have ux: "uint x = uint i" using small by (simp add: x_def unsigned_ucast_eq take_bit_int_eq_self)
    then have x: "x < 0x80" "x \<noteq> 0" "(ucast x :: uint64) = i" using small
      by (auto simp: word_less_def ucast_eq)
    then have "string_kind [x] = KByte" by (simp add: string_kind_def)
    then show ?thesis using K x done_headed_byte[OF x(1), of r s] unfolding b
      by (simp add: Stream_uint_def) (simp add: headed_def)
  next
    case big
    have h: "?b \<noteq> []" "hd ?b \<noteq> 0" using hd_BigBytes[of "uint i"] big by auto
    have l8: "length ?b \<le> 8" using assms(4,5) by simp
    have k: "string_kind ?b = KString"
    proof (rule ccontr)
      assume "string_kind ?b \<noteq> KString"
      then have "length ?b = 1" "hd ?b < 0x80" by (auto simp: string_kind_def split: if_splits)
      then obtain x where x: "?b = [x]" "x < 0x80" by (cases ?b) auto
      then have "uint x = uint i" using SetBytes_Cons[of x "[]"] SetBytes_BigBytes[of "uint i"] by simp
      then show False using x(2) big by (simp add: word_less_def)
    qed
    then have ok: "kind_ok KString ?b" "raw_enc KString ?b = rlp_string ?b" using string_kind[of ?b] by simp_all
    let ?h = "headed KString ?b r s"
    have "room (length ?b) (took (head_len KString ?b) (body KString ?b r) s)"
      using assms(3) length_raw_enc[OF ok(1)] ok(2) by (intro room_took) (simp add: body_len_def)
    then have "room (length ?b) ?h" by (simp add: room_def headed_def)
    then have ru: "readUint (of_nat (length ?b)) ?h = (took (length ?b) r ?h, Inr i)"
      using readUint_room[of ?b ?h r] h l8 by (simp add: headed_def body_def SetBytes_BigBytes)
    have n: "\<not> (of_nat (length ?b) :: uint64) > of_nat (maxbits div 8)"
      using assms(4,5) l8 by (simp add: word_less_nat_alt unat_of_nat_64)
    have u: "(ucast (of_nat (length ?b) :: uint64) :: byte) = of_nat (length ?b)"
      using l8 by (simp add: word_unat_eq_iff unsigned_ucast_eq unsigned_of_nat take_bit_nat_eq_self)
    have "\<not> i < 128" using big by (simp add: word_less_def)
    moreover have "done_with (length (rlp_string ?b)) r s (took (length ?b) r ?h)"
      using length_raw_enc[OF ok(1)] ok(2)
      by (simp add: done_with_def headed_def took_def body_len_def algebra_simps)
    ultimately show ?thesis using K k ru n u by (simp add: Stream_uint_def body_len_def)
  qed
qed

lemma decodes_uint:
  assumes "bits \<in> {8, 16, 32, 64}" "unat i < 2 ^ bits"
  shows "decodes (\<lambda>s. Some (decodeUint bits s)) (UintVal i) (rlp_string (BigBytes (uint i)))"
proof (rule decodesI)
  fix s r assume s: "st_kind s = None" "st_r s = rlp_string (BigBytes (uint i)) @ r"
    "room (length (rlp_string (BigBytes (uint i)))) s"
  have "uint i < 2 ^ bits" using assms(2) unfolding uint_nat by (metis of_nat_less_iff of_nat_numeral of_nat_power)
  then have "length (BigBytes (uint i)) \<le> bits div 8"
    using BitLen_le_iff[of "uint i" bits] assms(1) by (auto simp: BigBytes_def)
  then obtain s' where "Stream_uint bits s = (s', Inr i)" "done_with (length (rlp_string (BigBytes (uint i)))) r s s'"
    using Stream_uint_room[OF s, of bits] assms(1) by auto
  then show "\<exists>s'. Some (decodeUint bits s) = Some (s', Inr (UintVal i)) \<and>
      done_with (length (rlp_string (BigBytes (uint i)))) r s s'"
    by (simp add: decodeUint_def)
qed

lemma decodes_bool:
  "decodes (\<lambda>s. Some (decodeBool s)) (BoolVal b) (rlp_string (if b then [1] else []))"
proof (rule decodesI)
  let ?i = "if b then 1 else 0 :: uint64"
  have e: "BigBytes (uint ?i) = (if b then [1] else [])"
    using BigBytes_ranges(1)[of 1] by (simp add: be_bytes_numeral)
  fix s r assume s: "st_kind s = None" "st_r s = rlp_string (if b then [1] else []) @ r"
    "room (length (rlp_string (if b then [1] else []))) s"
  then obtain s' where "Stream_uint 8 s = (s', Inr ?i)" "done_with (length (rlp_string (if b then [1] else []))) r s s'"
    using Stream_uint_room[of s ?i r 8] unfolding e by (cases b) auto
  then show "\<exists>s'. Some (decodeBool s) = Some (s', Inr (BoolVal b)) \<and>
      done_with (length (rlp_string (if b then [1] else []))) r s s'"
    by (auto simp: decodeBool_def Stream_Bool_def split: if_splits)
qed

lemma decodes_string: "decodes (\<lambda>s. Some (decodeString s)) (StringVal b) (rlp_string b)"
  by (rule decodesI) (frule (2) Stream_Bytes_room, auto simp: decodeString_def)

lemma decodes_bytes: "decodes (\<lambda>s. Some (decodeByteSlice s)) (BytesVal b) (rlp_string b)"
  by (rule decodesI) (frule (2) Stream_Bytes_room, auto simp: decodeByteSlice_def)

lemma decodes_bigint:
  assumes "0 \<le> i"
  shows "decodes (\<lambda>s. Some (decodeBigInt s)) (BigIntVal (Some i)) (rlp_string (BigBytes i))"
proof (rule decodesI)
  fix s r assume "st_kind s = None" "st_r s = rlp_string (BigBytes i) @ r" "room (length (rlp_string (BigBytes i))) s"
  then obtain s' where "Stream_Bytes s = (s', Inr (BigBytes i))" "done_with (length (rlp_string (BigBytes i))) r s s'"
    using Stream_Bytes_room by blast
  moreover have "\<not> (length (BigBytes i) > 0 \<and> BigBytes i ! 0 = 0)"
    using hd_BigBytes[of i] assms by (cases "i = 0") (auto simp: hd_conv_nth)
  ultimately show "\<exists>s'. Some (decodeBigInt s) = Some (s', Inr (BigIntVal (Some i))) \<and>
      done_with (length (rlp_string (BigBytes i))) r s s'"
    using assms by (auto simp: decodeBigInt_def SetBytes_BigBytes)
qed

lemma decodes_byte_array:
  assumes "b \<noteq> [0]"
  shows "decodes (\<lambda>s. Some (decodeByteArray (length b) s)) (BytesVal b) (rlp_string b)"
proof (rule decodesI)
  fix s r assume s: "st_kind s = None" "st_r s = rlp_string b @ r" "room (length (rlp_string b)) s"
  note K = Stream_Kind_string[OF s]
  show "\<exists>s'. Some (decodeByteArray (length b) s) = Some (s', Inr (BytesVal b)) \<and> done_with (length (rlp_string b)) r s s'"
  proof (cases "string_kind b")
    case KByte
    then obtain x where x: "b = [x]" "x < 0x80" by (cases b) (auto simp: string_kind_def split: if_splits)
    then have "x \<noteq> 0" using assms by simp
    then have "Stream_uint 64 (headed KByte [x] r s) = ((headed KByte [x] r s)\<lparr> st_kind := None \<rparr>, Inr (ucast x))"
      by (simp add: Stream_uint_def) (simp add: headed_def)
    moreover have "(ucast (ucast x :: uint64) :: byte) = x"
      by (simp add: ucast_up_ucast_id is_up)
    ultimately show ?thesis using K KByte x done_headed_byte[OF x(2), of r s]
      by (simp add: decodeByteArray_def)
  next
    case KString
    then have k: "kind_ok KString b" "raw_enc KString b = rlp_string b" using string_kind[of b] by simp_all
    obtain s' where s': "readFull (length b) (headed KString b r s) = (s', Inr b)" "done_with (length (rlp_string b)) r s s'"
      using readFull_headed[OF k(1), of s r] s(3) k(2) by auto
    have n: "length b < 2 ^ 64" using room_bound[OF s(3)] length_rlp_string[of b] by simp
    have "\<not> ((of_nat (length b) :: uint64) = 1 \<and> b ! 0 < 128)"
    proof
      assume "(of_nat (length b) :: uint64) = 1 \<and> b ! 0 < 128"
      then have "length b = 1" "b ! 0 < 128" using unat_of_nat_64[OF n] by auto
      with k(1) show False by (cases b) auto
    qed
    then show ?thesis using K s' KString
      by (simp add: decodeByteArray_def body_len_def)
  next
    case KList
    then show ?thesis using string_kind(3) by blast
  qed
qed

lemma decodes_raw:
  assumes "kind_ok k c"
  shows "decodes (\<lambda>s. Some (decodeRawValue s)) (RawVal (raw_enc k c)) (raw_enc k c)"
proof (rule decodesI)
  fix s r assume s: "st_kind s = None" "st_r s = raw_enc k c @ r" "room (length (raw_enc k c)) s"
  note K = Stream_Kind_room[OF assms s]
  show "\<exists>s'. Some (decodeRawValue s) = Some (s', Inr (RawVal (raw_enc k c))) \<and> done_with (length (raw_enc k c)) r s s'"
  proof (cases "k = KByte")
    case True
    then obtain x where x: "c = [x]" "x < 0x80" using assms by (cases c) auto
    have "raw_enc KByte c = [x]" using x by (simp add: rlp_string_def)
    moreover have "st_byteval (headed KByte [x] r s) = x" by (simp add: headed_def)
    ultimately show ?thesis using K True x done_headed_byte[OF x(2), of r s]
      by (simp add: decodeRawValue_def Stream_Raw_def rlp_string_def)
  next
    case False
    obtain s' where s': "readFull (length c) (headed k c r s) = (s', Inr c)" "done_with (length (raw_enc k c)) r s s'"
      using readFull_headed[OF assms False s(3)] by auto
    have n: "length c < 2 ^ 64" using room_bound[OF s(3)] assms by (simp add: raw_enc_head)
    then show ?thesis using K s' False raw_enc_head[OF assms]
      by (cases k) (simp_all add: decodeRawValue_def Stream_Raw_def body_len_def unat_of_nat_64 header_bytes_eq)
  qed
qed

section \<open>Lists\<close>

text \<open>At the end of a list a decoder reports \<open>EOL\<close> and changes nothing that matters.\<close>

definition ends :: "decoder \<Rightarrow> bool" where
  "ends d \<longleftrightarrow> (\<forall>s p r. st_kind s = None \<longrightarrow> st_stack s = (p, p) # r \<longrightarrow>
     d s = Some (s\<lparr> st_kinderr := None \<rparr>, Inl EOL))"

definition in_list :: "bytes \<Rightarrow> bytes \<Rightarrow> Stream \<Rightarrow> Stream" where
  "in_list c r s = (headed KList c r s)\<lparr> st_stack := (0, of_nat (length c)) # st_stack (headed KList c r s),
     st_kind := None, st_size := 0 \<rparr>"

lemma Stream_List_room:
  assumes "st_kind s = None" "st_r s = rlp_list c @ r" "room (length (rlp_list c)) s"
  shows "Stream_List s = (in_list c r s, Inr (of_nat (length c)))"
    "st_kind (in_list c r s) = None" "st_r (in_list c r s) = c @ r" "room (length c) (in_list c r s)"
proof -
  have K: "Stream_Kind s = (headed KList c r s, Inr (KList, of_nat (length c)))"
    using Stream_Kind_room[of KList c s r] assms by (simp add: body_len_def)
  then show "Stream_List s = (in_list c r s, Inr (of_nat (length c)))"
    by (simp add: Stream_List_def in_list_def)
  show "st_kind (in_list c r s) = None" "st_r (in_list c r s) = c @ r"
    by (simp_all add: in_list_def headed_def body_def)
  have "length c < 2 ^ 64" using room_bound[OF assms(3)] by (simp add: rlp_list_def)
  moreover have "room (length c) (took (head_len KList c) (body KList c r) s)"
    using assms(3) by (intro room_took) (simp add: head_len_def rlp_list_def)
  ultimately show "room (length c) (in_list c r s)"
    by (simp add: room_def in_list_def headed_def unat_of_nat_64)
qed

lemma done_with_kinderr [simp]: "done_with k r s (s'\<lparr> st_kinderr := e \<rparr>) = done_with k r s s'"
  by (simp add: done_with_def)

lemma done_with_0: "st_kind s = None \<Longrightarrow> st_r s = r \<Longrightarrow> done_with 0 r s s"
  by (simp add: done_with_def past_def split: list.split)

lemma end_list_room:
  assumes "done_with (length c) r (in_list c r s) s'"
  shows "\<exists>s''. end_list v s' = (s'', Inr v) \<and> done_with (length (rlp_list c)) r s s''"
proof -
  have l: "length (rlp_list c) = head_len KList c + length c" by (simp add: rlp_list_def head_len_def)
  have st: "st_stack s' = (of_nat (length c), of_nat (length c)) # past (head_len KList c) (st_stack s)"
    using assms by (simp add: done_with_def in_list_def headed_def past_def)
  have "done_with (length (rlp_list c)) r s s''" if "st_r s'' = st_r s'" "st_kind s'' = None"
      "st_limited s'' = st_limited s'" "st_remaining s'' = st_remaining s'"
      "st_stack s'' = past (length c) (past (head_len KList c) (st_stack s))" for s''
    using that assms by (simp add: done_with_def l in_list_def headed_def) (simp add: took_def algebra_simps)
  then show ?thesis
    using st by (auto simp: end_list_def Stream_ListEnd_def past_def split: list.splits)
qed

text \<open>The loops over the elements of a list, the rest of which is \<open>E\<close>.\<close>

definition upto_end :: "bytes \<Rightarrow> bytes \<Rightarrow> Stream \<Rightarrow> bool" where
  "upto_end E r s \<longleftrightarrow> st_kind s = None \<and> st_r s = E @ r \<and> room (length E) s \<and>
     (\<exists>p rest. st_stack s = (p, p + of_nat (length E)) # rest)"

lemma upto_end_in_list:
  assumes "st_kind s = None" "st_r s = rlp_list c @ r" "room (length (rlp_list c)) s"
  shows "upto_end c r (in_list c r s)"
  using Stream_List_room[OF assms] by (simp add: upto_end_def) (simp add: in_list_def)

lemma upto_end_next:
  assumes "upto_end (E @ E') r s" "decodes d v E"
  obtains s' where "d s = Some (s', Inr v)" "done_with (length E) (E' @ r) s s'" "upto_end E' r s'"
proof -
  obtain p rest where s: "st_kind s = None" "st_r s = E @ E' @ r" "room (length E + length E') s"
      "st_stack s = (p, p + of_nat (length E + length E')) # rest"
    using assms(1) by (auto simp: upto_end_def)
  obtain s' where s': "d s = Some (s', Inr v)" "done_with (length E) (E' @ r) s s'"
    using decodesD[OF assms(2) s(1,2)] room_le[OF s(3)] by auto
  moreover have "upto_end E' r s'"
    using s'(2) room_done[OF s(3) s'(2)] s(4) by (simp add: upto_end_def done_with_def past_def)
  ultimately show thesis using that by blast
qed

lemma decodeSliceElems_room:
  assumes "ends d"
  shows "list_all2 (decodes d) vs Es \<Longrightarrow> length vs < fuel \<Longrightarrow> upto_end (concat Es) r s \<Longrightarrow>
    \<exists>s'. decodeSliceElems fuel d acc s = Some (s', Inr (acc @ vs)) \<and> done_with (length (concat Es)) r s s'"
proof (induction vs Es arbitrary: fuel acc s rule: list_all2_induct)
  case Nil
  then obtain f where "fuel = Suc f" by (cases fuel) auto
  moreover have "d s = Some (s\<lparr> st_kinderr := None \<rparr>, Inl EOL)"
    using assms Nil(2) by (auto simp: ends_def upto_end_def)
  ultimately show ?case using Nil(2) done_with_0[of s r] by (simp add: upto_end_def)
next
  case (Cons v vs E Es)
  obtain f where f: "fuel = Suc f" "length vs < f" using Cons.prems(1) by (cases fuel) auto
  obtain s' where s': "d s = Some (s', Inr v)" "done_with (length E) (concat Es @ r) s s'" "upto_end (concat Es) r s'"
    using upto_end_next[of E "concat Es" r s d v] Cons.prems(2) Cons.hyps(1) by auto
  show ?case using Cons.IH[OF f(2) s'(3), of "acc @ [v]"] s' f(1) done_with_trans[OF s'(2)] by auto
qed

lemma decodeArrayElems_room:
  "list_all2 (decodes d) vs Es \<Longrightarrow> upto_end (concat Es) r s \<Longrightarrow>
    \<exists>s'. decodeArrayElems (length vs) d acc s = Some (s', Inr (acc @ vs)) \<and> done_with (length (concat Es)) r s s'"
proof (induction vs Es arbitrary: acc s rule: list_all2_induct)
  case Nil
  then show ?case using done_with_0[of s r] by (simp add: upto_end_def)
next
  case (Cons v vs E Es)
  obtain s' where s': "d s = Some (s', Inr v)" "done_with (length E) (concat Es @ r) s s'" "upto_end (concat Es) r s'"
    using upto_end_next[of E "concat Es" r s d v] Cons.prems Cons.hyps(1) by auto
  show ?case using Cons.IH[OF s'(3), of "acc @ [v]"] s' done_with_trans[OF s'(2)] by auto
qed

lemma decodes_list_slice:
  assumes "ends d" "list_all2 (decodes d) vs Es" "[] \<notin> set Es" "length vs < fuel"
  shows "decodes (decodeListSlice fuel d) (SliceVal False vs) (rlp_list (concat Es))"
proof (rule decodesI)
  let ?c = "concat Es"
  fix s r assume s: "st_kind s = None" "st_r s = rlp_list ?c @ r" "room (length (rlp_list ?c)) s"
  have n: "length ?c < 2 ^ 64" using room_bound[OF s(3)] by (simp add: rlp_list_def)
  have el: "\<exists>s'. Some (end_list (SliceVal False vs) t) = Some (s', Inr (SliceVal False vs)) \<and>
      done_with (length (rlp_list ?c)) r s s'" if "done_with (length ?c) r (in_list ?c r s) t" for t
    using end_list_room[OF that] by simp
  show "\<exists>s'. decodeListSlice fuel d s = Some (s', Inr (SliceVal False vs)) \<and> done_with (length (rlp_list ?c)) r s s'"
  proof (cases "?c = []")
    case True
    then have Es: "Es = []" using assms(3) by (cases Es) auto
    then have "vs = []" using assms(2) by simp
    then show ?thesis using el[of "in_list ?c r s"] Stream_List_room[OF s] done_with_0[of "in_list ?c r s" r]
      unfolding Es by (simp add: decodeListSlice_def)
  next
    case False
    then have "(of_nat (length ?c) :: uint64) \<noteq> 0" using unat_of_nat_64[OF n] by (metis length_0_conv unsigned_0)
    moreover obtain t where "decodeSliceElems fuel d [] (in_list ?c r s) = Some (t, Inr vs)"
        "done_with (length ?c) r (in_list ?c r s) t"
      using decodeSliceElems_room[OF assms(1,2,4) upto_end_in_list[OF s], of "[]"] by auto
    ultimately show ?thesis using el[of t] Stream_List_room(1)[OF s] by (simp add: decodeListSlice_def)
  qed
qed

lemma decodes_list_array:
  assumes "list_all2 (decodes d) vs Es"
  shows "decodes (decodeListArray (length vs) d) (SliceVal False vs) (rlp_list (concat Es))"
proof (rule decodesI)
  let ?c = "concat Es"
  fix s r assume s: "st_kind s = None" "st_r s = rlp_list ?c @ r" "room (length (rlp_list ?c)) s"
  obtain t where "decodeArrayElems (length vs) d [] (in_list ?c r s) = Some (t, Inr vs)"
      "done_with (length ?c) r (in_list ?c r s) t"
    using decodeArrayElems_room[OF assms upto_end_in_list[OF s], of "[]"] by auto
  then show "\<exists>s'. decodeListArray (length vs) d s = Some (s', Inr (SliceVal False vs)) \<and>
      done_with (length (rlp_list ?c)) r s s'"
    using end_list_room[of ?c r s t] Stream_List_room(1)[OF s] by (simp add: decodeListArray_def)
qed

text \<open>The fields of a struct; the last one may be a tail.\<close>

inductive fields :: "decoder list \<Rightarrow> goval list \<Rightarrow> bytes \<Rightarrow> bool" where
  no_field: "fields [] [] []"
| one_field: "decodes d v E \<Longrightarrow> fields ds vs E' \<Longrightarrow> fields (d # ds) (v # vs) (E @ E')"
| tail_field: "ends d \<Longrightarrow> list_all2 (decodes d) vs Es \<Longrightarrow> length vs < fuel \<Longrightarrow>
    fields [decodeTail fuel d] [SliceVal True vs] (concat Es)"

lemma decodeFields_room:
  "fields ds vs E \<Longrightarrow> upto_end E r s \<Longrightarrow>
    \<exists>s'. decodeFields ds acc s = Some (s', Inr (acc @ vs)) \<and> done_with (length E) r s s'"
proof (induction arbitrary: acc s rule: fields.induct)
  case no_field
  then show ?case using done_with_0[of s r] by (simp add: upto_end_def)
next
  case (one_field d v E ds vs E')
  obtain s' where s': "d s = Some (s', Inr v)" "done_with (length E) (E' @ r) s s'" "upto_end E' r s'"
    using upto_end_next[OF one_field.prems one_field.hyps(1)] by blast
  show ?case using one_field.IH[OF s'(3), of "acc @ [v]"] s' done_with_trans[OF s'(2)] by auto
next
  case (tail_field d vs Es fuel)
  then show ?case using decodeSliceElems_room[of d vs Es fuel r s "[]"] by (auto simp: decodeTail_def)
qed

lemma decodes_struct:
  assumes "fields ds vs E"
  shows "decodes (decodeStruct ds) (StructVal vs) (rlp_list E)"
proof (rule decodesI)
  fix s r assume s: "st_kind s = None" "st_r s = rlp_list E @ r" "room (length (rlp_list E)) s"
  obtain t where "decodeFields ds [] (in_list E r s) = Some (t, Inr vs)" "done_with (length E) r (in_list E r s) t"
    using decodeFields_room[OF assms upto_end_in_list[OF s], of "[]"] by auto
  then show "\<exists>s'. decodeStruct ds s = Some (s', Inr (StructVal vs)) \<and> done_with (length (rlp_list E)) r s s'"
    using end_list_room[of E r s t] Stream_List_room(1)[OF s] by (simp add: decodeStruct_def)
qed

section \<open>Types and values\<close>

lemma Stream_Kind_idem: "Stream_Kind s = (s', Inr x) \<Longrightarrow> Stream_Kind s' = (s', Inr x)"
  by (auto simp: Stream_Kind_def Let_def split: option.splits if_splits prod.splits)

fun is_tail :: "gotype \<Rightarrow> bool" where
  "is_tail (TTail t) = True"
| "is_tail (TPtr t) = is_tail t"
| "is_tail (TOptPtr t) = is_tail t"
| "is_tail t = False"

text \<open>The descriptors of types that \<open>cachedTypeInfo\<close> accepts: integers have one of four widths, and a
  \<open>tail\<close> is the last field of a struct.\<close>

primrec type_ok :: "gotype \<Rightarrow> bool" where
  "type_ok TRaw = True"
| "type_ok (TUint bits) = (bits \<in> {8, 16, 32, 64})"
| "type_ok TBool = True"
| "type_ok TString = True"
| "type_ok TBigInt = True"
| "type_ok TBytes = True"
| "type_ok (TByteArray n) = True"
| "type_ok (TArray n t) = (type_ok t \<and> \<not> is_tail t)"
| "type_ok (TSlice t) = (type_ok t \<and> \<not> is_tail t)"
| "type_ok (TTail t) = (type_ok t \<and> \<not> is_tail t)"
| "type_ok (TStruct ts) = (list_all (\<lambda>x. x) (map type_ok ts) \<and> (\<forall>t \<in> set (butlast ts). \<not> is_tail t))"
| "type_ok (TPtr t) = (type_ok t \<and> \<not> is_tail t)"
| "type_ok (TOptPtr t) = (type_ok t \<and> \<not> is_tail t)"
| "type_ok TInterface = True"

text \<open>The values the decoder can produce for an interface.\<close>

fun plain :: "goval \<Rightarrow> bool" where
  "plain (BytesVal b) = True"
| "plain (SliceVal tail vs) = (\<not> tail \<and> (\<forall>v \<in> set vs. plain v))"
| "plain _ = False"

text \<open>The values of a type that the decoder can produce. A pointer with the \<open>nil\<close> tag is nil or points to
  a value that is not encoded as the empty string or list; the byte array of length one that holds zero is
  left out.\<close>

primrec has_type :: "gotype \<Rightarrow> goval \<Rightarrow> bool" where
  "has_type TRaw v = (case v of RawVal e \<Rightarrow> (case Split e of Some (Inr (_, _, rest)) \<Rightarrow> rest = [] | _ \<Rightarrow> False) | _ \<Rightarrow> False)"
| "has_type (TUint bits) v = (case v of UintVal i \<Rightarrow> unat i < 2 ^ bits | _ \<Rightarrow> False)"
| "has_type TBool v = (case v of BoolVal _ \<Rightarrow> True | _ \<Rightarrow> False)"
| "has_type TString v = (case v of StringVal _ \<Rightarrow> True | _ \<Rightarrow> False)"
| "has_type TBigInt v = (case v of BigIntVal (Some i) \<Rightarrow> 0 \<le> i | _ \<Rightarrow> False)"
| "has_type TBytes v = (case v of BytesVal _ \<Rightarrow> True | _ \<Rightarrow> False)"
| "has_type (TByteArray n) v = (case v of BytesVal b \<Rightarrow> length b = n \<and> b \<noteq> [0] | _ \<Rightarrow> False)"
| "has_type (TArray n t) v = (case v of SliceVal tail vs \<Rightarrow> \<not> tail \<and> length vs = n \<and> (\<forall>v \<in> set vs. has_type t v) | _ \<Rightarrow> False)"
| "has_type (TSlice t) v = (case v of SliceVal tail vs \<Rightarrow> \<not> tail \<and> (\<forall>v \<in> set vs. has_type t v) | _ \<Rightarrow> False)"
| "has_type (TTail t) v = (case v of SliceVal tail vs \<Rightarrow> tail \<and> (\<forall>v \<in> set vs. has_type t v) | _ \<Rightarrow> False)"
| "has_type (TStruct ts) v = (case v of StructVal vs \<Rightarrow> list_all2 (\<lambda>f. f) (map has_type ts) vs | _ \<Rightarrow> False)"
| "has_type (TPtr t) v = has_type t v"
| "has_type (TOptPtr t) v = (v = nil_value t \<or> has_type t v \<and> rlp v \<noteq> Inr [0x80] \<and> rlp v \<noteq> Inr [0xC0])"
| "has_type TInterface v = plain v"

lemma makeDecoder_peek:
  assumes "Stream_Kind s = (s', Inr x)" "\<not> is_tail t" "0 < fuel"
  shows "makeDecoder fuel t s' = makeDecoder fuel t s"
  using assms(2)
proof (induction t)
  case TInterface
  obtain f where "fuel = Suc f" using assms(3) gr0_implies_Suc by blast
  then show ?case using assms(1) Stream_Kind_idem[OF assms(1)] by simp
qed (use assms(1) Stream_Kind_idem[OF assms(1)] in \<open>auto simp: decodeRawValue_def Stream_Raw_def decodeUint_def
    Stream_uint_def decodeBool_def Stream_Bool_def decodeString_def Stream_Bytes_def decodeBigInt_def
    decodeByteSlice_def decodeByteArray_def decodeListArray_def Stream_List_def decodeListSlice_def
    decodeStruct_def decodeOptionalPtr_def\<close>)

lemma Stream_Kind_end:
  "st_kind s = None \<Longrightarrow> st_stack s = (p, p) # r \<Longrightarrow> Stream_Kind s = (s\<lparr> st_kinderr := None \<rparr>, Inl EOL)"
  by (simp add: Stream_Kind_def)

lemma makeDecoder_ends:
  assumes "\<not> is_tail t" "0 < fuel"
  shows "ends (makeDecoder fuel t)"
proof -
  have "makeDecoder fuel t s = Some (s\<lparr> st_kinderr := None \<rparr>, Inl EOL)"
    if s: "st_kind s = None" "st_stack s = (p, p) # r" for s p r
    using assms(1)
  proof (induction t)
    case TInterface
    obtain f where "fuel = Suc f" using assms(2) gr0_implies_Suc by blast
    then show ?case using Stream_Kind_end[OF s] by simp
  next
    case (TOptPtr t)
    have "s\<lparr> st_kinderr := None, st_kind := None \<rparr> = s\<lparr> st_kinderr := None \<rparr>" using s(1) by (cases s) simp
    then show ?case using Stream_Kind_end[OF s] by (simp add: decodeOptionalPtr_def)
  qed (use Stream_Kind_end[OF s] in \<open>auto simp: decodeRawValue_def Stream_Raw_def decodeUint_def
    Stream_uint_def decodeBool_def Stream_Bool_def decodeString_def Stream_Bytes_def decodeBigInt_def
    decodeByteSlice_def decodeByteArray_def decodeListArray_def Stream_List_def decodeListSlice_def
    decodeStruct_def\<close>)
  then show ?thesis by (simp add: ends_def)
qed

lemma framed_string: "\<exists>k c. kind_ok k c \<and> rlp_string b = raw_enc k c"
  using string_kind(1,2)[of b] by metis

lemma framed_list: "\<exists>k c. kind_ok k c \<and> rlp_list b = raw_enc k c"
  by (rule exI[of _ KList], rule exI[of _ b]) simp

lemma nil_value_rlp: "rlp (nil_value t) = Inr [0x80] \<or> rlp (nil_value t) = Inr [0xC0]"
  by (cases t) (auto simp: rlp_list_def rlp_head_def)

lemma map_sum_Inr: "map_sum id f x = Inr y \<Longrightarrow> \<exists>z. x = Inr z \<and> y = f z"
  by (cases x) auto

lemma plain_framed: "plain v \<Longrightarrow> rlp v = Inr E \<Longrightarrow> \<exists>k c. kind_ok k c \<and> E = raw_enc k c"
  by (cases v) (auto simp: framed_string framed_list dest!: map_sum_Inr)

lemma raw_framed:
  assumes "Split e = Some (Inr (k, c, []))" "length e < 2 ^ 64"
  shows "kind_ok k c \<and> e = raw_enc k c"
  using Split_cases[OF assms(2)] assms(1) by auto

lemma has_type_framed:
  "has_type t v \<Longrightarrow> \<not> is_tail t \<Longrightarrow> rlp v = Inr E \<Longrightarrow> length E < 2 ^ 64 \<Longrightarrow> \<exists>k c. kind_ok k c \<and> E = raw_enc k c"
proof (induction t)
  case TRaw
  then show ?case using raw_framed by (fastforce split: goval.splits option.splits sum.splits)
next
  case (TOptPtr t)
  have "[0x80] = raw_enc KString []" "[0xC0] = raw_enc KList []" by (simp_all add: rlp_list_def rlp_head_def)
  then show ?case using TOptPtr nil_value_rlp[of t] framed_string[of "[]"] framed_list[of "[]"]
    by (cases "v = nil_value t") (auto simp: rlp_list_def rlp_head_def)
next
  case TBool
  then obtain b where "v = BoolVal b" by (cases v) auto
  then show ?case using TBool framed_string by fastforce
qed (auto simp: framed_string framed_list plain_framed dest!: map_sum_Inr split: goval.splits option.splits if_splits)

lemma rlps_concat:
  "rlps vs = Inr P \<Longrightarrow> \<exists>Es. list_all2 (\<lambda>v E. rlp v = Inr E) vs Es \<and> P = concat Es"
proof (induction vs arbitrary: P)
  case (Cons v vs)
  then obtain E P' where "rlp v = Inr E" "rlps vs = Inr P'" "P = E @ P'" by (auto split: sum.splits)
  moreover then obtain Es where "list_all2 (\<lambda>v E. rlp v = Inr E) vs Es" "P' = concat Es" using Cons.IH by blast
  ultimately show ?case by (intro exI[of _ "E # Es"]) simp
qed simp

lemma length_concat_ge: "[] \<notin> set Es \<Longrightarrow> length Es \<le> length (concat Es)"
  by (induction Es) (auto simp: Suc_le_eq intro: add_less_le_mono[of 0 _ "length _", simplified])

lemma length_in_concat: "E \<in> set Es \<Longrightarrow> length E \<le> length (concat Es)"
  by (induction Es) auto

lemma length_rlp_list_less: "length b < length (rlp_list b)"
  by (simp add: rlp_list_def rlp_head_def)

text \<open>Elements that are all decoded, each from its own bytes.\<close>

lemma elements:
  assumes "rlps vs = Inr P" "length P < fuel"
    "\<And>v E. v \<in> set vs \<Longrightarrow> rlp v = Inr E \<Longrightarrow> length E \<le> length P \<Longrightarrow> decodes d v E \<and> E \<noteq> []"
  obtains Es where "list_all2 (decodes d) vs Es" "P = concat Es" "[] \<notin> set Es" "length vs < fuel"
proof -
  obtain Es where Es: "list_all2 (\<lambda>v E. rlp v = Inr E) vs Es" "P = concat Es" using rlps_concat[OF assms(1)] by blast
  have "decodes d (vs ! i) (Es ! i) \<and> Es ! i \<noteq> []" if "i < length vs" for i
    using that Es assms(3)[of "vs ! i" "Es ! i"] length_in_concat[of "Es ! i" Es]
    by (auto simp: list_all2_conv_all_nth)
  then have d: "list_all2 (decodes d) vs Es" "[] \<notin> set Es"
    using Es(1) by (auto simp: list_all2_conv_all_nth in_set_conv_nth)
  moreover have "length vs < fuel"
    using length_concat_ge[OF d(2)] list_all2_lengthD[OF d(1)] Es(2) assms(2) by simp
  ultimately show thesis using that Es(2) by blast
qed

lemma ends_interface: "ends (decodeInterface (Suc depth) fuel)"
  by (auto simp: ends_def Stream_Kind_end)

lemma decodeListSlice_peek: "Stream_Kind s = (s', Inr x) \<Longrightarrow> decodeListSlice fuel d s' = decodeListSlice fuel d s"
  using Stream_Kind_idem[of s s' x] by (simp add: decodeListSlice_def Stream_List_def)

lemma decodes_interface:
  "plain v \<Longrightarrow> rlp v = Inr E \<Longrightarrow> length E < depth \<Longrightarrow> length E < fuel \<Longrightarrow> decodes (decodeInterface depth fuel) v E"
proof (induction depth arbitrary: v E)
  case (Suc depth)
  show ?case
  proof (cases v)
    case (BytesVal b)
    then have E: "E = rlp_string b" using Suc.prems(2) by simp
    show ?thesis unfolding E BytesVal
    proof (rule decodesI)
      fix s r assume s: "st_kind s = None" "st_r s = rlp_string b @ r" "room (length (rlp_string b)) s"
      show "\<exists>s'. decodeInterface (Suc depth) fuel s = Some (s', Inr (BytesVal b)) \<and> done_with (length (rlp_string b)) r s s'"
        using Stream_Kind_string[OF s] string_kind(3)[of b] Stream_Bytes_headed[OF s(3), of r]
        by (auto simp: decodeByteSlice_def)
    qed
  next
    case (SliceVal tail vs)
    then obtain P where P: "rlps vs = Inr P" "E = rlp_list P" "\<not> tail" using Suc.prems(1,2) by (auto dest!: map_sum_Inr)
    have lt: "length P < depth" "length P < fuel" using length_rlp_list_less[of P] Suc.prems(3,4) P(2) by simp_all
    then obtain d' where d': "depth = Suc d'" by (cases depth) auto
    have "decodes (decodeInterface depth fuel) u F \<and> F \<noteq> []"
      if u: "u \<in> set vs" "rlp u = Inr F" "length F \<le> length P" for u F
    proof -
      have "plain u" using Suc.prems(1) SliceVal u(1) by simp
      then show ?thesis using Suc.IH[of u F] u lt plain_framed[of u F] raw_enc_nonempty by auto
    qed
    then obtain Es where Es: "list_all2 (decodes (decodeInterface depth fuel)) vs Es" "P = concat Es" "[] \<notin> set Es"
        "length vs < fuel"
      using elements[OF P(1) lt(2)] by metis
    have dl: "decodes (decodeListSlice fuel (decodeInterface depth fuel)) (SliceVal False vs) E"
      unfolding P(2) Es(2) using Es ends_interface d' by (intro decodes_list_slice) simp_all
    show ?thesis unfolding SliceVal
    proof (rule decodesI)
      fix s r assume s: "st_kind s = None" "st_r s = E @ r" "room (length E) s"
      have k: "Stream_Kind s = (headed KList P r s, Inr (KList, of_nat (length P)))"
        using Stream_Kind_room[of KList P s r] s P(2) by (simp add: body_len_def)
      then have "decodeInterface (Suc depth) fuel s = decodeListSlice fuel (decodeInterface depth fuel) s"
        using decodeListSlice_peek[OF k] by simp
      then show "\<exists>s'. decodeInterface (Suc depth) fuel s = Some (s', Inr (SliceVal tail vs)) \<and> done_with (length E) r s s'"
        using decodesD[OF dl s] P(3) by metis
    qed
  qed (use Suc.prems(1) in auto)
qed simp

section \<open>A loop that does not end\<close>

text \<open>The decoder of a byte array of length one drops the error that \<open>Uint\<close> reports for the byte zero,
  together with the header that was not consumed. Decoding a list of such arrays therefore never ends,
  whatever the bound on the iterations.\<close>

lemma stuck_loop: "d s = Some (s, Inr v) \<Longrightarrow> decodeSliceElems fuel d vs s = None"
  by (induction fuel arbitrary: vs) auto

lemma decode_zero_byte_array_loops: "DecodeBytes fuel [0xC1, 0x00] (TSlice (TByteArray 1)) = None"
proof -
  define s where "s = fst (Stream_List (NewStream [0xC1, 0x00] 2))"
  define t where "t = fst (decodeByteArray 1 s)"
  have l: "Stream_List (NewStream [0xC1, 0x00] 2) = (s, Inr 1)" unfolding s_def by code_simp
  have d: "decodeByteArray 1 s = (t, Inr (BytesVal [0]))" unfolding t_def s_def by code_simp
  have "decodeByteArray 1 t = (t, Inr (BytesVal [0]))" unfolding t_def s_def by code_simp
  then have "decodeSliceElems f (\<lambda>s. Some (decodeByteArray 1 s)) vs t = None" for f vs by (intro stuck_loop) simp
  with d have "decodeSliceElems f (\<lambda>s. Some (decodeByteArray 1 s)) vs s = None" for f vs by (cases f) simp_all
  with l show ?thesis by (simp add: DecodeBytes_def decodeListSlice_def)
qed

definition handles :: "nat \<Rightarrow> gotype \<Rightarrow> bool" where
  "handles fuel t \<longleftrightarrow> (\<forall>v E. has_type t v \<longrightarrow> rlp v = Inr E \<longrightarrow> length E < fuel \<longrightarrow> length E < 2 ^ 64 \<longrightarrow>
     decodes (makeDecoder fuel t) v E)"

lemma has_type_elements:
  assumes "handles fuel t" "\<not> is_tail t" "\<forall>v \<in> set vs. has_type t v" "rlps vs = Inr P" "length P < fuel" "length P < 2 ^ 64"
  obtains Es where "list_all2 (decodes (makeDecoder fuel t)) vs Es" "P = concat Es" "[] \<notin> set Es" "length vs < fuel"
proof -
  have "decodes (makeDecoder fuel t) v E \<and> E \<noteq> []" if v: "v \<in> set vs" "rlp v = Inr E" "length E \<le> length P" for v E
  proof -
    have "has_type t v" using assms(3) v(1) by blast
    then show ?thesis using assms(1,2,5,6) v has_type_framed[of t v E] raw_enc_nonempty by (auto simp: handles_def)
  qed
  then show thesis using elements[OF assms(4,5)] that by metis
qed

lemma handles_opt_ptr:
  assumes "handles fuel t" "\<not> is_tail t" "0 < fuel"
  shows "handles fuel (TOptPtr t)"
  unfolding handles_def
proof (intro allI impI)
  fix v E assume a: "has_type (TOptPtr t) v" "rlp v = Inr E" "length E < fuel" "length E < 2 ^ 64"
  obtain k c where kc: "kind_ok k c" "E = raw_enc k c" using has_type_framed[OF a(1) _ a(2,4)] assms(2) by auto
  show "decodes (makeDecoder fuel (TOptPtr t)) v E"
  proof (rule decodesI)
    fix s r assume s: "st_kind s = None" "st_r s = E @ r" "room (length E) s"
    have K: "Stream_Kind s = (headed k c r s, Inr (k, of_nat (body_len k c)))"
      using Stream_Kind_room[OF kc(1) s(1)] s(2,3) kc(2) by simp
    have n: "unat (of_nat (body_len k c) :: uint64) = body_len k c"
      using room_bound[OF s(3)] length_raw_enc[OF kc(1)] kc(2) by (intro unat_of_nat_64) simp
    have E0: "E = [0x80] \<or> E = [0xC0] \<longleftrightarrow> body_len k c = 0 \<and> k \<noteq> KByte"
    proof
      assume "body_len k c = 0 \<and> k \<noteq> KByte"
      then show "E = [0x80] \<or> E = [0xC0]" using kc by (cases k) (auto simp: body_len_def rlp_list_def rlp_head_def)
    next
      assume e: "E = [0x80] \<or> E = [0xC0]"
      then have "head_len k c + body_len k c = 1" using kc length_raw_enc[OF kc(1)] by auto
      moreover have "k \<noteq> KByte" using e kc by (cases c) (auto simp: rlp_string_def)
      ultimately show "body_len k c = 0 \<and> k \<noteq> KByte" using head_len_pos[OF kc(1)] by simp
    qed
    show "\<exists>s'. makeDecoder fuel (TOptPtr t) s = Some (s', Inr v) \<and> done_with (length E) r s s'"
    proof (cases "E = [0x80] \<or> E = [0xC0]")
      case True
      then have b: "body_len k c = 0" "k \<noteq> KByte" and v: "v = nil_value t" using E0 a(1,2) by auto
      then have "done_with (length E) r s ((headed k c r s)\<lparr> st_kind := None \<rparr>)"
        using length_raw_enc[OF kc(1)] kc(2) by (simp add: headed_def done_with_def took_def body_def body_len_def)
      then show ?thesis using K b v by (simp add: decodeOptionalPtr_def)
    next
      case False
      then have "has_type t v" using a(1,2) nil_value_rlp[of t] by auto
      then have "decodes (makeDecoder fuel t) v E" using assms(1) a by (simp add: handles_def)
      moreover have "\<not> ((of_nat (body_len k c) :: uint64) = 0 \<and> k \<noteq> KByte)" using False E0 n by (metis unsigned_0)
      ultimately show ?thesis
        using decodesD[OF _ s] K makeDecoder_peek[OF K assms(2,3)] by (simp add: decodeOptionalPtr_def) metis
    qed
  qed
qed

lemma struct_fields:
  assumes "0 < fuel"
  shows "\<forall>t \<in> set ts. (\<not> is_tail t \<longrightarrow> handles fuel t) \<and> (is_tail t \<longrightarrow> (\<exists>t'. t = TTail t' \<and> handles fuel t' \<and> \<not> is_tail t')) \<Longrightarrow>
    \<forall>t \<in> set (butlast ts). \<not> is_tail t \<Longrightarrow> list_all2 has_type ts vs \<Longrightarrow> rlps vs = Inr E \<Longrightarrow> length E < fuel \<Longrightarrow>
    length E < 2 ^ 64 \<Longrightarrow> fields (map (makeDecoder fuel) ts) vs E"
proof (induction ts arbitrary: vs E)
  case Nil
  then show ?case by (auto intro: fields.intros)
next
  case (Cons t ts)
  obtain v us where vs: "vs = v # us" "has_type t v" "list_all2 has_type ts us" using Cons.prems(3) by (auto simp: list_all2_Cons1)
  obtain x y where xy: "rlp v = Inr x" "rlps us = Inr y" "E = x @ y" using Cons.prems(4) vs(1) by (auto split: sum.splits)
  show ?case
  proof (cases "is_tail t")
    case False
    then have "decodes (makeDecoder fuel t) v x" using Cons.prems(1,5,6) vs(2) xy by (simp add: handles_def)
    moreover have "fields (map (makeDecoder fuel) ts) us y"
      using Cons.prems vs(3) xy by (intro Cons.IH) (auto split: if_splits)
    ultimately show ?thesis unfolding vs(1) xy(3) by (simp add: fields.one_field)
  next
    case True
    then obtain t' where t': "t = TTail t'" "handles fuel t'" "\<not> is_tail t'" using Cons.prems(1) by auto
    have "ts = []" using Cons.prems(2) True by (auto split: if_splits)
    then have us: "us = []" "y = []" using vs(3) xy(2) by auto
    obtain ws where ws: "v = SliceVal True ws" "\<forall>w \<in> set ws. has_type t' w" using vs(2) t'(1) by (cases v) auto
    then obtain Es where "list_all2 (decodes (makeDecoder fuel t')) ws Es" "x = concat Es" "length ws < fuel"
      using has_type_elements[OF t'(2,3) ws(2), of x] xy Cons.prems(5,6) by auto
    then show ?thesis using tail_field[OF makeDecoder_ends[OF t'(3) assms]] t'(1) us ws(1) vs(1) xy(3) \<open>ts = []\<close> by simp
  qed
qed

lemma makeDecoder_handles:
  assumes "0 < fuel"
  shows "type_ok t \<Longrightarrow> (\<not> is_tail t \<longrightarrow> handles fuel t) \<and> (is_tail t \<longrightarrow> (\<exists>t'. t = TTail t' \<and> handles fuel t' \<and> \<not> is_tail t'))"
proof (induction t)
  case TRaw
  show ?case using raw_framed decodes_raw
    by (fastforce simp: handles_def split: goval.splits option.splits sum.splits)
next
  case (TUint bits)
  then show ?case using decodes_uint[of bits] by (auto simp: handles_def split: goval.splits)
next
  case TBool
  show ?case using decodes_bool by (fastforce simp: handles_def split: goval.splits)
next
  case (TArray n t)
  then have t: "handles fuel t" "\<not> is_tail t" by auto
  have "decodes (decodeListArray n (makeDecoder fuel t)) (SliceVal False vs) (rlp_list P)"
    if "length vs = n" "\<forall>v \<in> set vs. has_type t v" "rlps vs = Inr P" "length (rlp_list P) < fuel" "length (rlp_list P) < 2 ^ 64" for vs P
    using has_type_elements[OF t that(2,3)] decodes_list_array[of "makeDecoder fuel t" vs] length_rlp_list_less[of P] that by (metis less_trans)
  then show ?case by (auto simp: handles_def dest!: map_sum_Inr split: goval.splits)
next
  case (TSlice t)
  then have t: "handles fuel t" "\<not> is_tail t" by auto
  have "decodes (decodeListSlice fuel (makeDecoder fuel t)) (SliceVal False vs) (rlp_list P)"
    if "\<forall>v \<in> set vs. has_type t v" "rlps vs = Inr P" "length (rlp_list P) < fuel" "length (rlp_list P) < 2 ^ 64" for vs P
    using has_type_elements[OF t that(1,2)] decodes_list_slice[OF makeDecoder_ends[OF t(2) assms]] length_rlp_list_less[of P] that
    by (metis less_trans)
  then show ?case by (auto simp: handles_def dest!: map_sum_Inr split: goval.splits)
next
  case (TStruct ts)
  then have ts: "\<forall>t \<in> set ts. (\<not> is_tail t \<longrightarrow> handles fuel t) \<and> (is_tail t \<longrightarrow> (\<exists>t'. t = TTail t' \<and> handles fuel t' \<and> \<not> is_tail t'))"
    "\<forall>t \<in> set (butlast ts). \<not> is_tail t" by (auto simp: list_all_iff)
  have "decodes (decodeStruct (map (makeDecoder fuel) ts)) (StructVal vs) (rlp_list P)"
    if "list_all2 has_type ts vs" "rlps vs = Inr P" "length (rlp_list P) < fuel" "length (rlp_list P) < 2 ^ 64" for vs P
    using struct_fields[OF assms ts that(1,2)] length_rlp_list_less[of P] that(3,4) by (intro decodes_struct) simp
  then show ?case by (auto simp: handles_def list_all2_map1 dest!: map_sum_Inr split: goval.splits)
next
  case (TOptPtr t)
  then show ?case using handles_opt_ptr assms by auto
next
  case TInterface
  show ?case using decodes_interface by (auto simp: handles_def)
qed (auto simp: handles_def decodes_string decodes_bytes decodes_byte_array decodes_bigint split: goval.splits option.splits)

section \<open>Properties\<close>



end
