(* ===== verification/Trie_Encoding.thy ===== *)
theory Trie_Encoding
  imports Prelude
begin

text \<open>The three encodings of the keys of a Merkle Patricia trie (\<open>trie/encoding.go\<close>): bytes, nibbles
  with an optional terminator, and the compact form that is stored. The conversions are inverse to
  each other on the keys that occur in tries.\<close>

section \<open>Encodings\<close>

definition hasTerm :: "bytes \<Rightarrow> bool" where
  "hasTerm s = (s \<noteq> [] \<and> s ! (length s - 1) = 16)"

fun decodeNibbles :: "bytes \<Rightarrow> bytes \<Rightarrow> bytes option" where
  "decodeNibbles [] bs = Some bs"
| "decodeNibbles (x # y # ns) (b # bs) = map_option (\<lambda>r. (push_bit 4 x OR y) # r) (decodeNibbles ns bs)"
| "decodeNibbles _ _ = None"

definition hexToCompact :: "bytes \<Rightarrow> bytes option" where
  "hexToCompact hex =
     (let (terminator, hex) = (if hasTerm hex then (1, take (length hex - 1) hex) else (0, hex));
          buf = replicate (length hex div 2) 0;
          flag = push_bit 5 (terminator :: byte);
          (flag, hex) = (if odd (length hex) then (flag OR push_bit 4 1 OR hex ! 0, drop 1 hex) else (flag, hex))
      in map_option (\<lambda>r. flag # r) (decodeNibbles hex buf))"

definition keybytesToHex :: "bytes \<Rightarrow> bytes" where
  "keybytesToHex str = concat (map (\<lambda>b. [b div 16, b mod 16]) str) @ [16]"

definition compactToHex :: "bytes \<Rightarrow> bytes option" where
  "compactToHex compact =
     (let base = keybytesToHex compact;
          base = (if base ! 0 < 2 then take (length base - 1) base else base);
          chop = 2 - (base ! 0 AND 1)
      in go_slice base (unat chop) (length base))"

definition hexToKeybytes :: "bytes \<Rightarrow> bytes option" where
  "hexToKeybytes hex =
     (let hex = (if hasTerm hex then take (length hex - 1) hex else hex)
      in if odd (length hex) then None else decodeNibbles hex (replicate (length hex div 2) 0))"

fun prefixLen :: "bytes \<Rightarrow> bytes \<Rightarrow> nat" where
  "prefixLen (a # as) (b # bs) = (if a \<noteq> b then 0 else Suc (prefixLen as bs))"
| "prefixLen _ _ = 0"

section \<open>Nibbles\<close>

definition nibbles :: "bytes \<Rightarrow> bool" where
  "nibbles ns \<longleftrightarrow> (\<forall>x \<in> set ns. x < 16)"

text \<open>The keys of the nodes of a trie: nibbles, with a terminator if the path ends in a value.\<close>

definition hex_key :: "bytes \<Rightarrow> bool" where
  "hex_key k \<longleftrightarrow> nibbles (if hasTerm k then butlast k else k)"

lemma nibbles_simps [simp]:
  "nibbles []" "nibbles (x # ns) \<longleftrightarrow> x < 16 \<and> nibbles ns" "nibbles (ms @ ns) \<longleftrightarrow> nibbles ms \<and> nibbles ns"
  by (auto simp: nibbles_def)

lemma hasTerm_snoc [simp]: "hasTerm (ns @ [x]) \<longleftrightarrow> x = 16"
  by (simp add: hasTerm_def nth_append)

lemma hasTerm_Nil [simp]: "\<not> hasTerm []"
  by (simp add: hasTerm_def)

lemma nibbles_no_term: "nibbles ns \<Longrightarrow> \<not> hasTerm ns"
  by (cases ns rule: rev_cases) auto

lemma hasTermE:
  assumes "hasTerm k"
  obtains ns where "k = ns @ [16]"
  using assms by (cases k rule: rev_cases) auto

lemma nibble_bit:
  fixes y :: byte
  assumes "y < 16" "bit y n"
  shows "n < 4"
proof -
  have "take_bit 4 y = y" using assms(1) by (simp add: take_bit_eq_mod mod_word_less)
  then show ?thesis using assms(2) bit_take_bit_iff[of 4 y n] by simp
qed

lemma byte_nibbles:
  fixes x y :: byte
  assumes "x < 16" "y < 16"
  shows "(push_bit 4 x OR y) div 16 = x" "(push_bit 4 x OR y) mod 16 = y"
proof -
  note b = nibble_bit[OF assms(1)] nibble_bit[OF assms(2)]
  have "drop_bit 4 (push_bit 4 x OR y) = x"
    by (rule bit_eqI) (auto simp: bit_simps dest: b)
  then show "(push_bit 4 x OR y) div 16 = x" by (simp add: drop_bit_eq_div)
  have "take_bit 4 (push_bit 4 x OR y) = y"
    by (rule bit_eqI) (auto simp: bit_simps dest: b)
  then show "(push_bit 4 x OR y) mod 16 = y" by (simp add: take_bit_eq_mod)
qed

lemma nibble_byte:
  fixes b :: byte
  shows "push_bit 4 (b div 16) OR (b mod 16) = b"
proof -
  have "b div 16 = drop_bit 4 b" "b mod 16 = take_bit 4 b"
    by (simp_all add: drop_bit_eq_div take_bit_eq_mod)
  moreover have "push_bit 4 (drop_bit 4 b) OR take_bit 4 b = b"
    by (rule bit_eqI) (auto simp: bit_simps)
  ultimately show ?thesis by simp
qed

lemma byte_div_mod_less: "(b :: byte) div 16 < 16" "(b :: byte) mod 16 < 16"
proof -
  have "unat b < 256" using unsigned_less[of b] by simp
  then show "b div 16 < 16" by (simp add: word_less_nat_alt unat_div)
  show "b mod 16 < 16" by (simp add: word_less_nat_alt unat_mod)
qed

section \<open>Round trips\<close>

abbreviation split_bytes :: "bytes \<Rightarrow> bytes" where
  "split_bytes bs \<equiv> concat (map (\<lambda>b. [b div 16, b mod 16]) bs)"

lemma split_bytes_facts [simp]: "nibbles (split_bytes bs)" "length (split_bytes bs) = 2 * length bs"
  by (induction bs) (simp_all add: byte_div_mod_less)

lemma decodeNibbles_split: "decodeNibbles (split_bytes bs) (replicate (length bs) 0) = Some bs"
  by (induction bs) (simp_all add: nibble_byte)

lemma decodeNibbles_hex:
  assumes "even (length ns)" "nibbles ns"
  obtains r where "decodeNibbles ns (replicate (length ns div 2) 0) = Some r" "split_bytes r = ns"
proof -
  have "\<exists>r. decodeNibbles ns (replicate (length ns div 2) 0) = Some r \<and> split_bytes r = ns"
    using assms
  proof (induction ns rule: induct_list012)
    case (3 x y ns)
    then obtain r where "decodeNibbles ns (replicate (length ns div 2) 0) = Some r" "split_bytes r = ns"
      by auto
    with 3(4) show ?case by (simp add: byte_nibbles)
  qed simp_all
  with that show thesis by blast
qed

lemma keybytes_term: "hasTerm (keybytesToHex k)" "butlast (keybytesToHex k) = split_bytes k"
  by (simp_all add: keybytesToHex_def)

lemma keybytes_hex_key [simp]: "hex_key (keybytesToHex k)"
  by (simp add: hex_key_def keybytes_term)

text \<open>C33: Converting the bytes of a key to nibbles and back gives the key again.\<close>

theorem hexToKeybytes_keybytesToHex: "hexToKeybytes (keybytesToHex k) = Some k"
  by (simp add: hexToKeybytes_def keybytesToHex_def decodeNibbles_split)

lemma compactToHex_Cons:
  assumes "f \<in> {0, 1, 2, 3}" "x < 16" "split_bytes r = ns"
  shows "compactToHex ((push_bit 4 f OR x) # r) =
           Some (drop (if f = 1 \<or> f = 3 then 1 else 2) ([f, x] @ ns @ (if f < 2 then [] else [16])))"
proof -
  have "f < 16" using assms(1) by auto
  then have base: "keybytesToHex ((push_bit 4 f OR x) # r) = [f, x] @ ns @ [16]"
    using assms by (simp add: keybytesToHex_def byte_nibbles)
  show ?thesis using assms(1) unfolding compactToHex_def base
    by auto
qed

lemma hexToCompact_split:
  assumes "nibbles ns"
  shows "\<exists>r. split_bytes r = (if odd (length ns) then tl ns else ns) \<and>
           hexToCompact (ns @ (if t then [16] else [])) =
             Some ((push_bit 4 ((if t then 2 else 0) + (if odd (length ns) then 1 else 0)) OR
                    (if odd (length ns) then hd ns else 0)) # r)"
proof (cases "odd (length ns)")
  case True
  then obtain x ms where ns: "ns = x # ms" by (cases ns) auto
  with True assms obtain r where r: "decodeNibbles ms (replicate (length ms div 2) 0) = Some r" "split_bytes r = ms"
    using decodeNibbles_hex[of ms] by auto
  have or: "(32 :: byte) OR (16 OR x) = 48 OR x" by (simp add: or.assoc[symmetric])
  have "hexToCompact (ns @ (if t then [16] else [])) =
          Some ((push_bit 4 ((if t then 2 else 0) + 1) OR x) # r)"
    using True r nibbles_no_term[OF assms] or hasTerm_snoc[of "x # ms" 16]
    by (cases t) (simp_all add: hexToCompact_def ns)
  then show ?thesis using r True by (auto simp: ns)
next
  case False
  with assms obtain r where r: "decodeNibbles ns (replicate (length ns div 2) 0) = Some r" "split_bytes r = ns"
    using decodeNibbles_hex[of ns] by auto
  have "hexToCompact (ns @ (if t then [16] else [])) = Some (push_bit 4 (if t then 2 else 0) # r)"
    using False r nibbles_no_term[OF assms] by (cases t) (simp_all add: hexToCompact_def)
  then show ?thesis using r False by auto
qed

lemma hex_keyE:
  assumes "hex_key k"
  obtains ns t where "k = ns @ (if t then [16] else [])" "nibbles ns" "hasTerm k \<longleftrightarrow> t"
proof (cases "hasTerm k")
  case True
  then show thesis using assms that[of "butlast k" True] by (auto simp: hex_key_def elim: hasTermE)
next
  case False
  then show thesis using assms that[of k False] by (simp add: hex_key_def)
qed

lemma compact_round_trip:
  assumes "hex_key k"
  shows "\<exists>c. hexToCompact k = Some c \<and> compactToHex c = Some k"
proof -
  obtain ns t where k: "k = ns @ (if t then [16] else [])" "nibbles ns"
    using assms by (rule hex_keyE)
  define f :: byte where "f = (if t then 2 else 0) + (if odd (length ns) then 1 else 0)"
  define x where "x = (if odd (length ns) then hd ns else 0)"
  obtain r where r: "split_bytes r = (if odd (length ns) then tl ns else ns)"
      "hexToCompact k = Some ((push_bit 4 f OR x) # r)"
    using hexToCompact_split[OF k(2), of t] k(1) unfolding f_def x_def by blast
  have "x < 16" "f \<in> {0, 1, 2, 3}" using k(2) by (cases ns; simp add: x_def f_def)+
  then have "compactToHex ((push_bit 4 f OR x) # r) = Some k"
    using k(1) by (cases ns) (simp_all add: compactToHex_Cons[OF _ _ r(1)], simp_all add: f_def x_def)
  with r(2) show ?thesis by blast
qed

text \<open>C32: The compact form of a key of a trie is defined, and reading it back gives the key, the
  terminator included.\<close>

theorem compactToHex_hexToCompact:
  assumes "hex_key k"
  shows "\<exists>c. hexToCompact k = Some c \<and> compactToHex c = Some k"
  using assms by (rule compact_round_trip)

theorem compactToHex_hexToCompact_witness:
  "\<exists>c. hexToCompact [1, 2, 3, 16] = Some c \<and> compactToHex c = Some [1, 2, 3, 16]"
  by (rule compactToHex_hexToCompact) (simp add: hex_key_def hasTerm_def)

lemma prefixLen_split:
  "take (prefixLen xs ys) xs = take (prefixLen xs ys) ys"
  "prefixLen xs ys \<le> length xs" "prefixLen xs ys \<le> length ys"
  by (induction xs ys rule: prefixLen.induct) auto

end
