(* ===== verification/Trie_Node.thy ===== *)
theory Trie_Node
  imports Trie_Encoding RLP_Encode
begin

text \<open>The nodes of a Merkle Patricia trie (\<open>trie/node.go\<close>): their data types, the caching flags, the
  form in which they are written as RLP, and the parser \<open>decodeNode\<close> that reads a stored node.\<close>

section \<open>Nodes\<close>

text \<open>\<open>nodeFlag\<close>; a nil \<open>hashNode\<close> is \<open>None\<close>.\<close>

record nodeFlag =
  nf_hash :: "bytes option"
  nf_gen :: "16 word"
  nf_dirty :: bool

text \<open>The interface \<open>node\<close>: the nil interface and the types that implement it, including the
  flagless forms that \<open>trie/database.go\<close> keeps in its cache.\<close>

datatype node =
    NilNode
  | FullNode "node list" nodeFlag
  | ShortNode bytes node nodeFlag
  | HashNode bytes
  | ValueNode bytes
  | RawNode bytes
  | RawFullNode "node list"
  | RawShortNode bytes node

text \<open>The method \<open>cache\<close>; on a raw node it panics.\<close>

fun node_cache :: "node \<Rightarrow> (bytes option \<times> bool) option" where
  "node_cache (FullNode _ fl) = Some (nf_hash fl, nf_dirty fl)"
| "node_cache (ShortNode _ _ fl) = Some (nf_hash fl, nf_dirty fl)"
| "node_cache (HashNode _) = Some (None, True)"
| "node_cache (ValueNode _) = Some (None, True)"
| "node_cache _ = None"

definition flag_canUnload :: "nodeFlag \<Rightarrow> 16 word \<Rightarrow> 16 word \<Rightarrow> bool" where
  "flag_canUnload fl cachegen cachelimit = (\<not> nf_dirty fl \<and> cachegen - nf_gen fl \<ge> cachelimit)"

fun node_canUnload :: "node \<Rightarrow> 16 word \<Rightarrow> 16 word \<Rightarrow> bool option" where
  "node_canUnload (FullNode _ fl) g l = Some (flag_canUnload fl g l)"
| "node_canUnload (ShortNode _ _ fl) g l = Some (flag_canUnload fl g l)"
| "node_canUnload (HashNode _) g l = Some False"
| "node_canUnload (ValueNode _) g l = Some False"
| "node_canUnload _ g l = None"

section \<open>Writing nodes\<close>

text \<open>What \<open>rlp.Encode\<close> sees of a node: a short node is a struct of two exported fields, a full node
  writes its seventeen children through \<open>EncodeRLP\<close>, with the empty string for a missing child.\<close>

fun node_goval :: "node \<Rightarrow> goval" where
  "node_goval NilNode = NilInterface"
| "node_goval (FullNode cs _) =
     SliceVal False (map (\<lambda>c. if c = NilNode then BytesVal [] else node_goval c) cs)"
| "node_goval (ShortNode k v _) = StructVal [BytesVal k, node_goval v]"
| "node_goval (HashNode b) = BytesVal b"
| "node_goval (ValueNode b) = BytesVal b"
| "node_goval (RawNode b) = BytesVal b"
| "node_goval (RawFullNode cs) =
     SliceVal False (map (\<lambda>c. if c = NilNode then BytesVal [] else node_goval c) cs)"
| "node_goval (RawShortNode k v) = StructVal [BytesVal k, node_goval v]"

section \<open>Reading nodes\<close>

datatype decode_error =
    DecRLP rlp_error
  | DecEOF
  | DecList rlp_error
  | DecCount nat
  | DecValue rlp_error
  | DecOversized nat
  | DecSize nat
  | DecWrapped decode_error "string list"

definition wrapError :: "decode_error \<Rightarrow> string \<Rightarrow> decode_error" where
  "wrapError err ctx =
     (case err of DecWrapped what stack \<Rightarrow> DecWrapped what (stack @ [ctx]) | _ \<Rightarrow> DecWrapped err [ctx])"

definition hashLen :: nat where "hashLen = 32"

text \<open>\<open>decodeRef\<close>, \<open>decodeShort\<close> and \<open>decodeFull\<close> call \<open>decodeNode\<close> for embedded nodes, which is the
  argument \<open>dec\<close> here.\<close>

type_synonym 'a decoded = "(decode_error + 'a) option"

definition decodeRef :: "(bytes \<Rightarrow> node decoded) \<Rightarrow> bytes \<Rightarrow> (node \<times> bytes) decoded" where
  "decodeRef dec buf =
     do { r \<leftarrow> Split buf;
          case r of Inl e \<Rightarrow> Some (Inl (DecRLP e))
          | Inr (kind, val, rest) \<Rightarrow>
              if kind = KList then
                (let size = length buf - length rest
                 in if size > hashLen then Some (Inl (DecOversized size))
                    else do { n \<leftarrow> dec buf; Some (map_sum id (\<lambda>n. (n, rest)) n) })
              else if kind = KString \<and> length val = 0 then Some (Inr (NilNode, rest))
              else if kind = KString \<and> length val = 32 then Some (Inr (HashNode val, rest))
              else Some (Inl (DecSize (length val))) }"

definition decodeShort :: "(bytes \<Rightarrow> node decoded) \<Rightarrow> bytes option \<Rightarrow> bytes \<Rightarrow> 16 word \<Rightarrow> node decoded" where
  "decodeShort dec hash elems cachegen =
     do { r \<leftarrow> SplitString elems;
          case r of Inl e \<Rightarrow> Some (Inl (DecRLP e))
          | Inr (kbuf, rest) \<Rightarrow>
              (let flag = \<lparr> nf_hash = hash, nf_gen = cachegen, nf_dirty = False \<rparr>
               in do { key \<leftarrow> compactToHex kbuf;
                       if hasTerm key then
                         do { v \<leftarrow> SplitString rest;
                              Some (case v of Inl e \<Rightarrow> Inl (DecValue e)
                                    | Inr (val, _) \<Rightarrow> Inr (ShortNode key (ValueNode val) flag)) }
                       else
                         do { v \<leftarrow> decodeRef dec rest;
                              Some (case v of Inl e \<Rightarrow> Inl (wrapError e ''val'')
                                    | Inr (r, _) \<Rightarrow> Inr (ShortNode key r flag)) } }) }"

text \<open>The loop of \<open>decodeFull\<close> over \<open>k\<close> more children; the context added to an error is the number of
  the child, formatted with \<open>[%d]\<close>.\<close>

definition child_context :: "nat \<Rightarrow> string" where
  "child_context i =
     ''['' @ (if i < 10 then [char_of (48 + i)] else [CHR ''1'', char_of (38 + i)]) @ '']''"

primrec decodeChildren :: "(bytes \<Rightarrow> node decoded) \<Rightarrow> nat \<Rightarrow> bytes \<Rightarrow> (node list \<times> bytes) decoded" where
  "decodeChildren dec 0 elems = Some (Inr ([], elems))"
| "decodeChildren dec (Suc k) elems =
     do { r \<leftarrow> decodeRef dec elems;
          case r of Inl e \<Rightarrow> Some (Inl (wrapError e (child_context (15 - k))))
          | Inr (cld, rest) \<Rightarrow>
              do { cs \<leftarrow> decodeChildren dec k rest;
                   Some (map_sum id (\<lambda>(cs, rest). (cld # cs, rest)) cs) } }"

definition decodeFull :: "(bytes \<Rightarrow> node decoded) \<Rightarrow> bytes option \<Rightarrow> bytes \<Rightarrow> 16 word \<Rightarrow> node decoded" where
  "decodeFull dec hash elems cachegen =
     do { r \<leftarrow> decodeChildren dec 16 elems;
          case r of Inl e \<Rightarrow> Some (Inl e)
          | Inr (cs, elems) \<Rightarrow>
              do { v \<leftarrow> SplitString elems;
                   Some (case v of Inl e \<Rightarrow> Inl (DecRLP e)
                         | Inr (val, _) \<Rightarrow>
                             Inr (FullNode (cs @ [if length val > 0 then ValueNode val else NilNode])
                                    \<lparr> nf_hash = hash, nf_gen = cachegen, nf_dirty = False \<rparr>)) } }"

text \<open>An embedded node is shorter than the list that holds it, so the length of the input bounds the
  depth of the recursion.\<close>

primrec decodeNode_rec :: "nat \<Rightarrow> bytes option \<Rightarrow> bytes \<Rightarrow> 16 word \<Rightarrow> node decoded" where
  "decodeNode_rec 0 hash buf cachegen = None"
| "decodeNode_rec (Suc fuel) hash buf cachegen =
     (if length buf = 0 then Some (Inl DecEOF)
      else do { r \<leftarrow> SplitList buf;
                case r of Inl e \<Rightarrow> Some (Inl (DecList e))
                | Inr (elems, _) \<Rightarrow>
                    do { cnt \<leftarrow> CountValues elems;
                         let c = (case cnt of Inl _ \<Rightarrow> 0 | Inr c \<Rightarrow> c);
                         let dec = (\<lambda>b. decodeNode_rec fuel None b cachegen);
                         if c = 2 then
                           do { n \<leftarrow> decodeShort dec hash elems cachegen;
                                Some (map_sum (\<lambda>e. wrapError e ''short'') id n) }
                         else if c = 17 then
                           do { n \<leftarrow> decodeFull dec hash elems cachegen;
                                Some (map_sum (\<lambda>e. wrapError e ''full'') id n) }
                         else Some (Inl (DecCount c)) } })"

definition decodeNode :: "bytes option \<Rightarrow> bytes \<Rightarrow> 16 word \<Rightarrow> node decoded" where
  "decodeNode hash buf cachegen = decodeNode_rec (Suc (length buf)) hash buf cachegen"

definition mustDecodeNode :: "bytes option \<Rightarrow> bytes \<Rightarrow> 16 word \<Rightarrow> node option" where
  "mustDecodeNode hash buf cachegen =
     do { r \<leftarrow> decodeNode hash buf cachegen; case r of Inl _ \<Rightarrow> None | Inr n \<Rightarrow> Some n }"

end
