(* ===== verification/Trie_Database.thy ===== *)
theory Trie_Database
  imports Trie_Node
begin

text \<open>The database behind the tries (\<open>trie/database.go\<close>): a cache of collapsed nodes with reference
  counts and a list of the nodes in the order of their insertion, in front of a key-value store.
  The store is the one of \<open>ethdb/memory_database.go\<close>, a map whose operations do not fail; locks,
  timers, metrics and log messages have no counterpart here. A Go map of children is an association
  list, so iteration has one of the orders Go allows.\<close>

section \<open>Cached nodes\<close>

record cachedNode =
  cn_node :: node
  cn_size :: "16 word"
  cn_parents :: "16 word"
  cn_children :: "(hash \<times> 16 word) list"
  cn_flushPrev :: hash
  cn_flushNext :: hash

definition cached_rlp :: "cachedNode \<Rightarrow> bytes option" where
  "cached_rlp n =
     (case cn_node n of RawNode b \<Rightarrow> Some b
      | nd \<Rightarrow> do { r \<leftarrow> EncodeToBytes (node_goval nd); case r of Inl _ \<Rightarrow> None | Inr b \<Rightarrow> Some b })"

fun expandNode :: "bytes option \<Rightarrow> node \<Rightarrow> 16 word \<Rightarrow> node option" where
  "expandNode hash (RawShortNode k v) cachegen =
     do { key \<leftarrow> compactToHex k;
          v \<leftarrow> expandNode None v cachegen;
          Some (ShortNode key v \<lparr> nf_hash = hash, nf_gen = cachegen, nf_dirty = False \<rparr>) }"
| "expandNode hash (RawFullNode cs) cachegen =
     do { cs \<leftarrow> those (map (\<lambda>c. if c = NilNode then Some NilNode else expandNode None c cachegen) cs);
          Some (FullNode cs \<lparr> nf_hash = hash, nf_gen = cachegen, nf_dirty = False \<rparr>) }"
| "expandNode hash (ValueNode b) cachegen = Some (ValueNode b)"
| "expandNode hash (HashNode b) cachegen = Some (HashNode b)"
| "expandNode hash _ cachegen = None"

definition cached_obj :: "cachedNode \<Rightarrow> hash \<Rightarrow> 16 word \<Rightarrow> node option" where
  "cached_obj n hash cachegen =
     (case cn_node n of RawNode b \<Rightarrow> mustDecodeNode (Some (Hash_Bytes hash)) b cachegen
      | nd \<Rightarrow> expandNode (Some (Hash_Bytes hash)) nd cachegen)"

fun gatherChildren :: "node \<Rightarrow> hash list option" where
  "gatherChildren (RawShortNode _ v) = gatherChildren v"
| "gatherChildren (RawFullNode cs) = map_option concat (those (take 16 (map gatherChildren cs)))"
| "gatherChildren (HashNode b) = Some [BytesToHash b]"
| "gatherChildren (ValueNode _) = Some []"
| "gatherChildren NilNode = Some []"
| "gatherChildren _ = None"

definition childs :: "cachedNode \<Rightarrow> hash list option" where
  "childs n =
     (case cn_node n of RawNode _ \<Rightarrow> Some (map fst (cn_children n))
      | nd \<Rightarrow> do { hs \<leftarrow> gatherChildren nd; Some (map fst (cn_children n) @ hs) })"

fun simplifyNode :: "node \<Rightarrow> node option" where
  "simplifyNode (ShortNode k v _) = do { v \<leftarrow> simplifyNode v; Some (RawShortNode k v) }"
| "simplifyNode (FullNode cs _) =
     do { cs \<leftarrow> those (map (\<lambda>c. if c = NilNode then Some NilNode else simplifyNode c) cs);
          Some (RawFullNode cs) }"
| "simplifyNode (ValueNode b) = Some (ValueNode b)"
| "simplifyNode (HashNode b) = Some (HashNode b)"
| "simplifyNode (RawNode b) = Some (RawNode b)"
| "simplifyNode _ = None"

section \<open>The database\<close>

text \<open>\<open>common.StorageSize\<close> is a floating point number that only ever holds integers.\<close>

record tdb =
  tdb_diskdb :: "bytes \<Rightarrow> bytes option"
  tdb_nodes :: "hash \<Rightarrow> cachedNode option"
  tdb_oldest :: hash
  tdb_newest :: hash
  tdb_preimages :: "(hash \<times> bytes) list"
  tdb_nodesSize :: int
  tdb_preimagesSize :: int

definition NewDatabase :: "(bytes \<Rightarrow> bytes option) \<Rightarrow> tdb" where
  "NewDatabase diskdb =
     \<lparr> tdb_diskdb = diskdb,
       tdb_nodes = [0 \<mapsto> \<lparr> cn_node = NilNode, cn_size = 0, cn_parents = 0, cn_children = [],
                          cn_flushPrev = 0, cn_flushNext = 0 \<rparr>],
       tdb_oldest = 0, tdb_newest = 0, tdb_preimages = [], tdb_nodesSize = 0, tdb_preimagesSize = 0 \<rparr>"

text \<open>Changes of an entry of \<open>db.nodes\<close> through the pointer the map holds; a nil pointer panics.\<close>

definition entry_update :: "hash \<Rightarrow> (cachedNode \<Rightarrow> cachedNode) \<Rightarrow> tdb \<Rightarrow> tdb option" where
  "entry_update h f db =
     (case tdb_nodes db h of None \<Rightarrow> None
      | Some c \<Rightarrow> Some (db\<lparr> tdb_nodes := (tdb_nodes db)(h \<mapsto> f c) \<rparr>))"

definition add_parent :: "hash \<Rightarrow> tdb \<Rightarrow> tdb" where
  "add_parent child db =
     (case tdb_nodes db child of None \<Rightarrow> db
      | Some c \<Rightarrow> db\<lparr> tdb_nodes := (tdb_nodes db)(child \<mapsto> c\<lparr> cn_parents := cn_parents c + 1 \<rparr>) \<rparr>)"

definition tdb_insert :: "hash \<Rightarrow> bytes \<Rightarrow> node \<Rightarrow> tdb \<Rightarrow> tdb option" where
  "tdb_insert hash blob nd db =
     (if tdb_nodes db hash \<noteq> None then Some db
      else do {
        nd \<leftarrow> simplifyNode nd;
        let entry = \<lparr> cn_node = nd, cn_size = of_nat (length blob), cn_parents = 0, cn_children = [],
                      cn_flushPrev = tdb_newest db, cn_flushNext = 0 \<rparr>;
        children \<leftarrow> childs entry;
        let db = fold add_parent children db;
        let db = db\<lparr> tdb_nodes := (tdb_nodes db)(hash \<mapsto> entry) \<rparr>;
        db \<leftarrow> (if tdb_oldest db = 0 then Some (db\<lparr> tdb_oldest := hash, tdb_newest := hash \<rparr>)
              else do { db \<leftarrow> entry_update (tdb_newest db) (\<lambda>c. c\<lparr> cn_flushNext := hash \<rparr>) db;
                        Some (db\<lparr> tdb_newest := hash \<rparr>) });
        Some (db\<lparr> tdb_nodesSize := tdb_nodesSize db + uint (32 + cn_size entry) \<rparr>) })"

definition InsertBlob :: "hash \<Rightarrow> bytes \<Rightarrow> tdb \<Rightarrow> tdb option" where
  "InsertBlob hash blob db = tdb_insert hash blob (RawNode blob) db"

definition insertPreimage :: "hash \<Rightarrow> bytes \<Rightarrow> tdb \<Rightarrow> tdb" where
  "insertPreimage hash preimage db =
     (if map_of (tdb_preimages db) hash \<noteq> None then db
      else db\<lparr> tdb_preimages := tdb_preimages db @ [(hash, preimage)],
               tdb_preimagesSize := tdb_preimagesSize db + (32 + int (length preimage)) \<rparr>)"

definition tdb_node :: "tdb \<Rightarrow> hash \<Rightarrow> 16 word \<Rightarrow> node option" where
  "tdb_node db hash cachegen =
     (case tdb_nodes db hash of Some n \<Rightarrow> cached_obj n hash cachegen
      | None \<Rightarrow> (case tdb_diskdb db (Hash_Bytes hash) of None \<Rightarrow> Some NilNode
                 | Some enc \<Rightarrow> mustDecodeNode (Some (Hash_Bytes hash)) enc cachegen))"

text \<open>The encoded node, or \<open>Inl ()\<close> for the error of the disk database.\<close>

definition tdb_Node :: "tdb \<Rightarrow> hash \<Rightarrow> (unit + bytes) option" where
  "tdb_Node db hash =
     (case tdb_nodes db hash of Some n \<Rightarrow> map_option Inr (cached_rlp n)
      | None \<Rightarrow> Some (case tdb_diskdb db (Hash_Bytes hash) of None \<Rightarrow> Inl () | Some enc \<Rightarrow> Inr enc))"

definition secureKey :: "bytes \<Rightarrow> bytes" where
  "secureKey key = map (of_char) ''secure-key-'' @ key"

definition tdb_preimage :: "tdb \<Rightarrow> hash \<Rightarrow> unit + bytes" where
  "tdb_preimage db hash =
     (case map_of (tdb_preimages db) hash of Some p \<Rightarrow> Inr p
      | None \<Rightarrow> (case tdb_diskdb db (secureKey (Hash_Bytes hash)) of None \<Rightarrow> Inl () | Some p \<Rightarrow> Inr p))"

section \<open>References\<close>

fun count_child :: "hash \<Rightarrow> (hash \<times> 16 word) list \<Rightarrow> (hash \<times> 16 word) list" where
  "count_child h [] = [(h, 1)]"
| "count_child h ((k, n) # cs) = (if k = h then (k, n + 1) # cs else (k, n) # count_child h cs)"

definition reference :: "hash \<Rightarrow> hash \<Rightarrow> tdb \<Rightarrow> tdb option" where
  "reference child parent db =
     (case tdb_nodes db child of None \<Rightarrow> Some db
      | Some _ \<Rightarrow>
          do { p \<leftarrow> tdb_nodes db parent;
               if map_of (cn_children p) child \<noteq> None \<and> parent \<noteq> 0 then Some db
               else do { db \<leftarrow> entry_update child (\<lambda>c. c\<lparr> cn_parents := cn_parents c + 1 \<rparr>) db;
                         entry_update parent (\<lambda>c. c\<lparr> cn_children := count_child child (cn_children c) \<rparr>) db } })"

fun uncount_child :: "hash \<Rightarrow> (hash \<times> 16 word) list \<Rightarrow> (hash \<times> 16 word) list" where
  "uncount_child h [] = []"
| "uncount_child h ((k, n) # cs) =
     (if k = h then (if n > 0 then (if n - 1 = 0 then cs else (k, n - 1) # cs) else (k, n) # cs)
      else (k, n) # uncount_child h cs)"

text \<open>Taking a node out of the list of insertions.\<close>

definition flush_unlink :: "hash \<Rightarrow> cachedNode \<Rightarrow> tdb \<Rightarrow> tdb option" where
  "flush_unlink child n db =
     (if child = tdb_oldest db then Some (db\<lparr> tdb_oldest := cn_flushNext n \<rparr>)
      else do { db \<leftarrow> entry_update (cn_flushPrev n) (\<lambda>c. c\<lparr> cn_flushNext := cn_flushNext n \<rparr>) db;
                entry_update (cn_flushNext n) (\<lambda>c. c\<lparr> cn_flushPrev := cn_flushPrev n \<rparr>) db })"

text \<open>Running a function over the children of a node, which may panic.\<close>

primrec each_child :: "(hash \<Rightarrow> tdb \<Rightarrow> tdb option) \<Rightarrow> hash list \<Rightarrow> tdb \<Rightarrow> tdb option" where
  "each_child f [] db = Some db"
| "each_child f (h # hs) db = do { db \<leftarrow> f h db; each_child f hs db }"

definition drop_entry :: "hash \<Rightarrow> cachedNode \<Rightarrow> tdb \<Rightarrow> tdb" where
  "drop_entry h n db =
     db\<lparr> tdb_nodes := (tdb_nodes db)(h := None), tdb_nodesSize := tdb_nodesSize db - (32 + uint (cn_size n)) \<rparr>"

text \<open>\<open>dereference\<close> and \<open>uncache\<close> follow the references below a node; the fuel bounds the depth.\<close>

primrec dereference :: "nat \<Rightarrow> hash \<Rightarrow> hash \<Rightarrow> tdb \<Rightarrow> tdb option" where
  "dereference 0 child parent db = None"
| "dereference (Suc fuel) child parent db =
     do { db \<leftarrow> entry_update parent (\<lambda>c. c\<lparr> cn_children := uncount_child child (cn_children c) \<rparr>) db;
          case tdb_nodes db child of None \<Rightarrow> Some db
          | Some n \<Rightarrow>
              (let n = (if cn_parents n > 0 then n\<lparr> cn_parents := cn_parents n - 1 \<rparr> else n);
                   db = db\<lparr> tdb_nodes := (tdb_nodes db)(child \<mapsto> n) \<rparr>
               in if cn_parents n = 0 then
                    do { db \<leftarrow> flush_unlink child n db;
                         n' \<leftarrow> tdb_nodes db child;
                         hs \<leftarrow> childs n';
                         db \<leftarrow> each_child (\<lambda>h. dereference fuel h child) hs db;
                         Some (drop_entry child n db) }
                  else Some db) }"

definition Dereference :: "nat \<Rightarrow> hash \<Rightarrow> tdb \<Rightarrow> tdb option" where
  "Dereference fuel root db = dereference fuel root 0 db"

section \<open>Committing to disk\<close>

text \<open>\<open>commit\<close> collects the pairs in a batch. A batch that has grown large is written at once, which
  leaves the same store as writing all pairs at the end, so the model writes each pair when it is
  put.\<close>

primrec tdb_commit :: "nat \<Rightarrow> hash \<Rightarrow> tdb \<Rightarrow> tdb option" where
  "tdb_commit 0 hash db = None"
| "tdb_commit (Suc fuel) hash db =
     (case tdb_nodes db hash of None \<Rightarrow> Some db
      | Some n \<Rightarrow>
          do { hs \<leftarrow> childs n;
               db \<leftarrow> each_child (tdb_commit fuel) hs db;
               enc \<leftarrow> cached_rlp n;
               Some (db\<lparr> tdb_diskdb := (tdb_diskdb db)(Hash_Bytes hash \<mapsto> enc) \<rparr>) })"

primrec uncache :: "nat \<Rightarrow> hash \<Rightarrow> tdb \<Rightarrow> tdb option" where
  "uncache 0 hash db = None"
| "uncache (Suc fuel) hash db =
     (case tdb_nodes db hash of None \<Rightarrow> Some db
      | Some n \<Rightarrow>
          do { db \<leftarrow> flush_unlink hash n db;
               n' \<leftarrow> tdb_nodes db hash;
               hs \<leftarrow> childs n';
               db \<leftarrow> each_child (uncache fuel) hs db;
               Some (drop_entry hash n db) })"

definition tdb_Commit :: "nat \<Rightarrow> hash \<Rightarrow> tdb \<Rightarrow> tdb option" where
  "tdb_Commit fuel nd db =
     do { let db = db\<lparr> tdb_diskdb := fold (\<lambda>(h, p) m. m(secureKey (Hash_Bytes h) \<mapsto> p)) (tdb_preimages db)
                                      (tdb_diskdb db) \<rparr>;
          db \<leftarrow> tdb_commit fuel nd db;
          uncache fuel nd (db\<lparr> tdb_preimages := [], tdb_preimagesSize := 0 \<rparr>) }"

section \<open>The newest node\<close>



end
