(* ===== verification/Trie_Ops.thy ===== *)
theory Trie_Ops
  imports Trie_Database
begin

text \<open>The operations of a Merkle Patricia trie (\<open>trie/trie.go\<close>) and the hasher that collapses its nodes
  into the database (\<open>trie/hasher.go\<close>). The database is shared by several tries and is passed to the
  operations. A lookup, an insertion or a deletion may load nodes from the database on its way; the
  fuel of the recursive functions bounds the number of nodes they visit, and running out of it has
  the same result \<open>None\<close> as a panic. A node that is not in the database is the error
  \<open>MissingNodeError\<close>.\<close>

section \<open>Tries\<close>

datatype trie_error = MissingNodeError hash bytes

record Trie =
  tr_root :: node
  tr_originalRoot :: hash
  tr_cachegen :: "16 word"
  tr_cachelimit :: "16 word"

definition emptyRoot :: hash where
  "emptyRoot = 0x56e81f171bcc55a6ff8345e692c0f86e5b48e01b996cadc001622fb5e363b421"

definition SetCacheLimit :: "16 word \<Rightarrow> Trie \<Rightarrow> Trie" where
  "SetCacheLimit l t = t\<lparr> tr_cachelimit := l \<rparr>"

definition newFlag :: "16 word \<Rightarrow> nodeFlag" where
  "newFlag cachegen = \<lparr> nf_hash = None, nf_gen = cachegen, nf_dirty = True \<rparr>"

definition resolveHash :: "tdb \<Rightarrow> 16 word \<Rightarrow> bytes \<Rightarrow> bytes \<Rightarrow> (trie_error + node) option" where
  "resolveHash db cachegen n prefix =
     (let hash = BytesToHash n
      in do { nd \<leftarrow> tdb_node db hash cachegen;
              Some (if nd \<noteq> NilNode then Inr nd else Inl (MissingNodeError hash prefix)) })"

definition resolve :: "tdb \<Rightarrow> 16 word \<Rightarrow> node \<Rightarrow> bytes \<Rightarrow> (trie_error + node) option" where
  "resolve db cachegen n prefix =
     (case n of HashNode h \<Rightarrow> resolveHash db cachegen h prefix | _ \<Rightarrow> Some (Inr n))"

definition trie_New :: "hash \<Rightarrow> tdb \<Rightarrow> (trie_error + Trie) option" where
  "trie_New root db =
     (let trie = \<lparr> tr_root = NilNode, tr_originalRoot = root, tr_cachegen = 0, tr_cachelimit = 0 \<rparr>
      in if root \<noteq> 0 \<and> root \<noteq> emptyRoot then
           do { r \<leftarrow> resolveHash db 0 (Hash_Bytes root) [];
                Some (map_sum id (\<lambda>rootnode. trie\<lparr> tr_root := rootnode \<rparr>) r) }
         else Some (Inr trie))"

section \<open>Lookup\<close>

text \<open>\<open>tryGet\<close> returns the value, the node that replaces the visited one and whether a node was
  loaded.\<close>

primrec tryGet :: "nat \<Rightarrow> tdb \<Rightarrow> 16 word \<Rightarrow> node \<Rightarrow> bytes \<Rightarrow> nat \<Rightarrow>
    (trie_error + (bytes option \<times> node \<times> bool)) option" where
  "tryGet 0 db gen origNode key pos = None"
| "tryGet (Suc fuel) db gen origNode key pos =
     (case origNode of
        NilNode \<Rightarrow> Some (Inr (None, NilNode, False))
      | ValueNode v \<Rightarrow> Some (Inr (Some v, ValueNode v, False))
      | ShortNode k val fl \<Rightarrow>
          if int (length key) - int pos < int (length k) then Some (Inr (None, origNode, False))
          else do { part \<leftarrow> go_slice key pos (pos + length k);
                    if k \<noteq> part then Some (Inr (None, origNode, False))
                    else do { r \<leftarrow> tryGet fuel db gen val key (pos + length k);
                              Some (map_sum id (\<lambda>(value, newnode, didResolve).
                                (value, if didResolve then ShortNode k newnode (fl\<lparr> nf_gen := gen \<rparr>)
                                        else origNode, didResolve)) r) } }
      | FullNode cs fl \<Rightarrow>
          do { b \<leftarrow> go_index key pos;
               c \<leftarrow> go_index cs (unat b);
               r \<leftarrow> tryGet fuel db gen c key (pos + 1);
               Some (map_sum id (\<lambda>(value, newnode, didResolve).
                 (value, if didResolve then FullNode (cs[unat b := newnode]) (fl\<lparr> nf_gen := gen \<rparr>)
                         else origNode, didResolve)) r) }
      | HashNode h \<Rightarrow>
          do { prefix \<leftarrow> go_slice key 0 pos;
               child \<leftarrow> resolveHash db gen h prefix;
               case child of Inl err \<Rightarrow> Some (Inl err)
               | Inr child \<Rightarrow>
                   do { r \<leftarrow> tryGet fuel db gen child key pos;
                        Some (map_sum id (\<lambda>(value, newnode, _). (value, newnode, True)) r) } }
      | _ \<Rightarrow> None)"

definition trie_TryGet :: "nat \<Rightarrow> tdb \<Rightarrow> Trie \<Rightarrow> bytes \<Rightarrow> (Trie \<times> (trie_error + bytes option)) option" where
  "trie_TryGet fuel db t key =
     do { r \<leftarrow> tryGet fuel db (tr_cachegen t) (tr_root t) (keybytesToHex key) 0;
          Some (case r of Inl err \<Rightarrow> (t, Inl err)
                | Inr (value, newroot, didResolve) \<Rightarrow>
                    (if didResolve then t\<lparr> tr_root := newroot \<rparr> else t, Inr value)) }"

section \<open>Insertion\<close>

text \<open>\<open>insert\<close> returns whether the trie has changed and the new node.\<close>

primrec trie_insert :: "nat \<Rightarrow> tdb \<Rightarrow> 16 word \<Rightarrow> node \<Rightarrow> bytes \<Rightarrow> bytes \<Rightarrow> node \<Rightarrow>
    (trie_error + (bool \<times> node)) option" where
  "trie_insert 0 db gen n prefix key value = None"
| "trie_insert (Suc fuel) db gen n prefix key value =
     (if length key = 0 then
        (case n of
           ValueNode v \<Rightarrow> (case value of ValueNode w \<Rightarrow> Some (Inr (v \<noteq> w, value)) | _ \<Rightarrow> None)
         | _ \<Rightarrow> Some (Inr (True, value)))
      else case n of
        ShortNode k val fl \<Rightarrow>
          (let matchlen = prefixLen key k
           in if matchlen = length k then
                do { r \<leftarrow> trie_insert fuel db gen val (prefix @ take matchlen key) (drop matchlen key) value;
                     Some (map_sum id (\<lambda>(dirty, nn).
                       if \<not> dirty then (False, n) else (True, ShortNode k nn (newFlag gen))) r) }
              else
                do { kb \<leftarrow> go_index k matchlen;
                     r1 \<leftarrow> trie_insert fuel db gen NilNode (prefix @ take (matchlen + 1) k)
                             (drop (matchlen + 1) k) val;
                     case r1 of Inl err \<Rightarrow> Some (Inl err)
                     | Inr (_, c1) \<Rightarrow>
                         do { children \<leftarrow> (if unat kb < 17 then Some ((replicate 17 NilNode)[unat kb := c1]) else None);
                              b \<leftarrow> go_index key matchlen;
                              r2 \<leftarrow> trie_insert fuel db gen NilNode (prefix @ take (matchlen + 1) key)
                                      (drop (matchlen + 1) key) value;
                              case r2 of Inl err \<Rightarrow> Some (Inl err)
                              | Inr (_, c2) \<Rightarrow>
                                  do { children \<leftarrow> (if unat b < 17 then Some (children[unat b := c2]) else None);
                                       let branch = FullNode children (newFlag gen);
                                       Some (Inr (if matchlen = 0 then (True, branch)
                                                  else (True, ShortNode (take matchlen key) branch (newFlag gen)))) } } })
      | FullNode cs fl \<Rightarrow>
          do { b \<leftarrow> go_index key 0;
               c \<leftarrow> go_index cs (unat b);
               r \<leftarrow> trie_insert fuel db gen c (prefix @ [b]) (drop 1 key) value;
               Some (map_sum id (\<lambda>(dirty, nn).
                 if \<not> dirty then (False, n) else (True, FullNode (cs[unat b := nn]) (newFlag gen))) r) }
      | NilNode \<Rightarrow> Some (Inr (True, ShortNode key value (newFlag gen)))
      | HashNode h \<Rightarrow>
          do { rn \<leftarrow> resolveHash db gen h prefix;
               case rn of Inl err \<Rightarrow> Some (Inl err)
               | Inr rn \<Rightarrow>
                   do { r \<leftarrow> trie_insert fuel db gen rn prefix key value;
                        Some (map_sum id (\<lambda>(dirty, nn). if \<not> dirty then (False, rn) else (True, nn)) r) } }
      | _ \<Rightarrow> None)"

section \<open>Deletion\<close>

definition trie_concat :: "bytes \<Rightarrow> bytes \<Rightarrow> bytes" where
  "trie_concat s1 s2 = s1 @ s2"

text \<open>The loop over the children after a deletion: the position of the only child, or a negative
  number.\<close>

fun single_pos :: "nat \<Rightarrow> int \<Rightarrow> node list \<Rightarrow> int" where
  "single_pos i pos [] = pos"
| "single_pos i pos (cld # cs) =
     (if cld \<noteq> NilNode then (if pos = -1 then single_pos (Suc i) (int i) cs else -2)
      else single_pos (Suc i) pos cs)"

text \<open>What becomes of a full node after the deletion of a child: with one child left it is a short
  node, merged with that child if the child is a short node as well.\<close>

definition reduce_full :: "tdb \<Rightarrow> 16 word \<Rightarrow> bytes \<Rightarrow> node list \<Rightarrow> (trie_error + (bool \<times> node)) option" where
  "reduce_full db gen prefix cs =
     (let pos = single_pos 0 (-1) cs
      in if pos \<ge> 0 then
           (let i = nat pos;
                single = Some (Inr (True, ShortNode [of_nat i] (cs ! i) (newFlag gen)))
            in if pos \<noteq> 16 then
                 do { r \<leftarrow> resolve db gen (cs ! i) prefix;
                      case r of Inl err \<Rightarrow> Some (Inl err)
                      | Inr cnode \<Rightarrow>
                          (case cnode of
                             ShortNode k v _ \<Rightarrow> Some (Inr (True, ShortNode (of_nat i # k) v (newFlag gen)))
                           | _ \<Rightarrow> single) }
               else single)
         else Some (Inr (True, FullNode cs (newFlag gen))))"

primrec trie_delete :: "nat \<Rightarrow> tdb \<Rightarrow> 16 word \<Rightarrow> node \<Rightarrow> bytes \<Rightarrow> bytes \<Rightarrow>
    (trie_error + (bool \<times> node)) option" where
  "trie_delete 0 db gen n prefix key = None"
| "trie_delete (Suc fuel) db gen n prefix key =
     (case n of
        ShortNode k val fl \<Rightarrow>
          (let matchlen = prefixLen key k
           in if matchlen < length k then Some (Inr (False, n))
              else if matchlen = length key then Some (Inr (True, NilNode))
              else do { r \<leftarrow> trie_delete fuel db gen val (prefix @ take (length k) key) (drop (length k) key);
                        Some (map_sum id (\<lambda>(dirty, child).
                          if \<not> dirty then (False, n)
                          else case child of
                            ShortNode k' v' _ \<Rightarrow> (True, ShortNode (trie_concat k k') v' (newFlag gen))
                          | _ \<Rightarrow> (True, ShortNode k child (newFlag gen))) r) })
      | FullNode cs fl \<Rightarrow>
          do { b \<leftarrow> go_index key 0;
               c \<leftarrow> go_index cs (unat b);
               r \<leftarrow> trie_delete fuel db gen c (prefix @ [b]) (drop 1 key);
               case r of Inl err \<Rightarrow> Some (Inl err)
               | Inr (dirty, nn) \<Rightarrow>
                   if \<not> dirty then Some (Inr (False, n))
                   else reduce_full db gen prefix (cs[unat b := nn]) }
      | ValueNode v \<Rightarrow> Some (Inr (True, NilNode))
      | NilNode \<Rightarrow> Some (Inr (False, NilNode))
      | HashNode h \<Rightarrow>
          do { rn \<leftarrow> resolveHash db gen h prefix;
               case rn of Inl err \<Rightarrow> Some (Inl err)
               | Inr rn \<Rightarrow>
                   do { r \<leftarrow> trie_delete fuel db gen rn prefix key;
                        Some (map_sum id (\<lambda>(dirty, nn). if \<not> dirty then (False, rn) else (True, nn)) r) } }
      | _ \<Rightarrow> None)"

section \<open>Updates\<close>

definition trie_TryDelete :: "nat \<Rightarrow> tdb \<Rightarrow> Trie \<Rightarrow> bytes \<Rightarrow> (Trie \<times> trie_error option) option" where
  "trie_TryDelete fuel db t key =
     do { r \<leftarrow> trie_delete fuel db (tr_cachegen t) (tr_root t) [] (keybytesToHex key);
          Some (case r of Inl err \<Rightarrow> (t, Some err) | Inr (_, n) \<Rightarrow> (t\<lparr> tr_root := n \<rparr>, None)) }"

definition trie_TryUpdate :: "nat \<Rightarrow> tdb \<Rightarrow> Trie \<Rightarrow> bytes \<Rightarrow> bytes \<Rightarrow> (Trie \<times> trie_error option) option" where
  "trie_TryUpdate fuel db t key value =
     (let k = keybytesToHex key
      in do { r \<leftarrow> (if length value \<noteq> 0
                    then trie_insert fuel db (tr_cachegen t) (tr_root t) [] k (ValueNode value)
                    else trie_delete fuel db (tr_cachegen t) (tr_root t) [] k);
              Some (case r of Inl err \<Rightarrow> (t, Some err) | Inr (_, n) \<Rightarrow> (t\<lparr> tr_root := n \<rparr>, None)) })"

section \<open>Hashing (\<open>trie/hasher.go\<close>)\<close>

text \<open>\<open>keccak\<close> is the hash function of \<open>crypto/sha3\<close> that \<open>makeHashNode\<close> runs. The result of
  \<open>onleaf\<close> is ignored by the code; its effect on the shared database is kept. No operation of the
  hasher returns an error.\<close>

record hasher =
  h_cachegen :: "16 word"
  h_cachelimit :: "16 word"
  h_onleaf :: "(bytes \<Rightarrow> hash \<Rightarrow> tdb \<Rightarrow> tdb option) option"

definition leaf_callbacks :: "(bytes \<Rightarrow> hash \<Rightarrow> tdb \<Rightarrow> tdb option) \<Rightarrow> hash \<Rightarrow> node list \<Rightarrow> tdb \<Rightarrow> tdb option" where
  "leaf_callbacks onleaf hash cs db =
     fold (\<lambda>c r. case c of ValueNode v \<Rightarrow> do { db \<leftarrow> r; onleaf v hash db } | _ \<Rightarrow> r) cs (Some db)"

definition hasher_store :: "(bytes \<Rightarrow> bytes) \<Rightarrow> hasher \<Rightarrow> node \<Rightarrow> tdb option \<Rightarrow> bool \<Rightarrow> (node \<times> tdb option) option" where
  "hasher_store keccak h n db force =
     (case n of NilNode \<Rightarrow> Some (n, db) | HashNode _ \<Rightarrow> Some (n, db)
      | _ \<Rightarrow>
        do { r \<leftarrow> EncodeToBytes (node_goval n);
             case r of Inl _ \<Rightarrow> None
             | Inr tmp \<Rightarrow>
                 if length tmp < 32 \<and> \<not> force then Some (n, db)
                 else
                   do { (cached, _) \<leftarrow> node_cache n;
                        let hash = (case cached of Some b \<Rightarrow> b | None \<Rightarrow> keccak tmp);
                        case db of None \<Rightarrow> Some (HashNode hash, None)
                        | Some d \<Rightarrow>
                            do { let hsh = BytesToHash hash;
                                 d \<leftarrow> tdb_insert hsh tmp n d;
                                 d \<leftarrow> (case h_onleaf h of None \<Rightarrow> Some d
                                       | Some onleaf \<Rightarrow>
                                           (case n of ShortNode _ v _ \<Rightarrow> leaf_callbacks onleaf hsh [v] d
                                            | FullNode cs _ \<Rightarrow> leaf_callbacks onleaf hsh (take 16 cs) d
                                            | _ \<Rightarrow> Some d));
                                 Some (HashNode hash, Some d) } } })"

text \<open>Setting the hash in the flags of the copy that stays in the trie.\<close>

definition set_cached :: "bytes option \<Rightarrow> bool \<Rightarrow> node \<Rightarrow> node" where
  "set_cached hash stored n =
     (let mark = (\<lambda>fl. fl\<lparr> nf_hash := hash, nf_dirty := nf_dirty fl \<and> \<not> stored \<rparr>)
      in case n of ShortNode k v fl \<Rightarrow> ShortNode k v (mark fl) | FullNode cs fl \<Rightarrow> FullNode cs (mark fl) | _ \<Rightarrow> n)"

text \<open>The use of the hash that a node has cached: the pair of results, if there is one.\<close>

definition cached_result :: "hasher \<Rightarrow> node \<Rightarrow> tdb option \<Rightarrow> (node \<times> node) option option" where
  "cached_result h n db =
     do { (cached, dirty) \<leftarrow> node_cache n;
          case cached of None \<Rightarrow> Some None
          | Some hash \<Rightarrow>
              if Option.is_none db then Some (Some (HashNode hash, n))
              else do { unload \<leftarrow> node_canUnload n (h_cachegen h) (h_cachelimit h);
                        Some (if unload then Some (HashNode hash, HashNode hash)
                              else if \<not> dirty then Some (HashNode hash, n) else None) } }"

text \<open>\<open>hash\<close> returns the collapsed node and the node with the hashes cached in. The case for a node
  without a cached hash holds \<open>hashChildren\<close>; \<open>hash_children\<close> is its loop over the sixteen children.\<close>

function hasher_hash :: "(bytes \<Rightarrow> bytes) \<Rightarrow> hasher \<Rightarrow> node \<Rightarrow> tdb option \<Rightarrow> bool \<Rightarrow> (node \<times> node \<times> tdb option) option"
  and hashChildren :: "(bytes \<Rightarrow> bytes) \<Rightarrow> hasher \<Rightarrow> node \<Rightarrow> tdb option \<Rightarrow> (node \<times> node \<times> tdb option) option"
  and hash_children :: "(bytes \<Rightarrow> bytes) \<Rightarrow> hasher \<Rightarrow> nat \<Rightarrow> node list \<Rightarrow> tdb option \<Rightarrow>
    (node list \<times> node list \<times> tdb option) option" where
  "hasher_hash keccak h n db force =
     do { early \<leftarrow> cached_result h n db;
          case early of Some (hashed, cached) \<Rightarrow> Some (hashed, cached, db)
          | None \<Rightarrow>
              do { (collapsed, cached, db) \<leftarrow> hashChildren keccak h n db;
                   (hashed, db) \<leftarrow> hasher_store keccak h collapsed db force;
                   let cachedHash = (case hashed of HashNode b \<Rightarrow> Some b | _ \<Rightarrow> None);
                   Some (hashed, set_cached cachedHash (\<not> Option.is_none db) cached, db) } }"
| "hashChildren keccak h original db =
     (case original of
        ShortNode k v fl \<Rightarrow>
          do { ck \<leftarrow> hexToCompact k;
               case v of ValueNode _ \<Rightarrow> Some (ShortNode ck v fl, original, db)
               | _ \<Rightarrow> do { (collapsed, cached, db) \<leftarrow> hasher_hash keccak h v db False;
                            Some (ShortNode ck collapsed fl, ShortNode k cached fl, db) } }
      | FullNode cs fl \<Rightarrow>
          do { (collapsed, cached, db) \<leftarrow> hash_children keccak h 16 cs db;
               Some (FullNode collapsed fl, FullNode cached fl, db) }
      | _ \<Rightarrow> Some (original, original, db))"
| "hash_children keccak h k cs db =
     (case k of 0 \<Rightarrow> Some (cs, cs, db)
      | Suc k \<Rightarrow>
          (case cs of [] \<Rightarrow> None
           | c # cs \<Rightarrow>
               do { (collapsed, cached, db) \<leftarrow>
                      (if c \<noteq> NilNode then hasher_hash keccak h c db False else Some (c, c, db));
                    (rest, rest', db) \<leftarrow> hash_children keccak h k cs db;
                    Some (collapsed # rest, cached # rest', db) }))"
  by pat_completeness auto
termination
  by (relation "measure (\<lambda>x. case x of Inl (_, _, n, _) \<Rightarrow> 2 * size n + 1
        | Inr (Inl (_, _, n, _)) \<Rightarrow> 2 * size n | Inr (Inr (_, _, _, cs, _)) \<Rightarrow> 2 * size_list size cs)")
    auto

definition hashRoot :: "(bytes \<Rightarrow> bytes) \<Rightarrow> Trie \<Rightarrow> tdb option \<Rightarrow>
    (bytes \<Rightarrow> hash \<Rightarrow> tdb \<Rightarrow> tdb option) option \<Rightarrow> (node \<times> node \<times> tdb option) option" where
  "hashRoot keccak t db onleaf =
     (if tr_root t = NilNode then Some (HashNode (Hash_Bytes emptyRoot), NilNode, db)
      else hasher_hash keccak
             \<lparr> h_cachegen = tr_cachegen t, h_cachelimit = tr_cachelimit t, h_onleaf = onleaf \<rparr> (tr_root t) db True)"

definition trie_Hash :: "(bytes \<Rightarrow> bytes) \<Rightarrow> Trie \<Rightarrow> (hash \<times> Trie) option" where
  "trie_Hash keccak t =
     do { (hash, cached, _) \<leftarrow> hashRoot keccak t None None;
          case hash of HashNode b \<Rightarrow> Some (BytesToHash b, t\<lparr> tr_root := cached \<rparr>) | _ \<Rightarrow> None }"

definition trie_Commit :: "(bytes \<Rightarrow> bytes) \<Rightarrow> Trie \<Rightarrow> tdb \<Rightarrow> (bytes \<Rightarrow> hash \<Rightarrow> tdb \<Rightarrow> tdb option) option \<Rightarrow>
    (hash \<times> Trie \<times> tdb) option" where
  "trie_Commit keccak t db onleaf =
     do { (hash, cached, db') \<leftarrow> hashRoot keccak t (Some db) onleaf;
          db' \<leftarrow> db';
          case hash of
            HashNode b \<Rightarrow> Some (BytesToHash b, t\<lparr> tr_root := cached, tr_cachegen := tr_cachegen t + 1 \<rparr>, db')
          | _ \<Rightarrow> None }"

end
