(* ===== verification/Trie_Tree.thy ===== *)
theory Trie_Tree
  imports Trie_Encoding
begin

text \<open>The tree a Merkle Patricia trie stands for when all its nodes are loaded, without the caching
  flags: lookup, insertion and deletion on it, the shape \<open>mwf\<close> that the operations keep, and the
  facts that make it a map: the operations have the effect of an update of a map, and two trees of
  that shape with the same contents are equal.\<close>

section \<open>Trees\<close>

datatype mtree = MNil | MValue bytes | MShort bytes mtree | MFull "mtree list"

lemma size_child [termination_simp]: "i < length ts \<Longrightarrow> size (ts ! i) < Suc (size_list size ts)"
  using size_list_estimation'[OF nth_mem[of i ts], of "size (ts ! i)" size] by simp

lemma size_take_child [termination_simp]: "t \<in> set (take n ts) \<Longrightarrow> size t < Suc (size_list size ts)"
  using size_list_estimation'[OF in_set_takeD, of t n ts "size t" size] by simp

text \<open>Keys end in the terminator 16, and only there.\<close>

fun vkey :: "bytes \<Rightarrow> bool" where
  "vkey [] \<longleftrightarrow> False"
| "vkey (x # k) \<longleftrightarrow> x = 16 \<and> k = [] \<or> x < 16 \<and> vkey k"

fun strip :: "bytes \<Rightarrow> bytes \<Rightarrow> bytes option" where
  "strip [] k = Some k"
| "strip (x # s) (y # k) = (if x = y then strip s k else None)"
| "strip (x # s) [] = None"

fun mget :: "mtree \<Rightarrow> bytes \<Rightarrow> bytes option" where
  "mget MNil k = None"
| "mget (MValue v) k = (if k = [] then Some v else None)"
| "mget (MShort s t) k = (case strip s k of None \<Rightarrow> None | Some r \<Rightarrow> mget t r)"
| "mget (MFull ts) k =
     (case k of [] \<Rightarrow> None | x # r \<Rightarrow> if unat x < length ts then mget (ts ! unat x) r else None)"

definition leaf :: "bytes \<Rightarrow> mtree \<Rightarrow> mtree" where
  "leaf k t = (if k = [] then t else MShort k t)"

fun minsert :: "mtree \<Rightarrow> bytes \<Rightarrow> mtree \<Rightarrow> mtree" where
  "minsert t [] v = v"
| "minsert MNil (x # k) v = MShort (x # k) v"
| "minsert (MValue w) (x # k) v = MValue w"
| "minsert (MShort s t) (x # k) v =
     (let key = x # k; m = prefixLen key s
      in if m = length s then MShort s (minsert t (drop m key) v)
         else leaf (take m key)
                (MFull ((replicate 17 MNil)[unat (s ! m) := leaf (drop (m + 1) s) t,
                                            unat (key ! m) := leaf (drop (m + 1) key) v])))"
| "minsert (MFull ts) (x # k) v =
     (if unat x < length ts then MFull (ts[unat x := minsert (ts ! unat x) k v]) else MFull ts)"

text \<open>The position of the only child that is not \<open>MNil\<close>, if there is exactly one.\<close>

definition occupied :: "mtree list \<Rightarrow> nat list" where
  "occupied ts = filter (\<lambda>i. ts ! i \<noteq> MNil) [0..<length ts]"

fun join :: "bytes \<Rightarrow> mtree \<Rightarrow> mtree" where
  "join s (MShort s' t) = MShort (s @ s') t"
| "join s t = MShort s t"

definition shrink :: "mtree list \<Rightarrow> mtree" where
  "shrink ts = (case occupied ts of [i] \<Rightarrow> join [of_nat i] (ts ! i) | _ \<Rightarrow> MFull ts)"

fun mdelete :: "mtree \<Rightarrow> bytes \<Rightarrow> mtree option" where
  "mdelete MNil k = None"
| "mdelete (MValue v) k = Some MNil"
| "mdelete (MShort s t) k =
     (case strip s k of None \<Rightarrow> None
      | Some [] \<Rightarrow> Some MNil
      | Some r \<Rightarrow> map_option (join s) (mdelete t r))"
| "mdelete (MFull ts) k =
     (case k of [] \<Rightarrow> None
      | x # r \<Rightarrow> if unat x < length ts
                  then map_option (\<lambda>t. shrink (ts[unat x := t])) (mdelete (ts ! unat x) r) else None)"

text \<open>The shape of the trees: the key of a short node is not empty; it ends in the terminator exactly
  if its child is a value, and otherwise the child is a full node. A full node has seventeen
  children, of which the last is a value, and at least two of them are there. No value is empty.\<close>

fun mwf :: "mtree \<Rightarrow> bool" where
  "mwf MNil \<longleftrightarrow> False"
| "mwf (MValue v) \<longleftrightarrow> False"
| "mwf (MShort s t) \<longleftrightarrow>
     (case t of MValue v \<Rightarrow> vkey s \<and> v \<noteq> [] | MFull ts \<Rightarrow> s \<noteq> [] \<and> nibbles s \<and> mwf t | _ \<Rightarrow> False)"
| "mwf (MFull ts) \<longleftrightarrow>
     length ts = 17 \<and> (\<forall>t \<in> set (take 16 ts). t = MNil \<or> mwf t) \<and>
     (case ts ! 16 of MNil \<Rightarrow> True | MValue v \<Rightarrow> v \<noteq> [] | _ \<Rightarrow> False) \<and> 2 \<le> length (occupied ts)"

definition mtrie :: "mtree \<Rightarrow> bool" where
  "mtrie t \<longleftrightarrow> t = MNil \<or> mwf t"

section \<open>Keys\<close>

lemma strip_Some [simp]: "strip s k = Some r \<longleftrightarrow> k = s @ r"
  by (induction s k rule: strip.induct) auto

lemma strip_None: "strip s k = None \<longleftrightarrow> (\<forall>r. k \<noteq> s @ r)"
  by (metis not_None_eq strip_Some option.distinct(1))

lemma strip_append [simp]:
  "strip (p @ q) k = (case strip p k of None \<Rightarrow> None | Some r \<Rightarrow> strip q r)"
  by (induction p k rule: strip.induct) auto

lemma strip_self [simp]: "strip s (s @ r) = Some r"
  by simp

lemma vkey_append_vkey: "vkey s \<Longrightarrow> vkey (s @ r) \<longleftrightarrow> r = []"
  by (induction s) auto

lemma vkey_append_nibbles: "nibbles s \<Longrightarrow> vkey (s @ r) \<longleftrightarrow> vkey r"
  by (induction s) auto

lemma vkey_not_nibbles: "vkey s \<Longrightarrow> \<not> nibbles (s @ r)"
  by (induction s) auto

lemma vkey_take: "vkey (p @ x # r) \<Longrightarrow> nibbles p"
  by (induction p) auto

lemma vkey_not_Nil: "vkey k \<Longrightarrow> k \<noteq> []"
  by auto

lemma vkey_hasTerm: "vkey k \<Longrightarrow> hasTerm k" "vkey k \<Longrightarrow> hex_key k"
proof -
  assume "vkey k"
  then have "\<exists>ns. k = ns @ [16] \<and> nibbles ns"
  proof (induction k)
    case (Cons x k)
    then show ?case
    proof (cases "k = []")
      case True
      with Cons(2) show ?thesis by (intro exI[of _ "[]"]) simp
    next
      case False
      with Cons obtain ns where "k = ns @ [16]" "nibbles ns" "x < 16" by auto
      then show ?thesis by (intro exI[of _ "x # ns"]) simp
    qed
  qed simp
  then show "hasTerm k" "hex_key k" by (auto simp: hex_key_def)
qed

lemma nibbles_hex_key: "nibbles k \<Longrightarrow> hex_key k"
  by (simp add: hex_key_def nibbles_no_term)

lemma vkey_snoc: "nibbles ns \<Longrightarrow> vkey (ns @ [16])"
  by (simp add: vkey_append_nibbles)

lemma vkey_keybytes [simp]: "vkey (keybytesToHex k)"
  by (simp add: keybytesToHex_def vkey_snoc)

lemma prefixLen_append [simp]: "prefixLen (s @ r) s = length s"
  by (induction s) auto

lemma prefixLen_diverge [simp]: "x \<noteq> y \<Longrightarrow> prefixLen (p @ x # q) (p @ y # r) = length p"
  by (induction p) auto

text \<open>How two keys may lie to each other.\<close>

lemma keys_cases [case_names extends prefix diverge]:
  fixes k s :: bytes
  obtains r where "k = s @ r" | x r where "s = k @ x # r" | p x q y r where "k = p @ x # q" "s = p @ y # r" "x \<noteq> y"
proof -
  have "(\<exists>r. k = s @ r) \<or> (\<exists>x r. s = k @ x # r) \<or> (\<exists>p x q y r. k = p @ x # q \<and> s = p @ y # r \<and> x \<noteq> y)"
  proof (induction k arbitrary: s)
    case (Cons a k)
    show ?case
    proof (cases s)
      case (Cons b s')
      show ?thesis
      proof (cases "a = b")
        case True
        then show ?thesis using Cons Cons.IH[of s'] by (metis append_Cons)
      next
        case False
        then show ?thesis using Cons by (metis append_Nil)
      qed
    qed simp
  qed (metis append_Nil neq_Nil_conv)
  then show thesis using that by blast
qed

section \<open>The shape of trees\<close>

definition child_ok :: "nat \<Rightarrow> mtree \<Rightarrow> bool" where
  "child_ok i t \<longleftrightarrow> t = MNil \<or> i < 16 \<and> mwf t \<or> i = 16 \<and> (\<exists>v. t = MValue v \<and> v \<noteq> [])"

lemma occupied_two: "2 \<le> length (occupied ts) \<longleftrightarrow>
   (\<exists>i j. i < length ts \<and> j < length ts \<and> i \<noteq> j \<and> ts ! i \<noteq> MNil \<and> ts ! j \<noteq> MNil)"
proof -
  have d: "distinct (occupied ts)" and set: "set (occupied ts) = {i. i < length ts \<and> ts ! i \<noteq> MNil}"
    by (auto simp: occupied_def)
  have "2 \<le> length (occupied ts) \<longleftrightarrow> (\<exists>i \<in> set (occupied ts). \<exists>j \<in> set (occupied ts). i \<noteq> j)"
  proof
    assume "2 \<le> length (occupied ts)"
    then obtain a b xs where "occupied ts = a # b # xs" by (metis One_nat_def Suc_1 Suc_le_length_iff)
    with d show "\<exists>i \<in> set (occupied ts). \<exists>j \<in> set (occupied ts). i \<noteq> j" by auto
  next
    assume "\<exists>i \<in> set (occupied ts). \<exists>j \<in> set (occupied ts). i \<noteq> j"
    then obtain i j where ij: "i \<in> set (occupied ts)" "j \<in> set (occupied ts)" "i \<noteq> j" by blast
    then have "card {i, j} \<le> card (set (occupied ts))" by (intro card_mono) auto
    with ij(3) d show "2 \<le> length (occupied ts)" by (simp add: distinct_card)
  qed
  with set show ?thesis by auto
qed

lemma mwf_full: "mwf (MFull ts) \<longleftrightarrow> length ts = 17 \<and> (\<forall>i < 17. child_ok i (ts ! i)) \<and> 2 \<le> length (occupied ts)"
proof -
  have "(\<forall>i < 17. child_ok i (ts ! i)) \<longleftrightarrow> (\<forall>i < 16. child_ok i (ts ! i)) \<and> child_ok 16 (ts ! 16)"
    by (metis One_nat_def add_One less_Suc_eq numeral_eq_Suc pred_numeral_simps(3) semiring_norm(26) Suc_eq_plus1 eval_nat_numeral(3))
  moreover have "length ts = 17 \<Longrightarrow> (\<forall>t \<in> set (take 16 ts). t = MNil \<or> mwf t) \<longleftrightarrow> (\<forall>i < 16. child_ok i (ts ! i))"
    by (auto simp: child_ok_def set_conv_nth all_set_conv_all_nth)
  moreover have "(case ts ! 16 of MNil \<Rightarrow> True | MValue v \<Rightarrow> v \<noteq> [] | _ \<Rightarrow> False) \<longleftrightarrow> child_ok 16 (ts ! 16)"
    by (auto simp: child_ok_def split: mtree.splits)
  ultimately show ?thesis by (simp only: mwf.simps) blast
qed

lemma occupied_twoI:
  "i < length ts \<Longrightarrow> j < length ts \<Longrightarrow> i \<noteq> j \<Longrightarrow> ts ! i \<noteq> MNil \<Longrightarrow> ts ! j \<noteq> MNil \<Longrightarrow> 2 \<le> length (occupied ts)"
  unfolding occupied_two by blast

lemma mwf_short_value: "mwf (MShort s (MValue v)) \<longleftrightarrow> vkey s \<and> v \<noteq> []"
  by simp

lemma mwf_short_full: "mwf (MShort s (MFull ts)) \<longleftrightarrow> s \<noteq> [] \<and> nibbles s \<and> mwf (MFull ts)"
  by simp

lemma mwf_short_cases:
  assumes "mwf (MShort s t)"
  obtains v where "t = MValue v" "vkey s" "v \<noteq> []" | ts where "t = MFull ts" "s \<noteq> []" "nibbles s" "mwf t"
  using assms by (auto split: mtree.splits)

declare mwf.simps(3,4) [simp del]
declare mwf_short_value [simp] mwf_short_full [simp]

text \<open>What is left of a key when it reaches a node.\<close>

definition fits :: "mtree \<Rightarrow> bytes \<Rightarrow> bool" where
  "fits t k \<longleftrightarrow> k = [] \<and> (t = MNil \<or> (\<exists>v. t = MValue v \<and> v \<noteq> [])) \<or> vkey k \<and> mtrie t"

lemma fits_short:
  assumes "mwf (MShort s t)" "vkey (s @ r)"
  shows "fits t r"
  using assms(1)
proof (cases rule: mwf_short_cases)
  case 1
  with assms(2) show ?thesis by (simp add: fits_def vkey_append_vkey)
next
  case 2
  with assms(2) show ?thesis by (simp add: fits_def vkey_append_nibbles mtrie_def)
qed

lemma fits_full:
  assumes "mwf (MFull ts)" "vkey (x # r)"
  shows "unat x < 17" "fits (ts ! unat x) r"
proof -
  have "unat x < 16 \<and> vkey r \<or> unat x = 16 \<and> r = []"
    using assms(2) by (auto simp: word_less_nat_alt)
  moreover then show "unat x < 17" by auto
  then have "child_ok (unat x) (ts ! unat x)" using assms(1) by (simp add: mwf_full)
  ultimately show "fits (ts ! unat x) r" by (auto simp: child_ok_def fits_def mtrie_def)
qed

section \<open>Insertion\<close>

lemma nth_updated: "xs[i := x] ! j = (if i = j \<and> j < length xs then x else xs ! j)"
  by (cases "i < length xs") (auto simp: nth_list_update list_update_beyond)

lemma mget_leaf [simp]: "mget (leaf s t) k = (case strip s k of None \<Rightarrow> None | Some r \<Rightarrow> mget t r)"
  by (cases s) (simp_all add: leaf_def)

lemma child_ok_MNil [simp]: "child_ok i MNil"
  by (simp add: child_ok_def)

lemma mwf_short_key: "mwf (MShort s t) \<Longrightarrow> s \<noteq> []"
  by (auto elim: mwf_short_cases)

lemma mwf_full_length: "mwf (MFull ts) \<Longrightarrow> length ts = 17"
  by (simp add: mwf_full)

lemma leaf_child:
  assumes "mwf (MShort (p @ y # r) t)"
  shows "unat y < 17" "child_ok (unat y) (leaf r t)" "leaf r t \<noteq> MNil" "nibbles p"
proof -
  have "unat y < 17 \<and> child_ok (unat y) (leaf r t) \<and> leaf r t \<noteq> MNil \<and> nibbles p"
    using assms
  proof (cases rule: mwf_short_cases)
    case 1
    then have "nibbles p" "vkey (y # r)" using vkey_take vkey_append_nibbles by blast+
    with 1 show ?thesis by (auto simp: child_ok_def leaf_def word_less_nat_alt)
  next
    case 2
    then show ?thesis by (auto simp: child_ok_def leaf_def word_less_nat_alt)
  qed
  then show "unat y < 17" "child_ok (unat y) (leaf r t)" "leaf r t \<noteq> MNil" "nibbles p" by auto
qed

lemma minsert_extend [simp]:
  "s \<noteq> [] \<Longrightarrow> minsert (MShort s t) (s @ r) v = MShort s (minsert t r v)"
  by (cases s) simp_all

abbreviation fork :: "byte \<Rightarrow> mtree \<Rightarrow> byte \<Rightarrow> mtree \<Rightarrow> mtree list" where
  "fork y t x u \<equiv> (replicate 17 MNil)[unat y := t, unat x := u]"

lemma minsert_diverge [simp]:
  assumes "x \<noteq> y"
  shows "minsert (MShort (p @ y # r) t) (p @ x # q) v = leaf p (MFull (fork y (leaf r t) x (leaf q v)))"
proof -
  obtain z zs where z: "p @ x # q = z # zs" by (cases p) auto
  have "prefixLen (p @ x # q) (p @ y # r) = length p" using assms by simp
  then show ?thesis unfolding z minsert.simps Let_def unfolding z[symmetric] by (simp add: nth_append)
qed

lemma mwf_fork:
  assumes "x \<noteq> y" "unat x < 17" "unat y < 17" "child_ok (unat y) t" "child_ok (unat x) u" "t \<noteq> MNil" "u \<noteq> MNil"
  shows "mwf (MFull (fork y t x u))"
proof -
  have "unat x \<noteq> unat y" using assms(1) by (simp add: word_unat_eq_iff)
  then have "2 \<le> length (occupied (fork y t x u))"
    using assms by (intro occupied_twoI[of "unat x" _ "unat y"]) simp_all
  with assms show ?thesis unfolding mwf_full by (auto simp: nth_updated)
qed

lemma mwf_leaf_full: "mwf (MFull ts) \<Longrightarrow> nibbles p \<Longrightarrow> mwf (leaf p (MFull ts))"
  by (simp add: leaf_def)

lemma mwf_diverge:
  assumes "mwf (MShort (p @ y # r) t)" "mwf (MShort (p @ x # q) u)" "x \<noteq> y"
  shows "mwf (leaf p (MFull (fork y (leaf r t) x (leaf q u))))"
  using leaf_child[OF assms(1)] leaf_child[OF assms(2)] assms(3) by (intro mwf_leaf_full mwf_fork) auto

lemma mwf_update:
  assumes "mwf (MFull ts)" "i < 17" "child_ok i u" "u \<noteq> MNil"
  shows "mwf (MFull (ts[i := u]))"
proof -
  obtain a b where "a < 17" "b < 17" "a \<noteq> b" "ts ! a \<noteq> MNil" "ts ! b \<noteq> MNil"
    using assms(1) by (auto simp: mwf_full occupied_two)
  then have "2 \<le> length (occupied (ts[i := u]))"
    using assms(1,4) by (intro occupied_twoI[of a _ b]) (auto simp: nth_updated mwf_full)
  then show ?thesis using assms unfolding mwf_full by (auto simp: nth_updated)
qed

text \<open>A short node and a key that reaches it: the key extends the one of the node, or they differ at
  some place.\<close>

lemma short_key_cases:
  assumes "mwf (MShort s t)" "vkey k"
  obtains r where "k = s @ r" "fits t r" "s \<noteq> []"
    | p x q y r where "k = p @ x # q" "s = p @ y # r" "x \<noteq> y"
proof (cases k s rule: keys_cases)
  case (extends r)
  then have "fits t r" using assms fits_short by blast
  then show thesis using mwf_short_key[OF assms(1)] extends that(1) by blast
next
  case (prefix x r)
  then show thesis using assms vkey_append_vkey[of k "x # r"] vkey_not_nibbles[of k "x # r"]
    by (auto elim: mwf_short_cases)
next
  case (diverge p x q y r)
  then show thesis using that(2) by blast
qed

lemma minsert_mwf:
  assumes "fits t k" "v \<noteq> []"
  shows "if k = [] then minsert t k (MValue v) = MValue v else mwf (minsert t k (MValue v))"
  using assms
proof (induction t k "MValue v" rule: minsert.induct)
  case (2 x k)
  then show ?case by (simp add: fits_def)
next
  case (3 w x k)
  then show ?case by (simp add: fits_def mtrie_def)
next
  case (4 s t x k)
  then have w: "mwf (MShort s t)" and k: "vkey (x # k)" by (simp_all add: fits_def mtrie_def)
  show ?case using w k
  proof (cases rule: short_key_cases)
    case (1 r)
    then have "drop (length s) (x # k) = r" "prefixLen (x # k) s = length s" by simp_all
    then have IH: "if r = [] then minsert t r (MValue v) = MValue v else mwf (minsert t r (MValue v))"
      using 4(1)[of "x # k" "length s"] 4(3) 1(2) by (simp split: if_splits)
    from w show ?thesis
    proof (cases rule: mwf_short_cases)
      case 1
      then show ?thesis using \<open>x # k = s @ r\<close> k 4(3) by (simp add: vkey_append_vkey minsert_extend[of s _ "[]", simplified])
    next
      case (2 ts)
      then obtain y r' where "r = y # r'" using \<open>x # k = s @ r\<close> k by (cases r) (auto dest: vkey_not_nibbles[of _ "[]"])
      then show ?thesis using IH 2 \<open>x # k = s @ r\<close> by (auto simp: mwf_full[of ts] simp flip: \<open>x # k = s @ r\<close> split: if_splits)
    qed
  next
    case (2 p x' q y r)
    then show ?thesis using w k 4(3) by (simp add: mwf_diverge)
  qed
next
  case (5 ts x k)
  then have w: "mwf (MFull ts)" and k: "vkey (x # k)" by (simp_all add: fits_def mtrie_def)
  have "child_ok (unat x) (minsert (ts ! unat x) k (MValue v)) \<and> minsert (ts ! unat x) k (MValue v) \<noteq> MNil"
    using 5 fits_full[OF w k] w k by (auto simp: child_ok_def mwf_full word_less_nat_alt split: if_splits)
  then show ?case using mwf_update[OF w] mwf_full_length[OF w] fits_full[OF w k] by simp
qed simp_all

lemma mget_fork:
  assumes "x \<noteq> y" "unat x < 17" "unat y < 17"
  shows "mget (MFull (fork y t x u)) k' =
    (case k' of [] \<Rightarrow> None | z # r \<Rightarrow> if z = x then mget u r else if z = y then mget t r else None)"
  using assms by (auto simp: nth_updated word_unat_eq_iff split: list.splits)

lemma minsert_mget:
  assumes "fits t k" "v \<noteq> []"
  shows "mget (minsert t k (MValue v)) k' = (if k' = k then Some v else mget t k')"
  using assms
proof (induction t k "MValue v" arbitrary: k' rule: minsert.induct)
  case (1 t)
  then show ?case by (auto simp: fits_def)
next
  case (2 x k)
  then show ?case by (auto split: option.splits simp: strip_None simp del: strip.simps)
next
  case (3 w x k)
  then show ?case by (simp add: fits_def mtrie_def)
next
  case (4 s t x k)
  then have w: "mwf (MShort s t)" and k: "vkey (x # k)" by (simp_all add: fits_def mtrie_def)
  show ?case using w k
  proof (cases rule: short_key_cases)
    case (1 r)
    then have "drop (length s) (x # k) = r" "prefixLen (x # k) s = length s" by simp_all
    then have IH: "mget (minsert t r (MValue v)) k'' = (if k'' = r then Some v else mget t k'')" for k''
      using 4(1)[of "x # k" "length s"] 4(3) 1(2) by simp
    show ?thesis unfolding \<open>x # k = s @ r\<close> using IH 1(3) by (auto split: option.splits simp: strip_None)
  next
    case (2 p x' q y r)
    then have "mwf (MShort (p @ x' # q) (MValue v))" "mwf (MShort (p @ y # r) t)" using w k 4(3) by simp_all
    note f = leaf_child(1)[OF this(1)] leaf_child(1)[OF this(2)]
    show ?thesis unfolding 2(1,2) using 2(3) f
      by (auto simp: mget_fork strip_None simp del: mget.simps(4) split: option.splits list.splits)
  qed
next
  case (5 ts x k)
  then have w: "mwf (MFull ts)" and k: "vkey (x # k)" by (simp_all add: fits_def mtrie_def)
  note f = fits_full[OF w k] mwf_full_length[OF w]
  then have "mget (minsert (ts ! unat x) k (MValue v)) r = (if r = k then Some v else mget (ts ! unat x) r)" for r
    using 5 by simp
  with f show ?case by (auto simp: nth_updated word_unat_eq_iff split: list.splits)
qed

section \<open>Deletion\<close>

lemma mget_join [simp]: "mget (join s t) k = (case strip s k of None \<Rightarrow> None | Some r \<Rightarrow> mget t r)"
  by (cases t) (auto split: option.splits)

lemma mwf_join: "nibbles s \<Longrightarrow> s \<noteq> [] \<Longrightarrow> mwf t \<Longrightarrow> mwf (join s t)"
proof (cases t)
  case (MShort s' t')
  assume s: "nibbles s" "s \<noteq> []" and w: "mwf t"
  from w[unfolded MShort] show ?thesis
    by (cases rule: mwf_short_cases) (use s MShort in \<open>simp_all add: vkey_append_nibbles\<close>)
qed simp_all

lemma occupied_single:
  assumes "occupied ts = [i]"
  shows "i < length ts" "ts ! i \<noteq> MNil" "j < length ts \<Longrightarrow> j \<noteq> i \<Longrightarrow> ts ! j = MNil"
proof -
  have "set (occupied ts) = {j. j < length ts \<and> ts ! j \<noteq> MNil}" by (auto simp: occupied_def)
  with assms show "i < length ts" "ts ! i \<noteq> MNil" "j < length ts \<Longrightarrow> j \<noteq> i \<Longrightarrow> ts ! j = MNil" by auto
qed

lemma shrink_cases [case_names single many]:
  assumes "length (occupied ts) \<noteq> 0"
  obtains i where "occupied ts = [i]" "shrink ts = join [of_nat i] (ts ! i)"
    | "2 \<le> length (occupied ts)" "shrink ts = MFull ts"
proof (cases "occupied ts" rule: remdups_adj.cases)
  case (2 i)
  then show thesis using that(1) by (simp add: shrink_def)
next
  case (3 i j js)
  then show thesis using that(2) by (simp add: shrink_def)
qed (use assms in simp)

lemma unat_of_nat_byte: "i < 17 \<Longrightarrow> unat (of_nat i :: byte) = i"
  by (simp add: unsigned_of_nat take_bit_nat_eq_self)

lemma mget_shrink:
  assumes "length ts = 17"
  shows "mget (shrink ts) k = mget (MFull ts) k"
proof (cases "occupied ts" rule: remdups_adj.cases)
  case (2 i)
  note o = occupied_single[OF 2]
  have i: "unat (of_nat i :: byte) = i" using o(1) assms by (simp add: unat_of_nat_byte)
  show ?thesis
  proof (cases k)
    case (Cons x r)
    show ?thesis
    proof (cases "x = of_nat i")
      case True
      then show ?thesis using o(1) i 2 Cons assms by (simp add: shrink_def)
    next
      case False
      then have "unat x \<noteq> i" by auto
      then have "mget (MFull ts) k = None" using o(3) assms Cons by simp
      then show ?thesis using 2 Cons False by (simp add: shrink_def)
    qed
  qed (simp add: shrink_def 2)
qed (simp_all add: shrink_def)

lemma mwf_shrink:
  assumes "length ts = 17" "\<forall>i < 17. child_ok i (ts ! i)" "length (occupied ts) \<noteq> 0"
  shows "mwf (shrink ts)"
  using assms(3)
proof (cases rule: shrink_cases)
  case (single i)
  note o = occupied_single[OF single(1)]
  then have "child_ok i (ts ! i)" "i < 17" using assms by simp_all
  then consider "i < 16" "mwf (ts ! i)" | v where "i = 16" "ts ! i = MValue v" "v \<noteq> []"
    using o(2) unfolding child_ok_def by blast
  then show ?thesis
  proof cases
    case 1
    then show ?thesis using single(2) unat_of_nat_byte[of i] by (simp add: mwf_join word_less_nat_alt)
  next
    case 2
    then show ?thesis using single(2) by simp
  qed
next
  case many
  then show ?thesis using assms by (simp add: mwf_full)
qed

lemma occupied_update:
  assumes "2 \<le> length (occupied ts)"
  shows "length (occupied (ts[i := t])) \<noteq> 0"
proof -
  obtain a b where "a < length ts" "b < length ts" "a \<noteq> b" "ts ! a \<noteq> MNil" "ts ! b \<noteq> MNil"
    using assms by (auto simp: occupied_two)
  then obtain c where "c < length ts" "c \<noteq> i" "ts ! c \<noteq> MNil" by (cases "a = i") auto
  then have "c \<in> set (occupied (ts[i := t]))" by (simp add: occupied_def)
  then show ?thesis by auto
qed

definition deleted :: "mtree \<Rightarrow> bytes \<Rightarrow> mtree \<Rightarrow> bool" where
  "deleted t k t' \<longleftrightarrow> mget t k \<noteq> None \<and> (\<forall>k'. mget t' k' = (if k' = k then None else mget t k')) \<and>
     (if k = [] then t' = MNil else mtrie t') \<and> ((\<exists>ts. t = MFull ts) \<longrightarrow> t' \<noteq> MNil)"

lemma deletedD:
  assumes "deleted t k t'"
  shows "mget t k \<noteq> None" "mget t' k' = (if k' = k then None else mget t k')"
    "k = [] \<Longrightarrow> t' = MNil" "k \<noteq> [] \<Longrightarrow> mtrie t'" "t = MFull ts \<Longrightarrow> t' \<noteq> MNil"
  using assms by (simp_all add: deleted_def)

lemma deletedI:
  assumes "mget t k \<noteq> None" "\<And>k'. mget t' k' = (if k' = k then None else mget t k')" "k \<noteq> []" "mwf t'"
  shows "deleted t k t'"
  using assms by (auto simp: deleted_def mtrie_def)

lemma deleted_join:
  assumes "deleted (MFull ts) r t'" "nibbles s" "s \<noteq> []" "r \<noteq> []"
  shows "deleted (MShort s (MFull ts)) (s @ r) (join s t')"
proof (rule deletedI)
  note d = deletedD[OF assms(1)]
  show "mget (MShort s (MFull ts)) (s @ r) \<noteq> None" using d(1) by (simp del: mget.simps(4))
  show "mget (join s t') k' = (if k' = s @ r then None else mget (MShort s (MFull ts)) k')" for k'
    by (cases "strip s k'") (simp_all add: d(2) del: mget.simps(4))
  have "mwf t'" using d(4)[OF assms(4)] d(5) unfolding mtrie_def by blast
  then show "mwf (join s t')" using assms(2,3) by (simp add: mwf_join)
qed (use assms(3) in simp)

lemma deleted_children:
  assumes "mwf (MFull ts)" "vkey (x # r)" "deleted (ts ! unat x) r t'"
  shows "i < 17 \<Longrightarrow> child_ok i (ts[unat x := t'] ! i)" "length (occupied (ts[unat x := t'])) \<noteq> 0"
proof -
  have "child_ok (unat x) t'"
  proof (cases "r = []")
    case False
    then have "unat x < 16" using assms(2) by (simp add: word_less_nat_alt)
    then show ?thesis using deletedD(4)[OF assms(3) False] by (auto simp: child_ok_def mtrie_def)
  next
    case True
    then show ?thesis using deletedD(3)[OF assms(3)] by simp
  qed
  then show "child_ok i (ts[unat x := t'] ! i)" if "i < 17"
    using assms(1) that by (auto simp: mwf_full nth_updated)
  show "length (occupied (ts[unat x := t'])) \<noteq> 0" using assms(1) occupied_update by (simp add: mwf_full)
qed

lemma deleted_child:
  assumes "mwf (MFull ts)" "vkey (x # r)" "deleted (ts ! unat x) r t'"
  shows "deleted (MFull ts) (x # r) (shrink (ts[unat x := t']))"
proof (rule deletedI)
  let ?ts = "ts[unat x := t']"
  note d = deletedD[OF assms(3)]
  note f = fits_full[OF assms(1,2)] mwf_full_length[OF assms(1)]
  show "mwf (shrink ?ts)" using deleted_children[OF assms] f by (intro mwf_shrink) simp_all
  show "mget (MFull ts) (x # r) \<noteq> None" using d(1) f by simp
  show "mget (shrink ?ts) k' = (if k' = x # r then None else mget (MFull ts) k')" for k'
  proof (cases k')
    case (Cons y q)
    then show ?thesis using f
      by (cases "y = x") (simp_all add: d(2) mget_shrink nth_updated word_unat_eq_iff)
  qed (simp add: mget_shrink f)
qed simp

lemma mdelete_correct:
  assumes "fits t k"
  shows "case mdelete t k of None \<Rightarrow> mget t k = None | Some t' \<Rightarrow> deleted t k t'"
  using assms
proof (induction t k rule: mdelete.induct)
  case (2 v k)
  then show ?case by (auto simp: fits_def mtrie_def deleted_def)
next
  case (3 s t k)
  then have w: "mwf (MShort s t)" and k: "vkey k" by (auto simp: fits_def mtrie_def)
  show ?case using w k
  proof (cases rule: short_key_cases)
    case (1 r)
    from w show ?thesis
    proof (cases rule: mwf_short_cases)
      case (1 v)
      then show ?thesis using \<open>k = s @ r\<close> k
        by (auto simp: vkey_append_vkey deleted_def strip_None mtrie_def split: option.splits)
    next
      case (2 ts)
      then obtain x r' where r: "r = x # r'" using \<open>k = s @ r\<close> k by (cases r) (auto dest: vkey_not_nibbles[of _ "[]"])
      then have "case mdelete t r of None \<Rightarrow> mget t r = None | Some t' \<Rightarrow> deleted t r t'"
        using 3(1)[of r x r'] 1 unfolding r by simp
      with 2 r \<open>k = s @ r\<close> show ?thesis by (cases "mdelete t r") (simp_all add: deleted_join)
    qed
  next
    case (2 p x q y r)
    then have "strip s k = None" by (auto simp: strip_None)
    then show ?thesis by simp
  qed
next
  case (4 ts k)
  then have w: "mwf (MFull ts)" and k: "vkey k" by (auto simp: fits_def mtrie_def)
  then obtain x r where kx: "k = x # r" by (cases k) auto
  note f = fits_full[OF w k[unfolded kx]] mwf_full_length[OF w]
  have IH: "case mdelete (ts ! unat x) r of None \<Rightarrow> mget (ts ! unat x) r = None | Some t' \<Rightarrow> deleted (ts ! unat x) r t'"
    using 4(1)[OF kx] f by simp
  then show ?case using kx f deleted_child[OF w k[unfolded kx]]
    by (cases "mdelete (ts ! unat x) r") simp_all
qed simp

section \<open>Canonical form\<close>

definition same_contents :: "mtree \<Rightarrow> mtree \<Rightarrow> bool" where
  "same_contents t t' \<longleftrightarrow> (\<forall>k. vkey k \<longrightarrow> mget t k = mget t' k)"

lemma same_contentsD: "same_contents t t' \<Longrightarrow> vkey k \<Longrightarrow> mget t k = mget t' k"
  by (simp add: same_contents_def)

lemma same_contents_sym: "same_contents t t' \<Longrightarrow> same_contents t' t"
  by (simp add: same_contents_def)

lemma strip_refl [simp]: "strip s s = Some []"
  by simp

lemma vkey_index: "i < 17 \<Longrightarrow> vkey (of_nat i # k) \<longleftrightarrow> (if i = 16 then k = [] else vkey k)"
  using unat_of_nat_byte[of i] by (auto simp: word_less_nat_alt word_unat_eq_iff)

lemma mwf_has_key:
  assumes "mwf t"
  shows "\<exists>k. vkey k \<and> mget t k \<noteq> None"
  using assms
proof (induction t)
  case (MShort s t)
  from MShort(2) show ?case
  proof (cases rule: mwf_short_cases)
    case 1
    then show ?thesis by (intro exI[of _ s]) simp
  next
    case 2
    then obtain k where "vkey k" "mget t k \<noteq> None" using MShort(1) by blast
    then show ?thesis using 2 by (intro exI[of _ "s @ k"]) (simp add: vkey_append_nibbles)
  qed
next
  case (MFull ts)
  then obtain i where i: "i < 17" "ts ! i \<noteq> MNil" by (auto simp: mwf_full occupied_two)
  have l: "length ts = 17" "child_ok i (ts ! i)" using MFull(2) i by (simp_all add: mwf_full)
  have "\<exists>k. vkey (of_nat i # k) \<and> mget (ts ! i) k \<noteq> None"
  proof (cases "i = 16")
    case True
    with l(2) i show ?thesis by (intro exI[of _ "[]"]) (auto simp: child_ok_def)
  next
    case False
    with l(2) i have "mwf (ts ! i)" "ts ! i \<in> set ts" by (auto simp: child_ok_def l)
    then show ?thesis using MFull(1) False i(1) by (simp add: vkey_index del: vkey.simps)
  qed
  then obtain k where "vkey (of_nat i # k)" "mget (ts ! i) k \<noteq> None" by blast
  then show ?case using i l by (intro exI[of _ "of_nat i # k"]) (simp add: unat_of_nat_byte)
qed simp_all

lemma child_has_key:
  assumes "child_ok i t" "t \<noteq> MNil" "i < 17"
  shows "\<exists>k. vkey (of_nat i # k) \<and> mget t k \<noteq> None"
  using assms mwf_has_key[of t] by (auto simp: child_ok_def vkey_index simp del: vkey.simps)

text \<open>The keys in a full node do not all begin with the same nibble.\<close>

lemma full_other_head:
  assumes "mwf (MFull ts)"
  shows "\<exists>x k. x \<noteq> y \<and> vkey (x # k) \<and> mget (MFull ts) (x # k) \<noteq> None"
proof -
  obtain a b where ab: "a < 17" "b < 17" "a \<noteq> b" "ts ! a \<noteq> MNil" "ts ! b \<noteq> MNil"
    using assms by (auto simp: mwf_full occupied_two)
  obtain i where i: "i < 17" "ts ! i \<noteq> MNil" "of_nat i \<noteq> y"
    using ab unat_of_nat_byte[of a] unat_of_nat_byte[of b] by metis
  have "child_ok i (ts ! i)" "length ts = 17" using assms i by (simp_all add: mwf_full)
  then obtain k where "vkey (of_nat i # k)" "mget (ts ! i) k \<noteq> None" using child_has_key i by blast
  then show ?thesis using i \<open>length ts = 17\<close>
    by (intro exI[of _ "of_nat i"] exI[of _ k]) (simp add: unat_of_nat_byte)
qed

lemma mget_short_head: "mget (MShort (y # s) t) (x # k) \<noteq> None \<Longrightarrow> x = y"
  by (auto split: if_splits)

lemma full_not_short:
  assumes "mwf (MFull ts)" "mwf (MShort s t)" "same_contents (MFull ts) (MShort s t)"
  shows False
proof -
  obtain y s' where s: "s = y # s'" using mwf_short_key[OF assms(2)] by (cases s) auto
  obtain x k where "x \<noteq> y" "vkey (x # k)" "mget (MFull ts) (x # k) \<noteq> None"
    using full_other_head[OF assms(1)] by blast
  then show False using same_contentsD[OF assms(3)] mget_short_head s by metis
qed

lemma mget_short_append: "mget (MShort s t) (s @ k) = mget t k"
  by simp

lemma short_not_longer:
  assumes "mwf (MShort s t)" "mwf (MShort (s @ x # r) t')" "same_contents (MShort s t) (MShort (s @ x # r) t')"
  shows False
  using assms(1)
proof (cases rule: mwf_short_cases)
  case 1
  with assms(2) show False
    using vkey_append_vkey[of s "x # r"] vkey_not_nibbles[of s "x # r"] by (auto elim: mwf_short_cases)
next
  case (2 ts)
  then obtain y k where yk: "y \<noteq> x" "vkey (y # k)" "mget t (y # k) \<noteq> None" using full_other_head by blast
  then have "vkey (s @ y # k)" using 2 by (simp add: vkey_append_nibbles)
  then have "mget (MShort s t) (s @ y # k) = mget (MShort (s @ x # r) t') (s @ y # k)"
    using same_contentsD[OF assms(3)] by blast
  then show False using yk by simp
qed

lemma short_has_key:
  assumes "mwf (MShort s t)"
  shows "\<exists>k. vkey (s @ k) \<and> mget (MShort s t) (s @ k) \<noteq> None"
  using mwf_has_key[OF assms] by (auto split: option.splits)

lemma short_not_diverge:
  assumes "mwf (MShort (p @ x # q) t)" "same_contents (MShort (p @ x # q) t) (MShort (p @ y # r) t')" "x \<noteq> y"
  shows False
proof -
  obtain k where k: "vkey ((p @ x # q) @ k)" "mget (MShort (p @ x # q) t) ((p @ x # q) @ k) \<noteq> None"
    using short_has_key[OF assms(1)] by blast
  have "mget (MShort (p @ y # r) t') ((p @ x # q) @ k) = None" using assms(3) by simp
  then show False using same_contentsD[OF assms(2) k(1)] k(2) by simp
qed

lemma short_same:
  assumes "mwf (MShort s u)" "mwf (MShort s' u')" "same_contents (MShort s u) (MShort s' u')"
  shows "s = s'" "u = u' \<or> mwf u \<and> mwf u' \<and> same_contents u u'"
proof -
  show s: "s = s'"
  proof (cases s s' rule: keys_cases)
    case (extends r)
    then show ?thesis using short_not_longer assms same_contents_sym by (cases r) blast+
  next
    case (prefix x r)
    then show ?thesis using short_not_longer assms by blast
  next
    case (diverge p x q y r)
    then show ?thesis using short_not_diverge assms by blast
  qed
  show "u = u' \<or> mwf u \<and> mwf u' \<and> same_contents u u'" using assms(1)
  proof (cases rule: mwf_short_cases)
    case (1 v)
    then show ?thesis using assms(2) same_contentsD[OF assms(3), of s] s
      by (cases u') (auto simp: mwf.simps dest: vkey_not_nibbles[of _ "[]"])
  next
    case (2 ts)
    have "mwf u'" using assms(2)
      by (cases rule: mwf_short_cases) (use 2 s vkey_not_nibbles[of s "[]"] in auto)
    moreover have "same_contents u u'"
      using same_contentsD[OF assms(3), of "s @ _"] 2 s by (simp add: same_contents_def vkey_append_nibbles)
    ultimately show ?thesis using 2 by blast
  qed
qed

lemma full_same:
  assumes "mwf (MFull ts)" "mwf (MFull ts')" "same_contents (MFull ts) (MFull ts')" "i < 17"
  shows "ts ! i = ts' ! i \<or> mwf (ts ! i) \<and> mwf (ts' ! i) \<and> same_contents (ts ! i) (ts' ! i)"
proof -
  have c: "child_ok i (ts ! i)" "child_ok i (ts' ! i)" using assms by (simp_all add: mwf_full)
  have eq: "mget (ts ! i) k = mget (ts' ! i) k" if "vkey (of_nat i # k)" for k
    using same_contentsD[OF assms(3) that] assms(1,2)[THEN mwf_full_length] assms(4)
    by (simp add: unat_of_nat_byte)
  have nil: "ts ! i = MNil \<longleftrightarrow> ts' ! i = MNil"
    using child_has_key[OF c(1) _ assms(4)] child_has_key[OF c(2) _ assms(4)] eq by (metis mget.simps(1))
  consider "ts ! i = MNil" | "i = 16" "ts ! i \<noteq> MNil" | "i < 16" "mwf (ts ! i)" "mwf (ts' ! i)"
    using c nil by (auto simp: child_ok_def)
  then show ?thesis
  proof cases
    case 2
    then show ?thesis using c nil eq[of "[]"] by (auto simp: child_ok_def)
  next
    case 3
    then show ?thesis using eq by (simp add: same_contents_def vkey_index del: vkey.simps)
  qed (use nil in simp)
qed

text \<open>A tree of this shape is determined by its contents.\<close>

lemma mwf_unique:
  assumes "mwf t" "mwf t'" "same_contents t t'"
  shows "t = t'"
  using assms
proof (induction "size t" arbitrary: t t' rule: less_induct)
  case less
  show ?case
  proof (cases t)
    case (MShort s u)
    then have "\<nexists>ts. t' = MFull ts" using less(2-4) full_not_short same_contents_sym by blast
    then obtain s' u' where t': "t' = MShort s' u'" using less(3) by (cases t') auto
    show ?thesis using short_same[of s u s' u'] less MShort t' by auto
  next
    case (MFull ts)
    then have "\<nexists>s u. t' = MShort s u" using less(2-4) full_not_short by blast
    then obtain ts' where t': "t' = MFull ts'" using less(3) by (cases t') auto
    note w = less(2-4)[unfolded MFull t'] note l = w(1,2)[THEN mwf_full_length]
    have "ts ! i = ts' ! i" if "i < 17" for i
      using full_same[OF w that] less(1)[of "ts ! i" "ts' ! i"] MFull size_child[of i ts] l that by auto
    then show ?thesis using MFull t' l by (simp add: nth_equalityI)
  qed (use less in simp_all)
qed

lemma mtrie_unique:
  assumes "mtrie t" "mtrie t'" "same_contents t t'"
  shows "t = t'"
proof -
  have "t = MNil \<longleftrightarrow> t' = MNil" using assms mwf_has_key unfolding mtrie_def same_contents_def by (metis mget.simps(1))
  then show ?thesis using assms mwf_unique by (auto simp: mtrie_def)
qed

end
