(* ===== verification/Trie_Merkle.thy ===== *)
theory Trie_Merkle
  imports Trie_Ops Trie_Tree
begin

text \<open>The stored form of a tree: the collapsed node of each subtree, its encoding and its hash, the node
  that comes back when it is loaded, and what it means that a database holds a tree. The hash function
  is the parameter \<open>kc\<close>.\<close>

section \<open>Encoding and hash of a tree\<close>

fun inner :: "mtree \<Rightarrow> bool" where
  "inner (MShort _ _) \<longleftrightarrow> True"
| "inner (MFull _) \<longleftrightarrow> True"
| "inner _ \<longleftrightarrow> False"

definition node_rlp :: "node \<Rightarrow> bytes" where
  "node_rlp n = (case rlp (node_goval n) of Inr b \<Rightarrow> b | Inl _ \<Rightarrow> [])"

definition compact :: "bytes \<Rightarrow> bytes" where
  "compact k = (case hexToCompact k of Some c \<Rightarrow> c | None \<Rightarrow> [])"

text \<open>A child is replaced by its hash unless its encoding is shorter than the hash.\<close>

definition cut :: "(bytes \<Rightarrow> bytes) \<Rightarrow> mtree \<Rightarrow> node \<Rightarrow> node" where
  "cut kc t r = (if inner t \<and> 32 \<le> length (node_rlp r) then HashNode (kc (node_rlp r)) else r)"

fun cnode :: "(bytes \<Rightarrow> bytes) \<Rightarrow> mtree \<Rightarrow> node" where
  "cnode kc MNil = NilNode"
| "cnode kc (MValue v) = ValueNode v"
| "cnode kc (MShort k t) = RawShortNode (compact k) (cut kc t (cnode kc t))"
| "cnode kc (MFull ts) = RawFullNode (map (\<lambda>t. cut kc t (cnode kc t)) ts)"

abbreviation cref :: "(bytes \<Rightarrow> bytes) \<Rightarrow> mtree \<Rightarrow> node" where
  "cref kc t \<equiv> cut kc t (cnode kc t)"

definition menc :: "(bytes \<Rightarrow> bytes) \<Rightarrow> mtree \<Rightarrow> bytes" where
  "menc kc t = node_rlp (cnode kc t)"

definition mhash :: "(bytes \<Rightarrow> bytes) \<Rightarrow> mtree \<Rightarrow> bytes" where
  "mhash kc t = kc (menc kc t)"

definition big :: "(bytes \<Rightarrow> bytes) \<Rightarrow> mtree \<Rightarrow> bool" where
  "big kc t \<longleftrightarrow> inner t \<and> 32 \<le> length (menc kc t)"

lemma cref_eq: "cref kc t = (if big kc t then HashNode (mhash kc t) else cnode kc t)"
  by (simp add: cut_def big_def mhash_def menc_def)

text \<open>The hash of the whole tree, as \<open>Trie.Hash\<close> reports it.\<close>

definition root_hash :: "(bytes \<Rightarrow> bytes) \<Rightarrow> mtree \<Rightarrow> hash" where
  "root_hash kc t = (if t = MNil then emptyRoot else BytesToHash (mhash kc t))"

section \<open>Loading\<close>

fun lnode :: "(bytes \<Rightarrow> bytes) \<Rightarrow> 16 word \<Rightarrow> bytes option \<Rightarrow> mtree \<Rightarrow> node" where
  "lnode kc gen h MNil = NilNode"
| "lnode kc gen h (MValue v) = ValueNode v"
| "lnode kc gen h (MShort k t) =
     ShortNode k (if big kc t then HashNode (mhash kc t) else lnode kc gen None t)
       \<lparr> nf_hash = h, nf_gen = gen, nf_dirty = False \<rparr>"
| "lnode kc gen h (MFull ts) =
     FullNode (map (\<lambda>t. if big kc t then HashNode (mhash kc t) else lnode kc gen None t) ts)
       \<lparr> nf_hash = h, nf_gen = gen, nf_dirty = False \<rparr>"

abbreviation lref :: "(bytes \<Rightarrow> bytes) \<Rightarrow> 16 word \<Rightarrow> mtree \<Rightarrow> node" where
  "lref kc gen t \<equiv> (if big kc t then HashNode (mhash kc t) else lnode kc gen None t)"

lemma lnode_Nil_iff [simp]: "lnode kc gen h t = NilNode \<longleftrightarrow> t = MNil"
  by (cases t) auto

lemma cnode_Nil_iff [simp]: "cnode kc t = NilNode \<longleftrightarrow> t = MNil"
  by (cases t) auto

lemma cref_Nil_iff [simp]: "cref kc t = NilNode \<longleftrightarrow> t = MNil"
  by (auto simp: cut_def)

lemma compact_inverse:
  assumes "hex_key k"
  shows "hexToCompact k = Some (compact k)" "compactToHex (compact k) = Some k"
  using compact_round_trip[OF assms] by (auto simp: compact_def)

lemma those_map_Some: "(\<And>x. x \<in> set xs \<Longrightarrow> f x = Some (g x)) \<Longrightarrow> those (map f xs) = Some (map g xs)"
  by (induction xs) auto

lemma mwf_hex_key: "mwf (MShort k t) \<Longrightarrow> hex_key k"
  by (erule mwf_short_cases) (simp_all add: vkey_hasTerm nibbles_hex_key)

text \<open>A subtree below a node that is part of a tree: a value, nothing or a tree of its own.\<close>

definition subtree_ok :: "mtree \<Rightarrow> bool" where
  "subtree_ok t \<longleftrightarrow> t = MNil \<or> (\<exists>v. t = MValue v \<and> v \<noteq> []) \<or> mwf t"

lemma subtree_short: "mwf (MShort k t) \<Longrightarrow> subtree_ok t \<and> t \<noteq> MNil"
  by (erule mwf_short_cases) (auto simp: subtree_ok_def)

lemma subtree_full: "mwf (MFull ts) \<Longrightarrow> t \<in> set ts \<Longrightarrow> subtree_ok t"
  by (auto simp: mwf_full child_ok_def subtree_ok_def in_set_conv_nth)

lemma expandNode_cnode:
  assumes "subtree_ok t" "t \<noteq> MNil"
  shows "expandNode h (cnode kc t) gen = Some (lnode kc gen h t)"
  using assms
proof (induction t arbitrary: h)
  case (MShort k t)
  then have w: "mwf (MShort k t)" by (simp add: subtree_ok_def)
  show ?case using MShort(1)[of None] subtree_short[OF w] compact_inverse(2)[OF mwf_hex_key[OF w]]
    by (simp add: cref_eq)
next
  case (MFull ts)
  then have w: "mwf (MFull ts)" by (simp add: subtree_ok_def)
  have "those (map ((\<lambda>c. if c = NilNode then Some NilNode else expandNode None c gen) \<circ> cref kc) ts) =
      Some (map (lref kc gen) ts)"
    by (rule those_map_Some) (use MFull(1)[of _ None] subtree_full[OF w] in \<open>auto simp: cref_eq big_def\<close>)
  then show ?case by simp
qed simp_all

section \<open>Trees in a database\<close>

text \<open>The database has the node of \<open>t\<close>, and then \<open>P\<close> holds; unless all nodes are required (\<open>full\<close>),
  the node may also be missing.\<close>

definition present :: "(bytes \<Rightarrow> bytes) \<Rightarrow> bool \<Rightarrow> tdb \<Rightarrow> mtree \<Rightarrow> bool \<Rightarrow> bool" where
  "present kc full db t P \<longleftrightarrow>
     (\<forall>gen. \<not> full \<and> tdb_node db (BytesToHash (mhash kc t)) gen = Some NilNode \<or>
            tdb_node db (BytesToHash (mhash kc t)) gen = Some (lnode kc gen (Some (mhash kc t)) t) \<and> P)"

lemma present_cong [fundef_cong]:
  assumes "kc = kc'" "full = full'" "db = db'" "t = t'" "P = P'"
  shows "present kc full db t P = present kc' full' db' t' P'"
  using assms by simp

text \<open>All hashed nodes below a tree are in the database.\<close>

fun avail :: "(bytes \<Rightarrow> bytes) \<Rightarrow> bool \<Rightarrow> tdb \<Rightarrow> mtree \<Rightarrow> bool" where
  "avail kc full db (MShort k t) \<longleftrightarrow> (if big kc t then present kc full db t (avail kc full db t) else avail kc full db t)"
| "avail kc full db (MFull ts) \<longleftrightarrow>
     (\<forall>t \<in> set ts. if big kc t then present kc full db t (avail kc full db t) else avail kc full db t)"
| "avail kc full db _ \<longleftrightarrow> True"

abbreviation held :: "(bytes \<Rightarrow> bytes) \<Rightarrow> bool \<Rightarrow> tdb \<Rightarrow> mtree \<Rightarrow> bool" where
  "held kc full db t \<equiv> present kc full db t (avail kc full db t)"

end
