(* ===== verification/Trie_Correct.thy ===== *)
theory Trie_Correct
  imports Trie_Merkle
begin

text \<open>The operations of \<open>trie/trie.go\<close> against the trees of \<open>Trie_Tree\<close>. A node represents a tree
  if loading all its hash nodes from the database gives that tree, and all the hashes in it are right.
  Lookup, insertion and deletion on nodes then act like the same operations on the represented trees,
  whatever part of the trie has been loaded, and so like the operations of a map.\<close>

section \<open>Representation\<close>

fun is_hash :: "node \<Rightarrow> bool" where
  "is_hash (HashNode _) \<longleftrightarrow> True"
| "is_hash _ \<longleftrightarrow> False"

text \<open>The hash cached in a node. A node that is not the root (\<open>rt\<close>) caches no hash if it is
  embedded in its parent; a node that is not dirty is in the database.\<close>

definition flag_ok :: "(bytes \<Rightarrow> bytes) \<Rightarrow> bool \<Rightarrow> tdb \<Rightarrow> bool \<Rightarrow> mtree \<Rightarrow> nodeFlag \<Rightarrow> bool" where
  "flag_ok kc full db rt t fl \<longleftrightarrow>
     (\<forall>h. nf_hash fl = Some h \<longrightarrow>
        h = mhash kc t \<and> (rt \<or> big kc t) \<and> (\<not> nf_dirty fl \<longrightarrow> held kc full db t)) \<and>
     (nf_hash fl = None \<and> \<not> nf_dirty fl \<longrightarrow> \<not> rt \<and> \<not> big kc t)"

lemma flag_ok_new [simp]: "flag_ok kc full db rt t (newFlag gen)"
  by (simp add: flag_ok_def newFlag_def)

lemma flag_ok_gen [simp]: "flag_ok kc full db rt t (fl\<lparr> nf_gen := gen \<rparr>) = flag_ok kc full db rt t fl"
  by (simp add: flag_ok_def)

text \<open>The parameter \<open>full\<close> tells that no node is missing from the database; without it, a hash whose
  node is missing may stand for any tree with that hash.\<close>

inductive repr :: "(bytes \<Rightarrow> bytes) \<Rightarrow> bool \<Rightarrow> tdb \<Rightarrow> bool \<Rightarrow> node \<Rightarrow> mtree \<Rightarrow> bool" for kc full db where
  repr_nil: "repr kc full db rt NilNode MNil"
| repr_value: "repr kc full db rt (ValueNode v) (MValue v)"
| repr_short: "repr kc full db False n t \<Longrightarrow> flag_ok kc full db rt (MShort k t) fl \<Longrightarrow>
    repr kc full db rt (ShortNode k n fl) (MShort k t)"
| repr_full: "length ns = length ts \<Longrightarrow> (\<And>i. i < length ns \<Longrightarrow> repr kc full db False (ns ! i) (ts ! i)) \<Longrightarrow>
    flag_ok kc full db rt (MFull ts) fl \<Longrightarrow> repr kc full db rt (FullNode ns fl) (MFull ts)"
| repr_hash: "inner t \<Longrightarrow> rt \<or> big kc t \<Longrightarrow> held kc full db t \<Longrightarrow> repr kc full db rt (HashNode (mhash kc t)) t"

inductive_cases repr_nilE: "repr kc full db rt NilNode t"
inductive_cases repr_valueE: "repr kc full db rt (ValueNode v) t"
inductive_cases repr_shortE: "repr kc full db rt (ShortNode k n fl) t"
inductive_cases repr_fullE: "repr kc full db rt (FullNode ns fl) t"
inductive_cases repr_hashE: "repr kc full db rt (HashNode h) t"
inductive_cases repr_MNilE: "repr kc full db rt n MNil"
inductive_cases repr_MValueE: "repr kc full db rt n (MValue v)"

lemma repr_nil_iff: "repr kc full db rt n t \<Longrightarrow> n = NilNode \<longleftrightarrow> t = MNil"
  by (auto elim: repr.cases)

text \<open>What the database loads represents the tree that it holds.\<close>

lemma repr_lnode:
  assumes "avail kc full db t"
    "case h of None \<Rightarrow> \<not> rt \<and> \<not> big kc t | Some x \<Rightarrow> x = mhash kc t \<and> (rt \<or> big kc t) \<and> held kc full db t"
  shows "repr kc full db rt (lnode kc gen h t) t"
  using assms
proof (induction t arbitrary: h rt)
  case (MShort k t)
  then have "repr kc full db False (lref kc gen t) t"
    by (auto simp: big_def intro!: repr_hash split: if_splits)
  moreover have "flag_ok kc full db rt (MShort k t) \<lparr> nf_hash = h, nf_gen = gen, nf_dirty = False \<rparr>"
    using MShort(3) unfolding flag_ok_def by (simp del: avail.simps split: option.splits)
  ultimately show ?case by (auto intro!: repr_short)
next
  case (MFull ts)
  then have "repr kc full db False (lref kc gen (ts ! i)) (ts ! i)" if "i < length ts" for i
    using that nth_mem[OF that] by (auto simp: big_def intro!: repr_hash split: if_splits)
  moreover have "flag_ok kc full db rt (MFull ts) \<lparr> nf_hash = h, nf_gen = gen, nf_dirty = False \<rparr>"
    using MFull(3) unfolding flag_ok_def by (simp del: avail.simps split: option.splits)
  ultimately show ?case by (auto intro!: repr_full)
qed (auto intro: repr.intros)

text \<open>The fuel an operation needs at a node: two steps for every nibble of the key.\<close>

definition enough :: "nat \<Rightarrow> node \<Rightarrow> bytes \<Rightarrow> bool" where
  "enough fuel n k \<longleftrightarrow> 2 * length k + (if is_hash n then 2 else 1) \<le> fuel"

lemma enough_step:
  assumes "enough (Suc fuel) n (k @ r)" "k \<noteq> []"
  shows "enough fuel n' r"
  using assms by (cases k) (auto simp: enough_def split: if_splits)

lemma enough_hash: "enough (Suc fuel) (HashNode h) k \<Longrightarrow> \<not> is_hash n \<Longrightarrow> enough fuel n k"
  by (simp add: enough_def)

lemma enough_Suc: "enough fuel n k \<Longrightarrow> \<exists>f. fuel = Suc f"
  by (cases fuel) (auto simp: enough_def split: if_splits)

text \<open>A node that the database does not have.\<close>

definition missing :: "bool \<Rightarrow> tdb \<Rightarrow> 16 word \<Rightarrow> trie_error \<Rightarrow> bool" where
  "missing full db gen err \<longleftrightarrow> \<not> full \<and> (\<exists>h p. err = MissingNodeError h p \<and> tdb_node db h gen = Some NilNode)"

lemma resolveHash_cases:
  assumes "repr kc full db rt (HashNode h) t"
  obtains err where "resolveHash db gen h prefix = Some (Inl err)" "missing full db gen err"
    | n where "resolveHash db gen h prefix = Some (Inr n)" "\<not> is_hash n" "repr kc full db rt n t" "n \<noteq> NilNode"
proof -
  have t: "inner t" "h = mhash kc t" "rt \<or> big kc t" "held kc full db t"
    using assms by (auto elim!: repr_hashE)
  then have "\<not> full \<and> tdb_node db (BytesToHash h) gen = Some NilNode \<or>
      tdb_node db (BytesToHash h) gen = Some (lnode kc gen (Some h) t) \<and> avail kc full db t"
    by (simp add: present_def)
  then show thesis
  proof (elim disjE conjE)
    assume "\<not> full" "tdb_node db (BytesToHash h) gen = Some NilNode"
    then show thesis using that(1) by (simp add: resolveHash_def missing_def)
  next
    assume n: "tdb_node db (BytesToHash h) gen = Some (lnode kc gen (Some h) t)" "avail kc full db t"
    have "t \<noteq> MNil" "\<not> is_hash (lnode kc gen (Some h) t)" using t(1) by (cases t; simp)+
    then show thesis using that(2) n t repr_lnode[OF n(2), where h = "Some h" and rt = rt and gen = gen] by (simp add: resolveHash_def)
  qed
qed

section \<open>Lookup\<close>

definition got :: "(bytes \<Rightarrow> bytes) \<Rightarrow> bool \<Rightarrow> tdb \<Rightarrow> bool \<Rightarrow> 16 word \<Rightarrow> mtree \<Rightarrow> bytes \<Rightarrow>
    (trie_error + (bytes option \<times> node \<times> bool)) option \<Rightarrow> bool" where
  "got kc full db rt gen t k r \<longleftrightarrow>
     (case r of None \<Rightarrow> False
      | Some (Inl err) \<Rightarrow> missing full db gen err
      | Some (Inr (v, n, _)) \<Rightarrow> v = mget t k \<and> repr kc full db rt n t)"

lemma got_same: "mget t k = v \<Longrightarrow> repr kc full db rt n t \<Longrightarrow> got kc full db rt gen t k (Some (Inr (v, n, d)))"
  by (simp add: got_def)

lemma got_map:
  assumes "got kc full db rt' gen t k r" "\<And>v n d. repr kc full db rt' n t \<Longrightarrow> v = mget t k \<Longrightarrow> got kc full db rt gen t' k' (Some (Inr (f (v, n, d))))"
  shows "got kc full db rt gen t' k' (do { x \<leftarrow> r; Some (map_sum id f x) })"
proof -
  have "(\<exists>err. r = Some (Inl err) \<and> missing full db gen err) \<or>
      (\<exists>v n d. r = Some (Inr (v, n, d)) \<and> v = mget t k \<and> repr kc full db rt' n t)"
    using assms(1) by (auto simp: got_def split: option.splits sum.splits)
  then show ?thesis
  proof (elim disjE exE conjE)
    fix v n d assume "r = Some (Inr (v, n, d))" "v = mget t k" "repr kc full db rt' n t"
    then show ?thesis using assms(2)[of n v d] by simp
  qed (simp add: got_def)
qed

lemma tryGet_correct:
  assumes "repr kc full db rt n t" "fits t (drop pos key)" "enough fuel n (drop pos key)" "pos \<le> length key"
  shows "got kc full db rt gen t (drop pos key) (tryGet fuel db gen n key pos)"
  using assms
proof (induction fuel arbitrary: rt n t pos)
  case 0
  then show ?case using enough_Suc by blast
next
  case (Suc fuel)
  from Suc(2) show ?case
  proof cases
    case repr_nil
    then show ?thesis by (auto intro!: got_same repr.intros)
  next
    case (repr_value v)
    with Suc(3) have "drop pos key = []" by (simp add: fits_def mtrie_def)
    with repr_value show ?thesis by (auto intro: got_same repr.intros)
  next
    case (repr_short m u s fl)
    then have w: "mwf (MShort s u)" and k: "vkey (drop pos key)" using Suc(3) by (auto simp: fits_def mtrie_def)
    show ?thesis using w k
    proof (cases rule: short_key_cases)
      case (1 r)
      then have len: "pos + length s \<le> length key" and r: "drop (pos + length s) key = r"
        using Suc(5) by (metis le_diff_conv2 add.commute length_append length_drop le_add1, metis add.commute append_eq_conv_conj drop_drop)
      have "got kc full db False gen u (drop (pos + length s) key) (tryGet fuel db gen m key (pos + length s))"
        using Suc(1)[OF repr_short(3), of "pos + length s"] Suc(4) 1 len r enough_step[of fuel n s r m] by simp
      then show ?thesis using repr_short len 1 r Suc(2) by (auto intro!: got_map got_same repr.intros)
    next
      case (2 p x q y r)
      then have "mget t (drop pos key) = None" using repr_short by simp
      then show ?thesis using repr_short 2 Suc(2) by (auto intro!: got_same simp: go_slice_def)
    qed
  next
    case (repr_full ns ts fl)
    then have w: "mwf (MFull ts)" and k: "vkey (drop pos key)" using Suc(3) by (auto simp: fits_def mtrie_def)
    then obtain x r where xr: "drop pos key = x # r" by (cases "drop pos key") auto
    then have key: "pos < length key" "key ! pos = x" "drop (Suc pos) key = r"
      by (metis drop_all linorder_not_le list.distinct(1), metis nth_via_drop, metis drop_Suc tl_drop list.sel(3))
    note f = fits_full[OF w k[unfolded xr]] mwf_full_length[OF w]
    have "got kc full db False gen (ts ! unat x) r (tryGet fuel db gen (ns ! unat x) key (Suc pos))"
      using Suc(1)[of False "ns ! unat x" "ts ! unat x" "Suc pos"] repr_full f key Suc(4) xr
        enough_step[of fuel n "[x]" r] by simp
    then show ?thesis using repr_full f key xr Suc(2)
      by (auto intro!: got_map got_same repr.intros simp: nth_updated)
  next
    case repr_hash
    define h where "h = mhash kc t"
    have nh: "n = HashNode h" and hn: "repr kc full db rt (HashNode h) t" using Suc(2) repr_hash h_def by auto
    show ?thesis
    proof (cases rule: resolveHash_cases[OF hn, of gen "take pos key"])
      case (1 err)
      then show ?thesis using nh Suc(5) by (simp add: got_def)
    next
      case (2 m)
      then have "got kc full db rt gen t (drop pos key) (tryGet fuel db gen m key pos)"
        using Suc nh enough_hash by simp
      then show ?thesis using 2 nh Suc(5) by (auto intro!: got_map got_same)
    qed
  qed
qed

section \<open>Insertion\<close>

text \<open>The result of an insertion or deletion that turns the tree \<open>t\<close> into \<open>t'\<close>: a clean result leaves
  the tree as it is.\<close>

definition changed :: "(bytes \<Rightarrow> bytes) \<Rightarrow> bool \<Rightarrow> tdb \<Rightarrow> bool \<Rightarrow> 16 word \<Rightarrow> mtree \<Rightarrow> mtree \<Rightarrow> (trie_error + (bool \<times> node)) option \<Rightarrow> bool" where
  "changed kc full db rt gen t t' r \<longleftrightarrow>
     (case r of None \<Rightarrow> False
      | Some (Inl err) \<Rightarrow> missing full db gen err
      | Some (Inr (dirty, n)) \<Rightarrow> repr kc full db rt n t' \<and> (\<not> dirty \<longrightarrow> t' = t))"

lemma changed_value [simp]:
  "changed kc full db rt gen t t' (Some (Inr (dirty, n))) \<longleftrightarrow> repr kc full db rt n t' \<and> (\<not> dirty \<longrightarrow> t' = t)"
  "changed kc full db rt gen t t' (Some (Inl err)) \<longleftrightarrow> missing full db gen err"
  by (simp_all add: changed_def)

lemma changed_cases:
  assumes "changed kc full db rt gen t t' r"
  obtains err where "r = Some (Inl err)" "missing full db gen err"
    | dirty n where "r = Some (Inr (dirty, n))" "repr kc full db rt n t'" "\<not> dirty \<Longrightarrow> t' = t"
  using assms by (auto simp: changed_def split: option.splits sum.splits)

lemma trie_insert_nil [simp]:
  "trie_insert (Suc fuel) db gen NilNode prefix k val =
     Some (Inr (True, if k = [] then val else ShortNode k val (newFlag gen)))"
  by simp

lemma repr_leaf:
  assumes "repr kc full db False n t" "repr kc full db rt n t"
  shows "repr kc full db rt (if k = [] then n else ShortNode k n (newFlag gen)) (leaf k t)"
  using assms by (simp add: leaf_def repr_short)

lemma repr_fork:
  assumes "repr kc full db False m t" "repr kc full db False n u"
  shows "repr kc full db rt (FullNode ((replicate 17 NilNode)[i := m, j := n]) (newFlag gen)) (MFull ((replicate 17 MNil)[i := t, j := u]))"
  using assms by (auto intro!: repr_full simp: nth_updated repr_nil)

declare trie_insert.simps(2) [simp del]

lemma trie_insert_diverge:
  assumes "mwf (MShort (p @ y # r) t)" "vkey (p @ x # q)" "x \<noteq> y" "repr kc full db False m t" "repr kc full db False n u"
  shows "changed kc full db rt gen (MShort (p @ y # r) t) (minsert (MShort (p @ y # r) t) (p @ x # q) u)
    (trie_insert (Suc (Suc fuel)) db gen (ShortNode (p @ y # r) m fl) prefix (p @ x # q) n)"
proof -
  have "mwf (MShort (p @ x # q) (MValue [0]))" using assms(2) by simp
  then have xy: "unat x < 17" "unat y < 17" using leaf_child(1) assms(1) by blast+
  let ?b = "FullNode ((replicate 17 NilNode)[unat y := if r = [] then m else ShortNode r m (newFlag gen),
                       unat x := if q = [] then n else ShortNode q n (newFlag gen)]) (newFlag gen)"
  have "trie_insert (Suc (Suc fuel)) db gen (ShortNode (p @ y # r) m fl) prefix (p @ x # q) n =
      Some (Inr (True, if p = [] then ?b else ShortNode p ?b (newFlag gen)))"
    using assms(3) xy by (simp add: trie_insert.simps(2)[of "Suc fuel"] nth_append go_index_def Let_def)
  moreover have "repr kc full db rt ?b (MFull (fork y (leaf r t) x (leaf q u)))" for rt
    by (intro repr_fork repr_leaf assms(4,5))
  then have "repr kc full db rt (if p = [] then ?b else ShortNode p ?b (newFlag gen))
      (leaf p (MFull (fork y (leaf r t) x (leaf q u))))" by (intro repr_leaf)
  ultimately show ?thesis using assms(3) by simp
qed

lemma trie_insert_correct:
  assumes "repr kc full db rt n t" "fits t k" "enough fuel n k"
  shows "changed kc full db rt gen t (minsert t k (MValue v)) (trie_insert fuel db gen n prefix k (ValueNode v))"
  using assms
proof (induction fuel arbitrary: rt n t k prefix)
  case 0
  then show ?case using enough_Suc by blast
next
  case (Suc fuel)
  note step = trie_insert.simps(2)[of fuel]
  show ?case
  proof (cases "k = []")
    case True
    with Suc(3) have t: "t = MNil \<or> (\<exists>w. t = MValue w)" by (auto simp: fits_def)
    then show ?thesis using True Suc(2)
      by (auto simp: step repr_value elim!: repr_MNilE repr_MValueE)
  next
    case False
    then have k: "vkey k" and m: "mtrie t" using Suc(3) by (auto simp: fits_def)
    obtain z zs where kz: "k = z # zs" using False by (cases k) auto
    from Suc(2) show ?thesis
    proof cases
      case repr_nil
      then show ?thesis using kz by (auto simp: step intro!: repr.intros)
    next
      case (repr_value w)
      with m show ?thesis by (simp add: mtrie_def)
    next
      case (repr_short c u s fl)
      then have w: "mwf (MShort s u)" using m by (simp add: mtrie_def)
      show ?thesis using w k
      proof (cases rule: short_key_cases)
        case (1 r)
        then have "changed kc full db False gen u (minsert u r (MValue v))
            (trie_insert fuel db gen c (prefix @ s) r (ValueNode v))"
          using Suc(1)[OF repr_short(3)] Suc(4) enough_step[of fuel n s r c] by simp
        then show ?thesis
          by (cases rule: changed_cases) (use 1 repr_short in \<open>auto simp: step intro!: repr.intros\<close>)
      next
        case (2 p x q y r)
        moreover obtain f where "fuel = Suc f" using Suc(4) kz by (cases fuel) (auto simp: enough_def split: if_splits)
        ultimately show ?thesis using trie_insert_diverge w k repr_short repr_value by simp
      qed
    next
      case (repr_full ns ts fl)
      then have w: "mwf (MFull ts)" using m by (simp add: mtrie_def)
      note f = fits_full[OF w k[unfolded kz]] mwf_full_length[OF w]
      have "changed kc full db False gen (ts ! unat z) (minsert (ts ! unat z) zs (MValue v))
          (trie_insert fuel db gen (ns ! unat z) (prefix @ [z]) zs (ValueNode v))"
        using Suc(1)[of False "ns ! unat z" "ts ! unat z" zs] repr_full f Suc(4) kz enough_step[of fuel n "[z]" zs] by simp
      then show ?thesis
        by (cases rule: changed_cases) (use repr_full f kz in \<open>auto simp: step nth_updated intro!: repr.intros\<close>)
    next
      case repr_hash
      define h where "h = mhash kc t"
      have nh: "n = HashNode h" and hn: "repr kc full db rt (HashNode h) t" using Suc(2) repr_hash h_def by auto
      show ?thesis
      proof (cases rule: resolveHash_cases[OF hn, of gen prefix])
        case (1 err)
        then show ?thesis using nh kz by (simp add: step)
      next
        case (2 c)
        then have "changed kc full db rt gen t (minsert t k (MValue v)) (trie_insert fuel db gen c prefix k (ValueNode v))"
          using Suc nh enough_hash by simp
        then show ?thesis
          by (cases rule: changed_cases) (use 2 nh kz in \<open>auto simp: step\<close>)
      qed
    qed
  qed
qed

section \<open>Deletion\<close>

definition removed :: "(bytes \<Rightarrow> bytes) \<Rightarrow> bool \<Rightarrow> tdb \<Rightarrow> bool \<Rightarrow> 16 word \<Rightarrow> mtree \<Rightarrow> mtree option \<Rightarrow> (trie_error + (bool \<times> node)) option \<Rightarrow> bool" where
  "removed kc full db rt gen t d r \<longleftrightarrow>
     (case r of None \<Rightarrow> False
      | Some (Inl err) \<Rightarrow> missing full db gen err
      | Some (Inr (dirty, n)) \<Rightarrow>
          (case d of None \<Rightarrow> \<not> dirty \<and> repr kc full db rt n t
           | Some t' \<Rightarrow> dirty \<and> repr kc full db rt n t' \<and> \<not> is_hash n))"

lemma removed_value [simp]:
  "removed kc full db rt gen t d (Some (Inr (dirty, n))) \<longleftrightarrow>
     (case d of None \<Rightarrow> \<not> dirty \<and> repr kc full db rt n t | Some t' \<Rightarrow> dirty \<and> repr kc full db rt n t' \<and> \<not> is_hash n)"
  "removed kc full db rt gen t d (Some (Inl err)) \<longleftrightarrow> missing full db gen err"
  by (simp_all add: removed_def)

lemma removed_cases:
  assumes "removed kc full db rt gen t d r"
  obtains err where "r = Some (Inl err)" "missing full db gen err"
    | n where "r = Some (Inr (False, n))" "repr kc full db rt n t" "d = None"
    | n t' where "r = Some (Inr (True, n))" "repr kc full db rt n t'" "d = Some t'" "\<not> is_hash n"
  using assms by (auto simp: removed_def split: option.splits sum.splits)

definition taken :: "node list \<Rightarrow> nat list" where
  "taken ns = filter (\<lambda>i. ns ! i \<noteq> NilNode) [0..<length ns]"

lemma taken_Cons: "taken (n # ns) = (if n \<noteq> NilNode then 0 # map Suc (taken ns) else map Suc (taken ns))"
proof -
  have "[0..<length (n # ns)] = 0 # map Suc [0..<length ns]" by (simp add: map_Suc_upt upt_conv_Cons del: upt_Suc)
  then show ?thesis by (simp add: taken_def filter_map comp_def del: upt_Suc)
qed

lemma single_pos_found: "single_pos j (int a) ns = (if taken ns = [] then int a else -2)"
  by (induction ns arbitrary: j) (auto simp: taken_Cons, simp add: taken_def)

lemma single_pos_taken:
  "single_pos j (-1) ns = (case taken ns of [] \<Rightarrow> -1 | [i] \<Rightarrow> int (i + j) | _ \<Rightarrow> -2)"
proof (induction ns arbitrary: j)
  case Nil
  then show ?case by (simp add: taken_def)
next
  case (Cons n ns)
  then show ?case by (auto simp: taken_Cons single_pos_found split: list.splits)
qed

lemma taken_occupied:
  assumes "length ns = length ts" "\<And>i. i < length ns \<Longrightarrow> repr kc full db False (ns ! i) (ts ! i)"
  shows "taken ns = occupied ts"
  unfolding taken_def occupied_def assms(1)
  by (rule filter_cong) (use assms repr_nil_iff[OF assms(2)] in auto)

lemma repr_join:
  assumes "repr kc full db False n t" "\<not> is_hash n"
  shows "repr kc full db rt (case n of ShortNode k v _ \<Rightarrow> ShortNode (s @ k) v (newFlag gen) | _ \<Rightarrow> ShortNode s n (newFlag gen)) (join s t)"
  using assms by (cases rule: repr.cases) (auto intro!: repr.intros)

lemma reduce_full_correct:
  assumes "length ns = 17" "length ts = 17" "\<And>i. i < 17 \<Longrightarrow> repr kc full db False (ns ! i) (ts ! i)"
    "\<And>i. i < 17 \<Longrightarrow> child_ok i (ts ! i)" "length (occupied ts) \<noteq> 0"
  shows "removed kc full db rt gen t (Some (shrink ts)) (reduce_full db gen prefix ns)"
proof -
  have taken: "taken ns = occupied ts" using assms by (intro taken_occupied) auto
  from assms(5) show ?thesis
  proof (cases rule: shrink_cases)
    case (single i)
    note o = occupied_single[OF single(1)]
    have pos: "single_pos 0 (-1) ns = int i" using single(1) taken by (simp add: single_pos_taken)
    have r: "repr kc full db False (ns ! i) (ts ! i)" and c: "child_ok i (ts ! i)" using o(1) assms by auto
    show ?thesis
    proof (cases "i = 16")
      case True
      then obtain v where "ts ! i = MValue v" using c o(2) by (auto simp: child_ok_def)
      then show ?thesis using single True pos r by (auto simp: reduce_full_def intro!: repr.intros)
    next
      case False
      show ?thesis
      proof (cases "ns ! i")
        case (HashNode h)
        with r have "repr kc full db False (HashNode h) (ts ! i)" by simp
        then show ?thesis
        proof (cases rule: resolveHash_cases[of kc full db False h "ts ! i" gen prefix])
          case (1 err)
          then show ?thesis using False pos HashNode by (simp add: reduce_full_def resolve_def)
        next
          case (2 m)
          show ?thesis using 2(3,2)
            by (cases rule: repr.cases)
              (use 2 False pos HashNode r single in \<open>auto simp: reduce_full_def resolve_def Let_def intro!: repr.intros\<close>)
        qed
      qed (use r False pos single repr_join[OF r, of rt "[of_nat i]" gen] in
            \<open>auto simp: reduce_full_def resolve_def Let_def elim!: repr_shortE repr_fullE repr_nilE repr_valueE intro!: repr.intros\<close>)
    qed
  next
    case many
    then have "single_pos 0 (-1) ns < 0" using taken by (auto simp: single_pos_taken split: list.splits)
    then show ?thesis using many assms by (auto simp: reduce_full_def intro!: repr.intros)
  qed
qed

lemma prefixLen_refl [simp]: "prefixLen s s = length s"
  by (induction s) auto

lemma trie_delete_correct:
  assumes "repr kc full db rt n t" "fits t k" "enough fuel n k"
  shows "removed kc full db rt gen t (mdelete t k) (trie_delete fuel db gen n prefix k)"
  using assms
proof (induction fuel arbitrary: rt n t k prefix)
  case 0
  then show ?case using enough_Suc by blast
next
  case (Suc fuel)
  from Suc(2) show ?case
  proof cases
    case (repr_short c u s fl)
    then have w: "mwf (MShort s u)" and k: "vkey k" using Suc(3) by (auto simp: fits_def mtrie_def)
    show ?thesis using w k
    proof (cases rule: short_key_cases)
      case (1 r)
      show ?thesis
      proof (cases r)
        case Nil
        then show ?thesis using 1 repr_short by (auto intro!: repr.intros)
      next
        case (Cons z zs)
        have "removed kc full db False gen u (mdelete u r) (trie_delete fuel db gen c (prefix @ s) r)"
          using Suc(1)[OF repr_short(3)] Suc(4) 1 enough_step[of fuel n s r c] by simp
        then show ?thesis
        proof (cases rule: removed_cases)
          case (3 m t')
          then show ?thesis using 1 Cons repr_short repr_join[OF 3(2,4), of rt s gen]
            by (auto simp: trie_concat_def split: node.splits)
        qed (use 1 Cons repr_short in \<open>auto intro!: repr.intros\<close>)
      qed
    next
      case (2 p x q y r)
      then show ?thesis using repr_short Suc(2) by simp
    qed
  next
    case (repr_full ns ts fl)
    then have w: "mwf (MFull ts)" and k: "vkey k" using Suc(3) by (auto simp: fits_def mtrie_def)
    then obtain z zs where kz: "k = z # zs" by (cases k) auto
    note f = fits_full[OF w k[unfolded kz]] mwf_full_length[OF w]
    have "removed kc full db False gen (ts ! unat z) (mdelete (ts ! unat z) zs)
        (trie_delete fuel db gen (ns ! unat z) (prefix @ [z]) zs)"
      using Suc(1)[of False "ns ! unat z" "ts ! unat z" zs] repr_full f Suc(4) kz enough_step[of fuel n "[z]" zs] by simp
    then show ?thesis
    proof (cases rule: removed_cases)
      case (3 m t')
      then have "deleted (ts ! unat z) zs t'" using mdelete_correct[OF f(2)] by simp
      note d = deleted_children[OF w k[unfolded kz] this]
      have "removed kc full db rt gen t (Some (shrink (ts[unat z := t']))) (reduce_full db gen prefix (ns[unat z := m]))"
        by (rule reduce_full_correct) (use d f repr_full 3 in \<open>auto simp: nth_updated\<close>)
      then show ?thesis using 3 repr_full f kz by simp
    qed (use repr_full f kz in \<open>auto intro!: repr.intros\<close>)
  next
    case repr_hash
    define h where "h = mhash kc t"
    have nh: "n = HashNode h" and hn: "repr kc full db rt (HashNode h) t" using Suc(2) repr_hash h_def by auto
    show ?thesis
    proof (cases rule: resolveHash_cases[OF hn, of gen prefix])
      case (1 err)
      then show ?thesis using nh by simp
    next
      case (2 c)
      then have "removed kc full db rt gen t (mdelete t k) (trie_delete fuel db gen c prefix k)"
        using Suc nh enough_hash by simp
      then show ?thesis
        by (cases rule: removed_cases) (use 2 nh in auto)
    qed
  qed (auto intro: repr.intros)
qed

end
