(* ===== verification/Trie_Hashing.thy ===== *)
theory Trie_Hashing
  imports Trie_Correct
begin

text \<open>Correctness of the hasher (\<open>trie/hasher.go\<close>): the hash of a trie is a function of the tree it
  represents, whatever hashes are cached in its nodes, and committing a trie leaves a database that holds
  the tree under that hash and everything it held before.\<close>

section \<open>Encodings\<close>

lemma rlps_Inr:
  assumes "\<And>v. v \<in> set vs \<Longrightarrow> \<exists>b. rlp v = Inr b"
  shows "\<exists>b. rlps vs = Inr b"
  using assms
proof (induction vs)
  case (Cons v vs)
  obtain b c where "rlp v = Inr b" "rlps vs = Inr c" using Cons.IH Cons.prems by (meson list.set_intros)
  then show ?case by simp
qed simp

lemma rlp_node_goval: "rlp (node_goval n) = Inr (node_rlp n)"
proof -
  have "\<exists>b. rlp (node_goval n) = Inr b"
  proof (induction n)
    case (FullNode cs fl)
    then have "\<exists>b. rlps (map (\<lambda>c. if c = NilNode then BytesVal [] else node_goval c) cs) = Inr b"
      by (intro rlps_Inr) auto
    then show ?case by auto
  next
    case (RawFullNode cs)
    then have "\<exists>b. rlps (map (\<lambda>c. if c = NilNode then BytesVal [] else node_goval c) cs) = Inr b"
      by (intro rlps_Inr) auto
    then show ?case by auto
  qed auto
  then show ?thesis by (auto simp: node_rlp_def)
qed

lemma EncodeToBytes_node:
  assumes "length (node_rlp n) < 2 ^ 64"
  shows "EncodeToBytes (node_goval n) = Some (Inr (node_rlp n))"
  using EncodeToBytes_rlp[of "node_goval n"] assms by (simp add: rlp_node_goval)

lemma those_Some: "those xs = Some ys \<longleftrightarrow> xs = map Some ys"
  by (induction xs arbitrary: ys) (auto split: option.splits simp: Cons_eq_map_conv)

lemma simplifyNode_not_Nil: "simplifyNode n \<noteq> Some NilNode"
  by (cases n) (auto simp: bind_Some_iff)

lemma node_goval_simplify: "simplifyNode n = Some r \<Longrightarrow> node_goval n = node_goval r"
proof (induction n arbitrary: r)
  case (FullNode cs fl)
  then obtain ds where ds: "r = RawFullNode ds"
      "map (\<lambda>c. if c = NilNode then Some NilNode else simplifyNode c) cs = map Some ds"
    by (auto simp: bind_Some_iff those_Some)
  have "map (\<lambda>c. if c = NilNode then BytesVal [] else node_goval c) cs =
      map (\<lambda>c. if c = NilNode then BytesVal [] else node_goval c) ds"
  proof (rule nth_equalityI)
    fix i assume "i < length (map (\<lambda>c. if c = NilNode then BytesVal [] else node_goval c) cs)"
    then have i: "i < length cs" "i < length ds" using ds(2) by (auto dest: map_eq_imp_length_eq)
    then have "(if cs ! i = NilNode then Some NilNode else simplifyNode (cs ! i)) = Some (ds ! i)"
      using arg_cong[OF ds(2), of "\<lambda>xs. xs ! i"] by simp
    then show "map (\<lambda>c. if c = NilNode then BytesVal [] else node_goval c) cs ! i =
        map (\<lambda>c. if c = NilNode then BytesVal [] else node_goval c) ds ! i"
      using FullNode(1)[of "cs ! i" "ds ! i"] i simplifyNode_not_Nil[of "cs ! i"] by (auto split: if_splits)
  qed (use ds(2) in \<open>auto dest: map_eq_imp_length_eq\<close>)
  with ds(1) show ?case by simp
qed (auto simp: bind_Some_iff)

lemma node_rlp_simplify: "simplifyNode n = Some r \<Longrightarrow> node_rlp n = node_rlp r"
  by (simp add: node_rlp_def node_goval_simplify)

text \<open>No encoding of a node of the tree reaches \<open>2 ^ 64\<close> bytes.\<close>

fun enc_ok :: "(bytes \<Rightarrow> bytes) \<Rightarrow> mtree \<Rightarrow> bool" where
  "enc_ok kc (MShort k t) \<longleftrightarrow> length (menc kc (MShort k t)) < 2 ^ 64 \<and> enc_ok kc t"
| "enc_ok kc (MFull ts) \<longleftrightarrow> length (menc kc (MFull ts)) < 2 ^ 64 \<and> (\<forall>t \<in> set ts. enc_ok kc t)"
| "enc_ok kc _ \<longleftrightarrow> True"

lemma enc_ok_menc: "enc_ok kc t \<Longrightarrow> inner t \<Longrightarrow> length (menc kc t) < 2 ^ 64"
  by (cases t) auto

section \<open>Growing databases\<close>

definition grows :: "tdb \<Rightarrow> tdb \<Rightarrow> bool" where
  "grows d d' \<longleftrightarrow> (\<forall>h gen. tdb_node d h gen \<noteq> Some NilNode \<longrightarrow> tdb_node d' h gen = tdb_node d h gen)"

lemma grows_refl [simp]: "grows d d"
  by (simp add: grows_def)

lemma grows_trans: "grows d d' \<Longrightarrow> grows d' d'' \<Longrightarrow> grows d d''"
  by (auto simp: grows_def)

lemma inner_not_Nil: "inner t \<Longrightarrow> t \<noteq> MNil"
  by auto

lemma present_mono:
  assumes "present kc True d t P" "grows d d'" "t \<noteq> MNil" "P \<Longrightarrow> P'"
  shows "present kc True d' t P'"
  unfolding present_def
proof (intro allI disjI2)
  fix gen
  have "tdb_node d (BytesToHash (mhash kc t)) gen = Some (lnode kc gen (Some (mhash kc t)) t)" "P"
    using assms(1) by (auto simp: present_def)
  then show "tdb_node d' (BytesToHash (mhash kc t)) gen = Some (lnode kc gen (Some (mhash kc t)) t) \<and> P'"
    using assms(2-4) by (auto simp: grows_def)
qed

lemma avail_mono:
  assumes "avail kc True d t" "grows d d'"
  shows "avail kc True d' t"
  using assms
  by (induction t) (auto intro!: present_mono[of kc d _ "avail kc True d _" d'] simp: big_def split: if_splits)

lemma held_mono: "held kc True d t \<Longrightarrow> grows d d' \<Longrightarrow> t \<noteq> MNil \<Longrightarrow> held kc True d' t"
  using avail_mono by (auto intro: present_mono)

lemma repr_mono:
  assumes "repr kc True d rt n t" "grows d d'"
  shows "repr kc True d' rt n t"
  using assms
proof (induction rule: repr.induct)
  case (repr_short n t rt k fl)
  then have "flag_ok kc True d' rt (MShort k t) fl"
    using held_mono[of kc d "MShort k t" d'] by (auto simp: flag_ok_def simp del: avail.simps)
  then show ?case using repr_short by (auto intro: repr.intros)
next
  case (repr_full ns ts rt fl)
  then have "flag_ok kc True d' rt (MFull ts) fl"
    using held_mono[of kc d "MFull ts" d'] by (auto simp: flag_ok_def simp del: avail.simps)
  then show ?case using repr_full by (auto intro: repr.intros)
next
  case (repr_hash t rt)
  then show ?case using held_mono inner_not_Nil by (auto intro: repr.intros)
qed (auto intro: repr.intros)

section \<open>Insertion into the database\<close>

text \<open>The newest node of the list of insertions is there.\<close>

definition flush_ok :: "tdb \<Rightarrow> bool" where
  "flush_ok d \<longleftrightarrow> tdb_oldest d = 0 \<or> tdb_nodes d (tdb_newest d) \<noteq> None"

definition contents :: "tdb \<Rightarrow> hash \<Rightarrow> node option" where
  "contents d h = map_option cn_node (tdb_nodes d h)"

lemma contents_other [simp]:
  "contents (tdb_oldest_update f d) = contents d" "contents (tdb_newest_update f d) = contents d"
  "contents (tdb_nodesSize_update g d) = contents d"
  by (simp_all add: contents_def fun_eq_iff)

lemma contents_None: "contents d h = None \<longleftrightarrow> tdb_nodes d h = None"
  by (simp add: contents_def)

lemma tdb_node_contents:
  "tdb_node d h gen = (case contents d h of
     Some (RawNode b) \<Rightarrow> mustDecodeNode (Some (Hash_Bytes h)) b gen
   | Some nd \<Rightarrow> expandNode (Some (Hash_Bytes h)) nd gen
   | None \<Rightarrow> (case tdb_diskdb d (Hash_Bytes h) of None \<Rightarrow> Some NilNode
              | Some enc \<Rightarrow> mustDecodeNode (Some (Hash_Bytes h)) enc gen))"
  by (simp add: tdb_node_def contents_def cached_obj_def split: option.splits node.splits)

lemma tdb_node_cong: "contents d h = contents d' h \<Longrightarrow> tdb_diskdb d = tdb_diskdb d' \<Longrightarrow> tdb_node d h gen = tdb_node d' h gen"
  by (cases "contents d' h") (simp_all add: tdb_node_contents)

lemma add_parents:
  "contents (fold add_parent hs d) = contents d \<and> tdb_diskdb (fold add_parent hs d) = tdb_diskdb d \<and>
   tdb_oldest (fold add_parent hs d) = tdb_oldest d \<and> tdb_newest (fold add_parent hs d) = tdb_newest d"
proof (induction hs arbitrary: d)
  case (Cons h hs)
  have "contents (add_parent h d) = contents d" "tdb_diskdb (add_parent h d) = tdb_diskdb d"
    "tdb_oldest (add_parent h d) = tdb_oldest d" "tdb_newest (add_parent h d) = tdb_newest d"
    by (auto simp: add_parent_def contents_def fun_eq_iff split: option.splits)
  with Cons show ?case by simp
qed simp

lemma entry_update_contents:
  assumes "\<And>c. cn_node (f c) = cn_node c" "contents d h \<noteq> None"
  shows "\<exists>d'. entry_update h f d = Some d' \<and> contents d' = contents d \<and> tdb_diskdb d' = tdb_diskdb d"
  using assms by (auto simp: entry_update_def contents_def fun_eq_iff)

lemma tdb_insert_new:
  assumes "tdb_nodes d h = None" "simplifyNode n = Some r" "gatherChildren r = Some hs" "flush_ok d"
  shows "\<exists>d'. tdb_insert h blob n d = Some d' \<and> contents d' = (contents d)(h \<mapsto> r) \<and>
    tdb_diskdb d' = tdb_diskdb d \<and> flush_ok d'"
proof -
  define e where "e = \<lparr> cn_node = r, cn_size = of_nat (length blob), cn_parents = 0, cn_children = [],
                      cn_flushPrev = tdb_newest d, cn_flushNext = 0 \<rparr>"
  have c: "childs e = Some hs" using assms(3) by (cases r) (auto simp: e_def childs_def)
  define d1 where "d1 = fold add_parent hs d"
  define d2 where "d2 = d1\<lparr> tdb_nodes := (tdb_nodes d1)(h \<mapsto> e) \<rparr>"
  note p = add_parents[of hs d, folded d1_def]
  have d2: "contents d2 = (contents d)(h \<mapsto> r)" "tdb_diskdb d2 = tdb_diskdb d"
    "tdb_oldest d2 = tdb_oldest d" "tdb_newest d2 = tdb_newest d"
    using p by (auto simp: d2_def contents_def e_def fun_eq_iff)
  have step: "tdb_insert h blob n d =
      do { db \<leftarrow> (if tdb_oldest d2 = 0 then Some (d2\<lparr> tdb_oldest := h, tdb_newest := h \<rparr>)
              else do { db \<leftarrow> entry_update (tdb_newest d2) (\<lambda>c. c\<lparr> cn_flushNext := h \<rparr>) d2;
                        Some (db\<lparr> tdb_newest := h \<rparr>) });
        Some (db\<lparr> tdb_nodesSize := tdb_nodesSize db + uint (32 + cn_size e) \<rparr>) }"
    using assms(1,2) c by (simp add: tdb_insert_def d2_def d1_def Let_def flip: e_def) (simp add: e_def)
  show ?thesis
  proof (cases "tdb_oldest d = 0")
    case True
    have "tdb_nodes d2 h \<noteq> None" by (simp add: d2_def)
    with True d2 step show ?thesis by (simp add: flush_ok_def)
  next
    case False
    have "contents d2 (tdb_newest d) \<noteq> None" using assms(4) False d2(1) by (auto simp: flush_ok_def contents_def)
    then obtain d3 where d3: "entry_update (tdb_newest d) (\<lambda>c. c\<lparr> cn_flushNext := h \<rparr>) d2 = Some d3"
        "contents d3 = contents d2" "tdb_diskdb d3 = tdb_diskdb d2"
      using entry_update_contents[of "\<lambda>c. c\<lparr> cn_flushNext := h \<rparr>" d2 "tdb_newest d"] by auto
    then have "contents d3 h = Some r" using d2(1) by simp
    then have "tdb_nodes d3 h \<noteq> None" by (auto simp: contents_def)
    then show ?thesis using False d2 d3 step by (simp add: flush_ok_def)
  qed
qed

section \<open>The nodes of a tree\<close>

fun msubs :: "mtree \<Rightarrow> mtree set" where
  "msubs (MShort k t) = insert (MShort k t) (msubs t)"
| "msubs (MFull ts) = insert (MFull ts) (\<Union>t \<in> set ts. msubs t)"
| "msubs t = {t}"

lemma msubs_self [simp]: "t \<in> msubs t"
  by (cases t) auto

text \<open>The hash function tells the trees of \<open>S\<close> apart, and the database has no other node under their
  hashes.\<close>

definition clear :: "(bytes \<Rightarrow> bytes) \<Rightarrow> mtree set \<Rightarrow> tdb \<Rightarrow> bool" where
  "clear kc S d \<longleftrightarrow>
     (\<forall>u \<in> S. inner u \<longrightarrow> (\<forall>gen. tdb_node d (BytesToHash (mhash kc u)) gen \<in>
        {Some NilNode, Some (lnode kc gen (Some (mhash kc u)) u)})) \<and>
     (\<forall>u \<in> S. \<forall>u' \<in> S. inner u \<longrightarrow> inner u' \<longrightarrow> BytesToHash (mhash kc u) = BytesToHash (mhash kc u') \<longrightarrow> u = u')"

lemma clearD:
  assumes "clear kc S d" "u \<in> S" "inner u"
  shows "tdb_node d (BytesToHash (mhash kc u)) gen = Some NilNode \<or>
      tdb_node d (BytesToHash (mhash kc u)) gen = Some (lnode kc gen (Some (mhash kc u)) u)"
    "u' \<in> S \<Longrightarrow> inner u' \<Longrightarrow> BytesToHash (mhash kc u) = BytesToHash (mhash kc u') \<Longrightarrow> u = u'"
  using assms by (auto simp: clear_def)

lemma gatherChildren_cnode: "subtree_ok t \<Longrightarrow> \<exists>hs. gatherChildren (cnode kc t) = Some hs"
proof (induction t)
  case (MShort k t)
  then have "mwf (MShort k t)" by (simp add: subtree_ok_def)
  then have "subtree_ok t" using subtree_short by blast
  with MShort show ?case by (auto simp: cref_eq)
next
  case (MFull ts)
  then have w: "mwf (MFull ts)" by (simp add: subtree_ok_def)
  have "\<exists>hs. gatherChildren (cref kc t) = Some hs" if "t \<in> set ts" for t
    using MFull(1)[OF that] subtree_full[OF w that] by (auto simp: cref_eq)
  then have "\<exists>f. \<forall>t \<in> set ts. gatherChildren (cref kc t) = Some (f t)" by metis
  then obtain f where "\<forall>t \<in> set ts. gatherChildren (cref kc t) = Some (f t)" by blast
  then have "map (gatherChildren \<circ> cref kc) (take 16 ts) = map Some (map f (take 16 ts))"
    by (auto dest: in_set_takeD)
  then have "those (take 16 (map gatherChildren (map (cref kc) ts))) = Some (map f (take 16 ts))"
    unfolding those_Some by (simp add: take_map)
  then show ?case by simp
qed simp_all

lemma cnode_not_RawNode: "cnode kc t \<noteq> RawNode b"
  by (cases t) auto

lemma map_sum_id_Inr: "map_sum f id x = Inr y \<longleftrightarrow> x = Inr y"
  by (cases x) auto

lemma decodeNode_not_Nil: "mustDecodeNode h b gen \<noteq> Some NilNode"
proof -
  have "decodeShort dec h e gen \<noteq> Some (Inr NilNode)" "decodeFull dec h e gen \<noteq> Some (Inr NilNode)" for dec e
    by (auto simp: decodeShort_def decodeFull_def bind_Some_iff Let_def split: sum.splits if_splits)
  then have "decodeNode_rec f h b gen \<noteq> Some (Inr NilNode)" for f
    by (cases f) (auto simp: bind_Some_iff Let_def map_sum_id_Inr split: sum.splits if_splits)
  then show ?thesis by (auto simp: mustDecodeNode_def decodeNode_def bind_Some_iff simp del: decodeNode_rec.simps split: sum.splits)
qed

lemma expandNode_not_Nil: "expandNode h n gen \<noteq> Some NilNode"
  by (cases n) (auto simp: bind_Some_iff)

lemma cached_not_Nil: "tdb_nodes d h \<noteq> None \<Longrightarrow> tdb_node d h gen \<noteq> Some NilNode"
  using decodeNode_not_Nil expandNode_not_Nil
  by (auto simp: tdb_node_def cached_obj_def simp del: expandNode.simps split: node.splits)

definition sound :: "(bytes \<Rightarrow> bytes) \<Rightarrow> mtree set \<Rightarrow> tdb \<Rightarrow> bool" where
  "sound kc S d \<longleftrightarrow> clear kc S d \<and> flush_ok d"

lemma inner_mwf: "mwf t \<Longrightarrow> inner t"
  by (cases t) auto

lemma insert_tree:
  assumes "sound kc S d" "u \<in> S" "mwf u" "simplifyNode n = Some (cnode kc u)" "\<And>b. length (kc b) = 32"
  shows "\<exists>d'. tdb_insert (BytesToHash (mhash kc u)) blob n d = Some d' \<and> sound kc S d' \<and> grows d d' \<and>
    (\<forall>gen. tdb_node d' (BytesToHash (mhash kc u)) gen = Some (lnode kc gen (Some (mhash kc u)) u))"
proof -
  let ?h = "BytesToHash (mhash kc u)"
  have c: "clear kc S d" "flush_ok d" using assms(1) by (simp_all add: sound_def)
  note u = clearD[OF c(1) assms(2) inner_mwf[OF assms(3)]]
  show ?thesis
  proof (cases "tdb_nodes d ?h")
    case (Some e)
    then have "tdb_node d ?h gen \<noteq> Some NilNode" for gen using cached_not_Nil by blast
    then show ?thesis using Some u(1) assms(1) by (auto simp: tdb_insert_def)
  next
    case None
    have "subtree_ok u" using assms(3) by (simp add: subtree_ok_def)
    then obtain hs where "gatherChildren (cnode kc u) = Some hs" using gatherChildren_cnode by blast
    then obtain d' where d': "tdb_insert ?h blob n d = Some d'" "contents d' = (contents d)(?h \<mapsto> cnode kc u)"
        "tdb_diskdb d' = tdb_diskdb d" "flush_ok d'"
      using tdb_insert_new[OF None assms(4) _ c(2)] by blast
    have new: "tdb_node d' ?h gen = Some (lnode kc gen (Some (mhash kc u)) u)" for gen
      using d'(2) \<open>subtree_ok u\<close> expandNode_cnode[of u "Some (mhash kc u)" kc gen] cnode_not_RawNode[of kc u]
        inner_not_Nil[OF inner_mwf[OF assms(3)]] Hash_Bytes_BytesToHash[of "mhash kc u"] assms(5)
      by (auto simp: tdb_node_contents mhash_def simp del: expandNode.simps split: node.splits)
    have old: "tdb_node d' h gen = tdb_node d h gen" if "h \<noteq> ?h" for h gen
      using that d'(2,3) by (intro tdb_node_cong) simp_all
    have "grows d d'" unfolding grows_def using old new u(1) by metis
    moreover have "clear kc S d'"
      unfolding clear_def
    proof (intro conjI ballI allI impI)
      fix w gen assume w: "w \<in> S" "inner w"
      show "tdb_node d' (BytesToHash (mhash kc w)) gen \<in> {Some NilNode, Some (lnode kc gen (Some (mhash kc w)) w)}"
      proof (cases "w = u")
        case False
        then have "tdb_node d' (BytesToHash (mhash kc w)) gen = tdb_node d (BytesToHash (mhash kc w)) gen"
          using old u(2)[OF w] by metis
        then show ?thesis using clearD(1)[OF c(1) w] by simp
      qed (simp add: new)
    qed (use c(1) in \<open>auto simp: clear_def\<close>)
    ultimately show ?thesis using d' new by (auto simp: sound_def)
  qed
qed

section \<open>The hasher\<close>

text \<open>The database that the nodes refer to: the one given to the hasher, or \<open>d0\<close> if it only hashes.\<close>

definition ambient :: "tdb \<Rightarrow> tdb option \<Rightarrow> tdb" where
  "ambient d0 D = (case D of None \<Rightarrow> d0 | Some d \<Rightarrow> d)"

lemma ambient_simps [simp]: "ambient d0 None = d0" "ambient d0 (Some d) = d"
  by (simp_all add: ambient_def)

definition moved :: "(bytes \<Rightarrow> bytes) \<Rightarrow> mtree set \<Rightarrow> tdb \<Rightarrow> tdb option \<Rightarrow> tdb option \<Rightarrow> bool" where
  "moved kc S d0 D D' \<longleftrightarrow> (D = None \<longleftrightarrow> D' = None) \<and> grows (ambient d0 D) (ambient d0 D') \<and>
     (\<forall>d. D' = Some d \<longrightarrow> sound kc S d)"

lemma moved_trans: "moved kc S d0 D D' \<Longrightarrow> moved kc S d0 D' D'' \<Longrightarrow> moved kc S d0 D D''"
  by (auto simp: moved_def intro: grows_trans)

text \<open>What the hasher needs: room for the encodings, a hash function of 32 bytes without collisions, and
  a complete trie if it writes to the database.\<close>

definition ready :: "(bytes \<Rightarrow> bytes) \<Rightarrow> bool \<Rightarrow> mtree set \<Rightarrow> tdb option \<Rightarrow> mtree \<Rightarrow> bool" where
  "ready kc full S D t \<longleftrightarrow> (\<forall>d. D = Some d \<longrightarrow> sound kc S d \<and> full) \<and> msubs t \<subseteq> S \<and> mwf t \<and> enc_ok kc t \<and>
     (\<forall>b. length (kc b) = 32)"

definition target :: "(bytes \<Rightarrow> bytes) \<Rightarrow> bool \<Rightarrow> mtree \<Rightarrow> node" where
  "target kc force t = (if force \<or> big kc t then HashNode (mhash kc t) else cnode kc t)"

definition kept :: "(bytes \<Rightarrow> bytes) \<Rightarrow> bool \<Rightarrow> tdb \<Rightarrow> bool \<Rightarrow> mtree \<Rightarrow> bool" where
  "kept kc full d force t \<longleftrightarrow> (if force \<or> big kc t then held kc full d t else avail kc full d t)"

definition hashed :: "(bytes \<Rightarrow> bytes) \<Rightarrow> bool \<Rightarrow> mtree set \<Rightarrow> tdb \<Rightarrow> tdb option \<Rightarrow> bool \<Rightarrow> mtree \<Rightarrow>
    (node \<times> node \<times> tdb option) option \<Rightarrow> bool" where
  "hashed kc full S d0 D force t r \<longleftrightarrow>
     (\<exists>hn cn D'. r = Some (hn, cn, D') \<and> moved kc S d0 D D' \<and> simplifyNode hn = Some (target kc force t) \<and>
        repr kc full (ambient d0 D') force cn t \<and> (D \<noteq> None \<longrightarrow> kept kc full (ambient d0 D') force t))"

lemma ready_moved: "ready kc full S D t \<Longrightarrow> moved kc S d0 D D" 
  by (auto simp: ready_def moved_def)

lemma repr_moved:
  assumes "repr kc full (ambient d0 D) rt n t" "moved kc S d0 D D'" "D \<noteq> None \<longrightarrow> full"
  shows "repr kc full (ambient d0 D') rt n t"
  using assms repr_mono[of kc "ambient d0 D" rt n t "ambient d0 D'"]
  by (cases D; cases D') (auto simp: moved_def)

lemma simplify_target_hash:
  "simplifyNode hn = Some (HashNode b) \<Longrightarrow> hn = HashNode b"
  by (cases hn) (auto simp: bind_Some_iff)

lemma cnode_not_hash: "inner t \<Longrightarrow> cnode kc t \<noteq> HashNode b"
  by (cases t) auto

lemma hasher_store_correct:
  assumes "ready kc full S D t" "simplifyNode n = Some (cnode kc t)" "node_cache n = Some (fh, dd)"
    "fh = None \<or> fh = Some (mhash kc t)" "D \<noteq> None \<longrightarrow> avail kc full (ambient d0 D) t" "h_onleaf h = None"
  shows "\<exists>hn D'. hasher_store kc h n D force = Some (hn, D') \<and> moved kc S d0 D D' \<and>
    simplifyNode hn = Some (target kc force t) \<and>
    (case hn of HashNode b \<Rightarrow> Some b | _ \<Rightarrow> None) = (if force \<or> big kc t then Some (mhash kc t) else None) \<and>
    (D \<noteq> None \<longrightarrow> kept kc full (ambient d0 D') force t)"
proof -
  have t: "mwf t" "inner t" "t \<in> S" "\<And>b. length (kc b) = 32" "length (menc kc t) < 2 ^ 64"
    using assms(1) inner_mwf[of t] enc_ok_menc[of kc t] msubs_self[of t] unfolding ready_def by auto
  have enc: "EncodeToBytes (node_goval n) = Some (Inr (menc kc t))"
    using EncodeToBytes_node[of n] node_rlp_simplify[OF assms(2)] t(5) by (simp add: menc_def)
  have "n \<noteq> HashNode b" for b using assms(2) cnode_not_hash[OF t(2), of kc b] by force
  then have sh: "n \<noteq> NilNode" "\<not> is_hash n" using assms(2) is_hash.elims(2)[of n] by fastforce+
  have hs: "(case fh of None \<Rightarrow> kc (menc kc t) | Some b \<Rightarrow> b) = mhash kc t" using assms(4) by (auto simp: mhash_def)
  show ?thesis
  proof (cases "force \<or> big kc t")
    case False
    then have "hasher_store kc h n D force = Some (n, D)"
      using enc sh t(2) by (cases n) (auto simp: hasher_store_def big_def)
    moreover have "(case n of HashNode b \<Rightarrow> Some b | _ \<Rightarrow> None) = None" using sh(2) by (cases n) auto
    ultimately show ?thesis using False assms(2,5) ready_moved[OF assms(1)] by (auto simp: target_def kept_def)
  next
    case True
    then have nf: "\<not> (length (menc kc t) < 32 \<and> \<not> force)" by (auto simp: big_def)
    show ?thesis
    proof (cases D)
      case None
      then have "hasher_store kc h n D force = Some (HashNode (mhash kc t), None)"
        using enc sh nf assms(3) hs by (cases n) (auto simp: hasher_store_def)
      then show ?thesis using None True by (auto simp: target_def moved_def)
    next
      case (Some d)
      then have g: "sound kc S d" "full" using assms(1) by (auto simp: ready_def)
      obtain d' where d': "tdb_insert (BytesToHash (mhash kc t)) (menc kc t) n d = Some d'" "sound kc S d'" "grows d d'"
          "\<forall>gen. tdb_node d' (BytesToHash (mhash kc t)) gen = Some (lnode kc gen (Some (mhash kc t)) t)"
        using insert_tree[OF g(1) t(3,1) assms(2) t(4)] by blast
      have "hasher_store kc h n D force = Some (HashNode (mhash kc t), Some d')"
        using Some enc sh nf assms(3,6) hs d'(1) by (cases n) (auto simp: hasher_store_def)
      moreover have "held kc full d' t"
        using d'(3,4) g(2) assms(5) Some avail_mono[of kc d t d'] by (simp add: present_def)
      ultimately show ?thesis using Some True d' by (auto simp: target_def moved_def kept_def)
    qed
  qed
qed
definition flag_of :: "node \<Rightarrow> nodeFlag \<Rightarrow> bool" where
  "flag_of n fl \<longleftrightarrow> (\<exists>k v. n = ShortNode k v fl) \<or> (\<exists>cs. n = FullNode cs fl)"

lemma repr_flag: "repr kc full d rt n t \<Longrightarrow> flag_of n fl \<Longrightarrow> flag_ok kc full d rt t fl \<and> inner t"
  by (auto simp: flag_of_def elim!: repr_shortE repr_fullE)

lemma cached_result_cases:
  assumes "repr kc full (ambient d0 D) force n t" "flag_of n fl"
  obtains cn where "cached_result h n D = Some (Some (HashNode (mhash kc t), cn))" "force \<or> big kc t"
      "repr kc full (ambient d0 D) force cn t" "D \<noteq> None \<longrightarrow> held kc full (ambient d0 D) t"
    | "cached_result h n D = Some None" "nf_hash fl = None \<or> nf_hash fl = Some (mhash kc t)" "D = None \<longrightarrow> nf_hash fl = None"
proof -
  note f = repr_flag[OF assms]
  have nc: "node_cache n = Some (nf_hash fl, nf_dirty fl)"
      "node_canUnload n g l = Some (flag_canUnload fl g l)" for g l
    using assms(2) by (auto simp: flag_of_def)
  show thesis
  proof (cases "nf_hash fl")
    case None
    then show thesis using that(2) nc by (simp add: cached_result_def)
  next
    case (Some b)
    then have b: "b = mhash kc t" "force \<or> big kc t" "\<not> nf_dirty fl \<longrightarrow> held kc full (ambient d0 D) t"
      using f by (auto simp: flag_ok_def)
    consider "D = None" | "D \<noteq> None" "flag_canUnload fl (h_cachegen h) (h_cachelimit h)"
      | "D \<noteq> None" "\<not> flag_canUnload fl (h_cachegen h) (h_cachelimit h)" "\<not> nf_dirty fl"
      | "D \<noteq> None" "\<not> flag_canUnload fl (h_cachegen h) (h_cachelimit h)" "nf_dirty fl" by blast
    then show thesis
    proof cases
      case 2
      then have "held kc full (ambient d0 D) t" using b(3) by (simp add: flag_canUnload_def)
      moreover from this have "repr kc full (ambient d0 D) force (HashNode (mhash kc t)) t"
        using b(2) f by (auto intro: repr_hash)
      ultimately show thesis using that(1)[of "HashNode (mhash kc t)"] 2 b Some nc by (auto simp: cached_result_def)
    qed (use that Some nc b assms(1) in \<open>auto simp: cached_result_def\<close>)
  qed
qed

lemma flag_marked:
  assumes "flag_ok kc full (ambient d0 D) force t fl" "D = None \<longrightarrow> nf_hash fl = None" "D = None \<longleftrightarrow> D' = None"
    "D \<noteq> None \<longrightarrow> kept kc full (ambient d0 D') force t"
  shows "flag_ok kc full (ambient d0 D') force t
    (fl\<lparr> nf_hash := if force \<or> big kc t then Some (mhash kc t) else None,
        nf_dirty := nf_dirty fl \<and> \<not> \<not> Option.is_none D' \<rparr>)"
proof (cases D)
  case None
  then show ?thesis using assms by (auto simp: flag_ok_def)
next
  case (Some d)
  then obtain d' where "D' = Some d'" using assms(3) by auto
  then show ?thesis using assms Some by (simp add: flag_ok_def kept_def)
qed

lemma hashed_walk:
  assumes "ready kc full S D t" "h_onleaf h = None" "flag_of n fl" "flag_ok kc full (ambient d0 D) force t fl"
    and "cached_result h n D = Some None" "nf_hash fl = None \<or> nf_hash fl = Some (mhash kc t)" "D = None \<longrightarrow> nf_hash fl = None"
    and "hashChildren kc h n D = Some (col, cac, D1)" "moved kc S d0 D D1" "simplifyNode col = Some (cnode kc t)"
    "flag_of col fl" "flag_of cac fl" "D \<noteq> None \<longrightarrow> avail kc full (ambient d0 D1) t"
    and cac: "\<And>D2 h st. moved kc S d0 D1 D2 \<Longrightarrow>
      flag_ok kc full (ambient d0 D2) force t (fl\<lparr> nf_hash := h, nf_dirty := nf_dirty fl \<and> \<not> st \<rparr>) \<Longrightarrow>
      repr kc full (ambient d0 D2) force (set_cached h st cac) t"
  shows "hashed kc full S d0 D force t (hasher_hash kc h n D force)"
proof -
  have r: "ready kc full S D1 t" and none: "D = None \<longleftrightarrow> D1 = None" using assms(1,9) by (auto simp: ready_def moved_def)
  have nc: "node_cache col = Some (nf_hash fl, nf_dirty fl)" using assms(11) by (auto simp: flag_of_def)
  obtain hn D2 where s: "hasher_store kc h col D1 force = Some (hn, D2)" "moved kc S d0 D1 D2"
      "simplifyNode hn = Some (target kc force t)"
      "(case hn of HashNode b \<Rightarrow> Some b | _ \<Rightarrow> None) = (if force \<or> big kc t then Some (mhash kc t) else None)"
      "D1 \<noteq> None \<longrightarrow> kept kc full (ambient d0 D2) force t"
    using hasher_store_correct[OF r assms(10) nc assms(6) _ assms(2), of d0 force] assms(13) none by metis
  let ?cn = "set_cached (if force \<or> big kc t then Some (mhash kc t) else None) (\<not> Option.is_none D2) cac"
  have "hasher_hash kc h n D force = Some (hn, ?cn, D2)"
    using assms(5,8) s(1) by (simp add: s(4) del: hashChildren.simps)
  moreover have "D = None \<longleftrightarrow> D2 = None" using none s(2) by (simp add: moved_def)
  then have "repr kc full (ambient d0 D2) force ?cn t"
    using flag_marked[OF assms(4,7), of D2] s(5) none by (intro cac[OF s(2)]) auto
  ultimately show ?thesis unfolding hashed_def using s moved_trans[OF assms(9) s(2)] none by blast
qed

lemma hashed_early:
  assumes "ready kc full S D t" "cached_result h n D = Some (Some (HashNode (mhash kc t), cn))" "force \<or> big kc t"
    "repr kc full (ambient d0 D) force cn t" "D \<noteq> None \<longrightarrow> held kc full (ambient d0 D) t"
  shows "hashed kc full S d0 D force t (hasher_hash kc h n D force)"
  using assms ready_moved[OF assms(1)] by (auto simp: hashed_def target_def kept_def)

lemma hashed_hash:
  assumes "ready kc full S D t" "repr kc full (ambient d0 D) force (HashNode b) t" "h_onleaf h = None"
  shows "hashed kc full S d0 D force t (hasher_hash kc h (HashNode b) D force)"
proof -
  have "b = mhash kc t" "force \<or> big kc t" "held kc full (ambient d0 D) t" using assms(2) by (auto elim!: repr_hashE)
  then show ?thesis using assms ready_moved[OF assms(1), of d0]
    by (auto simp: hashed_def target_def kept_def cached_result_def hasher_store_def set_cached_def)
qed

text \<open>One child of a full node, before and after hashing.\<close>

definition row :: "(bytes \<Rightarrow> bytes) \<Rightarrow> bool \<Rightarrow> tdb \<Rightarrow> bool \<Rightarrow> node \<Rightarrow> node \<Rightarrow> mtree \<Rightarrow> bool" where
  "row kc full d st col cac t \<longleftrightarrow>
     (if t = MNil then col = NilNode else simplifyNode col = Some (cref kc t)) \<and>
     repr kc full d False cac t \<and> (st \<longrightarrow> kept kc full d False t)"

fun rows :: "(bytes \<Rightarrow> bytes) \<Rightarrow> bool \<Rightarrow> tdb \<Rightarrow> bool \<Rightarrow> node list \<Rightarrow> node list \<Rightarrow> mtree list \<Rightarrow> bool" where
  "rows kc full d st (c # col) (a # cac) (t # ts) \<longleftrightarrow> row kc full d st c a t \<and> rows kc full d st col cac ts"
| "rows kc full d st [] [] [] \<longleftrightarrow> True"
| "rows kc full d st _ _ _ \<longleftrightarrow> False"

lemma rows_nth:
  "rows kc full d st col cac ts \<Longrightarrow> length col = length ts \<and> length cac = length ts \<and>
     (\<forall>i < length ts. row kc full d st (col ! i) (cac ! i) (ts ! i))"
  by (induction kc full d st col cac ts rule: rows.induct) (auto simp: less_Suc_eq_0_disj)

lemma kept_mono: "kept kc True d force t \<Longrightarrow> grows d d' \<Longrightarrow> t \<noteq> MNil \<or> \<not> force \<Longrightarrow> kept kc True d' force t"
  using held_mono inner_not_Nil avail_mono unfolding kept_def big_def by metis

lemma row_moved:
  assumes "row kc full (ambient d0 D) (D \<noteq> None) c a t" "moved kc S d0 D D'" "D \<noteq> None \<longrightarrow> full"
  shows "row kc full (ambient d0 D') (D' \<noteq> None) c a t"
  using assms repr_moved[of kc full d0 D False a t S D'] kept_mono[of kc "ambient d0 D" False t "ambient d0 D'"]
  by (auto simp: row_def moved_def)

text \<open>The value at the end of a full node is not hashed.\<close>

lemma row_value:
  assumes "repr kc full d False c t" "t = MNil \<or> (\<exists>v. t = MValue v)"
  shows "row kc full d st c c t"
  using assms by (auto simp: row_def kept_def cref_eq big_def elim!: repr_MNilE repr_MValueE)

lemma rows_values:
  assumes "list_all2 (repr kc full d False) cs ts" "\<forall>t \<in> set ts. t = MNil \<or> (\<exists>v. t = MValue v)"
  shows "rows kc full d st cs cs ts"
  using assms by (induction rule: list_all2_induct) (auto simp: row_value)

lemma target_cref: "target kc False t = cref kc t"
  by (simp add: target_def cref_eq)

lemma list_all2_repr_moved:
  assumes "list_all2 (repr kc full (ambient d0 D) False) cs ts" "moved kc S d0 D D'" "D \<noteq> None \<longrightarrow> full"
  shows "list_all2 (repr kc full (ambient d0 D') False) cs ts"
  using assms(1) by (rule list_all2_mono) (rule repr_moved[OF _ assms(2,3)])

lemma hash_children_correct:
  assumes "list_all2 (repr kc full (ambient d0 D) False) cs ts" "k \<le> length ts"
    "\<And>t. t \<in> set (take k ts) \<Longrightarrow> t = MNil \<or> ready kc full S D t"
    "\<forall>t \<in> set (drop k ts). t = MNil \<or> (\<exists>v. t = MValue v)" "\<forall>d. D = Some d \<longrightarrow> sound kc S d \<and> full"
    and IH: "\<And>t n D. t \<in> set ts \<Longrightarrow> ready kc full S D t \<Longrightarrow> repr kc full (ambient d0 D) False n t \<Longrightarrow>
      hashed kc full S d0 D False t (hasher_hash kc h n D False)"
  shows "\<exists>col cac D'. hash_children kc h k cs D = Some (col, cac, D') \<and> moved kc S d0 D D' \<and>
    rows kc full (ambient d0 D') (D' \<noteq> None) col cac ts"
  using assms
proof (induction k arbitrary: cs ts D)
  case 0
  then show ?case using rows_values by (auto simp: moved_def)
next
  case (Suc k)
  then obtain t ts' where ts: "ts = t # ts'" by (cases ts) auto
  then obtain c cs' where cs: "cs = c # cs'" "repr kc full (ambient d0 D) False c t"
      "list_all2 (repr kc full (ambient d0 D) False) cs' ts'"
    using Suc(2) by (auto simp: list_all2_Cons2)
  have "\<exists>cn ca D1. (if c \<noteq> NilNode then hasher_hash kc h c D False else Some (c, c, D)) = Some (cn, ca, D1) \<and>
      moved kc S d0 D D1 \<and> row kc full (ambient d0 D1) (D1 \<noteq> None) cn ca t"
  proof (cases "t = MNil")
    case True
    then have "c = NilNode" using repr_nil_iff[OF cs(2)] by simp
    then show ?thesis using True Suc(6) row_value[OF cs(2)] by (auto simp: moved_def)
  next
    case False
    then have "hashed kc full S d0 D False t (hasher_hash kc h c D False)" "c \<noteq> NilNode"
      using Suc(4)[of t] Suc(7) cs(2) ts repr_nil_iff[OF cs(2)] by auto
    then show ?thesis using False by (fastforce simp: hashed_def target_cref row_def moved_def)
  qed
  then obtain cn ca D1 where one: "(if c \<noteq> NilNode then hasher_hash kc h c D False else Some (c, c, D)) = Some (cn, ca, D1)"
      "moved kc S d0 D D1" "row kc full (ambient d0 D1) (D1 \<noteq> None) cn ca t" by blast
  have full: "D \<noteq> None \<longrightarrow> full" "D1 \<noteq> None \<longrightarrow> full" using Suc(6) one(2) by (auto simp: moved_def)
  have "\<exists>col cac D'. hash_children kc h k cs' D1 = Some (col, cac, D') \<and> moved kc S d0 D1 D' \<and>
      rows kc full (ambient d0 D') (D' \<noteq> None) col cac ts'"
  proof (rule Suc(1))
    show "list_all2 (repr kc full (ambient d0 D1) False) cs' ts'" using list_all2_repr_moved[OF cs(3) one(2) full(1)] .
    show "u = MNil \<or> ready kc full S D1 u" if "u \<in> set (take k ts')" for u
      using Suc(4)[of u] that ts one(2) full by (auto simp: ready_def moved_def)
  qed (use Suc ts one(2) full in \<open>auto simp: moved_def\<close>)
  then obtain col cac D' where rest: "hash_children kc h k cs' D1 = Some (col, cac, D')" "moved kc S d0 D1 D'"
      "rows kc full (ambient d0 D') (D' \<noteq> None) col cac ts'" by blast
  have "hash_children kc h (Suc k) cs D = Some (cn # col, ca # cac, D')"
    using one(1) rest(1) cs(1) by (simp del: hash_children.simps hasher_hash.simps add: hash_children.simps[of kc h "Suc k"])
  then show ?case using rest ts moved_trans[OF one(2) rest(2)] row_moved[OF one(3) rest(2) full(2)] by auto
qed

lemma ready_short: "ready kc full S D (MShort k t) \<Longrightarrow> mwf t \<Longrightarrow> ready kc full S D t"
  by (auto simp: ready_def)

lemma full_first:
  assumes "mwf (MFull ts)" "t \<in> set (take 16 ts)"
  shows "t = MNil \<or> mwf t"
proof -
  obtain i where i: "i < 16" "t = ts ! i" using assms(2) by (auto simp: in_set_conv_nth)
  then have "child_ok i (ts ! i)" using assms(1) by (simp add: mwf_full)
  then show ?thesis using i by (auto simp: child_ok_def)
qed

lemma ready_full:
  assumes "ready kc full S D (MFull ts)" "t \<in> set (take 16 ts)"
  shows "t = MNil \<or> ready kc full S D t"
  using assms full_first[of ts t] in_set_takeD[OF assms(2)] by (auto simp: ready_def)

lemma full_last:
  assumes "mwf (MFull ts)" "t \<in> set (drop 16 ts)"
  shows "t = MNil \<or> (\<exists>v. t = MValue v)"
proof -
  have "drop 16 ts = [ts ! 16]" using mwf_full_length[OF assms(1)] by (simp add: Cons_nth_drop_Suc[symmetric])
  then have "t = ts ! 16" using assms(2) by simp
  moreover have "child_ok 16 (ts ! 16)" using assms(1) by (simp add: mwf_full)
  ultimately show ?thesis by (auto simp: child_ok_def)
qed

lemma rows_simplify:
  assumes "rows kc full d st col cac ts"
  shows "simplifyNode (FullNode col fl) = Some (cnode kc (MFull ts))"
proof -
  note r = rows_nth[OF assms]
  have "(if col ! i = NilNode then Some NilNode else simplifyNode (col ! i)) = Some (cref kc (ts ! i))" if "i < length ts" for i
    using r that by (cases "ts ! i = MNil") (auto simp: row_def cut_def simplifyNode_not_Nil)
  then have "those (map (\<lambda>c. if c = NilNode then Some NilNode else simplifyNode c) col) = Some (map (cref kc) ts)"
    unfolding those_Some using r by (intro nth_equalityI) auto
  then show ?thesis by simp
qed

lemma rows_kept:
  assumes "rows kc full d True col cac ts"
  shows "avail kc full d (MFull ts)"
proof -
  have "kept kc full d False t" if "t \<in> set ts" for t
    using rows_nth[OF assms] that by (auto simp: row_def in_set_conv_nth)
  then show ?thesis by (auto simp: kept_def)
qed

lemma short_children:
  assumes "ready kc full S D (MShort k t)" "repr kc full (ambient d0 D) False c t" "h_onleaf h = None"
    and IH: "\<And>n D. ready kc full S D t \<Longrightarrow> repr kc full (ambient d0 D) False n t \<Longrightarrow>
      hashed kc full S d0 D False t (hasher_hash kc h n D False)"
  shows "\<exists>col cac D1. hashChildren kc h (ShortNode k c fl) D = Some (ShortNode (compact k) col fl, ShortNode k cac fl, D1) \<and>
    moved kc S d0 D D1 \<and> simplifyNode col = Some (cref kc t) \<and> repr kc full (ambient d0 D1) False cac t \<and>
    (D \<noteq> None \<longrightarrow> kept kc full (ambient d0 D1) False t)"
proof -
  have w: "mwf (MShort k t)" using assms(1) by (simp add: ready_def)
  note ck = compact_inverse(1)[OF mwf_hex_key[OF w]]
  from w show ?thesis
  proof (cases rule: mwf_short_cases)
    case (1 v)
    then have "c = ValueNode v" using assms(2) by (auto elim: repr_MValueE)
    then show ?thesis using 1 assms(2) ck ready_moved[OF assms(1)] by (auto simp: kept_def big_def cut_def)
  next
    case (2 ts)
    then have "hashed kc full S d0 D False t (hasher_hash kc h c D False)"
      using IH[OF ready_short[OF assms(1)] assms(2)] by simp
    then obtain hn cn D1 where "hasher_hash kc h c D False = Some (hn, cn, D1)" "moved kc S d0 D D1"
        "simplifyNode hn = Some (cref kc t)" "repr kc full (ambient d0 D1) False cn t"
        "D \<noteq> None \<longrightarrow> kept kc full (ambient d0 D1) False t"
      by (auto simp: hashed_def target_cref)
    moreover have "c \<noteq> ValueNode v" for v using assms(2) 2 by (auto elim: repr_valueE)
    ultimately show ?thesis using ck by (cases c) (auto simp del: hasher_hash.simps)
  qed
qed

lemma hashed_short:
  assumes "ready kc full S D (MShort k t)" "repr kc full (ambient d0 D) force n (MShort k t)" "h_onleaf h = None"
    and IH: "\<And>n D. ready kc full S D t \<Longrightarrow> repr kc full (ambient d0 D) False n t \<Longrightarrow>
      hashed kc full S d0 D False t (hasher_hash kc h n D False)"
  shows "hashed kc full S d0 D force (MShort k t) (hasher_hash kc h n D force)"
proof (cases "is_hash n")
  case True
  then show ?thesis using hashed_hash assms by (auto elim!: is_hash.elims)
next
  case False
  then obtain c fl where n: "n = ShortNode k c fl" "repr kc full (ambient d0 D) False c t"
      "flag_ok kc full (ambient d0 D) force (MShort k t) fl"
    using assms(2) by (auto elim: repr.cases)
  have full: "D \<noteq> None \<longrightarrow> full" using assms(1) by (auto simp: ready_def)
  have fl: "flag_of n fl" using n(1) by (simp add: flag_of_def)
  show ?thesis
  proof (cases rule: cached_result_cases[OF assms(2) fl, of h])
    case (1 cn)
    then show ?thesis using hashed_early assms(1) by blast
  next
    case 2
    obtain col cac D1 where c: "hashChildren kc h n D = Some (ShortNode (compact k) col fl, ShortNode k cac fl, D1)"
        "moved kc S d0 D D1" "simplifyNode col = Some (cref kc t)" "repr kc full (ambient d0 D1) False cac t"
        "D \<noteq> None \<longrightarrow> kept kc full (ambient d0 D1) False t"
      using short_children[OF assms(1) n(2) assms(3) IH] n(1) by blast
    show ?thesis
    proof (rule hashed_walk[OF assms(1,3) fl n(3) 2 c(1,2)])
      show "D \<noteq> None \<longrightarrow> avail kc full (ambient d0 D1) (MShort k t)" using c(5) by (auto simp: kept_def)
      show "repr kc full (ambient d0 D2) force (set_cached h st (ShortNode k cac fl)) (MShort k t)"
        if "moved kc S d0 D1 D2" "flag_ok kc full (ambient d0 D2) force (MShort k t)
          (fl\<lparr> nf_hash := h, nf_dirty := nf_dirty fl \<and> \<not> st \<rparr>)" for D2 h st
        using repr_moved[OF c(4) that(1)] full c(2) that by (auto simp: set_cached_def moved_def intro!: repr_short)
    qed (use c(3) in \<open>auto simp: flag_of_def\<close>)
  qed
qed

lemma hashed_full:
  assumes "ready kc full S D (MFull ts)" "repr kc full (ambient d0 D) force n (MFull ts)" "h_onleaf h = None"
    and IH: "\<And>t n D. t \<in> set ts \<Longrightarrow> ready kc full S D t \<Longrightarrow> repr kc full (ambient d0 D) False n t \<Longrightarrow>
      hashed kc full S d0 D False t (hasher_hash kc h n D False)"
  shows "hashed kc full S d0 D force (MFull ts) (hasher_hash kc h n D force)"
proof (cases "is_hash n")
  case True
  then show ?thesis using hashed_hash assms by (auto elim!: is_hash.elims)
next
  case False
  then obtain cs fl where n: "n = FullNode cs fl" "list_all2 (repr kc full (ambient d0 D) False) cs ts"
      "flag_ok kc full (ambient d0 D) force (MFull ts) fl"
    using assms(2) by (auto elim!: repr.cases simp: list_all2_conv_all_nth)
  have w: "mwf (MFull ts)" and full: "D \<noteq> None \<longrightarrow> full" and sound: "\<forall>d. D = Some d \<longrightarrow> sound kc S d \<and> full"
    using assms(1) by (auto simp: ready_def)
  have fl: "flag_of n fl" using n(1) by (simp add: flag_of_def)
  show ?thesis
  proof (cases rule: cached_result_cases[OF assms(2) fl, of h])
    case (1 cn)
    then show ?thesis using hashed_early assms(1) by blast
  next
    case 2
    have "\<exists>col cac D'. hash_children kc h 16 cs D = Some (col, cac, D') \<and> moved kc S d0 D D' \<and>
        rows kc full (ambient d0 D') (D' \<noteq> None) col cac ts"
      by (rule hash_children_correct[OF n(2) _ ready_full[OF assms(1)] _ sound IH])
        (use full_last[OF w] mwf_full_length[OF w] in auto)
    then obtain col cac D1 where c: "hash_children kc h 16 cs D = Some (col, cac, D1)" "moved kc S d0 D D1"
        "rows kc full (ambient d0 D1) (D1 \<noteq> None) col cac ts" by blast
    have none: "D = None \<longleftrightarrow> D1 = None" using c(2) by (simp add: moved_def)
    show ?thesis
    proof (rule hashed_walk[OF assms(1,3) fl n(3) 2 _ c(2) rows_simplify[OF c(3)]])
      show "hashChildren kc h n D = Some (FullNode col fl, FullNode cac fl, D1)" using c(1) n(1) by (simp del: hash_children.simps)
      show "D \<noteq> None \<longrightarrow> avail kc full (ambient d0 D1) (MFull ts)" 
        using rows_kept[of kc full "ambient d0 D1" col cac ts] c(3) none by (auto simp del: avail.simps)
      show "repr kc full (ambient d0 D2) force (set_cached h st (FullNode cac fl)) (MFull ts)"
        if "moved kc S d0 D1 D2" "flag_ok kc full (ambient d0 D2) force (MFull ts)
          (fl\<lparr> nf_hash := h, nf_dirty := nf_dirty fl \<and> \<not> st \<rparr>)" for D2 h st
        using rows_nth[OF c(3)] repr_moved[OF _ that(1)] full none that
        by (auto simp: set_cached_def row_def intro!: repr_full)
    qed (auto simp: flag_of_def)
  qed
qed

text \<open>The hasher returns the hash of the tree, or the embedded node, and a node that represents the same
  tree in the database it has written.\<close>

lemma hasher_hash_correct:
  assumes "ready kc full S D t" "repr kc full (ambient d0 D) force n t" "h_onleaf h = None"
  shows "hashed kc full S d0 D force t (hasher_hash kc h n D force)"
  using assms
proof (induction t arbitrary: D force n)
  case (MShort k t)
  then show ?case by (blast intro: hashed_short)
next
  case (MFull ts)
  then show ?case by (blast intro: hashed_full)
qed (auto simp: ready_def)

end
