(* ===== verification/Trie_Map.thy ===== *)
theory Trie_Map
  imports Trie_Hashing
begin

text \<open>What a Merkle Patricia trie promises to its users: it is a map from byte strings to byte strings
  (\<open>TryGet\<close>, \<open>TryUpdate\<close>, \<open>TryDelete\<close>), its root hash depends on the contents only (\<open>Hash\<close>), and a
  committed trie can be opened again from its root hash (\<open>Commit\<close>, \<open>New\<close>).\<close>

section \<open>Maps with a canonical form\<close>

text \<open>An implementation of maps in which equal maps are equal; \<open>del\<close> is the value that removes a key.\<close>

locale canonical_map =
  fixes lookup :: "'s \<Rightarrow> 'k \<Rightarrow> 'v option" and update :: "'k \<Rightarrow> 'v \<Rightarrow> 's \<Rightarrow> 's" and del :: 'v
    and valid :: "'s \<Rightarrow> bool" and empty :: 's
  assumes valid_empty: "valid empty" and lookup_empty: "lookup empty k = None"
    and valid_update: "valid s \<Longrightarrow> valid (update k v s)"
    and lookup_update: "valid s \<Longrightarrow> lookup (update k v s) = (lookup s)(k := if v = del then None else Some v)"
    and extensional: "valid s \<Longrightarrow> valid s' \<Longrightarrow> lookup s = lookup s' \<Longrightarrow> s = s'"
begin

definition updates :: "('k \<times> 'v) list \<Rightarrow> 's \<Rightarrow> 's" where
  "updates kvs = fold (\<lambda>(k, v). update k v) kvs"

definition effect :: "('k \<times> 'v) list \<Rightarrow> ('k \<Rightarrow> 'v option) \<Rightarrow> 'k \<Rightarrow> 'v option" where
  "effect kvs = fold (\<lambda>(k, v) m. m(k := if v = del then None else Some v)) kvs"

lemma updates_correct:
  assumes "valid s"
  shows "valid (updates kvs s) \<and> lookup (updates kvs s) = effect kvs (lookup s)"
  using assms
  by (induction kvs arbitrary: s) (auto simp: updates_def effect_def valid_update lookup_update)

lemma history:
  assumes "valid s" "valid s'" "effect kvs (lookup s) = effect kvs' (lookup s')"
  shows "updates kvs s = updates kvs' s'"
  using updates_correct[OF assms(1)] updates_correct[OF assms(2)] assms(3) by (intro extensional) simp_all

lemma update_commute:
  assumes "valid s" "k \<noteq> k'"
  shows "update k v (update k' v' s) = update k' v' (update k v s)"
  by (rule extensional) (use assms in \<open>simp_all add: valid_update lookup_update fun_upd_twist\<close>)

end

section \<open>Trees as maps\<close>

definition tlookup :: "mtree \<Rightarrow> bytes \<Rightarrow> bytes option" where
  "tlookup t k = mget t (keybytesToHex k)"

definition tupdate :: "bytes \<Rightarrow> bytes \<Rightarrow> mtree \<Rightarrow> mtree" where
  "tupdate k v t =
     (if v = [] then (case mdelete t (keybytesToHex k) of None \<Rightarrow> t | Some t' \<Rightarrow> t')
      else minsert t (keybytesToHex k) (MValue v))"

text \<open>All keys in the tree are the nibbles of byte strings.\<close>

definition tvalid :: "mtree \<Rightarrow> bool" where
  "tvalid t \<longleftrightarrow> mtrie t \<and> (\<forall>k. vkey k \<longrightarrow> mget t k \<noteq> None \<longrightarrow> k \<in> range keybytesToHex)"

lemma split_bytes_inj: "split_bytes a = split_bytes b \<Longrightarrow> a = b"
proof (induction a arbitrary: b)
  case Nil
  then show ?case by (cases b) auto
next
  case (Cons x a)
  then obtain y b' where b: "b = y # b'" by (cases b) auto
  with Cons(2) have "x div 16 = y div 16" "x mod 16 = y mod 16" "split_bytes a = split_bytes b'" by simp_all
  then show ?case using Cons(1)[of b'] b nibble_byte by metis
qed

lemma keybytes_inj: "keybytesToHex a = keybytesToHex b \<longleftrightarrow> a = b"
  using split_bytes_inj by (auto simp: keybytesToHex_def)

lemma fits_key: "mtrie t \<Longrightarrow> fits t (keybytesToHex k)"
  by (simp add: fits_def)

lemma tupdate_correct:
  assumes "tvalid t"
  shows "tvalid (tupdate k v t) \<and> tlookup (tupdate k v t) = (tlookup t)(k := if v = [] then None else Some v)"
proof -
  let ?k = "keybytesToHex k"
  have m: "mtrie t" "fits t ?k" "?k \<noteq> []" using assms fits_key[of t k] vkey_not_Nil[OF vkey_keybytes[of k]]
    by (simp_all add: tvalid_def)
  have g: "mtrie (tupdate k v t) \<and> (\<forall>k'. mget (tupdate k v t) k' = (if k' = ?k then (if v = [] then None else Some v) else mget t k'))"
  proof (cases "v = []")
    case True
    then show ?thesis using mdelete_correct[OF m(2)] m
      by (auto simp: tupdate_def deleted_def split: option.splits)
  next
    case False
    then show ?thesis using minsert_mwf[OF m(2) False] minsert_mget[OF m(2) False] m(3)
      by (auto simp: tupdate_def mtrie_def)
  qed
  then have "k' \<in> range keybytesToHex" if "vkey k'" "mget (tupdate k v t) k' \<noteq> None" for k'
    using assms that by (cases "k' = ?k") (auto simp: tvalid_def)
  moreover have "tlookup (tupdate k v t) k' = ((tlookup t)(k := if v = [] then None else Some v)) k'" for k'
    using g by (simp add: tlookup_def keybytes_inj)
  ultimately show ?thesis using g unfolding tvalid_def by blast
qed

lemma tvalid_unique:
  assumes "tvalid t" "tvalid t'" "tlookup t = tlookup t'"
  shows "t = t'"
proof (rule mtrie_unique)
  have "mget t k = mget t' k" if "vkey k" for k
  proof (cases "k \<in> range keybytesToHex")
    case True
    then show ?thesis using assms(3) by (auto simp: tlookup_def fun_eq_iff)
  next
    case False
    then show ?thesis using assms(1,2) that by (metis tvalid_def)
  qed
  then show "same_contents t t'" by (simp add: same_contents_def)
qed (use assms in \<open>simp_all add: tvalid_def\<close>)

interpretation tree: canonical_map tlookup tupdate "[]" tvalid MNil
proof unfold_locales
  show "tvalid MNil" by (simp add: tvalid_def mtrie_def)
qed (use tupdate_correct tvalid_unique in \<open>auto simp: tlookup_def\<close>)

section \<open>Tries as maps\<close>

text \<open>The trie \<open>tr\<close> over the database \<open>db\<close> has the contents \<open>m\<close>. With \<open>full\<close>, all its nodes are there.\<close>

definition holds :: "(bytes \<Rightarrow> bytes) \<Rightarrow> bool \<Rightarrow> tdb \<Rightarrow> Trie \<Rightarrow> (bytes \<Rightarrow> bytes option) \<Rightarrow> bool" where
  "holds kc full db tr m \<longleftrightarrow> (\<exists>t. repr kc full db True (tr_root tr) t \<and> tvalid t \<and> m = tlookup t)"

lemma holdsE:
  assumes "holds kc full db tr m"
  obtains t where "repr kc full db True (tr_root tr) t" "tvalid t" "mtrie t" "m = tlookup t"
  using assms by (auto simp: holds_def tvalid_def)

lemma enough_key:
  assumes "4 * length key + 4 \<le> fuel"
  shows "enough fuel n (keybytesToHex key)"
  using assms by (simp add: enough_def keybytesToHex_def)

text \<open>C8: A lookup in a trie returns the value of the map it stands for. It never panics and terminates
  with fuel for four steps per byte of the key. If a node on the way is missing from the database, the
  result is the error that names it; this does not happen with \<open>full\<close>, when all nodes are there. In all cases the trie stands for the same map afterwards, also when
  the lookup has loaded nodes into it.\<close>

theorem trie_TryGet_correct:
  assumes "holds kc full db tr m" "4 * length key + 4 \<le> fuel"
  shows "\<exists>tr' r. trie_TryGet fuel db tr key = Some (tr', r) \<and> holds kc full db tr' m \<and>
    (case r of Inl err \<Rightarrow> missing full db (tr_cachegen tr) err | Inr v \<Rightarrow> v = m key)"
proof -
  from assms(1) obtain t where t: "repr kc full db True (tr_root tr) t" "tvalid t" "mtrie t" "m = tlookup t"
    by (rule holdsE)
  have "got kc full db True (tr_cachegen tr) t (drop 0 (keybytesToHex key))
      (tryGet fuel db (tr_cachegen tr) (tr_root tr) (keybytesToHex key) 0)"
    using t fits_key enough_key[OF assms(2)] by (intro tryGet_correct) simp_all
  then show ?thesis using t
    by (auto simp: got_def trie_TryGet_def tlookup_def holds_def split: option.splits sum.splits)
qed

lemma root_update:
  assumes "holds kc full db tr m" "4 * length key + 4 \<le> fuel"
  shows "\<exists>tr' e. trie_TryUpdate fuel db tr key value = Some (tr', e) \<and>
    (case e of Some err \<Rightarrow> missing full db (tr_cachegen tr) err \<and> tr' = tr
     | None \<Rightarrow> holds kc full db tr' (m(key := if value = [] then None else Some value)))"
proof -
  from assms(1) obtain t where t: "repr kc full db True (tr_root tr) t" "tvalid t" "mtrie t" "m = tlookup t"
    by (rule holdsE)
  let ?k = "keybytesToHex key" and ?g = "tr_cachegen tr"
  have e: "fits t ?k" "enough fuel (tr_root tr) ?k" using t fits_key enough_key[OF assms(2)] by simp_all
  have holds: "holds kc full db (tr\<lparr> tr_root := n \<rparr>) (m(key := if value = [] then None else Some value))"
    if "repr kc full db True n (tupdate key value t)" for n
    using that tupdate_correct[OF t(2), of key "value"] t(4) by (auto simp: holds_def)
  show ?thesis
  proof (cases "value = []")
    case True
    have "removed kc full db True ?g t (mdelete t ?k) (trie_delete fuel db ?g (tr_root tr) [] ?k)"
      using t e by (intro trie_delete_correct)
    then show ?thesis
      by (cases rule: removed_cases) (use True holds in \<open>auto simp: trie_TryUpdate_def tupdate_def\<close>)
  next
    case False
    have "changed kc full db True ?g t (minsert t ?k (MValue value)) (trie_insert fuel db ?g (tr_root tr) [] ?k (ValueNode value))"
      using t e by (intro trie_insert_correct)
    then show ?thesis
      by (cases rule: changed_cases) (use False holds in \<open>auto simp: trie_TryUpdate_def tupdate_def\<close>)
  qed
qed

text \<open>C9: An update of a trie has the effect of an update of the map it stands for, and an update with the
  empty value, or a deletion, has the effect of removing the key. Neither panics, with fuel for four steps per
  byte of the key. If a node that is needed
  is missing from the database, the error names it and the trie is unchanged.\<close>

theorem trie_TryUpdate_correct:
  assumes "holds kc full db tr m" "4 * length key + 4 \<le> fuel"
  shows "(\<exists>tr' e. trie_TryUpdate fuel db tr key value = Some (tr', e) \<and>
    (case e of Some err \<Rightarrow> missing full db (tr_cachegen tr) err \<and> tr' = tr
     | None \<Rightarrow> holds kc full db tr' (m(key := if value = [] then None else Some value)))) \<and>
    trie_TryDelete fuel db tr key = trie_TryUpdate fuel db tr key []"
  using root_update[OF assms] by (simp add: trie_TryDelete_def trie_TryUpdate_def)

section \<open>The root hash\<close>

text \<open>The tree of a map, and that its encodings are not too long to be written.\<close>

definition fits_encoding :: "(bytes \<Rightarrow> bytes) \<Rightarrow> (bytes \<Rightarrow> bytes option) \<Rightarrow> bool" where
  "fits_encoding kc m \<longleftrightarrow> (\<forall>t. tvalid t \<longrightarrow> m = tlookup t \<longrightarrow> enc_ok kc t)"

lemma hash_root:
  assumes "repr kc full d True (tr_root tr) t" "mtrie t" "enc_ok kc t" "\<And>b. length (kc b) = 32"
    and "\<forall>d. D = Some d \<longrightarrow> sound kc (msubs t) d \<and> full" "d = ambient d0 D"
  shows "\<exists>cn D'. hashRoot kc tr D None = Some (HashNode (Hash_Bytes (root_hash kc t)), cn, D') \<and>
    moved kc (msubs t) d0 D D' \<and> repr kc full (ambient d0 D') True cn t \<and>
    (D \<noteq> None \<longrightarrow> t \<noteq> MNil \<longrightarrow> held kc full (ambient d0 D') t)"
proof (cases "t = MNil")
  case True
  then have "tr_root tr = NilNode" using assms(1) by (auto elim: repr_MNilE)
  then show ?thesis using True assms(5) by (auto simp: hashRoot_def root_hash_def moved_def repr_nil)
next
  case False
  then have r: "ready kc full (msubs t) D t" using assms by (auto simp: ready_def mtrie_def)
  let ?h = "\<lparr> h_cachegen = tr_cachegen tr, h_cachelimit = tr_cachelimit tr, h_onleaf = None \<rparr>"
  have "hashed kc full (msubs t) d0 D True t (hasher_hash kc ?h (tr_root tr) D True)"
    by (rule hasher_hash_correct[OF r]) (use assms in auto)
  then obtain hn cn D' where h: "hasher_hash kc ?h (tr_root tr) D True = Some (hn, cn, D')" "moved kc (msubs t) d0 D D'"
      "simplifyNode hn = Some (HashNode (mhash kc t))" "repr kc full (ambient d0 D') True cn t"
      "D \<noteq> None \<longrightarrow> held kc full (ambient d0 D') t"
    by (auto simp: hashed_def target_def kept_def)
  have "hn = HashNode (mhash kc t)" using simplify_target_hash[OF h(3)] .
  moreover have "Hash_Bytes (root_hash kc t) = mhash kc t"
    using False assms(4) by (simp add: root_hash_def mhash_def Hash_Bytes_BytesToHash)
  moreover have "tr_root tr \<noteq> NilNode" using repr_nil_iff[OF assms(1)] False by simp
  ultimately show ?thesis using h by (auto simp: hashRoot_def)
qed

text \<open>C10: The root hash of a trie is determined by its contents. Two tries with the same contents have the
  same hash, whatever the order of the updates that built them, the parts of them that are loaded, the
  hashes cached in their nodes and the databases behind them. Hashing does not change the contents. This
  holds for every hash function with 32 bytes, if the encodings of the nodes are shorter than \<open>2 ^ 64\<close>
  bytes.\<close>

theorem trie_Hash_canonical:
  assumes "holds kc full db tr m" "holds kc full' db' tr' m" "fits_encoding kc m" "\<And>b. length (kc b) = 32"
  shows "\<exists>root u u'. trie_Hash kc tr = Some (root, u) \<and> trie_Hash kc tr' = Some (root, u') \<and>
    holds kc full db u m \<and> holds kc full' db' u' m"
proof -
  from assms(1) obtain t where t: "repr kc full db True (tr_root tr) t" "tvalid t" "mtrie t" "m = tlookup t"
    by (rule holdsE)
  from assms(2) obtain t' where t': "repr kc full' db' True (tr_root tr') t'" "tvalid t'" "mtrie t'" "m = tlookup t'"
    by (rule holdsE)
  have eq: "t' = t" using tree.extensional[OF t'(2) t(2)] t(4) t'(4) by simp
  have enc: "enc_ok kc t" using assms(3) t by (simp add: fits_encoding_def)
  obtain cn where c: "hashRoot kc tr None None = Some (HashNode (Hash_Bytes (root_hash kc t)), cn, None)"
      "repr kc full db True cn t"
    using hash_root[OF t(1,3) enc assms(4), of None db] by (auto simp: moved_def)
  obtain cn' where c': "hashRoot kc tr' None None = Some (HashNode (Hash_Bytes (root_hash kc t)), cn', None)"
      "repr kc full' db' True cn' t"
    using hash_root[OF t'(1,3)[unfolded eq] enc assms(4), of None db'] by (auto simp: moved_def)
  show ?thesis using c c' t by (auto simp: trie_Hash_def holds_def)
qed
section \<open>Committing\<close>

lemma trie_New_held:
  assumes "held kc full d t" "full" "inner t" "\<And>b. length (kc b) = 32"
    "root_hash kc t \<noteq> 0" "root_hash kc t \<noteq> emptyRoot"
  shows "\<exists>n. trie_New (root_hash kc t) d =
      Some (Inr \<lparr> tr_root = n, tr_originalRoot = root_hash kc t, tr_cachegen = 0, tr_cachelimit = 0 \<rparr>) \<and>
    repr kc full d True n t"
proof -
  have h: "Hash_Bytes (root_hash kc t) = mhash kc t"
    using assms(3,4) inner_not_Nil[OF assms(3)] by (simp add: root_hash_def mhash_def Hash_Bytes_BytesToHash)
  have "repr kc full d True (HashNode (mhash kc t)) t" using assms(1,3) by (intro repr_hash) auto
  then show ?thesis
    by (cases rule: resolveHash_cases[of kc full d True "mhash kc t" t 0 "[]"])
      (use assms(2,5,6) h in \<open>auto simp: trie_New_def missing_def\<close>)
qed

text \<open>What a commit relies on: the hash function does not confuse the nodes of the trie with each other, with
  nodes that are already in the database or with the empty trie.\<close>

definition no_collision :: "(bytes \<Rightarrow> bytes) \<Rightarrow> tdb \<Rightarrow> (bytes \<Rightarrow> bytes option) \<Rightarrow> bool" where
  "no_collision kc db m \<longleftrightarrow> (\<forall>t. tvalid t \<longrightarrow> m = tlookup t \<longrightarrow> clear kc (msubs t) db \<and>
     (t \<noteq> MNil \<longrightarrow> root_hash kc t \<noteq> 0 \<and> root_hash kc t \<noteq> emptyRoot))"

text \<open>C12: A commit succeeds, and opening the returned root hash in the new database gives a trie with the
  same contents; the committed trie itself has the same contents in the new database, although its nodes
  may have been replaced by their hashes. All other tries of the database keep their contents. The
  hypotheses are that no node of the trie is missing, that the encodings of the nodes are shorter than
  \<open>2 ^ 64\<close> bytes, that the hash function has 32 bytes and does not confuse the nodes with each other, with
  other nodes of the database or with the empty trie, and that the newest node of the database is in it.\<close>

theorem trie_Commit_New:
  assumes "holds kc True db tr m" "fits_encoding kc m" "no_collision kc db m" "flush_ok db"
    "\<And>b. length (kc b) = 32"
  shows "\<exists>root tr' db' tr2. trie_Commit kc tr db None = Some (root, tr', db') \<and>
    trie_New root db' = Some (Inr tr2) \<and> holds kc True db' tr2 m \<and> holds kc True db' tr' m \<and> flush_ok db' \<and>
    (\<forall>tr3 m3. holds kc True db tr3 m3 \<longrightarrow> holds kc True db' tr3 m3)"
proof -
  from assms(1) obtain t where t: "repr kc True db True (tr_root tr) t" "tvalid t" "mtrie t" "m = tlookup t"
    by (rule holdsE)
  have enc: "enc_ok kc t" using assms(2) t by (simp add: fits_encoding_def)
  have nc: "clear kc (msubs t) db" "t \<noteq> MNil \<longrightarrow> root_hash kc t \<noteq> 0 \<and> root_hash kc t \<noteq> emptyRoot"
    using assms(3) t unfolding no_collision_def by blast+
  obtain cn D' where c: "hashRoot kc tr (Some db) None = Some (HashNode (Hash_Bytes (root_hash kc t)), cn, D')"
      "moved kc (msubs t) db (Some db) D'" "repr kc True (ambient db D') True cn t"
      "t \<noteq> MNil \<longrightarrow> held kc True (ambient db D') t"
    using hash_root[OF t(1,3) enc assms(5), of "Some db" db] nc(1) assms(4) by (auto simp: sound_def)
  then obtain db' where db': "D' = Some db'" "grows db db'" "flush_ok db'" by (cases D') (auto simp: moved_def sound_def)
  have commit: "trie_Commit kc tr db None =
      Some (root_hash kc t, tr\<lparr> tr_root := cn, tr_cachegen := tr_cachegen tr + 1 \<rparr>, db')"
    using c(1) db'(1) by (simp add: trie_Commit_def)
  have "\<exists>n. trie_New (root_hash kc t) db' = Some (Inr n) \<and> repr kc True db' True (tr_root n) t"
  proof (cases "t = MNil")
    case True
    then show ?thesis by (auto simp: trie_New_def root_hash_def repr_nil)
  next
    case False
    then show ?thesis using trie_New_held[of kc True db' t] c(4) db'(1) nc(2) assms(5) inner_mwf[of t] t(3)
      by (auto simp: mtrie_def)
  qed
  then obtain tr2 where new: "trie_New (root_hash kc t) db' = Some (Inr tr2)" "repr kc True db' True (tr_root tr2) t"
    by blast
  have "holds kc True db' tr2 m" using new(2) t(2,4) unfolding holds_def by blast
  moreover have "holds kc True db' (tr\<lparr> tr_root := cn, tr_cachegen := tr_cachegen tr + 1 \<rparr>) m"
    unfolding holds_def by (rule exI[of _ t]) (use c(3) db'(1) t(2,4) in simp)
  moreover have "holds kc True db' tr3 m3" if "holds kc True db tr3 m3" for tr3 m3
    using that repr_mono[OF _ db'(2)] unfolding holds_def by blast
  ultimately show ?thesis using commit new(1) db'(3) by blast
qed

section \<open>An example\<close>

definition example_hash :: "bytes \<Rightarrow> bytes" where
  "example_hash b = Hash_Bytes 1"

definition example_tdb :: tdb where
  "example_tdb = NewDatabase (\<lambda>_. None)"

text \<open>The trie with the one entry \<open>[1] \<mapsto> [7]\<close>.\<close>

definition example_tree :: mtree where
  "example_tree = MShort [0, 1, 16] (MValue [7])"

definition example_trie :: Trie where
  "example_trie = \<lparr> tr_root = ShortNode [0, 1, 16] (ValueNode [7]) (newFlag 0), tr_originalRoot = 0,
     tr_cachegen = 0, tr_cachelimit = 0 \<rparr>"

definition example_map :: "bytes \<Rightarrow> bytes option" where
  "example_map = [[1] \<mapsto> [7]]"

lemma example_hash_length: "length (example_hash b) = 32"
  by (simp add: example_hash_def Hash_Bytes_def)

lemma example_key: "keybytesToHex [1] = [0, 1, 16]"
  by (simp add: keybytesToHex_def)

lemma example_tlookup: "tlookup example_tree = example_map"
proof
  fix k
  show "tlookup example_tree k = example_map k"
  proof (cases "k = [1]")
    case True
    then show ?thesis by (simp add: tlookup_def example_tree_def example_key example_map_def)
  next
    case False
    then have "keybytesToHex k \<noteq> [0, 1, 16]" using keybytes_inj[of k "[1]"] example_key by simp
    then show ?thesis using False
      by (auto simp: tlookup_def example_tree_def example_map_def simp del: strip.simps split: option.splits)
  qed
qed

lemma example_tvalid: "tvalid example_tree"
proof -
  have "tupdate [1] [7] MNil = example_tree" by (simp add: tupdate_def example_key example_tree_def)
  then show ?thesis using tree.valid_update[OF tree.valid_empty, of "[1]" "[7]"] by simp
qed

lemma example_holds: "holds kc full db example_trie example_map"
  unfolding holds_def example_trie_def
  by (rule exI[of _ example_tree])
    (use example_tvalid example_tlookup in \<open>auto simp: example_tree_def intro!: repr.intros\<close>)

theorem trie_TryGet_correct_witness:
  "\<exists>tr' r. trie_TryGet 8 example_tdb example_trie [1] = Some (tr', r) \<and> holds example_hash True example_tdb tr' example_map \<and>
    (case r of Inl err \<Rightarrow> missing True example_tdb (tr_cachegen example_trie) err | Inr v \<Rightarrow> v = example_map [1])"
  by (rule trie_TryGet_correct[OF example_holds]) simp

theorem trie_TryUpdate_correct_witness:
  "(\<exists>tr' e. trie_TryUpdate 8 example_tdb example_trie [2] [9] = Some (tr', e) \<and>
    (case e of Some err \<Rightarrow> missing True example_tdb (tr_cachegen example_trie) err \<and> tr' = example_trie
     | None \<Rightarrow> holds example_hash True example_tdb tr' (example_map([2] := if [9] = ([] :: bytes) then None else Some [9])))) \<and>
    trie_TryDelete 8 example_tdb example_trie [2] = trie_TryUpdate 8 example_tdb example_trie [2] []"
  by (rule trie_TryUpdate_correct[OF example_holds]) simp

lemma example_fits: "fits_encoding example_hash example_map"
proof -
  have "enc_ok example_hash example_tree"
    by (simp add: example_tree_def menc_def node_rlp_def compact_def hexToCompact_def hasTerm_def cut_def
        rlp_list_def rlp_head_def rlp_string_def)
  then show ?thesis unfolding fits_encoding_def
    using tree.extensional[OF _ example_tvalid] example_tlookup by metis
qed

theorem trie_Hash_canonical_witness:
  "\<exists>root u u'. trie_Hash example_hash example_trie = Some (root, u) \<and>
    trie_Hash example_hash (example_trie\<lparr> tr_cachegen := 5 \<rparr>) = Some (root, u') \<and>
    holds example_hash True example_tdb u example_map \<and> holds example_hash True example_tdb u' example_map"
proof (rule trie_Hash_canonical)
  show "holds example_hash True example_tdb (example_trie\<lparr> tr_cachegen := 5 \<rparr>) example_map"
    using example_holds by (simp add: holds_def)
qed (use example_holds example_fits example_hash_length in auto)

lemma example_no_collision: "no_collision example_hash example_tdb example_map"
proof -
  have h: "BytesToHash (mhash example_hash t) = 1" for t
    by (simp add: mhash_def example_hash_def)
  have "tdb_node example_tdb 1 gen = Some NilNode" for gen
    by (simp add: tdb_node_def example_tdb_def NewDatabase_def)
  then have "clear example_hash (msubs example_tree) example_tdb"
    unfolding clear_def h by (auto simp: example_tree_def)
  moreover have "root_hash example_hash example_tree \<noteq> 0 \<and> root_hash example_hash example_tree \<noteq> emptyRoot"
    using h by (simp add: root_hash_def example_tree_def emptyRoot_def)
  ultimately show ?thesis unfolding no_collision_def
    using tree.extensional[OF _ example_tvalid] example_tlookup by metis
qed

theorem trie_Commit_New_witness:
  "\<exists>root tr' db' tr2. trie_Commit example_hash example_trie example_tdb None = Some (root, tr', db') \<and>
    trie_New root db' = Some (Inr tr2) \<and> holds example_hash True db' tr2 example_map \<and>
    holds example_hash True db' tr' example_map \<and> flush_ok db' \<and>
    (\<forall>tr3 m3. holds example_hash True example_tdb tr3 m3 \<longrightarrow> holds example_hash True db' tr3 m3)"
  by (rule trie_Commit_New)
    (use example_holds example_fits example_no_collision example_hash_length in
      \<open>auto simp: flush_ok_def example_tdb_def NewDatabase_def\<close>)

end
