(* ===== verification/Trie_Decode.thy ===== *)
theory Trie_Decode
  imports Trie_Map
begin

text \<open>Reading stored nodes (\<open>decodeNode\<close> of \<open>trie/node.go\<close>): the parser accepts what the hasher writes and
  gives back the node. It follows that the root hash binds the contents of a trie.\<close>

section \<open>Sequences of raw values\<close>

definition item :: "bytes \<Rightarrow> bool" where
  "item e \<longleftrightarrow> (\<exists>k c. e = raw_enc k c \<and> kind_ok k c)"

lemma item_string: "item (rlp_string s)"
proof (cases "length s = 1 \<and> hd s < 0x80")
  case True
  then show ?thesis unfolding item_def by (intro exI[of _ KByte] exI[of _ s]) simp
next
  case False
  then show ?thesis unfolding item_def by (intro exI[of _ KString] exI[of _ s]) simp
qed

lemma item_list: "item (rlp_list c)"
  unfolding item_def by (intro exI[of _ KList] exI[of _ c]) simp

lemma SplitString_item:
  assumes "length (rlp_string s @ rest) < 2 ^ 64"
  shows "SplitString (rlp_string s @ rest) = Some (Inr (s, rest))"
proof (cases "length s = 1 \<and> hd s < 0x80")
  case True
  then show ?thesis using Split_complete[of KByte s rest] assms by (simp add: SplitString_def)
next
  case False
  then show ?thesis using Split_complete[of KString s rest] assms by (simp add: SplitString_def)
qed

lemma Split_string:
  assumes "length (rlp_string s @ rest) < 2 ^ 64" "length s \<noteq> 1"
  shows "Split (rlp_string s @ rest) = Some (Inr (KString, s, rest))"
  using Split_complete[of KString s rest] assms by simp

lemma Split_list:
  assumes "length (rlp_list c @ rest) < 2 ^ 64"
  shows "Split (rlp_list c @ rest) = Some (Inr (KList, c, rest))"
  using Split_complete[of KList c rest] assms by simp

lemma CountValues_item:
  assumes "item e" "length (e @ rest) < 2 ^ 64"
  shows "CountValues_loop (Suc fuel) i (e @ rest) = CountValues_loop fuel (Suc i) rest"
proof -
  obtain k c where e: "e = raw_enc k c" "kind_ok k c" using assms(1) by (auto simp: item_def)
  let ?h = "raw_head k (length c)"
  have eq: "e @ rest = ?h @ c @ rest" using e by (simp add: raw_enc_head)
  obtain ts where ts: "readKind_raw (e @ rest) = Inr (k, ts, of_nat (length c))" "unat ts = length ?h"
    using readKind_raw_complete[OF eq e(2)] assms(2) by blast
  have len: "length ?h + length c + length rest < 2 ^ 64" using assms(2) eq by simp
  then have "unat (ts + of_nat (length c)) = length ?h + length c"
    using ts(2) by (simp add: unat_add_no_wrap unat_of_nat_64)
  then have "go_slice (e @ rest) (unat (ts + of_nat (length c))) (length (e @ rest)) = Some rest"
    unfolding eq by simp
  moreover have "length (e @ rest) \<noteq> 0" using raw_enc_nonempty[OF e(2)] e(1) by simp
  ultimately show ?thesis using ts(1) by (auto simp del: length_append)
qed

lemma CountValues_items:
  assumes "\<And>e. e \<in> set es \<Longrightarrow> item e" "length (concat es) < 2 ^ 64"
  shows "CountValues (concat es) = Some (Inr (length es))"
proof -
  have "CountValues_loop fuel i (concat es) = Some (Inr (i + length es))" if "length es < fuel" for fuel i
    using assms that
  proof (induction es arbitrary: fuel i)
    case Nil
    then show ?case by (cases fuel) auto
  next
    case (Cons e es)
    then obtain f where f: "fuel = Suc f" "length es < f" by (cases fuel) auto
    then show ?case using Cons CountValues_item[of e "concat es" f i] by simp
  qed
  moreover have "length es \<le> length (concat es)"
    using assms(1)
  proof (induction es)
    case (Cons e es)
    have "e \<noteq> []" using Cons(2)[of e] raw_enc_nonempty by (auto simp: item_def)
    with Cons show ?case by (cases e) auto
  qed simp
  ultimately show ?thesis by (simp add: CountValues_def del: CountValues_loop.simps)
qed

section \<open>The encoding of a node\<close>

text \<open>How a child appears in the encoding of its parent.\<close>

definition refenc :: "(bytes \<Rightarrow> bytes) \<Rightarrow> mtree \<Rightarrow> bytes" where
  "refenc kc t = (if t = MNil then rlp_string [] else node_rlp (cref kc t))"

lemma node_rlp_bytes [simp]: "node_rlp (ValueNode v) = rlp_string v" "node_rlp (HashNode v) = rlp_string v"
  by (simp_all add: node_rlp_def)

lemma refenc_simps [simp]:
  "refenc kc MNil = rlp_string []" "refenc kc (MValue v) = rlp_string v"
  by (simp_all add: refenc_def cut_def)

lemma refenc_inner: "inner t \<Longrightarrow> refenc kc t = (if big kc t then rlp_string (mhash kc t) else menc kc t)"
  by (auto simp: refenc_def cref_eq menc_def)

lemma menc_short: "t \<noteq> MNil \<Longrightarrow> menc kc (MShort k t) = rlp_list (rlp_string (compact k) @ refenc kc t)"
  by (simp add: menc_def refenc_def) (simp add: node_rlp_def[of "RawShortNode _ _"] rlp_node_goval)

lemma rlps_map:
  assumes "\<And>v. v \<in> set vs \<Longrightarrow> rlp (f v) = Inr (g v)"
  shows "rlps (map f vs) = Inr (concat (map g vs))"
  using assms by (induction vs) auto

lemma menc_full: "menc kc (MFull ts) = rlp_list (concat (map (refenc kc) ts))"
proof -
  have "rlps (map ((\<lambda>c. if c = NilNode then BytesVal [] else node_goval c) \<circ> cref kc) ts) =
      Inr (concat (map (refenc kc) ts))"
    by (rule rlps_map) (auto simp: refenc_def rlp_node_goval)
  then show ?thesis by (simp add: menc_def node_rlp_def)
qed

lemma menc_is_list: "mwf t \<Longrightarrow> \<exists>c. menc kc t = rlp_list c"
proof (cases t)
  case (MShort k u)
  assume "mwf t"
  then have "u \<noteq> MNil" using subtree_short MShort by blast
  then show ?thesis using menc_short MShort by blast
next
  case (MFull ts)
  then show ?thesis using menc_full by blast
qed simp_all

lemma refenc_item: "subtree_ok t \<Longrightarrow> item (refenc kc t)"
  using item_string item_string[of "[]"] item_list menc_is_list[of t kc] refenc_inner[of t kc] inner_mwf[of t]
  by (auto simp: subtree_ok_def)

section \<open>Decoding\<close>

lemma rlp_list_inj:
  assumes "rlp_list c = rlp_list d" "length (rlp_list c) < 2 ^ 64"
  shows "c = d"
  using Split_list[of c "[]"] Split_list[of d "[]"] assms by simp

lemma length_rlp_list: "length c < length (rlp_list c)" "length (rlp_list c) < 2 ^ 64 \<Longrightarrow> length c < 2 ^ 64"
  by (auto simp: rlp_list_def rlp_head_def)

lemma decodeRef_nil:
  assumes "length (rlp_string [] @ rest) < 2 ^ 64"
  shows "decodeRef dec (rlp_string [] @ rest) = Some (Inr (NilNode, rest))"
  using Split_string[OF assms] by (simp add: decodeRef_def)

lemma decodeRef_hash:
  assumes "length (rlp_string b @ rest) < 2 ^ 64" "length b = 32"
  shows "decodeRef dec (rlp_string b @ rest) = Some (Inr (HashNode b, rest))"
  using Split_string[OF assms(1)] assms(2) by (auto simp: decodeRef_def)

lemma decodeRef_embedded:
  assumes "length (rlp_list c @ rest) < 2 ^ 64" "length (rlp_list c) < 32" "dec (rlp_list c @ rest) = Some (Inr n)"
  shows "decodeRef dec (rlp_list c @ rest) = Some (Inr (n, rest))"
  using Split_list[OF assms(1)] assms(2,3) by (simp add: decodeRef_def hashLen_def)

text \<open>A child, with what the recursive call does on an embedded child.\<close>

lemma decodeRef_refenc:
  assumes "t = MNil \<or> mwf t" "length (refenc kc t @ rest) < 2 ^ 64" "\<And>b. length (kc b) = 32"
    and dec: "\<And>rest. mwf t \<Longrightarrow> \<not> big kc t \<Longrightarrow> length (menc kc t @ rest) < 2 ^ 64 \<Longrightarrow>
      dec (menc kc t @ rest) = Some (Inr (lnode kc gen None t))"
  shows "decodeRef dec (refenc kc t @ rest) = Some (Inr (lref kc gen t, rest))"
proof (cases "t = MNil")
  case True
  then show ?thesis using assms(2) decodeRef_nil by (simp add: big_def)
next
  case False
  then have w: "mwf t" using assms(1) by blast
  note r = refenc_inner[OF inner_mwf[OF w], of kc]
  show ?thesis
  proof (cases "big kc t")
    case True
    then show ?thesis using r decodeRef_hash assms(2,3) by (simp add: mhash_def)
  next
    case small: False
    obtain c where c: "menc kc t = rlp_list c" using menc_is_list[OF w] by blast
    have "length (menc kc t) < 32" using small inner_mwf[OF w] by (simp add: big_def)
    then show ?thesis using small r c decodeRef_embedded[of c rest dec] assms(2) dec[OF w small, of rest] by simp
  qed
qed

lemma decodeChildren_refenc:
  assumes "\<And>t. t \<in> set ts \<Longrightarrow> t = MNil \<or> mwf t" "length (concat (map (refenc kc) ts) @ rest) < 2 ^ 64"
    "\<And>b. length (kc b) = 32"
    and dec: "\<And>t rest. t \<in> set ts \<Longrightarrow> mwf t \<Longrightarrow> \<not> big kc t \<Longrightarrow> length (menc kc t @ rest) < 2 ^ 64 \<Longrightarrow>
      dec (menc kc t @ rest) = Some (Inr (lnode kc gen None t))"
  shows "decodeChildren dec (length ts) (concat (map (refenc kc) ts) @ rest) = Some (Inr (map (lref kc gen) ts, rest))"
  using assms
proof (induction ts)
  case (Cons t ts)
  then show ?case using decodeRef_refenc[of t kc "concat (map (refenc kc) ts) @ rest" dec gen] by simp
qed simp

lemma decodeShort_menc:
  assumes "mwf (MShort k t)" "length (rlp_string (compact k) @ refenc kc t) < 2 ^ 64" "\<And>b. length (kc b) = 32"
    and dec: "\<And>rest. mwf t \<Longrightarrow> \<not> big kc t \<Longrightarrow> length (menc kc t @ rest) < 2 ^ 64 \<Longrightarrow>
      dec (menc kc t @ rest) = Some (Inr (lnode kc gen None t))"
  shows "decodeShort dec h (rlp_string (compact k) @ refenc kc t) gen = Some (Inr (lnode kc gen h (MShort k t)))"
proof -
  have s: "SplitString (rlp_string (compact k) @ refenc kc t) = Some (Inr (compact k, refenc kc t))"
    using SplitString_item[OF assms(2)] .
  note ck = compact_inverse(2)[OF mwf_hex_key[OF assms(1)]]
  from assms(1) show ?thesis
  proof (cases rule: mwf_short_cases)
    case (1 v)
    then have "SplitString (refenc kc t) = Some (Inr (v, []))"
      using SplitString_item[of v "[]"] assms(2) by simp
    then show ?thesis using s ck 1 vkey_hasTerm(1)[of k] by (simp add: decodeShort_def big_def)
  next
    case (2 ts)
    then have "decodeRef dec (refenc kc t) = Some (Inr (lref kc gen t, []))"
      using decodeRef_refenc[of t kc "[]" dec gen] assms(2,3) dec by simp
    then show ?thesis using s ck 2 nibbles_no_term[of k] by (simp add: decodeShort_def)
  qed
qed

lemma decodeFull_menc:
  assumes "mwf (MFull ts)" "length (concat (map (refenc kc) ts)) < 2 ^ 64" "\<And>b. length (kc b) = 32"
    and dec: "\<And>t rest. t \<in> set ts \<Longrightarrow> mwf t \<Longrightarrow> \<not> big kc t \<Longrightarrow> length (menc kc t @ rest) < 2 ^ 64 \<Longrightarrow>
      dec (menc kc t @ rest) = Some (Inr (lnode kc gen None t))"
  shows "decodeFull dec h (concat (map (refenc kc) ts)) gen = Some (Inr (lnode kc gen h (MFull ts)))"
proof -
  define us where "us = take 16 ts"
  have l: "length ts = 17" using mwf_full_length[OF assms(1)] .
  have ts: "ts = us @ [ts ! 16]" using take_Suc_conv_app_nth[of 16 ts] l by (simp add: us_def)
  have us: "length us = 16" "set us \<subseteq> set ts" using l by (auto simp: us_def dest: in_set_takeD)
  have c: "concat (map (refenc kc) ts) = concat (map (refenc kc) us) @ refenc kc (ts ! 16)"
    by (subst ts) simp
  have "t = MNil \<or> mwf t" if "t \<in> set us" for t using full_first[OF assms(1)] that by (simp add: us_def)
  moreover have "dec (menc kc t @ rest) = Some (Inr (lnode kc gen None t))"
    if "t \<in> set us" "mwf t" "\<not> big kc t" "length (menc kc t @ rest) < 2 ^ 64" for t rest
    using dec that us(2) by blast
  ultimately have "decodeChildren dec (length us) (concat (map (refenc kc) us) @ refenc kc (ts ! 16)) =
      Some (Inr (map (lref kc gen) us, refenc kc (ts ! 16)))"
    using assms(2,3) c by (intro decodeChildren_refenc) auto
  then have "decodeChildren dec 16 (concat (map (refenc kc) us) @ refenc kc (ts ! 16)) =
      Some (Inr (map (lref kc gen) us, refenc kc (ts ! 16)))"
    by (simp only: us(1))
  moreover have "child_ok 16 (ts ! 16)" using assms(1) by (simp add: mwf_full)
  then have "\<exists>v. refenc kc (ts ! 16) = rlp_string v \<and> lref kc gen (ts ! 16) = (if v = [] then NilNode else ValueNode v)"
  proof (cases "ts ! 16")
    case MNil
    then show ?thesis by (intro exI[of _ "[]"]) (simp add: big_def)
  next
    case (MValue v)
    then show ?thesis using \<open>child_ok 16 (ts ! 16)\<close> by (intro exI[of _ v]) (auto simp: big_def child_ok_def)
  qed (auto simp: child_ok_def)
  then obtain v where v: "refenc kc (ts ! 16) = rlp_string v"
      "lref kc gen (ts ! 16) = (if v = [] then NilNode else ValueNode v)" by blast
  moreover have "SplitString (rlp_string v) = Some (Inr (v, []))" using SplitString_item[of v "[]"] assms(2) c v by simp
  moreover have "lnode kc gen h (MFull ts) = FullNode (map (lref kc gen) us @ [lref kc gen (ts ! 16)])
      \<lparr> nf_hash = h, nf_gen = gen, nf_dirty = False \<rparr>" by (subst ts) simp
  ultimately show ?thesis unfolding c by (simp add: decodeFull_def)
qed

lemma decodeNode_menc:
  assumes "mwf t" "length (menc kc t @ rest) < 2 ^ 64" "length (menc kc t) \<le> fuel" "\<And>b. length (kc b) = 32"
  shows "decodeNode_rec fuel h (menc kc t @ rest) gen = Some (Inr (lnode kc gen h t))"
  using assms(1-3)
proof (induction fuel arbitrary: t h rest)
  case 0
  then obtain c where "menc kc t = rlp_list c" using menc_is_list by blast
  with 0 show ?case by (simp add: rlp_list_def rlp_head_def split: if_splits)
next
  case (Suc fuel)
  obtain c where c: "menc kc t = rlp_list c" using menc_is_list[OF Suc(2)] by blast
  have "SplitList (menc kc t @ rest) = Some (Inr (c, rest))"
    using Split_list[of c rest] Suc(3) c by (simp add: SplitList_def)
  moreover have "menc kc t \<noteq> []" using length_rlp_list(1)[of c] c by auto
  ultimately have step: "decodeNode_rec (Suc fuel) h (menc kc t @ rest) gen =
      do { cnt \<leftarrow> CountValues c;
           let n = (case cnt of Inl _ \<Rightarrow> 0 | Inr n \<Rightarrow> n);
           let dec = (\<lambda>b. decodeNode_rec fuel None b gen);
           if n = 2 then do { n \<leftarrow> decodeShort dec h c gen; Some (map_sum (\<lambda>e. wrapError e ''short'') id n) }
           else if n = 17 then do { n \<leftarrow> decodeFull dec h c gen; Some (map_sum (\<lambda>e. wrapError e ''full'') id n) }
           else Some (Inl (DecCount n)) }" by simp
  have lc: "length c < 2 ^ 64" "length c \<le> fuel" using length_rlp_list[of c] Suc(3,4) c by auto
  show ?case
  proof (cases t)
    case (MShort k u)
    then have w: "mwf (MShort k u)" "subtree_ok u" "u \<noteq> MNil" using Suc(2) subtree_short by blast+
    have cc: "c = rlp_string (compact k) @ refenc kc u" 
      by (rule rlp_list_inj) (use menc_short[OF w(3), of kc k] c MShort Suc(3) in simp_all)
    have "CountValues (concat [rlp_string (compact k), refenc kc u]) =
        Some (Inr (length [rlp_string (compact k), refenc kc u]))"
      by (rule CountValues_items) (use item_string refenc_item[OF w(2)] lc(1) cc in auto)
    then have "CountValues c = Some (Inr 2)" by (simp add: cc numeral_2_eq_2)
    moreover have "decodeShort (\<lambda>b. decodeNode_rec fuel None b gen) h c gen = Some (Inr (lnode kc gen h t))"
      unfolding cc MShort
    proof (rule decodeShort_menc[OF w(1) _ assms(4)])
      show "decodeNode_rec fuel None (menc kc u @ rest) gen = Some (Inr (lnode kc gen None u))"
        if "mwf u" "\<not> big kc u" "length (menc kc u @ rest) < 2 ^ 64" for rest
        using Suc(1)[OF that(1,3), of None] that lc(2) cc refenc_inner[OF inner_mwf[OF that(1)], of kc] by simp
    qed (use lc(1) cc in simp)
    ultimately show ?thesis using step by simp
  next
    case (MFull ts)
    then have w: "mwf (MFull ts)" using Suc(2) by simp
    have cc: "c = concat (map (refenc kc) ts)" 
      by (rule rlp_list_inj) (use menc_full[of kc ts] c MFull Suc(3) in simp_all)
    have "CountValues (concat (map (refenc kc) ts)) = Some (Inr (length (map (refenc kc) ts)))"
      by (rule CountValues_items) (use refenc_item subtree_full[OF w] lc(1) cc in auto)
    then have "CountValues c = Some (Inr 17)" by (simp add: cc mwf_full_length[OF w])
    moreover have "decodeFull (\<lambda>b. decodeNode_rec fuel None b gen) h c gen = Some (Inr (lnode kc gen h t))"
      unfolding cc MFull
    proof (rule decodeFull_menc[OF w _ assms(4)])
      show "decodeNode_rec fuel None (menc kc u @ rest) gen = Some (Inr (lnode kc gen None u))"
        if "u \<in> set ts" "mwf u" "\<not> big kc u" "length (menc kc u @ rest) < 2 ^ 64" for u rest
      proof -
        have "length (refenc kc u) \<le> length c" using that(1) cc by (auto dest!: split_list)
        then show ?thesis
          using Suc(1)[OF that(2,4), of None] that lc(2) refenc_inner[OF inner_mwf[OF that(2)], of kc] by simp
      qed
    qed (use lc(1) cc in simp)
    ultimately show ?thesis using step by simp
  qed (use Suc in simp_all)
qed

section \<open>Reading back a stored node\<close>

lemma mustDecodeNode_menc:
  assumes "mwf t" "length (menc kc t) < 2 ^ 64" "\<And>b. length (kc b) = 32"
  shows "mustDecodeNode h (menc kc t) gen = Some (lnode kc gen h t)"
  using decodeNode_menc[of t kc "[]"] assms by (simp add: mustDecodeNode_def decodeNode_def del: decodeNode_rec.simps)

text \<open>C28: Decoding the stored encoding of a node of a trie gives the node back: its key in nibbles, its
  embedded children decoded, its other children as hashes, its flags clean and with the hash it was
  read under. The encoding is shorter than \<open>2 ^ 64\<close> bytes and hashes have 32 bytes.\<close>

theorem decodeNode_encoded:
  assumes "mtrie t" "t \<noteq> MNil" "length (menc kc t) < 2 ^ 64" "\<And>b. length (kc b) = 32"
  shows "decodeNode h (menc kc t) gen = Some (Inr (lnode kc gen h t))"
  using decodeNode_menc[of t kc "[]"] assms by (simp add: decodeNode_def mtrie_def del: decodeNode_rec.simps)

section \<open>Tries on disk\<close>

text \<open>The encodings of the nodes of \<open>t\<close> that are stored under their hashes: of all large nodes and of the
  root.\<close>

definition on_disk :: "(bytes \<Rightarrow> bytes) \<Rightarrow> (bytes \<Rightarrow> bytes option) \<Rightarrow> bool \<Rightarrow> mtree \<Rightarrow> bool" where
  "on_disk kc disk rt t \<longleftrightarrow>
     (\<forall>u \<in> msubs t. big kc u \<or> rt \<and> u = t \<longrightarrow> disk (mhash kc u) = Some (menc kc u))"

lemma on_disk_short: "on_disk kc disk rt (MShort k t) \<Longrightarrow> on_disk kc disk (big kc t) t"
  by (auto simp: on_disk_def)

lemma on_disk_full: "on_disk kc disk rt (MFull ts) \<Longrightarrow> t \<in> set ts \<Longrightarrow> on_disk kc disk (big kc t) t"
  by (auto simp: on_disk_def)

text \<open>None of these nodes is cached.\<close>

definition uncached :: "(bytes \<Rightarrow> bytes) \<Rightarrow> tdb \<Rightarrow> mtree \<Rightarrow> bool" where
  "uncached kc d t \<longleftrightarrow> (\<forall>u \<in> msubs t. inner u \<longrightarrow> tdb_nodes d (BytesToHash (mhash kc u)) = None)"

lemma uncached_short: "uncached kc d (MShort k t) \<Longrightarrow> uncached kc d t"
  by (auto simp: uncached_def)

lemma uncached_full: "uncached kc d (MFull ts) \<Longrightarrow> t \<in> set ts \<Longrightarrow> uncached kc d t"
  by (auto simp: uncached_def)

lemma present_disk:
  assumes "mwf t" "enc_ok kc t" "\<And>b. length (kc b) = 32" "on_disk kc (tdb_diskdb d) True t" "uncached kc d t" P
  shows "present kc True d t P"
proof -
  have "tdb_diskdb d (mhash kc t) = Some (menc kc t)" using assms(4) msubs_self[of t] by (auto simp: on_disk_def)
  moreover have "tdb_nodes d (BytesToHash (mhash kc t)) = None"
    using assms(5) msubs_self[of t] inner_mwf[OF assms(1)] by (auto simp: uncached_def)
  moreover have "length (menc kc t) < 2 ^ 64" by (rule enc_ok_menc[OF assms(2) inner_mwf[OF assms(1)]])
  ultimately show ?thesis
    using mustDecodeNode_menc[OF assms(1) _ assms(3)] assms(3,6)
    by (simp add: present_def tdb_node_def Hash_Bytes_BytesToHash mhash_def)
qed

lemma avail_disk:
  assumes "subtree_ok t" "enc_ok kc t" "\<And>b. length (kc b) = 32" "on_disk kc (tdb_diskdb d) rt t" "uncached kc d t"
  shows "avail kc True d t"
  using assms
proof (induction t arbitrary: rt)
  case (MShort k t)
  then have w: "mwf (MShort k t)" by (simp add: subtree_ok_def)
  note s = on_disk_short[OF MShort(5)] uncached_short[OF MShort(6)] conjunct1[OF subtree_short[OF w]]
  have a: "avail kc True d t" using MShort(1)[OF s(3) _ MShort(4) s(1,2)] MShort(3) by simp
  moreover have "held kc True d t" if "big kc t"
    using present_disk[of t kc d, OF _ _ MShort(4) _ s(2) a] MShort(3) s that by (auto simp: subtree_ok_def big_def)
  ultimately show ?case by simp
next
  case (MFull ts)
  then have w: "mwf (MFull ts)" by (simp add: subtree_ok_def)
  have "avail kc True d t \<and> (big kc t \<longrightarrow> held kc True d t)" if "t \<in> set ts" for t
  proof -
    note s = on_disk_full[OF MFull(5) that] uncached_full[OF MFull(6) that] subtree_full[OF w that]
    have a: "avail kc True d t" using MFull(1)[OF that s(3) _ MFull(4) s(1,2)] MFull(3) that by simp
    moreover have "held kc True d t" if "big kc t"
      using present_disk[of t kc d, OF _ _ MFull(4) _ s(2) a] MFull(3) s that \<open>t \<in> set ts\<close>
      by (auto simp: subtree_ok_def big_def)
    ultimately show ?thesis by blast
  qed
  then show ?case unfolding avail.simps by (intro ballI) metis
qed simp_all

lemma held_disk:
  assumes "mwf t" "enc_ok kc t" "\<And>b. length (kc b) = 32" "on_disk kc (tdb_diskdb d) True t" "uncached kc d t"
  shows "held kc True d t"
  using assms avail_disk[OF _ assms(2-5)] by (intro present_disk) (auto simp: subtree_ok_def)

text \<open>The disk has all nodes of a trie with the contents \<open>m\<close> and the root hash \<open>root\<close>. The zero hash is
  the one the database uses for its own purposes.\<close>

definition persisted :: "(bytes \<Rightarrow> bytes) \<Rightarrow> (bytes \<Rightarrow> bytes option) \<Rightarrow> hash \<Rightarrow> (bytes \<Rightarrow> bytes option) \<Rightarrow> bool" where
  "persisted kc disk root m \<longleftrightarrow>
     (\<exists>t. tvalid t \<and> m = tlookup t \<and> root = root_hash kc t \<and>
        (t \<noteq> MNil \<longrightarrow> root \<noteq> emptyRoot \<and> enc_ok kc t \<and> on_disk kc disk True t \<and>
           (\<forall>u \<in> msubs t. inner u \<longrightarrow> BytesToHash (mhash kc u) \<noteq> 0)))"

lemma reopen:
  assumes "persisted kc disk root m" "\<And>b. length (kc b) = 32"
  shows "\<exists>tr. trie_New root (NewDatabase disk) = Some (Inr tr) \<and> holds kc True (NewDatabase disk) tr m"
proof -
  from assms(1) obtain t where t: "tvalid t" "m = tlookup t" "root = root_hash kc t"
    and n: "t \<noteq> MNil \<longrightarrow> root \<noteq> emptyRoot \<and> enc_ok kc t \<and> on_disk kc disk True t \<and>
           (\<forall>u \<in> msubs t. inner u \<longrightarrow> BytesToHash (mhash kc u) \<noteq> 0)"
    unfolding persisted_def by blast
  have "\<exists>tr. trie_New root (NewDatabase disk) = Some (Inr tr) \<and> repr kc True (NewDatabase disk) True (tr_root tr) t"
  proof (cases "t = MNil")
    case True
    then show ?thesis using t(3) by (auto simp: trie_New_def root_hash_def repr_nil)
  next
    case False
    then have w: "mwf t" "inner t" using t(1) inner_mwf[of t] by (auto simp: tvalid_def mtrie_def)
    have nz: "root_hash kc t \<noteq> 0" using n False w(2) msubs_self[of t] by (auto simp: root_hash_def)
    have "held kc True (NewDatabase disk) t"
      by (rule held_disk[OF w(1) _ assms(2)]) (use n False in \<open>auto simp: NewDatabase_def uncached_def\<close>)
    then show ?thesis using trie_New_held[of kc True "NewDatabase disk" t, OF _ _ w(2) assms(2) nz] n False t(3) by auto
  qed
  then show ?thesis using t unfolding holds_def by blast
qed

text \<open>C27: A trie can be opened in a new process from its root hash and a disk that has the encodings of
  its nodes under their hashes: \<open>New\<close> succeeds, and the trie it returns has the contents that were stored,
  with every node there. No node has the hash zero, which the database uses for itself, and the root hash is
  not that of the empty trie, unless the trie is empty.\<close>

theorem trie_New_persisted:
  assumes "persisted kc disk root m" "\<And>b. length (kc b) = 32"
  shows "\<exists>tr. trie_New root (NewDatabase disk) = Some (Inr tr) \<and> holds kc True (NewDatabase disk) tr m"
  by (rule reopen[OF assms])

section \<open>The root hash determines the contents\<close>

text \<open>The hash function tells the encodings of the nodes of two trees apart.\<close>

definition tells_apart :: "(bytes \<Rightarrow> bytes) \<Rightarrow> mtree \<Rightarrow> mtree \<Rightarrow> bool" where
  "tells_apart kc t t' \<longleftrightarrow>
     (\<forall>u \<in> msubs t. \<forall>u' \<in> msubs t'. inner u \<longrightarrow> inner u' \<longrightarrow> mhash kc u = mhash kc u' \<longrightarrow> menc kc u = menc kc u')"

lemma menc_lnode:
  assumes "mwf t" "mwf t'" "enc_ok kc t" "menc kc t = menc kc t'" "\<And>b. length (kc b) = 32"
  shows "lnode kc gen h t = lnode kc gen h t'"
  using mustDecodeNode_menc[of t kc h gen, OF assms(1) _ assms(5)] mustDecodeNode_menc[of t' kc h gen, OF assms(2) _ assms(5)]
    enc_ok_menc[OF assms(3) inner_mwf[OF assms(1)]] assms(4) by simp

lemma lnode_not_hash: "lnode kc gen h t \<noteq> HashNode b"
  "HashNode b \<noteq> lnode kc gen h t"
  by (cases t, auto)+

lemma lref_eq:
  assumes "lref kc gen t = lref kc gen t'" "subtree_ok t" "subtree_ok t'" "enc_ok kc t" "tells_apart kc t t'"
    "\<And>b. length (kc b) = 32"
  shows "lnode kc gen None t = lnode kc gen None t'"
proof (cases "big kc t \<or> big kc t'")
  case True
  then have b: "big kc t" "big kc t'" "mhash kc t = mhash kc t'"
    using assms(1) lnode_not_hash by (auto split: if_splits)
  then have "menc kc t = menc kc t'" "mwf t" "mwf t'"
    using assms(2,3,5) msubs_self[of t] msubs_self[of t'] by (auto simp: tells_apart_def big_def subtree_ok_def)
  then show ?thesis using menc_lnode assms(4,6) by metis
qed (use assms(1) in simp)

lemma lnode_inj:
  assumes "lnode kc gen h t = lnode kc gen h t'" "subtree_ok t" "subtree_ok t'" "enc_ok kc t" "tells_apart kc t t'"
    "\<And>b. length (kc b) = 32"
  shows "t = t'"
  using assms
proof (induction t arbitrary: h t')
  case MNil
  then show ?case using lnode_Nil_iff[of kc gen h t'] by simp
next
  case (MValue v)
  then show ?case by (cases t') auto
next
  case (MShort k s)
  then obtain s' where t': "t' = MShort k s'" "lref kc gen s = lref kc gen s'" by (cases t') auto
  then have w: "mwf (MShort k s)" "mwf (MShort k s')" using MShort(3,4) by (auto simp: subtree_ok_def)
  have a: "enc_ok kc s" "tells_apart kc s s'" using MShort(5,6) t'(1) by (auto simp: tells_apart_def)
  have "lnode kc gen None s = lnode kc gen None s'"
    using lref_eq[OF t'(2) _ _ a MShort(7)] subtree_short[OF w(1)] subtree_short[OF w(2)] by blast
  then show ?case using MShort(1)[OF _ _ _ a MShort(7)] subtree_short[OF w(1)] subtree_short[OF w(2)] t'(1) by blast
next
  case (MFull ts)
  then obtain ts' where t': "t' = MFull ts'" "map (lref kc gen) ts = map (lref kc gen) ts'" by (cases t') auto
  then have w: "mwf (MFull ts)" "mwf (MFull ts')" using MFull(3,4) by (auto simp: subtree_ok_def)
  have l: "length ts = length ts'" using t'(2) map_eq_imp_length_eq by blast
  have "ts ! i = ts' ! i" if i: "i < length ts" for i
  proof -
    have m: "ts ! i \<in> set ts" "ts' ! i \<in> set ts'" using i l by simp_all
    have "map (lref kc gen) ts ! i = map (lref kc gen) ts' ! i" by (simp only: t'(2))
    then have e: "lref kc gen (ts ! i) = lref kc gen (ts' ! i)" using i l by (simp only: nth_map)
    have a: "enc_ok kc (ts ! i)" "tells_apart kc (ts ! i) (ts' ! i)"
      using MFull(5,6) t'(1) m by (auto simp: tells_apart_def)
    have "lnode kc gen None (ts ! i) = lnode kc gen None (ts' ! i)"
      using lref_eq[OF e subtree_full[OF w(1) m(1)] subtree_full[OF w(2) m(2)] a MFull(7)] .
    then show ?thesis using MFull(1)[OF m(1) _ _ _ a MFull(7)] subtree_full[OF w(1) m(1)] subtree_full[OF w(2) m(2)] by blast
  qed
  then show ?case using t'(1) l by (simp add: nth_equalityI)
qed

text \<open>The hash function does not confuse two nodes of tries with the contents \<open>m\<close> and \<open>m'\<close>, and not one of
  them with the empty trie.\<close>

definition apart :: "(bytes \<Rightarrow> bytes) \<Rightarrow> (bytes \<Rightarrow> bytes option) \<Rightarrow> (bytes \<Rightarrow> bytes option) \<Rightarrow> bool" where
  "apart kc m m' \<longleftrightarrow> (\<forall>t t'. tvalid t \<longrightarrow> tvalid t' \<longrightarrow> m = tlookup t \<longrightarrow> m' = tlookup t' \<longrightarrow>
     tells_apart kc t t' \<and> (t \<noteq> MNil \<longrightarrow> root_hash kc t \<noteq> emptyRoot) \<and> (t' \<noteq> MNil \<longrightarrow> root_hash kc t' \<noteq> emptyRoot))"

lemma root_hash_inj:
  assumes "mtrie t" "mtrie t'" "enc_ok kc t" "tells_apart kc t t'" "root_hash kc t = root_hash kc t'"
    "t \<noteq> MNil \<longrightarrow> root_hash kc t \<noteq> emptyRoot" "t' \<noteq> MNil \<longrightarrow> root_hash kc t' \<noteq> emptyRoot" "\<And>b. length (kc b) = 32"
  shows "t = t'"
proof (cases "t = MNil \<or> t' = MNil")
  case True
  then show ?thesis using assms(5-7) by (auto simp: root_hash_def split: if_splits)
next
  case False
  then have w: "mwf t" "mwf t'" using assms(1,2) by (auto simp: mtrie_def)
  have "length (mhash kc t) = 32" "length (mhash kc t') = 32" using assms(8) by (simp_all add: mhash_def)
  moreover have "BytesToHash (mhash kc t) = BytesToHash (mhash kc t')" using assms(5) False by (simp add: root_hash_def)
  ultimately have "mhash kc t = mhash kc t'" by (metis Hash_Bytes_BytesToHash)
  then have "menc kc t = menc kc t'"
    using assms(4) msubs_self[of t] msubs_self[of t'] inner_mwf[OF w(1)] inner_mwf[OF w(2)] by (auto simp: tells_apart_def)
  then have "lnode kc 0 None t = lnode kc 0 None t'" by (intro menc_lnode w assms(3,8))
  then show ?thesis by (rule lnode_inj) (use w assms(3,4,8) in \<open>auto simp: subtree_ok_def\<close>)
qed

text \<open>C11: The root hash of a trie identifies its contents: two tries have the same root hash exactly if they
  have the same contents, provided the hash function does not map two of their nodes to the same hash or a
  root to the hash of the empty trie, and the encodings of the nodes are shorter than \<open>2 ^ 64\<close> bytes.\<close>

theorem trie_Hash_binding:
  assumes "holds kc full db tr m" "holds kc full' db' tr' m'" "fits_encoding kc m" "fits_encoding kc m'"
    "apart kc m m'" "\<And>b. length (kc b) = 32"
  shows "\<exists>root u root' u'. trie_Hash kc tr = Some (root, u) \<and> trie_Hash kc tr' = Some (root', u') \<and>
    (root = root' \<longleftrightarrow> m = m')"
proof -
  from assms(1) obtain t where t: "repr kc full db True (tr_root tr) t" "tvalid t" "mtrie t" "m = tlookup t"
    by (rule holdsE)
  from assms(2) obtain t' where t': "repr kc full' db' True (tr_root tr') t'" "tvalid t'" "mtrie t'" "m' = tlookup t'"
    by (rule holdsE)
  have e: "enc_ok kc t" "enc_ok kc t'" using assms(3,4) t t' by (simp_all add: fits_encoding_def)
  have "tells_apart kc t t'" "t \<noteq> MNil \<longrightarrow> root_hash kc t \<noteq> emptyRoot" "t' \<noteq> MNil \<longrightarrow> root_hash kc t' \<noteq> emptyRoot"
    using assms(5) t t' unfolding apart_def by blast+
  then have "root_hash kc t = root_hash kc t' \<longleftrightarrow> t = t'"
    using t(3) t'(3) e(1) assms(6) root_hash_inj[of t t' kc] by auto
  moreover have "t = t' \<longleftrightarrow> m = m'" using tree.extensional[OF t(2) t'(2)] t(4) t'(4) by auto
  moreover have "\<exists>u. trie_Hash kc tr = Some (root_hash kc t, u)"
    using hash_root[OF t(1,3) e(1) assms(6), of None db] by (auto simp: trie_Hash_def)
  moreover have "\<exists>u. trie_Hash kc tr' = Some (root_hash kc t', u)"
    using hash_root[OF t'(1,3) e(2) assms(6), of None db'] by (auto simp: trie_Hash_def)
  ultimately show ?thesis by blast
qed

section \<open>The example\<close>

text \<open>The encoding of the example trie: a list of the key in compact form and the value.\<close>

lemma example_menc: "menc example_hash example_tree = [0xC4, 0x82, 0x20, 0x01, 7]"
  by (simp add: example_tree_def menc_def node_rlp_def compact_def hexToCompact_def hasTerm_def cut_def
      rlp_list_def rlp_head_def rlp_string_def)

lemma example_enc_ok: "enc_ok example_hash example_tree"
  using example_fits example_tvalid example_tlookup by (simp add: fits_encoding_def)

lemma example_root_hash: "root_hash example_hash example_tree = 1"
  by (simp add: root_hash_def mhash_def example_hash_def example_tree_def)

theorem decodeNode_encoded_witness:
  "decodeNode None (menc example_hash example_tree) 3 = Some (Inr (lnode example_hash 3 None example_tree))"
proof (rule decodeNode_encoded)
  show "mtrie example_tree" using example_tvalid by (simp add: tvalid_def)
qed (simp_all add: example_menc example_hash_length, simp add: example_tree_def)

definition example_disk :: "bytes \<Rightarrow> bytes option" where
  "example_disk = [Hash_Bytes 1 \<mapsto> [0xC4, 0x82, 0x20, 0x01, 7]]"

lemma example_persisted: "persisted example_hash example_disk 1 example_map"
proof -
  have "on_disk example_hash example_disk True example_tree"
    by (simp add: on_disk_def example_menc example_disk_def mhash_def big_def example_tree_def example_hash_def)
      (simp add: example_menc[unfolded example_tree_def])
  then show ?thesis unfolding persisted_def
    by (intro exI[of _ example_tree])
      (use example_enc_ok in \<open>auto simp: example_tvalid example_tlookup example_root_hash emptyRoot_def mhash_def example_hash_def\<close>)
qed

theorem trie_New_persisted_witness:
  "\<exists>tr. trie_New 1 (NewDatabase example_disk) = Some (Inr tr) \<and> holds example_hash True (NewDatabase example_disk) tr example_map"
  by (rule trie_New_persisted[OF example_persisted example_hash_length])

lemma empty_holds: "holds kc full db \<lparr> tr_root = NilNode, tr_originalRoot = 0, tr_cachegen = 0, tr_cachelimit = 0 \<rparr> Map.empty"
  unfolding holds_def by (intro exI[of _ MNil]) (auto simp: repr_nil tree.valid_empty tree.lookup_empty)

lemma empty_tree: "tvalid t \<Longrightarrow> Map.empty = tlookup t \<Longrightarrow> t = MNil"
  using tree.extensional[OF _ tree.valid_empty, of t] tree.lookup_empty by (metis ext)

lemma example_apart: "apart example_hash example_map Map.empty"
proof -
  have "t = example_tree" if "tvalid t" "example_map = tlookup t" for t
    using tree.extensional[OF that(1) example_tvalid] that(2) example_tlookup by simp
  moreover have "tells_apart example_hash example_tree MNil" by (simp add: tells_apart_def)
  moreover have "root_hash example_hash example_tree \<noteq> emptyRoot" by (simp add: example_root_hash emptyRoot_def)
  ultimately show ?thesis unfolding apart_def using empty_tree by blast
qed

theorem trie_Hash_binding_witness:
  "\<exists>root u root' u'. trie_Hash example_hash example_trie = Some (root, u) \<and>
    trie_Hash example_hash \<lparr> tr_root = NilNode, tr_originalRoot = 0, tr_cachegen = 0, tr_cachelimit = 0 \<rparr> = Some (root', u') \<and>
    (root = root' \<longleftrightarrow> example_map = Map.empty)"
proof (rule trie_Hash_binding[OF example_holds empty_holds example_fits _ example_apart example_hash_length])
  show "fits_encoding example_hash Map.empty" unfolding fits_encoding_def using empty_tree by fastforce
qed

section \<open>A node with an empty key\<close>


end
