(* ===== verification/Trie_Proof.thy ===== *)
theory Trie_Proof
  imports Trie_Decode
begin

text \<open>Merkle proofs (\<open>trie/proof.go\<close>): \<open>Prove\<close> collects the encoded nodes on the path to a key, and
  \<open>VerifyProof\<close> follows that path from the root hash. A proof made for a key verifies and gives the value
  of the key, and no collection of nodes makes the verifier return anything else than that value.\<close>

section \<open>Definitions\<close>

function proof_get :: "node \<Rightarrow> bytes \<Rightarrow> (bytes \<times> node) option" where
  "proof_get tn key =
     (case tn of
        ShortNode k v _ \<Rightarrow>
          if length key < length k \<or> k \<noteq> take (length k) key then Some ([], NilNode)
          else proof_get v (drop (length k) key)
      | FullNode cs _ \<Rightarrow>
          do { b \<leftarrow> go_index key 0;
               c \<leftarrow> go_index cs (unat b);
               proof_get c (drop 1 key) }
      | HashNode h \<Rightarrow> Some (key, HashNode h)
      | NilNode \<Rightarrow> Some (key, NilNode)
      | ValueNode v \<Rightarrow> Some ([], ValueNode v)
      | _ \<Rightarrow> None)"
  by pat_completeness auto
termination
proof (relation "measure (\<lambda>(n, _). size n)")
  fix tn :: node and key cs fl and b :: byte and c
  assume "tn = FullNode cs fl" "go_index cs (unat b) = Some c"
  then have "c \<in> set cs" by (auto simp: go_index_def split: if_splits)
  then show "((c, drop 1 key), tn, key) \<in> measure (\<lambda>(n, _). size n)"
    using \<open>tn = FullNode cs fl\<close> size_list_estimation'[of c cs "size c" size] by simp
qed auto

declare proof_get.simps [simp del]

datatype proof_error = ProofMissing nat hash | ProofBad nat decode_error

text \<open>The loop of \<open>VerifyProof\<close>; the result is the value and the number of nodes that were used.\<close>

primrec verify_loop :: "nat \<Rightarrow> hash \<Rightarrow> bytes \<Rightarrow> (bytes \<Rightarrow> bytes option) \<Rightarrow> nat \<Rightarrow>
    (proof_error + (bytes option \<times> nat)) option" where
  "verify_loop 0 wantHash key proofDb i = None"
| "verify_loop (Suc fuel) wantHash key proofDb i =
     (case proofDb (Hash_Bytes wantHash) of
        None \<Rightarrow> Some (Inl (ProofMissing i wantHash))
      | Some buf \<Rightarrow>
          do { r \<leftarrow> decodeNode (Some (Hash_Bytes wantHash)) buf 0;
               case r of Inl err \<Rightarrow> Some (Inl (ProofBad i err))
               | Inr n \<Rightarrow>
                   do { (keyrest, cld) \<leftarrow> proof_get n key;
                        case cld of
                          NilNode \<Rightarrow> Some (Inr (None, i))
                        | HashNode h \<Rightarrow>
                            verify_loop fuel (BytesToHash (go_copy (Hash_Bytes wantHash) h)) keyrest proofDb (i + 1)
                        | ValueNode v \<Rightarrow> Some (Inr (Some v, i + 1))
                        | _ \<Rightarrow> verify_loop fuel wantHash key proofDb (i + 1) } })"

definition VerifyProof :: "nat \<Rightarrow> hash \<Rightarrow> bytes \<Rightarrow> (bytes \<Rightarrow> bytes option) \<Rightarrow>
    (proof_error + (bytes option \<times> nat)) option" where
  "VerifyProof fuel rootHash key proofDb = verify_loop fuel rootHash (keybytesToHex key) proofDb 0"

text \<open>The first loop of \<open>Prove\<close>: the nodes on the path to a key.\<close>

primrec prove_path :: "nat \<Rightarrow> tdb \<Rightarrow> 16 word \<Rightarrow> node \<Rightarrow> bytes \<Rightarrow> (trie_error + node list) option" where
  "prove_path 0 db gen tn key = None"
| "prove_path (Suc fuel) db gen tn key =
     (if key = [] \<or> tn = NilNode then Some (Inr [])
      else case tn of
        ShortNode k v _ \<Rightarrow>
          do { r \<leftarrow> (if length key < length k \<or> k \<noteq> take (length k) key then prove_path fuel db gen NilNode key
                    else prove_path fuel db gen v (drop (length k) key));
               Some (map_sum id (\<lambda>ns. tn # ns) r) }
      | FullNode cs _ \<Rightarrow>
          do { b \<leftarrow> go_index key 0;
               c \<leftarrow> go_index cs (unat b);
               r \<leftarrow> prove_path fuel db gen c (drop 1 key);
               Some (map_sum id (\<lambda>ns. tn # ns) r) }
      | HashNode h \<Rightarrow>
          do { r \<leftarrow> resolveHash db gen h [];
               case r of Inl err \<Rightarrow> Some (Inl err) | Inr n \<Rightarrow> prove_path fuel db gen n key }
      | _ \<Rightarrow> None)"

text \<open>The second loop: the nodes are collapsed and the root and the large ones are put into the proof. The
  argument \<open>first\<close> tells the root.\<close>

definition proof_hasher :: hasher where
  "proof_hasher = \<lparr> h_cachegen = 0, h_cachelimit = 0, h_onleaf = None \<rparr>"

primrec prove_nodes :: "(bytes \<Rightarrow> bytes) \<Rightarrow> node list \<Rightarrow> bool \<Rightarrow> 64 word \<Rightarrow> (bytes \<Rightarrow> bytes option) \<Rightarrow>
    (bytes \<Rightarrow> bytes option) option" where
  "prove_nodes keccak [] first fromLevel proofDb = Some proofDb"
| "prove_nodes keccak (n # ns) first fromLevel proofDb =
     do { (n, _) \<leftarrow> hashChildren keccak proof_hasher n None;
          (hn, _) \<leftarrow> hasher_store keccak proof_hasher n None False;
          let hash = (case hn of HashNode b \<Rightarrow> Some b | _ \<Rightarrow> None);
          if hash \<noteq> None \<or> first then
            if fromLevel > 0 then prove_nodes keccak ns False (fromLevel - 1) proofDb
            else
              do { r \<leftarrow> EncodeToBytes (node_goval n);
                   let enc = (case r of Inl _ \<Rightarrow> [] | Inr enc \<Rightarrow> enc);
                   let key = (case hash of Some b \<Rightarrow> b | None \<Rightarrow> keccak enc);
                   prove_nodes keccak ns False fromLevel (proofDb(key \<mapsto> enc)) }
          else prove_nodes keccak ns False fromLevel proofDb }"

definition trie_Prove :: "(bytes \<Rightarrow> bytes) \<Rightarrow> nat \<Rightarrow> tdb \<Rightarrow> Trie \<Rightarrow> bytes \<Rightarrow> 64 word \<Rightarrow> (bytes \<Rightarrow> bytes option) \<Rightarrow>
    (trie_error + (bytes \<Rightarrow> bytes option)) option" where
  "trie_Prove keccak fuel db t key fromLevel proofDb =
     do { r \<leftarrow> prove_path fuel db (tr_cachegen t) (tr_root t) (keybytesToHex key);
          case r of Inl err \<Rightarrow> Some (Inl err)
          | Inr nodes \<Rightarrow> map_option Inr (prove_nodes keccak nodes True fromLevel proofDb) }"

section \<open>The path to a key\<close>

fun visited :: "mtree \<Rightarrow> bytes \<Rightarrow> mtree list" where
  "visited (MShort s t) k = MShort s t # (case strip s k of None \<Rightarrow> [] | Some r \<Rightarrow> visited t r)"
| "visited (MFull ts) k =
     MFull ts # (case k of [] \<Rightarrow> [] | x # r \<Rightarrow> if unat x < length ts then visited (ts ! unat x) r else [])"
| "visited _ k = []"

lemma visited_msubs: "set (visited t k) \<subseteq> msubs t"
proof (induction t k rule: visited.induct)
  case (1 s t k)
  then show ?case by (cases "strip s k") auto
next
  case (2 ts k)
  then show ?case using nth_mem[of _ ts] by (fastforce split: list.splits if_splits)
qed simp_all

lemma visited_self: "inner t \<Longrightarrow> t \<in> set (visited t k)"
  by (cases t) auto

text \<open>The node \<open>w\<close> lies on the path of the key \<open>k\<close> through \<open>u\<close>, where \<open>r\<close> is left of the key.\<close>

definition onpath :: "mtree \<Rightarrow> bytes \<Rightarrow> mtree \<Rightarrow> bytes \<Rightarrow> bool" where
  "onpath u k w r \<longleftrightarrow> mwf w \<and> fits w r \<and> mget w r = mget u k \<and> set (visited w r) \<subseteq> set (visited u k)"

lemma onpath_short: "onpath t r w r' \<Longrightarrow> onpath (MShort s t) (s @ r) w r'"
  by (auto simp: onpath_def)

lemma onpath_full: "unat x < length ts \<Longrightarrow> onpath (ts ! unat x) r w r' \<Longrightarrow> onpath (MFull ts) (x # r) w r'"
  by (auto simp: onpath_def)

text \<open>What the search of \<open>get\<close> in a decoded node may end with.\<close>

definition found :: "(bytes \<Rightarrow> bytes) \<Rightarrow> nat \<Rightarrow> mtree \<Rightarrow> bytes \<Rightarrow> (bytes \<times> node) option \<Rightarrow> bool" where
  "found kc n u k res \<longleftrightarrow>
     (\<exists>r. res = Some (r, NilNode) \<and> mget u k = None) \<or>
     (\<exists>r v. res = Some (r, ValueNode v) \<and> mget u k = Some v) \<or>
     (\<exists>r w. res = Some (r, HashNode (mhash kc w)) \<and> big kc w \<and> onpath u k w r \<and> length r < n)"

lemma found_short: "found kc n t r res \<Longrightarrow> found kc n (MShort s t) (s @ r) res"
  using onpath_short by (fastforce simp: found_def)

lemma found_full: "unat x < length ts \<Longrightarrow> found kc n (ts ! unat x) r res \<Longrightarrow> found kc n (MFull ts) (x # r) res"
  using onpath_full by (fastforce simp: found_def)

lemma found_lref:
  assumes "found kc (length k) t k (proof_get (lnode kc gen None t) k) \<or> \<not> inner t" "fits t k"
  shows "found kc (Suc (length k)) t k (proof_get (lref kc gen t) k)"
proof (cases "big kc t")
  case True
  then have "onpath t k t k" using assms(2) inner_mwf by (auto simp: onpath_def fits_def mtrie_def big_def)
  then show ?thesis using True by (auto simp: found_def proof_get.simps)
next
  case False
  show ?thesis
  proof (cases "inner t")
    case True
    then show ?thesis using assms(1) False by (auto simp: found_def)
  next
    case False
    then show ?thesis using assms(2) by (cases t) (auto simp: found_def proof_get.simps big_def fits_def mtrie_def)
  qed
qed

lemma found_more: "found kc n t k res \<Longrightarrow> n \<le> n' \<Longrightarrow> found kc n' t k res"
  by (auto simp: found_def)

lemma proof_get_lnode:
  assumes "fits t k" "inner t"
  shows "found kc (length k) t k (proof_get (lnode kc gen h t) k)"
  using assms
proof (induction t arbitrary: k h)
  case (MShort s t)
  then have w: "mwf (MShort s t)" and k: "vkey k" by (auto simp: fits_def mtrie_def)
  show ?case using w k
  proof (cases rule: short_key_cases)
    case (1 r)
    have "found kc (Suc (length r)) t r (proof_get (lref kc gen t) r)"
      by (rule found_lref) (use MShort(1)[of r None] 1 in auto)
    moreover have "Suc (length r) \<le> length k" using 1 by (cases s) auto
    ultimately have "found kc (length k) (MShort s t) k (proof_get (lref kc gen t) r)"
      unfolding 1(1) by (intro found_short) (rule found_more)
    then show ?thesis using 1 by (simp add: proof_get.simps[of "ShortNode _ _ _"])
  next
    case (2 p x q y r)
    then have "s \<noteq> take (length s) k" by (metis append_take_drop_id same_append_eq append_Cons append_assoc list.inject)
    moreover have "mget (MShort s t) k = None" using 2 by simp
    ultimately show ?thesis by (simp add: proof_get.simps[of "ShortNode _ _ _"] found_def)
  qed
next
  case (MFull ts)
  then have w: "mwf (MFull ts)" and k: "vkey k" by (auto simp: fits_def mtrie_def)
  then obtain x r where xr: "k = x # r" by (cases k) auto
  note f = fits_full[OF w k[unfolded xr]] mwf_full_length[OF w]
  have x: "ts ! unat x \<in> set ts" using f by simp
  have "found kc (Suc (length r)) (ts ! unat x) r (proof_get (lref kc gen (ts ! unat x)) r)"
    by (rule found_lref) (use MFull(1)[OF x f(2), of None] f in auto)
  then have "found kc (length k) (MFull ts) k (proof_get (lref kc gen (ts ! unat x)) r)"
    using found_full f xr by simp
  then show ?case using f xr by (simp add: proof_get.simps[of "FullNode _ _"])
qed simp_all

section \<open>Verification\<close>

lemma msubs_mwf: "u \<in> msubs t \<Longrightarrow> subtree_ok t \<Longrightarrow> inner u \<Longrightarrow> mwf u"
proof (induction t)
  case (MShort k t)
  then have "mwf (MShort k t)" by (simp add: subtree_ok_def)
  then show ?case using MShort subtree_short[of k t] by auto
next
  case (MFull ts)
  then have "mwf (MFull ts)" by (simp add: subtree_ok_def)
  then show ?case using MFull subtree_full[of ts] by auto
qed auto

lemma msubs_trans: "u \<in> msubs t \<Longrightarrow> msubs u \<subseteq> msubs t"
  by (induction t) auto

lemma enc_ok_msubs: "u \<in> msubs t \<Longrightarrow> enc_ok kc t \<Longrightarrow> enc_ok kc u"
  by (induction t) auto

lemma Hash_Bytes_length [simp]: "length (Hash_Bytes h) = 32"
  by (simp add: Hash_Bytes_def)

text \<open>The outcome of a verification: the value of the key, or the first node of its path that the proof
  does not have.\<close>

definition verdict :: "(bytes \<Rightarrow> bytes) \<Rightarrow> mtree \<Rightarrow> bytes \<Rightarrow> (bytes \<Rightarrow> bytes option) \<Rightarrow>
    (proof_error + (bytes option \<times> nat)) \<Rightarrow> bool" where
  "verdict kc t k P r \<longleftrightarrow>
     (case r of
        Inl err \<Rightarrow> \<exists>u \<in> set (visited t k). (u = t \<or> big kc u) \<and> P (mhash kc u) = None \<and>
                    (\<exists>i. err = ProofMissing i (BytesToHash (mhash kc u)))
      | Inr (v, _) \<Rightarrow> v = mget t k)"

lemma verify_loop_correct:
  assumes "mwf t" "enc_ok kc t" "fits t k" "length k < fuel" "\<And>b. length (kc b) = 32"
    "\<And>u b. u \<in> set (visited t k) \<Longrightarrow> u = t \<or> big kc u \<Longrightarrow> P (mhash kc u) = Some b \<Longrightarrow> b = menc kc u"
  shows "\<exists>r. verify_loop fuel (BytesToHash (mhash kc t)) k P i = Some r \<and> verdict kc t k P r"
  using assms(1-4,6)
proof (induction fuel arbitrary: t k i)
  case (Suc fuel)
  have h: "Hash_Bytes (BytesToHash (mhash kc u)) = mhash kc u" for u
    by (rule Hash_Bytes_BytesToHash) (simp add: mhash_def assms(5))
  have t: "inner t" "t \<in> set (visited t k)" using inner_mwf[OF Suc(2)] visited_self by auto
  show ?case
  proof (cases "P (mhash kc t)")
    case None
    then have "verdict kc t k P (Inl (ProofMissing i (BytesToHash (mhash kc t))))" using t(2) by (auto simp: verdict_def)
    then show ?thesis using None h by simp
  next
    case (Some b)
    then have b: "b = menc kc t" using Suc(6) t(2) by blast
    have "decodeNode (Some (mhash kc t)) b 0 = Some (Inr (lnode kc 0 (Some (mhash kc t)) t))"
      using decodeNode_menc[of t kc "[]" "Suc (length b)"] enc_ok_menc[OF Suc(3) t(1)] Suc(2) assms(5) b
      by (simp add: decodeNode_def del: decodeNode_rec.simps)
    then have step: "verify_loop (Suc fuel) (BytesToHash (mhash kc t)) k P i =
        do { (keyrest, cld) \<leftarrow> proof_get (lnode kc 0 (Some (mhash kc t)) t) k;
             case cld of
               NilNode \<Rightarrow> Some (Inr (None, i))
             | HashNode h \<Rightarrow> verify_loop fuel (BytesToHash (go_copy (mhash kc t) h)) keyrest P (Suc i)
             | ValueNode v \<Rightarrow> Some (Inr (Some v, Suc i))
             | _ \<Rightarrow> verify_loop fuel (BytesToHash (mhash kc t)) k P (Suc i) }"
      using Some h by simp
    have "found kc (length k) t k (proof_get (lnode kc 0 (Some (mhash kc t)) t) k)"
      by (rule proof_get_lnode[OF Suc(4) t(1)])
    then consider r where "proof_get (lnode kc 0 (Some (mhash kc t)) t) k = Some (r, NilNode)" "mget t k = None"
      | r v where "proof_get (lnode kc 0 (Some (mhash kc t)) t) k = Some (r, ValueNode v)" "mget t k = Some v"
      | r w where "proof_get (lnode kc 0 (Some (mhash kc t)) t) k = Some (r, HashNode (mhash kc w))"
          "big kc w" "onpath t k w r" "length r < length k"
      unfolding found_def by blast
    then show ?thesis
    proof cases
      case (3 r w)
      then have w: "mwf w" "fits w r" "mget w r = mget t k" "set (visited w r) \<subseteq> set (visited t k)"
        by (simp_all add: onpath_def)
      then have "w \<in> msubs t" using visited_self[OF inner_mwf[OF w(1)], of r] visited_msubs[of t k] by blast
      then have "\<exists>res. verify_loop fuel (BytesToHash (mhash kc w)) r P (Suc i) = Some res \<and> verdict kc w r P res"
        using Suc(1)[OF w(1) enc_ok_msubs[OF _ Suc(3)] w(2), of "Suc i"] 3(2,4) Suc(5,6) w(4) by auto
      moreover have "verdict kc t k P res" if "verdict kc w r P res" for res
        using that w(3,4) 3(2) by (auto simp: verdict_def split: sum.splits)
      moreover have "go_copy (mhash kc t) (mhash kc w) = mhash kc w"
        using assms(5) by (simp add: go_copy_def mhash_def)
      ultimately show ?thesis using step 3(1) by auto
    qed (use step in \<open>simp_all add: verdict_def\<close>)
  qed
qed simp

section \<open>Construction\<close>

definition path_of :: "(bytes \<Rightarrow> bytes) \<Rightarrow> bool \<Rightarrow> tdb \<Rightarrow> node list \<Rightarrow> mtree list \<Rightarrow> bool" where
  "path_of kc full db = list_all2 (\<lambda>n u. \<not> is_hash n \<and> (\<exists>rt. repr kc full db rt n u))"

definition walked :: "(bytes \<Rightarrow> bytes) \<Rightarrow> bool \<Rightarrow> tdb \<Rightarrow> 16 word \<Rightarrow> mtree \<Rightarrow> bytes \<Rightarrow> (trie_error + node list) option \<Rightarrow> bool" where
  "walked kc full db gen t k r \<longleftrightarrow>
     (case r of None \<Rightarrow> False | Some (Inl err) \<Rightarrow> missing full db gen err
      | Some (Inr ns) \<Rightarrow> path_of kc full db ns (visited t k))"

lemma walked_step:
  assumes "walked kc full db gen u r res" "\<not> is_hash n" "repr kc full db rt n t" "visited t k = t # visited u r"
  shows "walked kc full db gen t k (do { r \<leftarrow> res; Some (map_sum id (\<lambda>ns. n # ns) r) })"
  using assms by (auto simp: walked_def path_of_def split: option.splits sum.splits)

lemma prove_path_correct:
  assumes "repr kc full db rt n t" "fits t k" "enough fuel n k"
  shows "walked kc full db gen t k (prove_path fuel db gen n k)"
  using assms
proof (induction fuel arbitrary: rt n t k)
  case 0
  then show ?case using enough_Suc by blast
next
  case (Suc fuel)
  from Suc(2) show ?case
  proof cases
    case repr_nil
    then show ?thesis by (simp add: walked_def path_of_def)
  next
    case (repr_value v)
    with Suc(3) show ?thesis by (simp add: fits_def mtrie_def walked_def path_of_def)
  next
    case (repr_short m u s fl)
    then have w: "mwf (MShort s u)" and k: "vkey k" using Suc(3) by (auto simp: fits_def mtrie_def)
    show ?thesis using w k
    proof (cases rule: short_key_cases)
      case (1 r)
      have "walked kc full db gen u r (prove_path fuel db gen m r)"
        using Suc(1)[OF repr_short(3) 1(2)] Suc(4) 1 enough_step[of fuel n s r m] by simp
      then have "walked kc full db gen t k (do { r \<leftarrow> prove_path fuel db gen m r; Some (map_sum id (\<lambda>ns. n # ns) r) })"
        by (rule walked_step[OF _ _ Suc(2)]) (use repr_short 1 in auto)
      then show ?thesis using repr_short 1 by simp
    next
      case (2 p x q y r)
      obtain f where f: "fuel = Suc f" using Suc(4) 2 by (cases fuel) (auto simp: enough_def split: if_splits)
      have "s \<noteq> take (length s) k" using 2 by (metis append_take_drop_id same_append_eq append_Cons append_assoc list.inject)
      moreover have "path_of kc full db [n] (visited t k)" using repr_short 2 Suc(2) by (auto simp: path_of_def)
      ultimately show ?thesis using repr_short 2 f k by (auto simp: walked_def)
    qed
  next
    case (repr_full ns ts fl)
    then have w: "mwf (MFull ts)" and k: "vkey k" using Suc(3) by (auto simp: fits_def mtrie_def)
    then obtain x r where xr: "k = x # r" by (cases k) auto
    note f = fits_full[OF w k[unfolded xr]] mwf_full_length[OF w]
    have "walked kc full db gen (ts ! unat x) r (prove_path fuel db gen (ns ! unat x) r)"
      using Suc(1)[of False "ns ! unat x" "ts ! unat x" r] repr_full f Suc(4) xr enough_step[of fuel n "[x]" r] by simp
    then have "walked kc full db gen t k (do { r \<leftarrow> prove_path fuel db gen (ns ! unat x) r; Some (map_sum id (\<lambda>ns. n # ns) r) })"
      by (rule walked_step[OF _ _ Suc(2)]) (use repr_full f xr in auto)
    then show ?thesis using repr_full f xr by simp
  next
    case repr_hash
    define h where "h = mhash kc t"
    have nh: "n = HashNode h" and hn: "repr kc full db rt (HashNode h) t" using Suc(2) repr_hash h_def by auto
    have k: "k \<noteq> []" using Suc(3) repr_hash by (auto simp: fits_def)
    show ?thesis
    proof (cases rule: resolveHash_cases[OF hn, of gen "[]"])
      case (1 err)
      then show ?thesis using nh k by (simp add: walked_def)
    next
      case (2 m)
      then show ?thesis using Suc nh k enough_hash by simp
    qed
  qed
qed

text \<open>The nodes of a path that are put into a proof.\<close>

primrec elements :: "(bytes \<Rightarrow> bytes) \<Rightarrow> bool \<Rightarrow> mtree list \<Rightarrow> mtree list" where
  "elements kc first [] = []"
| "elements kc first (u # us) = (if first \<or> big kc u then u # elements kc False us else elements kc False us)"

definition put_nodes :: "(bytes \<Rightarrow> bytes) \<Rightarrow> mtree list \<Rightarrow> (bytes \<Rightarrow> bytes option) \<Rightarrow> bytes \<Rightarrow> bytes option" where
  "put_nodes kc us = fold (\<lambda>u P. P(mhash kc u \<mapsto> menc kc u)) us"

lemma collapse_node:
  assumes "ready kc full S None u" "repr kc full db rt n u" "\<not> is_hash n" "h_onleaf h = None"
  shows "\<exists>col cac fl. hashChildren kc h n None = Some (col, cac, None) \<and> simplifyNode col = Some (cnode kc u) \<and>
    flag_of col fl \<and> flag_ok kc full db rt u fl"
  using assms(2)
proof cases
  case (repr_short m t k fl)
  have "\<exists>col cac D1. hashChildren kc h (ShortNode k m fl) None = Some (ShortNode (compact k) col fl, ShortNode k cac fl, D1) \<and>
    moved kc S db None D1 \<and> simplifyNode col = Some (cref kc t) \<and> repr kc full (ambient db D1) False cac t \<and>
    (None \<noteq> None \<longrightarrow> kept kc full (ambient db D1) False t)"
    using short_children[of kc full S None k t db m h fl] assms(1,4) repr_short hasher_hash_correct by auto
  then show ?thesis using repr_short by (fastforce simp: moved_def flag_of_def)
next
  case (repr_full ns ts fl)
  have w: "mwf (MFull ts)" using assms(1) repr_full by (simp add: ready_def)
  have "\<exists>col cac D'. hash_children kc h 16 ns None = Some (col, cac, D') \<and> moved kc S db None D' \<and>
      rows kc full (ambient db D') (D' \<noteq> None) col cac ts"
    by (rule hash_children_correct[where D = None and full = full and S = S])
      (use repr_full assms ready_full[of kc full S None ts] full_last[OF w] mwf_full_length[OF w] hasher_hash_correct
       in \<open>auto simp: list_all2_conv_all_nth\<close>)
  then obtain col cac where "hash_children kc h 16 ns None = Some (col, cac, None)"
      "rows kc full db False col cac ts" by (auto simp: moved_def)
  then show ?thesis using repr_full rows_simplify by (fastforce simp: flag_of_def simp del: hash_children.simps)
qed (use assms in \<open>auto simp: ready_def\<close>)

lemma prove_nodes_correct:
  assumes "path_of kc full db ns us" "\<And>u. u \<in> set us \<Longrightarrow> ready kc full S None u"
  shows "prove_nodes kc ns first lvl P = Some (put_nodes kc (drop (unat lvl) (elements kc first us)) P)"
  using assms
proof (induction ns arbitrary: us first lvl P)
  case Nil
  then show ?case by (simp add: path_of_def put_nodes_def)
next
  case (Cons n ns)
  then obtain u us' rt where us: "us = u # us'" "path_of kc full db ns us'" "\<not> is_hash n" "repr kc full db rt n u"
    by (auto simp: path_of_def list_all2_Cons1)
  have r: "ready kc full S None u" using Cons(3) us(1) by simp
  obtain col cac fl where c: "hashChildren kc proof_hasher n None = Some (col, cac, None)" "simplifyNode col = Some (cnode kc u)"
      "flag_of col fl" "flag_ok kc full db rt u fl"
    using collapse_node[OF r us(4,3), of proof_hasher] by (auto simp: proof_hasher_def)
  have nc: "node_cache col = Some (nf_hash fl, nf_dirty fl)" "nf_hash fl = None \<or> nf_hash fl = Some (mhash kc u)"
    using c(3,4) by (cases "nf_hash fl"; auto simp: flag_of_def flag_ok_def)+
  obtain hn D where s: "hasher_store kc proof_hasher col None False = Some (hn, D)"
      "(case hn of HashNode b \<Rightarrow> Some b | _ \<Rightarrow> None) = (if big kc u then Some (mhash kc u) else None)"
    using hasher_store_correct[OF r c(2) nc, of db proof_hasher False] by (auto simp: proof_hasher_def)
  have e: "EncodeToBytes (node_goval col) = Some (Inr (menc kc u))"
    using EncodeToBytes_node[of col] node_rlp_simplify[OF c(2)] r enc_ok_menc[of kc u] inner_mwf[of u]
    by (simp add: menc_def ready_def)
  have IH: "prove_nodes kc ns False lvl P = Some (put_nodes kc (drop (unat lvl) (elements kc False us')) P)" for lvl P
    using Cons us by auto
  have lvl: "unat lvl = (if lvl = 0 then 0 else Suc (unat (lvl - 1)))"
    by (simp add: unat_minus_one unat_gt_0)
  have "prove_nodes kc (n # ns) first lvl P =
      (if big kc u \<or> first then
         if lvl > 0 then prove_nodes kc ns False (lvl - 1) P
         else prove_nodes kc ns False lvl (P(mhash kc u \<mapsto> menc kc u))
       else prove_nodes kc ns False lvl P)"
    using c(1) s(1) e by (simp add: s(2) Let_def mhash_def del: hashChildren.simps)
  then show ?case unfolding IH us(1) by (simp add: lvl put_nodes_def word_gt_0)
qed

lemma elements_subset: "set (elements kc first us) \<subseteq> set us"
  by (induction us arbitrary: first) auto

lemma elements_all: "u \<in> set us \<Longrightarrow> big kc u \<Longrightarrow> u \<in> set (elements kc first us)"
  by (induction us arbitrary: first) auto

lemma put_nodes_Cons: "put_nodes kc (u # us) P = put_nodes kc us (P(mhash kc u \<mapsto> menc kc u))"
  by (simp add: put_nodes_def)

lemma put_nodes_other: "(\<And>u. u \<in> set us \<Longrightarrow> mhash kc u \<noteq> h) \<Longrightarrow> put_nodes kc us P h = P h"
  by (induction us arbitrary: P) (auto simp: put_nodes_def)

lemma put_nodes_lookup:
  assumes "\<exists>u \<in> set us. mhash kc u = h" "\<And>w. w \<in> set us \<Longrightarrow> mhash kc w = h \<Longrightarrow> menc kc w = b"
  shows "put_nodes kc us P h = Some b"
  using assms
proof (induction us arbitrary: P)
  case (Cons w us)
  show ?case
  proof (cases "\<exists>u \<in> set us. mhash kc u = h")
    case True
    then show ?thesis unfolding put_nodes_Cons by (rule Cons(1)) (use Cons(3) in auto)
  next
    case False
    then have "put_nodes kc us (P(mhash kc w \<mapsto> menc kc w)) h = (P(mhash kc w \<mapsto> menc kc w)) h"
      by (intro put_nodes_other) blast
    then show ?thesis unfolding put_nodes_Cons using Cons(2,3) False by auto
  qed
qed simp

section \<open>Proofs and verification\<close>

text \<open>The entries of a proof are stored under their hashes, as a light client stores the nodes it is sent,
  and none of them is a forgery of a node of the trie, that is, a different encoding with the same hash.\<close>

definition keyed :: "(bytes \<Rightarrow> bytes) \<Rightarrow> (bytes \<Rightarrow> bytes option) \<Rightarrow> bool" where
  "keyed kc P \<longleftrightarrow> (\<forall>h b. P h = Some b \<longrightarrow> kc b = h)"

definition unforged :: "(bytes \<Rightarrow> bytes) \<Rightarrow> (bytes \<Rightarrow> bytes option) \<Rightarrow> (bytes \<Rightarrow> bytes option) \<Rightarrow> bool" where
  "unforged kc P m \<longleftrightarrow> (\<forall>t. tvalid t \<longrightarrow> m = tlookup t \<longrightarrow>
     (\<forall>u \<in> msubs t. \<forall>h b. inner u \<longrightarrow> P h = Some b \<longrightarrow> kc b = mhash kc u \<longrightarrow> b = menc kc u))"

lemma visited_inner: "u \<in> set (visited t k) \<Longrightarrow> inner u"
proof (induction t k rule: visited.induct)
  case (1 s t k)
  then show ?case by (cases "strip s k") auto
next
  case (2 ts k)
  then show ?case by (fastforce split: list.splits if_splits)
qed simp_all

text \<open>The tree of a trie that is not empty, with its root hash.\<close>

lemma holds_rootE:
  assumes "holds kc full db tr m" "m \<noteq> Map.empty" "fits_encoding kc m" "\<And>b. length (kc b) = 32"
  obtains t u where "repr kc full db True (tr_root tr) t" "tvalid t" "mwf t" "enc_ok kc t" "m = tlookup t"
    "trie_Hash kc tr = Some (BytesToHash (mhash kc t), u)" "\<And>k. fits t (keybytesToHex k)"
proof -
  from assms(1) obtain t where t: "repr kc full db True (tr_root tr) t" "tvalid t" "mtrie t" "m = tlookup t"
    by (rule holdsE)
  have n: "t \<noteq> MNil" using t(4) assms(2) by (auto simp: tlookup_def fun_eq_iff)
  have e: "enc_ok kc t" using assms(3) t by (simp add: fits_encoding_def)
  have "\<exists>u. trie_Hash kc tr = Some (BytesToHash (mhash kc t), u)"
    using hash_root[OF t(1,3) e assms(4), of None db] n by (auto simp: trie_Hash_def root_hash_def)
  then show thesis using that t n e fits_key by (auto simp: mtrie_def)
qed

text \<open>C13: No proof convinces the verifier of a wrong value. Given the root hash of a trie that is not empty,
  \<open>VerifyProof\<close> terminates without panicking on every collection of nodes that is indexed by their hashes and
  holds no forgery, that is, no other byte string with the hash of a node of the trie. What it returns is the
  value of the key in that trie, or nothing if the key is not there; its only error is that a node is missing
  from the proof.\<close>

theorem VerifyProof_sound:
  assumes "holds kc full db tr m" "m \<noteq> Map.empty" "fits_encoding kc m" "\<And>b. length (kc b) = 32"
    "keyed kc proofDb" "unforged kc proofDb m" "2 * length key + 2 \<le> fuel"
  shows "\<exists>root u r. trie_Hash kc tr = Some (root, u) \<and> VerifyProof fuel root key proofDb = Some r \<and>
    (case r of Inl err \<Rightarrow> \<exists>i h. err = ProofMissing i h \<and> proofDb (Hash_Bytes h) = None | Inr (v, _) \<Rightarrow> v = m key)"
proof -
  obtain t u where t: "tvalid t" "mwf t" "enc_ok kc t" "m = tlookup t"
      "trie_Hash kc tr = Some (BytesToHash (mhash kc t), u)" "fits t (keybytesToHex key)"
    using holds_rootE[OF assms(1-4)] by metis
  let ?k = "keybytesToHex key"
  have "b = menc kc w" if "w \<in> set (visited t ?k)" "proofDb (mhash kc w) = Some b" for w b
    using that assms(5,6) t(1,4) visited_msubs[of t ?k] visited_inner[OF that(1)] unfolding keyed_def unforged_def by blast
  then have "\<exists>r. verify_loop fuel (BytesToHash (mhash kc t)) ?k proofDb 0 = Some r \<and> verdict kc t ?k proofDb r"
    using t assms(4,7) by (intro verify_loop_correct) (auto simp: keybytesToHex_def)
  moreover have "Hash_Bytes (BytesToHash (mhash kc w)) = mhash kc w" for w
    using assms(4) by (intro Hash_Bytes_BytesToHash) (simp add: mhash_def)
  ultimately show ?thesis using t(4,5)
    by (fastforce simp: VerifyProof_def verdict_def tlookup_def split: sum.splits)
qed


section \<open>The proof for the example\<close>

lemma example_not_empty: "example_map \<noteq> Map.empty"
  by (simp add: example_map_def)

lemma example_only: "tvalid t \<Longrightarrow> example_map = tlookup t \<Longrightarrow> t = example_tree"
  using tree.extensional[OF _ example_tvalid, of t] example_tlookup by simp

theorem VerifyProof_sound_witness:
  "\<exists>root u r. trie_Hash example_hash example_trie = Some (root, u) \<and> VerifyProof 4 root [1] example_disk = Some r \<and>
    (case r of Inl err \<Rightarrow> \<exists>i h. err = ProofMissing i h \<and> example_disk (Hash_Bytes h) = None | Inr (v, _) \<Rightarrow> v = example_map [1])"
proof (rule VerifyProof_sound[OF example_holds example_not_empty example_fits example_hash_length])
  show "keyed example_hash example_disk" by (simp add: keyed_def example_disk_def example_hash_def)
  show "unforged example_hash example_disk example_map"
    unfolding unforged_def using example_only example_menc
    by (fastforce simp: example_disk_def example_tree_def split: if_splits)
qed simp


end
