(* ===== verification/Spec2Isabelle.thy ===== *)
theory Spec2Isabelle
  imports Transition_Correct RLP_RoundTrip Trie_Proof
begin

text \<open>
  A verification of the execution core of go-ethereum (version 1.8.13, the sources under
  \<open>src/go-ethereum-master_read/\<close>): the RLP codec, the Merkle Patricia trie, the world state with its
  journal, the virtual machine and the state transition of a transaction. All paths below are relative to
  that directory.

  \<^bold>\<open>The program.\<close> A transaction is applied by \<open>core/state_transition.go\<close>: it checks the nonce, buys gas
  from the gas pool of the block, pays the intrinsic gas, runs a call or a creation in the virtual machine,
  refunds what is left and pays the fee. The machine (\<open>core/vm\<close>) interprets contract code over a stack and
  a memory, charges gas for each instruction, and calls itself for nested calls and creations; precompiled
  contracts are native functions. Everything it changes is in the \<open>StateDB\<close> (\<open>core/state\<close>), which caches
  account objects, writes a journal of all changes, and reverts to snapshots by undoing the journal. Accounts
  and storage are kept in tries (\<open>trie\<close>), whose nodes are encoded with RLP (\<open>rlp\<close>), hashed, and held in a
  node database. \<open>common\<close>, \<open>common/math\<close> and \<open>params\<close> hold the conversions, the arithmetic and the
  protocol constants.

  \<^bold>\<open>Conventions.\<close> (\<open>Prelude\<close>) \<open>uint64\<close>, \<open>uint16\<close> and \<open>byte\<close> are words of 64, 16 and 8 bits, \<open>big.Int\<close> is
  \<^typ>\<open>int\<close>, hashes and addresses are words of 256 and 160 bits. Mutable structs are records that are passed
  and returned. \<open>None\<close> of an option is a panic (or, in functions with fuel, the exhaustion of the fuel);
  errors the code returns are values, mostly the left summand of a sum. Definitions keep the names of the
  source; a prefix tells methods of the same name apart (\<open>so_\<close> for state objects, \<open>eb_\<close> for the encoder
  buffer, \<open>mem_\<close> for memory, \<open>tdb_\<close> for the trie database, \<open>trie_\<close> for tries).

  \<^bold>\<open>Theories and sources.\<close>
  \<^item> \<open>Common_Math\<close>: \<open>common/math/big.go\<close>, \<open>integer.go\<close>, \<open>common/bytes.go\<close>, \<open>types.go\<close>. \<open>Exp\<close> is
    exponentiation modulo \<open>2 ^ 256\<close>; the \<open>Safe\<close> operations report overflow exactly; padded bytes read back.
  \<^item> \<open>Params\<close>: \<open>params/config.go\<close>, \<open>gas_table.go\<close>, \<open>protocol_params.go\<close>.
  \<^item> \<open>RLP_Encode\<close>: \<open>rlp/raw.go\<close> and \<open>rlp/encode.go\<close>. The two-buffer encoder equals the reference encoding
    \<open>rlp\<close>; \<open>Split\<close> accepts exactly the canonical encodings.
  \<^item> \<open>RLP_Decode\<close>, \<open>RLP_RoundTrip\<close>: \<open>rlp/decode.go\<close>. Decoding inverts encoding, by induction on the type;
    the fuel bounds list elements and the depth of interface values, and more than the length of the input
    is enough. For slices of one-byte arrays the loop of the source may not end.
  \<^item> \<open>Trie_Encoding\<close>, \<open>Trie_Node\<close>, \<open>Trie_Database\<close>, \<open>Trie_Ops\<close>: \<open>trie/encoding.go\<close>, \<open>node.go\<close>,
    \<open>database.go\<close>, \<open>trie.go\<close>, \<open>errors.go\<close>, \<open>hasher.go\<close>. \<open>Trie_Proof\<close> begins with the definitions of
    \<open>trie/proof.go\<close>. The recursive operations take fuel for the nodes they visit; four per byte of the key
    and four more are enough, two and two for \<open>VerifyProof\<close>. The depth bound of \<open>decodeNode\<close> is the length of
    its input.
  \<^item> \<open>Trie_Tree\<close>: the tree a trie stands for, as a pure data type; its invariant \<open>mwf\<close> makes it a canonical
    form of a map (locale \<open>canonical_map\<close> in \<open>Trie_Map\<close>, interpreted on these trees). \<open>Trie_Merkle\<close>: encoding
    and hash of such trees. \<open>Trie_Correct\<close>: lookup, insertion and deletion on nodes, loaded or not, act like
    the operations on the trees (\<open>repr\<close>). \<open>Trie_Hashing\<close>: the hasher computes the hash of the tree and a
    commit stores it. \<open>Trie_Map\<close>, \<open>Trie_Decode\<close>, \<open>Trie_Proof\<close>: the contracts (\<open>holds kc full db tr m\<close> says
    that the trie \<open>tr\<close> over the database \<open>db\<close> has the contents \<open>m\<close>): lookups and updates are those of the
    map, equal contents give equal root hashes and conversely, a committed or stored trie can be opened from
    its root hash, and proofs are complete and sound.
  \<^item> \<open>StateDB\<close>: \<open>core/state/statedb.go\<close>, \<open>state_object.go\<close>, \<open>journal.go\<close>. \<open>StateDB_Revert\<close>: the view of a
    state (\<open>abs_state\<close>), the effect of each operation on it, and that reverting undoes any sequence of
    operations. The locales \<open>ledger\<close> (reads and writes of accounts) and \<open>journaled\<close> (snapshots and reverts)
    are the contracts the machine relies on, interpreted as \<open>sdb_ledger\<close> and \<open>sdb_journal\<close>. \<open>observe\<close>
    collects everything the getters can read.
  \<^item> \<open>VM_Base\<close> (\<open>stack.go\<close>, \<open>memory.go\<close>, \<open>common.go\<close>, \<open>analysis.go\<close>, \<open>contract.go\<close>), \<open>VM_Gas\<close>
    (\<open>gas.go\<close>, \<open>gas_table.go\<close>, \<open>memory_table.go\<close>), \<open>Precompiles\<close> (\<open>contracts.go\<close>), \<open>VM_Instructions\<close>
    (\<open>instructions.go\<close>), \<open>VM_Calls\<close> (\<open>evm.go\<close>, \<open>core/evm.go\<close>), \<open>VM_Interpreter\<close> (\<open>jump_table.go\<close>,
    \<open>interpreter.go\<close>), all under \<open>core/vm\<close>, and \<open>StateTransition\<close> (\<open>core/gaspool.go\<close>,
    \<open>core/state_transition.go\<close>). Lemmas beside the definitions show that instructions refine the operations
    of 256-bit words, that jumps go only to instructions, and what the gas formulas compute.
  \<^item> \<open>VM_Invariant\<close>: the invariants \<open>evm_ok\<close>, \<open>contract_ok\<close>, \<open>frame_ok\<close>, \<open>sdb_ok\<close> and the relation
    \<open>advance\<close> between states. \<open>VM_Exec_Safe\<close>, \<open>VM_Gas_Safe\<close>, \<open>Precompiles_Safe\<close>, \<open>VM_Calls_Safe\<close>,
    \<open>VM_Safety\<close>: every instruction, gas function, precompiled contract and call keeps them without a panic, and
    every instruction after which the loop goes on costs gas. \<open>VM_Correct\<close>, \<open>Transition_Correct\<close>: the
    properties of the machine and of transactions.

  \<^bold>\<open>Fuel of the machine.\<close> \<open>run fuel\<close> executes at most \<open>fuel\<close> instructions, those of nested calls included.
  Each instruction after which execution goes on uses gas, and a call is charged for the gas it passes on, so
  more fuel than gas is enough: the theorems then state that a result is returned.

  \<^bold>\<open>Bounds.\<close> The theorems on the machine assume explicitly less than \<open>2 ^ 62\<close> gas and inputs shorter than
  \<open>2 ^ 62\<close> bytes. Without the bound on the gas they are false: \<open>modexp_panics\<close> gives an execution with less
  gas than the default of \<open>internal/ethapi/api.go\<close> that panics. Memory is unlimited: allocations never fail,
  where the Go runtime panics on a \<open>make\<close> it cannot serve (the padding of an exponent in \<open>contracts.go\<close> can ask
  for such lengths). The RLP theorems assume encodings shorter than \<open>2 ^ 64\<close> bytes.

  \<^bold>\<open>What is a parameter.\<close> Keccak256, the other hash functions, signature recovery and the pairing are arguments
  (\<open>Database\<close>, \<open>Crypto\<close>, \<open>kc\<close>). What is used of them is named: \<open>crypto_ok\<close> bounds the sizes of results.
  \<open>db_ok\<close>, part of \<open>evm_ok\<close>, idealises Keccak256 for code, which is looked up by its hash: hashes have 32 bytes
  and byte strings of different lengths do not collide. The trie theorems only assume that the hash function
  does not confuse the finitely many nodes that are involved (\<open>no_collision\<close>, \<open>apart\<close>, \<open>unforged\<close>). The
  \<open>StateDB\<close> uses tries through the interface of \<open>core/state/database.go\<close>, a record of functions over any type of
  tries; the trie theories are about the implementation behind it, without the cache and the key hashing that lie
  between the two. Every theorem with hypotheses has a witness that instantiates them, with concrete functions
  for the parameters.

  \<^bold>\<open>What is not modelled.\<close> Tracing and logging; the pools of reusable integers and buffers, which only recycle
  allocations; locks and goroutines, since all modelled operations run under one caller; reflection in \<open>rlp\<close>,
  replaced by the types \<open>goval\<close> and \<open>gotype\<close>, and with it values that encode or decode themselves and types that
  are refused; \<open>Cap\<close>, iterators and synchronisation of tries; consensus, blocks, the transaction pool, networking,
  key management and user interfaces, which are input and output around the execution core.
  \<open>Run_precompiled\<close> does not model that \<open>ecrecover\<close> overwrites a byte of its caller's input, and \<open>Exp\<close> not that
  its base is overwritten; no modelled caller reads either afterwards.
\<close>

end
